(* ===== verification/Prelude.thy ===== *)
theory Prelude
  imports Main "HOL-Library.Word"
begin

text \<open>
  Shared vocabulary of the development.

  \<^item> Machine integers: \<open>u8 .. u64\<close> are words of that width; \<open>saturating_add\<close>,
    \<open>saturating_sub\<close> and \<open>checked_add\<close> are the Rust operations of these names.
  \<^item> Little-endian byte strings: \<open>to_le n w\<close> and \<open>from_le bs\<close> are Rust's
    \<open>to_le_bytes\<close> and \<open>from_le_bytes\<close>.
  \<^item> Programs: a driver routine is a function from an environment to \<open>None\<close> (a Rust
    panic) or to a result (\<open>Inl\<close> for \<open>Err\<close>, \<open>Inr\<close> for \<open>Ok\<close>) and the
    next environment. \<open>bind\<close> is the \<open>?\<close> operator, \<open>attempt\<close> keeps a result as
    a value, and \<open>wp\<close> is total correctness (no panic) of such a routine.
  \<^item> Environments: a \<open>machine\<close> is arbitrary hardware state together with the log of the
    interactions the code had with it, so that a property can speak about their order.
  \<^item> Interfaces: the locale \<open>codec\<close> of encode/decode pairs, interpreted by the components.
\<close>

unbundle bit_operations_syntax

type_synonym u8 = "8 word"
type_synonym u16 = "16 word"
type_synonym u32 = "32 word"
type_synonym u64 = "64 word"

named_theorems wp_simps "weakest preconditions of the program combinators"
named_theorems le_simps "little-endian encoding facts"

section \<open>Integer operations of the Rust core library\<close>

definition saturating_add :: "'a::len word \<Rightarrow> 'a word \<Rightarrow> 'a word" where
  "saturating_add a b = (if unat a + unat b < 2 ^ LENGTH('a) then a + b else - 1)"

definition saturating_sub :: "'a::len word \<Rightarrow> 'a word \<Rightarrow> 'a word" where
  "saturating_sub a b = (if b \<le> a then a - b else 0)"

definition checked_add :: "'a::len word \<Rightarrow> 'a word \<Rightarrow> 'a word option" where
  "checked_add a b = (if unat a + unat b < 2 ^ LENGTH('a) then Some (a + b) else None)"

lemma unat_lt: "unat w < 2 ^ LENGTH('a)" for w :: "'a::len word"
  by (rule unsigned_less)

lemma unat_lt_u32: "unat w < 4294967296" for w :: u32
  using unat_lt [of w] by simp

lemma unat_max: "unat (max a b) = max (unat a) (unat b)"
  by (simp add: max_def word_le_nat_alt)

lemma unat_saturating_add:
  "unat (saturating_add a b) = min (unat a + unat b) (2 ^ LENGTH('a) - 1)"
  for a b :: "'a::len word"
  by (auto simp: saturating_add_def unat_word_ariths unsigned_minus_1_eq_mask mask_eq_exp_minus_1)

lemma unat_saturating_sub: "unat (saturating_sub a b) = unat a - unat b"
  by (auto simp: saturating_sub_def unat_sub word_le_nat_alt)

lemma checked_add_Some_iff:
  "checked_add a b = Some c \<longleftrightarrow> unat a + unat b < 2 ^ LENGTH('a) \<and> c = a + b"
  for a b c :: "'a::len word"
  by (auto simp: checked_add_def)

lemma unat_checked_add: "checked_add a b = Some c \<Longrightarrow> unat c = unat a + unat b"
  by (auto simp: checked_add_Some_iff unat_word_ariths)

section \<open>Little-endian byte strings\<close>

definition to_le :: "nat \<Rightarrow> 'a::len word \<Rightarrow> u8 list" where
  "to_le n w = map (\<lambda>i. ucast (drop_bit (8 * i) w)) [0..<n]"

fun from_le :: "u8 list \<Rightarrow> 'a::len word" where
  "from_le [] = 0"
| "from_le (b # bs) = ucast b OR push_bit 8 (from_le bs)"

lemma length_to_le [simp]: "length (to_le n w) = n"
  by (simp add: to_le_def)

lemma nth_to_le: "i < n \<Longrightarrow> to_le n w ! i = ucast (drop_bit (8 * i) w)"
  by (simp add: to_le_def)

lemma bit_from_le:
  "bit (from_le bs :: 'a::len word) i \<longleftrightarrow>
     i < LENGTH('a) \<and> i < 8 * length bs \<and> bit (bs ! (i div 8)) (i mod 8)"
proof (induction bs arbitrary: i)
  case Nil
  then show ?case by simp
next
  case (Cons b bs)
  show ?case
  proof (cases "i < 8")
    case True
    then show ?thesis
      by (auto simp: bit_simps dest: bit_imp_le_length)
  next
    case False
    then have "i div 8 = Suc ((i - 8) div 8)" "i mod 8 = (i - 8) mod 8"
      by (simp_all add: le_div_geq le_mod_geq)
    with False show ?thesis
      by (auto simp: bit_simps Cons.IH dest: bit_imp_le_length)
  qed
qed

lemma bit_nth_to_le:
  "i < n \<Longrightarrow> bit (to_le n w ! i) j \<longleftrightarrow> j < 8 \<and> bit w (8 * i + j)"
  by (auto simp: nth_to_le bit_simps dest: bit_imp_le_length)

lemma from_to_le [le_simps]:
  assumes "LENGTH('a) \<le> 8 * n"
  shows "from_le (to_le n w) = (w :: 'a::len word)"
proof (rule bit_eqI)
  fix i
  show "bit (from_le (to_le n w) :: 'a word) i \<longleftrightarrow> bit w i"
    using assms by (cases "i < LENGTH('a)")
      (auto simp: bit_from_le bit_nth_to_le dest: bit_imp_le_length)
qed

lemma to_from_le [le_simps]:
  assumes "length bs = n" "8 * n \<le> LENGTH('a)"
  shows "to_le n (from_le bs :: 'a::len word) = bs"
proof (rule nth_equalityI)
  fix i assume "i < length (to_le n (from_le bs :: 'a word))"
  then have i: "i < n" by simp
  show "to_le n (from_le bs :: 'a word) ! i = bs ! i"
  proof (rule bit_eqI)
    fix j
    show "bit (to_le n (from_le bs :: 'a word) ! i) j \<longleftrightarrow> bit (bs ! i) j"
      using assms i by (cases "j < 8")
        (auto simp: bit_nth_to_le bit_from_le dest: bit_imp_le_length)
  qed
qed (use assms in simp)

section \<open>Slices of byte strings and of memory\<close>

definition slice :: "nat \<Rightarrow> nat \<Rightarrow> 'a list \<Rightarrow> 'a list" where
  "slice i n xs = take n (drop i xs)"

lemma length_slice [simp]: "i + n \<le> length xs \<Longrightarrow> length (slice i n xs) = n"
  by (simp add: slice_def)

text \<open>\<open>splice i ys xs\<close> is \<open>xs[i..i + ys.len()].copy_from_slice(ys)\<close> on a long enough list.\<close>

definition splice :: "nat \<Rightarrow> 'a list \<Rightarrow> 'a list \<Rightarrow> 'a list" where
  "splice i ys xs = take i xs @ ys @ drop (i + length ys) xs"

lemma length_splice [simp]:
  "i + length ys \<le> length xs \<Longrightarrow> length (splice i ys xs) = length xs"
  by (simp add: splice_def)

lemma slice_splice_same: "i + length ys \<le> length xs \<Longrightarrow> slice i (length ys) (splice i ys xs) = ys"
  by (simp add: slice_def splice_def)

section \<open>Programs\<close>

type_synonym ('e, 'x, 'a) prog = "'e \<Rightarrow> (('x + 'a) \<times> 'e) option"

definition ok :: "'a \<Rightarrow> ('e, 'x, 'a) prog" where
  "ok a = (\<lambda>e. Some (Inr a, e))"

definition fail :: "'x \<Rightarrow> ('e, 'x, 'a) prog" where
  "fail x = (\<lambda>e. Some (Inl x, e))"

definition panic :: "('e, 'x, 'a) prog" where
  "panic = (\<lambda>e. None)"

definition bind :: "('e, 'x, 'a) prog \<Rightarrow> ('a \<Rightarrow> ('e, 'x, 'b) prog) \<Rightarrow> ('e, 'x, 'b) prog" where
  "bind p f = (\<lambda>e. case p e of None \<Rightarrow> None
     | Some (Inl x, e') \<Rightarrow> Some (Inl x, e')
     | Some (Inr a, e') \<Rightarrow> f a e')"

definition attempt :: "('e, 'x, 'a) prog \<Rightarrow> ('e, 'y, 'x + 'a) prog" where
  "attempt p = (\<lambda>e. case p e of None \<Rightarrow> None | Some (r, e') \<Rightarrow> Some (Inr r, e'))"

definition give :: "'x + 'a \<Rightarrow> ('e, 'x, 'a) prog" where
  "give r = (\<lambda>e. Some (r, e))"

definition map_err :: "('x \<Rightarrow> 'y) \<Rightarrow> ('e, 'x, 'a) prog \<Rightarrow> ('e, 'y, 'a) prog" where
  "map_err g p = (\<lambda>e. case p e of None \<Rightarrow> None
     | Some (Inl x, e') \<Rightarrow> Some (Inl (g x), e')
     | Some (Inr a, e') \<Rightarrow> Some (Inr a, e'))"

text \<open>\<open>wp p Q e\<close>: started in \<open>e\<close>, \<open>p\<close> does not panic and its outcome satisfies \<open>Q\<close>.\<close>

definition wp :: "('e, 'x, 'a) prog \<Rightarrow> ('x + 'a \<Rightarrow> 'e \<Rightarrow> bool) \<Rightarrow> 'e \<Rightarrow> bool" where
  "wp p Q e = (case p e of None \<Rightarrow> False | Some (r, e') \<Rightarrow> Q r e')"

lemma wp_ok [wp_simps]: "wp (ok a) Q e = Q (Inr a) e"
  by (simp add: wp_def ok_def)

lemma wp_fail [wp_simps]: "wp (fail x) Q e = Q (Inl x) e"
  by (simp add: wp_def fail_def)

lemma wp_panic [wp_simps]: "wp panic Q e = False"
  by (simp add: wp_def panic_def)

lemma wp_give [wp_simps]: "wp (give r) Q e = Q r e"
  by (simp add: wp_def give_def)

lemma wp_bind [wp_simps]:
  "wp (bind p f) Q e = wp p (\<lambda>r e'. case r of Inl x \<Rightarrow> Q (Inl x) e' | Inr a \<Rightarrow> wp (f a) Q e') e"
  by (auto simp: wp_def bind_def split: option.splits sum.splits prod.splits)

lemma wp_attempt [wp_simps]: "wp (attempt p) Q e = wp p (\<lambda>r. Q (Inr r)) e"
  by (auto simp: wp_def attempt_def split: option.splits)

lemma wp_map_err [wp_simps]:
  "wp (map_err g p) Q e = wp p (\<lambda>r. Q (case r of Inl x \<Rightarrow> Inl (g x) | Inr a \<Rightarrow> Inr a)) e"
  by (auto simp: wp_def map_err_def split: option.splits sum.splits)

lemma wp_if [wp_simps]: "wp (if b then p else q) Q e = (if b then wp p Q e else wp q Q e)"
  by simp

lemma wp_mono: "wp p Q e \<Longrightarrow> (\<And>r e'. Q r e' \<Longrightarrow> R r e') \<Longrightarrow> wp p R e"
  by (auto simp: wp_def split: option.splits)

lemma wp_conj: "wp p Q e \<Longrightarrow> wp p R e \<Longrightarrow> wp p (\<lambda>r e'. Q r e' \<and> R r e') e"
  by (auto simp: wp_def split: option.splits)

lemma wp_runs: "wp p Q e \<longleftrightarrow> (\<exists>r e'. p e = Some (r, e') \<and> Q r e')"
  by (auto simp: wp_def split: option.splits)

lemma wp_elim: "wp p Q e \<Longrightarrow> p e = Some (r, e') \<Longrightarrow> Q r e'"
  by (simp add: wp_def)

text \<open>Sequential composition as equations and case analysis.\<close>

lemma bind_assoc: "bind (bind p f) g = bind p (\<lambda>x. bind (f x) g)"
  by (auto simp: bind_def fun_eq_iff split: option.split sum.split prod.split)

lemma bind_ok [simp]: "bind (ok a) f = f a"
  by (simp add: bind_def ok_def fun_eq_iff)

lemma bind_Inr_iff:
  "bind p f e = Some (Inr b, e'') \<longleftrightarrow> (\<exists>a e'. p e = Some (Inr a, e') \<and> f a e' = Some (Inr b, e''))"
  by (auto simp: bind_def split: option.splits sum.splits)

lemma bind_give_Inr_iff:
  "bind (give r) f e = Some (Inr c, e') \<longleftrightarrow> (\<exists>a. r = Inr a \<and> f a e = Some (Inr c, e'))"
  by (cases r) (simp_all add: bind_def give_def)

lemma bind_give_ok: "r = Inr a \<Longrightarrow> bind (give r) f = f a"
  by (simp add: bind_def give_def fun_eq_iff)

lemma ok_Inr_iff: "ok a e = Some (Inr c, e') \<longleftrightarrow> a = c \<and> e = e'"
  by (simp add: ok_def)

lemma fail_Inr_iff: "fail x e = Some (Inr c, e') \<longleftrightarrow> False"
  by (simp add: fail_def)

lemma bind_cases:
  assumes "bind p f e = Some (r, e')"
  obtains x where "p e = Some (Inl x, e')" "r = Inl x"
  | a e1 where "p e = Some (Inr a, e1)" "f a e1 = Some (r, e')"
  using assms by (auto simp: bind_def split: option.splits sum.splits)

section \<open>Environments with a log\<close>

record ('h, 'ev) machine =
  m_hw :: 'h
  m_log :: "'ev list"

definition sense :: "('h \<Rightarrow> 'v \<times> 'h) \<Rightarrow> ('v \<Rightarrow> 'ev) \<Rightarrow> (('h, 'ev) machine, 'x, 'v) prog" where
  "sense f ev = (\<lambda>m. case f (m_hw m) of (v, h) \<Rightarrow>
     Some (Inr v, \<lparr>m_hw = h, m_log = m_log m @ [ev v]\<rparr>))"

definition drive :: "('h \<Rightarrow> 'h) \<Rightarrow> 'ev \<Rightarrow> (('h, 'ev) machine, 'x, unit) prog" where
  "drive f ev = (\<lambda>m. Some (Inr (), \<lparr>m_hw = f (m_hw m), m_log = m_log m @ [ev]\<rparr>))"

lemma wp_sense [wp_simps]:
  "wp (sense f ev) Q m = (case f (m_hw m) of (v, h) \<Rightarrow>
     Q (Inr v) \<lparr>m_hw = h, m_log = m_log m @ [ev v]\<rparr>)"
  by (simp add: wp_def sense_def split: prod.splits)

lemma wp_drive [wp_simps]:
  "wp (drive f ev) Q m = Q (Inr ()) \<lparr>m_hw = f (m_hw m), m_log = m_log m @ [ev]\<rparr>"
  by (simp add: wp_def drive_def)

text \<open>
  \<open>traces p Q\<close>: on every machine, \<open>p\<close> neither panics nor returns \<open>Err\<close>, and its result and
  the events it adds satisfy \<open>Q\<close>, whatever the hardware does.
\<close>

definition traces :: "(('h, 'ev) machine, 'x, 'a) prog \<Rightarrow> ('a \<Rightarrow> 'ev list \<Rightarrow> bool) \<Rightarrow> bool" where
  "traces p Q \<longleftrightarrow> (\<forall>m. \<exists>a m' new. p m = Some (Inr a, m') \<and> m_log m' = m_log m @ new \<and> Q a new)"

lemma traces_ok: "Q a [] \<Longrightarrow> traces (ok a) Q"
  by (simp add: traces_def ok_def)

lemma traces_bind:
  assumes "traces p P" "\<And>a n. P a n \<Longrightarrow> traces (f a) (\<lambda>b n'. Q b (n @ n'))"
  shows "traces (bind p f) Q"
  unfolding traces_def
proof
  fix m
  obtain a m1 n where 1: "p m = Some (Inr a, m1)" "m_log m1 = m_log m @ n" "P a n"
    using assms(1) unfolding traces_def by blast
  from assms(2) [OF 1(3)] obtain b m2 n' where
    2: "f a m1 = Some (Inr b, m2)" "m_log m2 = m_log m1 @ n'" "Q b (n @ n')"
    unfolding traces_def by blast
  show "\<exists>a m' new. bind p f m = Some (Inr a, m') \<and> m_log m' = m_log m @ new \<and> Q a new"
    using 1 2 by (intro exI [of _ b] exI [of _ m2] exI [of _ "n @ n'"]) (simp add: bind_def)
qed

lemma traces_bind_pair:
  assumes "traces p P" "\<And>x t n. P (x, t) n \<Longrightarrow> traces (f x t) (\<lambda>b n'. Q b (n @ n'))"
  shows "traces (bind p (\<lambda>(x, t). f x t)) Q"
  using assms(1) by (rule traces_bind) (use assms(2) in auto)

lemma traces_bind_triple:
  assumes "traces p P" "\<And>x y t n. P ((x, y), t) n \<Longrightarrow> traces (f x y t) (\<lambda>b n'. Q b (n @ n'))"
  shows "traces (bind p (\<lambda>((x, y), t). f x y t)) Q"
  using assms(1) by (rule traces_bind) (use assms(2) in auto)

lemma traces_conseq: "traces p P \<Longrightarrow> (\<And>a n. P a n \<Longrightarrow> Q a n) \<Longrightarrow> traces p Q"
  unfolding traces_def by blast

lemma traces_conj: "traces p P \<Longrightarrow> traces p Q \<Longrightarrow> traces p (\<lambda>a n. P a n \<and> Q a n)"
  unfolding traces_def by (metis Pair_inject option.inject same_append_eq sum.inject(2))

lemma traces_sense: "(\<And>v. Q v [ev v]) \<Longrightarrow> traces (sense f ev) Q"
  by (auto simp: traces_def sense_def split: prod.split)

lemma traces_drive: "Q () [ev] \<Longrightarrow> traces (drive f ev) Q"
  by (simp add: traces_def drive_def)

lemma traces_run: "traces p Q \<Longrightarrow> \<exists>a m' new. p m = Some (Inr a, m') \<and> m_log m' = m_log m @ new \<and> Q a new"
  by (simp add: traces_def)

text \<open>\<open>does E R p\<close>: every event of \<open>p\<close> satisfies \<open>E\<close> and its result satisfies \<open>R\<close>.\<close>

definition does :: "('ev \<Rightarrow> bool) \<Rightarrow> ('a \<Rightarrow> bool) \<Rightarrow> (('h, 'ev) machine, 'x, 'a) prog \<Rightarrow> bool" where
  "does E R p \<longleftrightarrow> traces p (\<lambda>a n. R a \<and> list_all E n)"

lemma does_ok: "R a \<Longrightarrow> does E R (ok a)"
  by (simp add: does_def traces_ok)

lemma does_ok_iff [simp]: "does E R (ok a) = R a"
  by (simp add: does_def traces_def ok_def)

lemma does_bind:
  assumes "does E S p" "\<And>a. S a \<Longrightarrow> does E R (f a)"
  shows "does E R (bind p f)"
  unfolding does_def
  by (rule traces_bind [OF assms(1) [unfolded does_def]])
    (auto intro: traces_conseq [OF assms(2) [unfolded does_def]])

lemma does_sense: "(\<And>v. R v) \<Longrightarrow> (\<And>v. E (ev v)) \<Longrightarrow> does E R (sense f ev)"
  by (simp add: does_def traces_sense)

lemma does_drive: "R () \<Longrightarrow> E ev \<Longrightarrow> does E R (drive f ev)"
  by (simp add: does_def traces_drive)

lemma does_mono: "does E R p \<Longrightarrow> (\<And>a. R a \<Longrightarrow> S a) \<Longrightarrow> does E S p"
  unfolding does_def by (auto elim: traces_conseq)

lemma does_run:
  "does E R p \<Longrightarrow> \<exists>a m' new. p m = Some (Inr a, m') \<and> m_log m' = m_log m @ new \<and> R a \<and> list_all E new"
  by (simp add: does_def traces_def)

section \<open>Interfaces\<close>

text \<open>\<open>wfv\<close> are the values the encoder is used on, \<open>wf\<close> the well-formed wire images.\<close>

locale codec =
  fixes enc :: "'v \<Rightarrow> 'w" and dec :: "'w \<Rightarrow> 'v" and wfv :: "'v \<Rightarrow> bool" and wf :: "'w \<Rightarrow> bool"
  assumes dec_enc: "wfv v \<Longrightarrow> dec (enc v) = v"
    and wf_enc: "wfv v \<Longrightarrow> wf (enc v)"
    and wf_dec: "wf w \<Longrightarrow> wfv (dec w)"
    and enc_dec: "wf w \<Longrightarrow> enc (dec w) = w"
begin

lemma enc_inject: "wfv v \<Longrightarrow> wfv v' \<Longrightarrow> enc v = enc v' \<longleftrightarrow> v = v'"
  by (metis dec_enc)

lemma dec_inject: "wf w \<Longrightarrow> wf w' \<Longrightarrow> dec w = dec w' \<longleftrightarrow> w = w'"
  by (metis enc_dec)

lemma image_enc: "enc ` {v. wfv v} = {w. wf w}"
  using wf_enc wf_dec enc_dec by (force intro: rev_image_eqI)

end

end
