(* ===== verification/Contract.thy ===== *)
theory Contract
  imports Prelude
begin

text \<open>
  The generated contract. The firmware and the control tool include a Rust module that the
  build generates from \<open>pkgs/sg2002/c906l-contract/contract.json\<close>
  (\<open>include!(env!("SG2002_C906L_CONTRACT_RS"))\<close>). The module is not part of the sources, so
  its constants are a parameter: a value \<open>c :: contract\<close> whose fields carry the names of
  the Rust constants, passed to every definition that uses one of them. Its record types
  (\<open>Message\<close>, \<open>Status\<close>, \<open>Manifest\<close>, \<open>ActivationRequest\<close>) are printed
  literally by \<open>generate.py\<close> and are modelled as records.

  \<open>contract_ok\<close> collects what the contract compiler \<open>lib.nix\<close> enforces before it emits
  anything (opcodes, activation states and activation results are unique, flag bits are
  unique, the activation result codes fit a byte) and what the C906L relies on.
  \<open>timer_contract\<close> is the shipped contract of the profile that leases Timer4, with the
  values of \<open>contract.json\<close>.
\<close>

section \<open>Records shared with Linux\<close>

record message =
  service :: u8
  opcode :: u8
  sequence :: u16
  msg_value :: u32

record status =
  st_magic :: u32
  st_abi_major :: u16
  st_abi_minor :: u16
  st_struct_size :: u32
  st_state :: u32
  st_generation :: u32
  st_flags :: u32
  st_heartbeat :: u64
  st_capabilities :: u64
  st_last_request :: u64
  st_last_response :: u64
  st_activation_state :: u8
  st_activation_error :: u8
  st_activation_attempts :: u16
  st_activation_request_id :: u32

record manifest =
  mf_magic :: u32
  mf_format_major :: u16
  mf_format_minor :: u16
  mf_struct_size :: u32
  mf_generation :: u32
  mf_contract_epoch :: u32
  mf_profile_id :: u32
  mf_abi_major :: u16
  mf_abi_minor :: u16
  mf_capability_width :: u16
  mf_lease_width :: u16
  mf_final_capabilities :: u64
  mf_dormant_capabilities :: u64
  mf_lease_mask :: u64
  mf_flags :: u32
  mf_reserved0 :: u32
  mf_contract_sha256 :: "u8 list"
  mf_reserved1 :: "u8 list"
  mf_commit :: u32

record activation_request =
  rq_magic :: u32
  rq_format_major :: u16
  rq_format_minor :: u16
  rq_struct_size :: u32
  rq_generation :: u32
  rq_request_id :: u32
  rq_contract_epoch :: u32
  rq_profile_id :: u32
  rq_abi_version :: u32
  rq_final_capabilities :: u64
  rq_lease_mask :: u64
  rq_contract_sha256 :: "u8 list"
  rq_reserved :: "u8 list"
  rq_commit :: u32

section \<open>The constants\<close>

record abi_contract =
  ABI_MAJOR :: u16
  ABI_MINOR :: u16
  STATUS_SIZE :: nat
  SHMEM_MAGIC :: u32
  CACHE_LINE_SIZE :: nat
  STATUS_REGION_ADDRESS :: nat
  STATE_BOOTING :: u32
  STATE_RUNNING :: u32
  STATE_FAULT :: u32
  SERVICE_CONTROL :: u8
  OP_PING :: u8
  OP_GET_ABI :: u8
  OP_GET_CAPABILITIES :: u8
  OP_ACTIVATE_LEASES :: u8
  OP_RESPONSE :: u8
  OP_ERROR :: u8
  CAP_MAILBOX :: u64
  CAP_SHMEM_HEARTBEAT :: u64
  CAP_TIMER4_SELF_TEST :: u64
  CAP_RPMSG :: u64
  CAP_TIMER5_SELF_TEST :: u64
  CAP_TIMER6_SELF_TEST :: u64
  CAP_TIMER7_SELF_TEST :: u64
  CAP_PICOCLAW_LCD :: u64
  FLAG_RESPONSE_TIMEOUT :: u32
  FLAG_REQUEST_DROPPED :: u32
  FLAG_ACTIVATION_REJECTED :: u32
  FLAG_ACTIVATION_FAILED :: u32
  FLAG_MANIFEST_FAULT :: u32
  FLAG_MAILBOX_LOCK_FAILURE :: u32
  FLAG_UNEXPECTED_MAILBOX_CHANNEL :: u32
  FLAG_PICOCLAW_LCD_FAILED :: u32
  FLAG_TIMER_SELF_TEST_FAILED :: "u32 \<Rightarrow> u32" \<comment> \<open>\<open>FLAG_TIMER<n>_SELF_TEST_FAILED\<close> by channel\<close>

record profile_contract = abi_contract +
  PROFILE_NAME :: string
  CONTRACT_EPOCH :: u32
  PROFILE_ID :: u32
  CONTRACT_SHA256 :: "u8 list"
  EXPECTED_CAPABILITIES :: u64
  DORMANT_CAPABILITIES :: u64
  LEASE_MASK :: u64
  ACTIVATION_REQUIRED :: bool
  CAPABILITY_WIRE_WIDTH :: u16
  LEASE_WIRE_WIDTH :: u16
  MANIFEST_ADDRESS :: nat
  MANIFEST_SIZE :: nat
  MANIFEST_MAGIC :: u32
  MANIFEST_FORMAT_MAJOR :: u16
  MANIFEST_FORMAT_MINOR :: u16
  MANIFEST_COMMIT :: u32
  MANIFEST_FLAGS :: u32
  ACTIVATION_REQUEST_ADDRESS :: nat
  ACTIVATION_REQUEST_SIZE :: nat
  ACTIVATION_REQUEST_MAGIC :: u32
  ACTIVATION_REQUEST_FORMAT_MAJOR :: u16
  ACTIVATION_REQUEST_FORMAT_MINOR :: u16
  ACTIVATION_REQUEST_COMMIT :: u32

record contract = profile_contract +
  ACTIVATION_STATE_INITIALIZING :: u8
  ACTIVATION_STATE_DORMANT :: u8
  ACTIVATION_STATE_VALIDATING :: u8
  ACTIVATION_STATE_ACTIVATING :: u8
  ACTIVATION_STATE_ACTIVE :: u8
  ACTIVATION_STATE_REJECTED :: u8
  ACTIVATION_STATE_LEASE_FAULT :: u8
  ACTIVATION_RESULT_SUCCESS :: u32
  ACTIVATION_RESULT_INVALID_ENVELOPE :: u32
  ACTIVATION_RESULT_MALFORMED_RECORD :: u32
  ACTIVATION_RESULT_STALE_GENERATION :: u32
  ACTIVATION_RESULT_ABI_MISMATCH :: u32
  ACTIVATION_RESULT_EPOCH_MISMATCH :: u32
  ACTIVATION_RESULT_PROFILE_MISMATCH :: u32
  ACTIVATION_RESULT_DIGEST_MISMATCH :: u32
  ACTIVATION_RESULT_CAPABILITIES_MISMATCH :: u32
  ACTIVATION_RESULT_LEASE_MASK_MISMATCH :: u32
  ACTIVATION_RESULT_INVALID_STATE :: u32
  ACTIVATION_RESULT_PRECONDITION_FAILED :: u32
  ACTIVATION_RESULT_IRQ_INSTALL_FAILED :: u32
  ACTIVATION_RESULT_SELF_TEST_TIMEOUT :: u32
  ACTIVATION_RESULT_INTERNAL_FAILURE :: u32

definition activation_states :: "contract \<Rightarrow> u8 list" where
  "activation_states c =
     [ACTIVATION_STATE_INITIALIZING c, ACTIVATION_STATE_DORMANT c, ACTIVATION_STATE_VALIDATING c,
      ACTIVATION_STATE_ACTIVATING c, ACTIVATION_STATE_ACTIVE c, ACTIVATION_STATE_REJECTED c,
      ACTIVATION_STATE_LEASE_FAULT c]"

definition activation_results :: "contract \<Rightarrow> u32 list" where
  "activation_results c =
     [ACTIVATION_RESULT_SUCCESS c, ACTIVATION_RESULT_INVALID_ENVELOPE c,
      ACTIVATION_RESULT_MALFORMED_RECORD c, ACTIVATION_RESULT_STALE_GENERATION c,
      ACTIVATION_RESULT_ABI_MISMATCH c, ACTIVATION_RESULT_EPOCH_MISMATCH c,
      ACTIVATION_RESULT_PROFILE_MISMATCH c, ACTIVATION_RESULT_DIGEST_MISMATCH c,
      ACTIVATION_RESULT_CAPABILITIES_MISMATCH c, ACTIVATION_RESULT_LEASE_MASK_MISMATCH c,
      ACTIVATION_RESULT_INVALID_STATE c, ACTIVATION_RESULT_PRECONDITION_FAILED c,
      ACTIVATION_RESULT_IRQ_INSTALL_FAILED c, ACTIVATION_RESULT_SELF_TEST_TIMEOUT c,
      ACTIVATION_RESULT_INTERNAL_FAILURE c]"

definition opcodes :: "contract \<Rightarrow> u8 list" where
  "opcodes c = [OP_PING c, OP_GET_ABI c, OP_GET_CAPABILITIES c, OP_ACTIVATE_LEASES c]"

definition control_flags :: "contract \<Rightarrow> u32 list" where
  "control_flags c =
     [FLAG_RESPONSE_TIMEOUT c, FLAG_REQUEST_DROPPED c, FLAG_ACTIVATION_REJECTED c,
      FLAG_ACTIVATION_FAILED c, FLAG_MANIFEST_FAULT c, FLAG_MAILBOX_LOCK_FAILURE c,
      FLAG_UNEXPECTED_MAILBOX_CHANNEL c]"

text \<open>
  The response opcodes of the four requests are distinct from each other, from every
  request opcode and from the error opcode.
\<close>

definition contract_ok :: "contract \<Rightarrow> bool" where
  "contract_ok c \<longleftrightarrow>
     distinct (activation_states c) \<and>
     distinct (activation_results c) \<and>
     list_all (\<lambda>r. unat r < 256) (activation_results c) \<and>
     distinct (opcodes c @ map (\<lambda>p. p OR OP_RESPONSE c) (opcodes c) @ [OP_ERROR c]) \<and>
     list_all (\<lambda>f. f \<noteq> 0) (control_flags c) \<and>
     distinct [STATE_BOOTING c, STATE_RUNNING c, STATE_FAULT c] \<and>
     length (CONTRACT_SHA256 c) = 32"

lemmas contract_lists = activation_states_def activation_results_def opcodes_def control_flags_def

lemma contract_ok_states:
  "contract_ok c \<Longrightarrow> distinct (activation_states c)"
  by (simp add: contract_ok_def)

lemma contract_ok_results:
  "contract_ok c \<Longrightarrow> distinct (activation_results c)"
  by (simp add: contract_ok_def)

lemma contract_ok_opcodes:
  "contract_ok c \<Longrightarrow> distinct (opcodes c @ map (\<lambda>p. p OR OP_RESPONSE c) (opcodes c) @ [OP_ERROR c])"
  by (simp add: contract_ok_def)

section \<open>The shipped contract of the Timer4 profile\<close>

definition timer_contract :: contract where
  "timer_contract =
    \<lparr>ABI_MAJOR = 1, ABI_MINOR = 1, STATUS_SIZE = 64, SHMEM_MAGIC = 0x4d564b4e,
     CACHE_LINE_SIZE = 64, STATUS_REGION_ADDRESS = 0x8ff00000,
     STATE_BOOTING = 1, STATE_RUNNING = 2, STATE_FAULT = 3, SERVICE_CONTROL = 1,
     OP_PING = 0x01, OP_GET_ABI = 0x02, OP_GET_CAPABILITIES = 0x03, OP_ACTIVATE_LEASES = 0x04,
     OP_RESPONSE = 0x80, OP_ERROR = 0xff,
     CAP_MAILBOX = 0x01, CAP_SHMEM_HEARTBEAT = 0x02, CAP_TIMER4_SELF_TEST = 0x04, CAP_RPMSG = 0x08,
     CAP_TIMER5_SELF_TEST = 0x10, CAP_TIMER6_SELF_TEST = 0x20, CAP_TIMER7_SELF_TEST = 0x40, CAP_PICOCLAW_LCD = 0x80,
     FLAG_RESPONSE_TIMEOUT = 1, FLAG_REQUEST_DROPPED = 2, FLAG_ACTIVATION_REJECTED = 8,
     FLAG_ACTIVATION_FAILED = 16, FLAG_MANIFEST_FAULT = 32, FLAG_MAILBOX_LOCK_FAILURE = 64,
     FLAG_UNEXPECTED_MAILBOX_CHANNEL = 128, FLAG_PICOCLAW_LCD_FAILED = 0x800,
     FLAG_TIMER_SELF_TEST_FAILED =
       (\<lambda>ch. if ch = 4 then 4 else if ch = 5 then 0x100 else if ch = 6 then 0x200 else 0x400),
     PROFILE_NAME = ''timer4'', CONTRACT_EPOCH = 2, PROFILE_ID = 2, CONTRACT_SHA256 = replicate 32 0xa5,
     EXPECTED_CAPABILITIES = 0x0f, DORMANT_CAPABILITIES = 0x0b, LEASE_MASK = 1,
     ACTIVATION_REQUIRED = True, CAPABILITY_WIRE_WIDTH = 64, LEASE_WIRE_WIDTH = 32,
     MANIFEST_ADDRESS = 0x8ff00040, MANIFEST_SIZE = 128, MANIFEST_MAGIC = 0x31434b4e,
     MANIFEST_FORMAT_MAJOR = 1, MANIFEST_FORMAT_MINOR = 0, MANIFEST_COMMIT = 0x54494d43,
     MANIFEST_FLAGS = 3,
     ACTIVATION_REQUEST_ADDRESS = 0x8ff000c0, ACTIVATION_REQUEST_SIZE = 128,
     ACTIVATION_REQUEST_MAGIC = 0x31414b4e, ACTIVATION_REQUEST_FORMAT_MAJOR = 1,
     ACTIVATION_REQUEST_FORMAT_MINOR = 0, ACTIVATION_REQUEST_COMMIT = 0x314b4341,
     ACTIVATION_STATE_INITIALIZING = 0, ACTIVATION_STATE_DORMANT = 1,
     ACTIVATION_STATE_VALIDATING = 2, ACTIVATION_STATE_ACTIVATING = 3,
     ACTIVATION_STATE_ACTIVE = 4, ACTIVATION_STATE_REJECTED = 5,
     ACTIVATION_STATE_LEASE_FAULT = 6,
     ACTIVATION_RESULT_SUCCESS = 0, ACTIVATION_RESULT_INVALID_ENVELOPE = 1,
     ACTIVATION_RESULT_MALFORMED_RECORD = 2, ACTIVATION_RESULT_STALE_GENERATION = 3,
     ACTIVATION_RESULT_ABI_MISMATCH = 4, ACTIVATION_RESULT_EPOCH_MISMATCH = 5,
     ACTIVATION_RESULT_PROFILE_MISMATCH = 6, ACTIVATION_RESULT_DIGEST_MISMATCH = 7,
     ACTIVATION_RESULT_CAPABILITIES_MISMATCH = 8, ACTIVATION_RESULT_LEASE_MASK_MISMATCH = 9,
     ACTIVATION_RESULT_INVALID_STATE = 10, ACTIVATION_RESULT_PRECONDITION_FAILED = 11,
     ACTIVATION_RESULT_IRQ_INSTALL_FAILED = 12, ACTIVATION_RESULT_SELF_TEST_TIMEOUT = 13,
     ACTIVATION_RESULT_INTERNAL_FAILURE = 15\<rparr>"

lemma timer_contract_ok: "contract_ok timer_contract"
  by (simp add: contract_ok_def contract_lists timer_contract_def)

end
