(* ===== verification/Message.thy ===== *)
theory Message
  imports Contract
begin

text \<open>
  The pure part of the firmware crate root, \<open>firmware/sg2002-c906l/src/lib.rs\<close>: the
  eight-byte mailbox message as a 64-bit word, the ordinary control responses, the
  wrap-around deadline test, the mailbox diagnostic flags and the tick count of the
  FreeRTOS-backed delay.
\<close>

section \<open>Mailbox messages\<close>

definition decode :: "u64 \<Rightarrow> message" where
  "decode word = \<lparr>service = ucast word, opcode = ucast (drop_bit 8 word),
     sequence = ucast (drop_bit 16 word), msg_value = ucast (drop_bit 32 word)\<rparr>"

definition encode :: "message \<Rightarrow> u64" where
  "encode m = ucast (service m) OR push_bit 8 (ucast (opcode m))
     OR push_bit 16 (ucast (sequence m)) OR push_bit 32 (ucast (msg_value m))"

definition error_response :: "contract \<Rightarrow> message \<Rightarrow> message" where
  "error_response c m = m\<lparr>opcode := OP_ERROR c, msg_value := 0\<rparr>"

definition ABI_VERSION :: "contract \<Rightarrow> u32" where
  "ABI_VERSION c = push_bit 16 (ucast (ABI_MAJOR c)) OR ucast (ABI_MINOR c)"

definition ordinary_response :: "contract \<Rightarrow> message \<Rightarrow> u64 \<Rightarrow> message" where
  "ordinary_response c m capabilities =
     (if service m \<noteq> SERVICE_CONTROL c then error_response c m
      else if opcode m = OP_PING c then
        m\<lparr>opcode := opcode m OR OP_RESPONSE c, msg_value := msg_value m\<rparr>
      else if opcode m = OP_GET_ABI c then
        m\<lparr>opcode := opcode m OR OP_RESPONSE c, msg_value := ABI_VERSION c\<rparr>
      else if opcode m = OP_GET_CAPABILITIES c then
        m\<lparr>opcode := opcode m OR OP_RESPONSE c, msg_value := ucast capabilities\<rparr>
      else error_response c m)"

definition activation_response :: "contract \<Rightarrow> message \<Rightarrow> u32 \<Rightarrow> message" where
  "activation_response c m result =
     m\<lparr>opcode := OP_ACTIVATE_LEASES c OR OP_RESPONSE c, msg_value := result\<rparr>"

section \<open>Time and diagnostics\<close>

definition HEARTBEAT_TICKS :: u32 where
  "HEARTBEAT_TICKS = 20"

definition deadline_reached :: "u32 \<Rightarrow> u32 \<Rightarrow> bool" where
  "deadline_reached now deadline \<longleftrightarrow> 0 \<le> sint (now - deadline)"

definition mailbox_diagnostic_flags :: "contract \<Rightarrow> u32 \<Rightarrow> u32 \<Rightarrow> u32 \<Rightarrow> u32" where
  "mailbox_diagnostic_flags c request_drops lock_failures unexpected_events =
     (if request_drops \<noteq> 0 then FLAG_REQUEST_DROPPED c else 0)
     OR (if lock_failures \<noteq> 0 then FLAG_MAILBOX_LOCK_FAILURE c else 0)
     OR (if unexpected_events \<noteq> 0 then FLAG_UNEXPECTED_MAILBOX_CHANNEL c else 0)"

text \<open>
  \<open>FreeRtosDelay::delay_ns\<close>: \<open>None\<close> when it returns at once, otherwise the number of
  scheduler ticks of 5 ms it hands to \<open>c906l_delay\<close>.
\<close>

definition delay_ns :: "u32 \<Rightarrow> u32 option" where
  "delay_ns ns = (if ns = 0 then None
     else Some (max (saturating_add ns 4999999 div 5000000) 1))"

section \<open>Facts\<close>

lemma encode_decode: "encode (decode w) = w"
proof (rule bit_eqI)
  fix n
  assume "possible_bit TYPE(u64) n"
  then have n: "n < 64" by simp
  consider "n < 8" | "8 \<le> n" "n < 16" | "16 \<le> n" "n < 32" | "32 \<le> n" by linarith
  then show "bit (encode (decode w)) n \<longleftrightarrow> bit w n"
    by cases (use n in \<open>auto simp: encode_def decode_def bit_simps\<close>)
qed

lemma ucast_or_push:
  "ucast (drop_bit k (a OR b :: u64)) = ucast (drop_bit k a) OR (ucast (drop_bit k b) :: 'a::len word)"
  by (rule bit_eqI) (auto simp: bit_simps)

lemma decode_encode: "decode (encode m) = m"
proof -
  have s: "(ucast (encode m) :: u8) = service m"
    by (rule bit_eqI) (auto simp: encode_def bit_simps dest: bit_imp_le_length)
  have o: "(ucast (drop_bit 8 (encode m)) :: u8) = opcode m"
    by (rule bit_eqI) (auto simp: encode_def bit_simps dest: bit_imp_le_length)
  have q: "(ucast (drop_bit 16 (encode m)) :: u16) = sequence m"
    by (rule bit_eqI) (auto simp: encode_def bit_simps dest: bit_imp_le_length)
  have v: "(ucast (drop_bit 32 (encode m)) :: u32) = msg_value m"
    by (rule bit_eqI) (auto simp: encode_def bit_simps dest: bit_imp_le_length)
  show ?thesis by (simp add: decode_def s o q v)
qed

interpretation message_word: codec encode decode "\<lambda>_. True" "\<lambda>_. True"
  by unfold_locales (simp_all add: encode_decode decode_encode)

lemma sint_nonneg_u32: "0 \<le> sint (w :: u32) \<longleftrightarrow> unat w < 2 ^ 31"
proof -
  have "0 \<le> sint w \<longleftrightarrow> \<not> bit w 31"
    using bit_last_iff [of w] by (simp add: not_less)
  also have "bit w 31 \<longleftrightarrow> odd (unat w div 2 ^ 31)"
  proof -
    have "bit w 31 \<longleftrightarrow> bit (unat w) 31" by (simp add: bit_unsigned_iff)
    then show ?thesis by (simp only: bit_iff_odd [of "unat w"])
  qed
  also have "\<not> odd (unat w div 2 ^ 31) \<longleftrightarrow> unat w < 2 ^ 31"
  proof -
    have "unat w < 2 ^ 32" using unat_lt [of w] by simp
    then have "unat w div 2 ^ 31 < 2" by (simp add: less_mult_imp_div_less)
    then have "unat w div 2 ^ 31 = 0 \<or> unat w div 2 ^ 31 = 1" by linarith
    then show ?thesis by (auto simp: div_eq_0_iff)
  qed
  finally show ?thesis .
qed

lemma deadline_reached_unat: "deadline_reached now deadline \<longleftrightarrow> unat (now - deadline) < 2 ^ 31"
  by (simp add: deadline_reached_def sint_nonneg_u32)

lemma deadline_reached_of_nat:
  assumes "t < d + 2 ^ 31" "d \<le> t + 2 ^ 31"
  shows "deadline_reached (of_nat t) (of_nat d) \<longleftrightarrow> d \<le> t"
proof (cases "d \<le> t")
  case True
  define k where "k = t - d"
  have k: "k < 2 ^ 31" "t = d + k" using True assms by (auto simp: k_def)
  have "(of_nat t - of_nat d :: u32) = of_nat k" by (simp add: k(2))
  moreover have "unat (of_nat k :: u32) = k" using k(1) by (simp add: unat_of_nat)
  ultimately show ?thesis using True k(1) by (simp add: deadline_reached_unat)
next
  case False
  define k where "k = d - t"
  have k: "0 < k" "k \<le> 2 ^ 31" "d = t + k" using False assms by (auto simp: k_def)
  have "(of_nat (2 ^ 32 - k) :: u32) + of_nat k = of_nat (2 ^ 32)"
    unfolding of_nat_add [symmetric] using k(2) by simp
  also have "\<dots> = 0" by simp
  finally have "(of_nat (2 ^ 32 - k) :: u32) = - of_nat k"
    by (simp only: eq_neg_iff_add_eq_0)
  then have "(of_nat t - of_nat d :: u32) = of_nat (2 ^ 32 - k)" by (simp add: k(3))
  moreover have "unat (of_nat (2 ^ 32 - k) :: u32) = 2 ^ 32 - k"
    unfolding unat_of_nat using k by simp
  ultimately have "unat (of_nat t - of_nat d :: u32) = 2 ^ 32 - k" by simp
  with False k show ?thesis by (simp add: deadline_reached_unat)
qed

lemma unat_delay_ns:
  assumes "delay_ns ns = Some t"
  shows "unat t = max ((min (unat ns + 4999999) 4294967295) div 5000000) 1"
proof -
  have "t = max (saturating_add ns 4999999 div 5000000) 1"
    using assms by (simp add: delay_ns_def split: if_splits)
  then show ?thesis
    by (simp add: unat_saturating_add unat_div unat_max)
qed

section \<open>Properties\<close>

text \<open>The mailbox word codec is a bijection: decoding an encoded message gives it back, and
  encoding a decoded word gives the word back, so no two messages share a wire word.\<close>

theorem message_word_roundtrip:
  "decode (encode m) = m \<and> encode (decode w) = w \<and> (encode m = encode m' \<longleftrightarrow> m = m')"
  by (simp add: encode_decode decode_encode message_word.enc_inject)

text \<open>Every ordinary response keeps the service and the sequence number of its request; it
  carries the error opcode and a zero value exactly when the request is not one of the three
  ordinary control operations, and otherwise the response opcode of that operation with the
  echoed value, the packed ABI version or the low half of the capability word.\<close>

theorem ordinary_response_correct:
  fixes c :: contract and m :: message and caps :: u64
  defines "r \<equiv> ordinary_response c m caps"
  assumes "contract_ok c"
  shows "service r = service m \<and> sequence r = sequence m \<and>
    (if service m = SERVICE_CONTROL c \<and>
        opcode m \<in> {OP_PING c, OP_GET_ABI c, OP_GET_CAPABILITIES c}
     then opcode r = opcode m OR OP_RESPONSE c \<and> opcode r \<noteq> OP_ERROR c \<and>
       msg_value r = (if opcode m = OP_PING c then msg_value m
         else if opcode m = OP_GET_ABI c then ABI_VERSION c else ucast caps)
     else opcode r = OP_ERROR c \<and> msg_value r = 0)"
  using contract_ok_opcodes [OF assms(2)]
  by (auto simp: r_def ordinary_response_def error_response_def opcodes_def)

theorem ordinary_response_correct_witness:
  "contract_ok timer_contract \<and>
   opcode (ordinary_response timer_contract
     \<lparr>service = 1, opcode = 1, sequence = 17, msg_value = 0xfeedbeef\<rparr> 0) = 0x81"
proof -
  note w = ordinary_response_correct [OF timer_contract_ok,
      of "\<lparr>service = 1, opcode = 1, sequence = 17, msg_value = 0xfeedbeef\<rparr>" 0]
  show ?thesis using w timer_contract_ok by (simp add: timer_contract_def)
qed

text \<open>The deadline test survives the wrap-around of the 32-bit tick counter: for any two
  instants of an unbounded clock that are less than half the counter range apart, the test
  on the truncated counters says whether the deadline has passed.\<close>

theorem deadline_reached_correct:
  assumes "t < d + 2 ^ 31" "d \<le> t + 2 ^ 31"
  shows "deadline_reached (of_nat t) (of_nat d) \<longleftrightarrow> d \<le> t"
  using assms by (rule deadline_reached_of_nat)

theorem deadline_reached_correct_witness:
  "\<not> deadline_reached (of_nat (2 ^ 32 - 3)) (of_nat (2 ^ 32 + 1)) \<and>
   deadline_reached (of_nat (2 ^ 32 + 1)) (of_nat (2 ^ 32 - 3))"
  using deadline_reached_correct [of "2 ^ 32 - 3" "2 ^ 32 + 1"]
    deadline_reached_correct [of "2 ^ 32 + 1" "2 ^ 32 - 3"] by simp

text \<open>Up to 4290000000 ns the delay rounds up to whole ticks: it waits at least the
  requested time, and less than one tick more unless the request is below one tick.\<close>

theorem delay_ns_rounds_up:
  assumes "delay_ns ns = Some t" "unat ns \<le> 4290000000"
  shows "unat ns \<le> 5000000 * unat t \<and> 5000000 * unat t < unat ns + 5000000"
proof -
  have "ns \<noteq> 0" using assms(1) by (simp add: delay_ns_def split: if_splits)
  then have "0 < unat ns" by (simp add: unat_gt_0)
  moreover have "unat t = max ((min (unat ns + 4999999) 4294967295) div 5000000) 1"
    using assms(1) by (rule unat_delay_ns)
  ultimately show ?thesis
  proof (cases "unat ns \<le> 4289967296")
    case True
    with \<open>unat t = _\<close> have t: "unat t = max ((unat ns + 4999999) div 5000000) 1" by simp
    define q where "q = (unat ns + 4999999) div 5000000"
    have "5000000 * q \<le> unat ns + 4999999" "unat ns + 4999999 < 5000000 * q + 5000000"
      unfolding q_def by (simp_all only: times_div_less_eq_dividend dividend_less_times_div)
    with t \<open>0 < unat ns\<close> show ?thesis by (simp add: q_def [symmetric] max_def)
  qed (use assms(2) in simp)
qed

theorem delay_ns_rounds_up_witness:
  "delay_ns 5000001 = Some 2 \<and> unat (5000001 :: u32) \<le> 5000000 * unat (2 :: u32)"
proof -
  have "delay_ns 5000001 = Some 2"
    by (simp add: delay_ns_def saturating_add_def max_def word_le_nat_alt)
  then show ?thesis using delay_ns_rounds_up [of 5000001 2] by simp
qed

text \<open>C24: above 4290000000 ns the saturating addition loses the rounding: the longest requests
  are cut to 858 ticks, which is shorter than the time asked for.\<close>

theorem delay_ns_undershoots:
  assumes "4290000000 < unat ns"
  shows "delay_ns ns = Some 858 \<and> 5000000 * unat (858 :: u32) < unat ns"
proof -
  have "ns \<noteq> 0" using assms by auto
  then obtain t where t: "delay_ns ns = Some t" by (simp add: delay_ns_def)
  have "unat ns < 4294967296" by (rule unat_lt_u32)
  then have "unat t = unat (858 :: u32)"
    using unat_delay_ns [OF t] assms by simp
  with t assms show ?thesis by (simp add: word_unat_eq_iff)
qed

theorem delay_ns_undershoots_witness:
  "delay_ns 4294967295 = Some 858 \<and> 5000000 * unat (858 :: u32) < unat (4294967295 :: u32)"
  using delay_ns_undershoots [of 4294967295] by simp

end
