(* ===== verification/Activation.thy ===== *)
theory Activation
  imports Message
begin

text \<open>
  Fail-closed lease activation, \<open>firmware/sg2002-c906l/src/activation.rs\<close>.

  The control task owns a status record and the last accepted request; the three trait
  parameters of \<open>handle\<close> (\<open>RequestSource\<close>, \<open>LeaseActivator\<close>, \<open>StatusPublisher\<close>) are
  the fields of an environment \<open>env\<close> over an arbitrary hardware state, and every use of
  one of them is logged in \<open>ctl_log\<close>, so that the order of snapshots, publications and
  lease activations can be stated (\<open>Received\<close> and \<open>Sent\<close> are the mailbox traffic that the
  control task of \<open>lib.rs\<close> adds to the same log).
\<close>

section \<open>Requests and their validation\<close>

record lease_failure =
  lf_result :: u32
  lf_flag :: u32

definition request_equal :: "activation_request \<Rightarrow> activation_request \<Rightarrow> bool" where
  "request_equal left right \<longleftrightarrow>
     rq_magic left = rq_magic right
     \<and> rq_format_major left = rq_format_major right
     \<and> rq_format_minor left = rq_format_minor right
     \<and> rq_struct_size left = rq_struct_size right
     \<and> rq_generation left = rq_generation right
     \<and> rq_request_id left = rq_request_id right
     \<and> rq_contract_epoch left = rq_contract_epoch right
     \<and> rq_profile_id left = rq_profile_id right
     \<and> rq_abi_version left = rq_abi_version right
     \<and> rq_final_capabilities left = rq_final_capabilities right
     \<and> rq_lease_mask left = rq_lease_mask right
     \<and> rq_contract_sha256 left = rq_contract_sha256 right
     \<and> rq_reserved left = rq_reserved right
     \<and> rq_commit left = rq_commit right"

definition validate_record :: "contract \<Rightarrow> activation_request \<Rightarrow> u32 \<Rightarrow> u32 + unit" where
  "validate_record c request generation =
     (if rq_magic request \<noteq> ACTIVATION_REQUEST_MAGIC c
         \<or> rq_format_major request \<noteq> ACTIVATION_REQUEST_FORMAT_MAJOR c
         \<or> rq_format_minor request \<noteq> ACTIVATION_REQUEST_FORMAT_MINOR c
         \<or> rq_struct_size request \<noteq> of_nat (ACTIVATION_REQUEST_SIZE c)
         \<or> rq_request_id request = 0
         \<or> rq_reserved request \<noteq> replicate 44 0
         \<or> rq_commit request \<noteq> ACTIVATION_REQUEST_COMMIT c
      then Inl (ACTIVATION_RESULT_MALFORMED_RECORD c)
      else if rq_generation request \<noteq> generation
      then Inl (ACTIVATION_RESULT_STALE_GENERATION c)
      else if rq_abi_version request \<noteq> ABI_VERSION c
      then Inl (ACTIVATION_RESULT_ABI_MISMATCH c)
      else if rq_contract_epoch request \<noteq> CONTRACT_EPOCH c
      then Inl (ACTIVATION_RESULT_EPOCH_MISMATCH c)
      else if rq_profile_id request \<noteq> PROFILE_ID c
      then Inl (ACTIVATION_RESULT_PROFILE_MISMATCH c)
      else if rq_contract_sha256 request \<noteq> CONTRACT_SHA256 c
      then Inl (ACTIVATION_RESULT_DIGEST_MISMATCH c)
      else if rq_final_capabilities request \<noteq> EXPECTED_CAPABILITIES c
      then Inl (ACTIVATION_RESULT_CAPABILITIES_MISMATCH c)
      else if rq_lease_mask request \<noteq> LEASE_MASK c
      then Inl (ACTIVATION_RESULT_LEASE_MASK_MISMATCH c)
      else Inr ())"

section \<open>The handler\<close>

datatype act_event =
    ReadPair activation_request activation_request
  | Published status
  | Activated "lease_failure + unit"
  | Received "u64 option"
  | Sent u64 bool

record 'h activation_env =
  read_pair :: "'h \<Rightarrow> (activation_request \<times> activation_request) \<times> 'h"
  activate :: "'h \<Rightarrow> ((lease_failure + unit) \<times> 'h) option"
  publish_status :: "status \<Rightarrow> 'h \<Rightarrow> 'h"

record 'h control =
  ctl_status :: status
  ctl_accepted :: "activation_request option"
  ctl_hw :: 'h
  ctl_log :: "act_event list"

definition upd_status :: "(status \<Rightarrow> status) \<Rightarrow> 'h control \<Rightarrow> 'h control" where
  "upd_status f s = s\<lparr>ctl_status := f (ctl_status s)\<rparr>"

definition publish :: "'h activation_env \<Rightarrow> 'h control \<Rightarrow> 'h control" where
  "publish env s = s\<lparr>ctl_hw := publish_status env (ctl_status s) (ctl_hw s),
     ctl_log := ctl_log s @ [Published (ctl_status s)]\<rparr>"

definition snapshot_pair ::
    "'h activation_env \<Rightarrow> 'h control \<Rightarrow> (activation_request \<times> activation_request) \<times> 'h control" where
  "snapshot_pair env s = (case read_pair env (ctl_hw s) of ((a, b), h) \<Rightarrow>
     ((a, b), s\<lparr>ctl_hw := h, ctl_log := ctl_log s @ [ReadPair a b]\<rparr>))"

definition reject ::
    "contract \<Rightarrow> 'h activation_env \<Rightarrow> u32 \<Rightarrow> 'h control \<Rightarrow> u32 \<times> 'h control" where
  "reject c env result s =
     (result, publish env (upd_status (\<lambda>st. st
        \<lparr>st_activation_state := ACTIVATION_STATE_REJECTED c,
         st_activation_error := ucast result,
         st_capabilities := DORMANT_CAPABILITIES c,
         st_flags := st_flags st OR FLAG_ACTIVATION_REJECTED c\<rparr>) s))"

definition envelope_ok :: "message \<Rightarrow> bool" where
  "envelope_ok m \<longleftrightarrow> \<not> (msg_value m = 0 \<or> sequence m \<noteq> ucast (msg_value m))"

text \<open>The branch of \<open>handle\<close> for a status that is already active.\<close>

definition handle_active ::
    "contract \<Rightarrow> 'h activation_env \<Rightarrow> message \<Rightarrow> 'h control \<Rightarrow> u32 \<times> 'h control" where
  "handle_active c env envelope s =
     (case ctl_accepted s of
        None \<Rightarrow> (ACTIVATION_RESULT_INVALID_STATE c, s)
      | Some accepted \<Rightarrow>
          if \<not> envelope_ok envelope then (ACTIVATION_RESULT_INVALID_STATE c, s)
          else case snapshot_pair env s of ((first, second), s') \<Rightarrow>
            if \<not> request_equal first second \<or> \<not> request_equal first accepted
               \<or> rq_request_id first \<noteq> msg_value envelope
            then (ACTIVATION_RESULT_INVALID_STATE c, s')
            else (ACTIVATION_RESULT_SUCCESS c, s'))"

text \<open>The end of \<open>handle\<close>: the leases are activated for the accepted record \<open>first\<close>.\<close>

definition activate_leases ::
    "contract \<Rightarrow> 'h activation_env \<Rightarrow> activation_request \<Rightarrow> 'h control \<Rightarrow> (u32 \<times> 'h control) option"
where
  "activate_leases c env first s =
     (let s1 = publish env (upd_status (\<lambda>st. st
          \<lparr>st_activation_request_id := rq_request_id first,
           st_activation_state := ACTIVATION_STATE_ACTIVATING c\<rparr>) s)
      in case activate env (ctl_hw s1) of
           None \<Rightarrow> None
         | Some (outcome, h) \<Rightarrow>
             let s2 = s1\<lparr>ctl_hw := h, ctl_log := ctl_log s1 @ [Activated outcome]\<rparr>
             in case outcome of
                  Inr _ \<Rightarrow> Some (ACTIVATION_RESULT_SUCCESS c,
                    publish env (upd_status (\<lambda>st. st
                      \<lparr>st_capabilities := EXPECTED_CAPABILITIES c,
                       st_activation_state := ACTIVATION_STATE_ACTIVE c,
                       st_activation_error := ucast (ACTIVATION_RESULT_SUCCESS c)\<rparr>)
                      (s2\<lparr>ctl_accepted := Some first\<rparr>)))
                | Inl failure \<Rightarrow> Some (lf_result failure,
                    publish env (upd_status (\<lambda>st. st
                      \<lparr>st_capabilities := DORMANT_CAPABILITIES c,
                       st_activation_state := ACTIVATION_STATE_LEASE_FAULT c,
                       st_activation_error := ucast (lf_result failure),
                       st_flags := st_flags st OR (FLAG_ACTIVATION_FAILED c OR lf_flag failure)\<rparr>) s2)))"

definition handle_dormant ::
    "contract \<Rightarrow> 'h activation_env \<Rightarrow> message \<Rightarrow> 'h control \<Rightarrow> (u32 \<times> 'h control) option" where
  "handle_dormant c env envelope s =
     (let s1 = upd_status (\<lambda>st. st
          \<lparr>st_activation_attempts := saturating_add (st_activation_attempts st) 1,
           st_activation_request_id := msg_value envelope\<rparr>) s
      in if \<not> envelope_ok envelope
         then Some (reject c env (ACTIVATION_RESULT_INVALID_ENVELOPE c) s1)
         else let s2 = publish env (upd_status (\<lambda>st. st
                  \<lparr>st_activation_state := ACTIVATION_STATE_VALIDATING c,
                   st_activation_error := ucast (ACTIVATION_RESULT_SUCCESS c)\<rparr>) s1)
              in case snapshot_pair env s2 of ((first, second), s3) \<Rightarrow>
                if \<not> request_equal first second
                then Some (reject c env (ACTIVATION_RESULT_MALFORMED_RECORD c) s3)
                else case validate_record c first (st_generation (ctl_status s3)) of
                  Inl result \<Rightarrow> Some (reject c env result s3)
                | Inr _ \<Rightarrow>
                    if rq_request_id first \<noteq> msg_value envelope
                    then Some (reject c env (ACTIVATION_RESULT_INVALID_ENVELOPE c) s3)
                    else activate_leases c env first s3)"

definition handle ::
    "contract \<Rightarrow> 'h activation_env \<Rightarrow> message \<Rightarrow> 'h control \<Rightarrow> (u32 \<times> 'h control) option" where
  "handle c env envelope s =
     (if st_activation_state (ctl_status s) = ACTIVATION_STATE_LEASE_FAULT c
      then Some (ACTIVATION_RESULT_INVALID_STATE c, s)
      else if st_activation_state (ctl_status s) = ACTIVATION_STATE_ACTIVE c
      then Some (handle_active c env envelope s)
      else if st_activation_state (ctl_status s) \<noteq> ACTIVATION_STATE_DORMANT c
              \<and> st_activation_state (ctl_status s) \<noteq> ACTIVATION_STATE_REJECTED c
      then Some (ACTIVATION_RESULT_INVALID_STATE c, s)
      else handle_dormant c env envelope s)"

section \<open>Facts about the pieces\<close>

lemma request_equal_iff: "request_equal a b \<longleftrightarrow> a = b"
  by (auto simp: request_equal_def)

lemma validate_record_ok_iff:
  "validate_record c q g = Inr () \<longleftrightarrow>
     rq_magic q = ACTIVATION_REQUEST_MAGIC c \<and>
     rq_format_major q = ACTIVATION_REQUEST_FORMAT_MAJOR c \<and>
     rq_format_minor q = ACTIVATION_REQUEST_FORMAT_MINOR c \<and>
     rq_struct_size q = of_nat (ACTIVATION_REQUEST_SIZE c) \<and>
     rq_generation q = g \<and> rq_request_id q \<noteq> 0 \<and>
     rq_contract_epoch q = CONTRACT_EPOCH c \<and> rq_profile_id q = PROFILE_ID c \<and>
     rq_abi_version q = ABI_VERSION c \<and> rq_final_capabilities q = EXPECTED_CAPABILITIES c \<and>
     rq_lease_mask q = LEASE_MASK c \<and> rq_contract_sha256 q = CONTRACT_SHA256 c \<and>
     rq_reserved q = replicate 44 0 \<and> rq_commit q = ACTIVATION_REQUEST_COMMIT c"
  by (auto simp: validate_record_def)

definition exact_ack :: "contract \<Rightarrow> u32 \<Rightarrow> message \<Rightarrow> activation_request \<Rightarrow> bool" where
  "exact_ack c generation m q \<longleftrightarrow> envelope_ok m \<and>
     validate_record c q generation = Inr () \<and> rq_request_id q = msg_value m"

definition activations :: "act_event list \<Rightarrow> (lease_failure + unit) list" where
  "activations evs = concat (map (\<lambda>e. case e of Activated r \<Rightarrow> [r] | _ \<Rightarrow> []) evs)"

lemma activations_simps [simp]:
  "activations [] = []"
  "activations (Activated r # evs) = r # activations evs"
  "activations (Published st # evs) = activations evs"
  "activations (ReadPair a b # evs) = activations evs"
  "activations (Received w # evs) = activations evs"
  "activations (Sent v sent # evs) = activations evs"
  "activations (evs @ evs') = activations evs @ activations evs'"
  by (simp_all add: activations_def)

lemmas control_defs = upd_status_def publish_def snapshot_pair_def

lemma upd_status_simps [simp]:
  "ctl_status (upd_status f s) = f (ctl_status s)"
  "ctl_accepted (upd_status f s) = ctl_accepted s"
  "ctl_log (upd_status f s) = ctl_log s"
  "ctl_hw (upd_status f s) = ctl_hw s"
  by (simp_all add: upd_status_def)

lemma publish_simps [simp]:
  "ctl_status (publish env s) = ctl_status s"
  "ctl_accepted (publish env s) = ctl_accepted s"
  "ctl_log (publish env s) = ctl_log s @ [Published (ctl_status s)]"
  by (simp_all add: publish_def)

text \<open>What one handled activation can do, as seen from outside: the returned code, the
  events it appends and the new status.\<close>

datatype act_outcome = Refused | Rejected | Granted activation_request
  | Faulted activation_request lease_failure

fun outcome_ok ::
    "contract \<Rightarrow> 'h activation_env \<Rightarrow> message \<Rightarrow> 'h control \<Rightarrow> u32 \<Rightarrow> 'h control
     \<Rightarrow> act_outcome \<Rightarrow> bool" where
  "outcome_ok c env m s r s' Refused \<longleftrightarrow>
     ctl_status s' = ctl_status s \<and> ctl_accepted s' = ctl_accepted s \<and>
     (r = ACTIVATION_RESULT_INVALID_STATE c \<and>
        (ctl_log s' = ctl_log s \<or> (\<exists>a b. ctl_log s' = ctl_log s @ [ReadPair a b] \<and>
           \<not> (a = b \<and> ctl_accepted s = Some a \<and> rq_request_id a = msg_value m)))
      \<or> r = ACTIVATION_RESULT_SUCCESS c \<and> envelope_ok m \<and>
        st_activation_state (ctl_status s) = ACTIVATION_STATE_ACTIVE c \<and>
        (\<exists>q. ctl_accepted s = Some q \<and> rq_request_id q = msg_value m \<and>
           ctl_log s' = ctl_log s @ [ReadPair q q]))"
| "outcome_ok c env m s r s' Rejected \<longleftrightarrow>
     st_activation_state (ctl_status s) \<in> {ACTIVATION_STATE_DORMANT c, ACTIVATION_STATE_REJECTED c} \<and>
     r \<in> set (tl (activation_results c)) \<and>
     ctl_accepted s' = ctl_accepted s \<and>
     st_activation_state (ctl_status s') = ACTIVATION_STATE_REJECTED c \<and>
     st_activation_error (ctl_status s') = ucast r \<and>
     st_capabilities (ctl_status s') = DORMANT_CAPABILITIES c \<and>
     st_flags (ctl_status s') = st_flags (ctl_status s) OR FLAG_ACTIVATION_REJECTED c \<and>
     (\<exists>pre. ctl_log s' = ctl_log s @ pre @ [Published (ctl_status s')] \<and>
        (pre = [] \<or> (\<exists>st a b. pre = [Published st, ReadPair a b] \<and>
           st_activation_state st = ACTIVATION_STATE_VALIDATING c \<and>
           st_capabilities st = st_capabilities (ctl_status s))))"
| "outcome_ok c env m s r s' (Granted q) \<longleftrightarrow>
     st_activation_state (ctl_status s) \<in> {ACTIVATION_STATE_DORMANT c, ACTIVATION_STATE_REJECTED c} \<and>
     r = ACTIVATION_RESULT_SUCCESS c \<and>
     exact_ack c (st_generation (ctl_status s)) m q \<and>
     ctl_accepted s' = Some q \<and>
     st_activation_state (ctl_status s') = ACTIVATION_STATE_ACTIVE c \<and>
     st_activation_error (ctl_status s') = ucast r \<and>
     st_capabilities (ctl_status s') = EXPECTED_CAPABILITIES c \<and>
     st_flags (ctl_status s') = st_flags (ctl_status s) \<and>
     (\<exists>v a. ctl_log s' = ctl_log s @
        [Published v, ReadPair q q, Published a, Activated (Inr ()), Published (ctl_status s')] \<and>
        st_activation_state v = ACTIVATION_STATE_VALIDATING c \<and>
        st_activation_state a = ACTIVATION_STATE_ACTIVATING c \<and>
        st_capabilities v = st_capabilities (ctl_status s) \<and>
        st_capabilities a = st_capabilities (ctl_status s))"
| "outcome_ok c env m s r s' (Faulted q f) \<longleftrightarrow>
     st_activation_state (ctl_status s) \<in> {ACTIVATION_STATE_DORMANT c, ACTIVATION_STATE_REJECTED c} \<and>
     r = lf_result f \<and> (\<exists>h h'. activate env h = Some (Inl f, h')) \<and>
     exact_ack c (st_generation (ctl_status s)) m q \<and>
     ctl_accepted s' = ctl_accepted s \<and>
     st_activation_state (ctl_status s') = ACTIVATION_STATE_LEASE_FAULT c \<and>
     st_activation_error (ctl_status s') = ucast r \<and>
     st_capabilities (ctl_status s') = DORMANT_CAPABILITIES c \<and>
     st_flags (ctl_status s') = st_flags (ctl_status s) OR (FLAG_ACTIVATION_FAILED c OR lf_flag f) \<and>
     (\<exists>v a. ctl_log s' = ctl_log s @
        [Published v, ReadPair q q, Published a, Activated (Inl f), Published (ctl_status s')] \<and>
        st_activation_state v = ACTIVATION_STATE_VALIDATING c \<and>
        st_activation_state a = ACTIVATION_STATE_ACTIVATING c \<and>
        st_capabilities v = st_capabilities (ctl_status s) \<and>
        st_capabilities a = st_capabilities (ctl_status s))"

lemma reject_outcome:
  assumes "reject c env result (upd_status f s0) = (r, s')"
    "result \<in> set (tl (activation_results c))"
    "st_activation_state (ctl_status s) \<in> {ACTIVATION_STATE_DORMANT c, ACTIVATION_STATE_REJECTED c}"
    "ctl_accepted s0 = ctl_accepted s" "st_flags (f (ctl_status s0)) = st_flags (ctl_status s)"
    "ctl_log s0 = ctl_log s @ pre"
    "pre = [] \<or> (\<exists>st a b. pre = [Published st, ReadPair a b] \<and>
       st_activation_state st = ACTIVATION_STATE_VALIDATING c \<and>
       st_capabilities st = st_capabilities (ctl_status s))"
  shows "outcome_ok c env m s r s' Rejected"
  using assms by (auto simp: reject_def)

lemma validate_record_error:
  "validate_record c q g = Inl r \<Longrightarrow> r \<in> set (tl (activation_results c))"
  by (auto simp: validate_record_def activation_results_def split: if_splits)

lemma handle_active_outcome:
  assumes "handle_active c env m s = (r, s')"
    "st_activation_state (ctl_status s) = ACTIVATION_STATE_ACTIVE c"
  shows "outcome_ok c env m s r s' Refused"
  using assms
  by (auto simp: handle_active_def snapshot_pair_def request_equal_iff
      split: option.splits if_splits prod.splits)

lemma activate_leases_outcome:
  assumes "activate_leases c env q s3 = Some (r, s')"
    "st_activation_state (ctl_status s) \<in> {ACTIVATION_STATE_DORMANT c, ACTIVATION_STATE_REJECTED c}"
    "exact_ack c (st_generation (ctl_status s)) m q"
    "ctl_accepted s3 = ctl_accepted s" "st_flags (ctl_status s3) = st_flags (ctl_status s)"
    "st_capabilities (ctl_status s3) = st_capabilities (ctl_status s)"
    "ctl_log s3 = ctl_log s @ [Published v, ReadPair q q]"
    "st_activation_state v = ACTIVATION_STATE_VALIDATING c"
    "st_capabilities v = st_capabilities (ctl_status s)"
  shows "\<exists>oc. outcome_ok c env m s r s' oc"
proof -
  define s1 where "s1 = publish env (upd_status (\<lambda>st. st
    \<lparr>st_activation_request_id := rq_request_id q,
     st_activation_state := ACTIVATION_STATE_ACTIVATING c\<rparr>) s3)"
  from assms(1) obtain x h where x: "activate env (ctl_hw s1) = Some (x, h)"
    by (auto simp: activate_leases_def s1_def Let_def split: option.splits)
  show ?thesis
  proof (cases x)
    case (Inl f)
    with assms x have "outcome_ok c env m s r s' (Faulted q f)"
      by (auto simp: activate_leases_def s1_def Let_def)
    then show ?thesis ..
  next
    case (Inr u)
    with assms x have "outcome_ok c env m s r s' (Granted q)"
      by (auto simp: activate_leases_def s1_def Let_def)
    then show ?thesis ..
  qed
qed

lemma handle_dormant_outcome:
  assumes run: "handle_dormant c env m s = Some (r, s')"
    and st: "st_activation_state (ctl_status s)
      \<in> {ACTIVATION_STATE_DORMANT c, ACTIVATION_STATE_REJECTED c}"
  shows "\<exists>oc. outcome_ok c env m s r s' oc"
proof (cases "envelope_ok m")
  case False
  with run st have "outcome_ok c env m s r s' Rejected"
    by (auto simp: handle_dormant_def Let_def reject_def activation_results_def)
  then show ?thesis ..
next
  case True
  define s2 where "s2 = publish env (upd_status (\<lambda>st. st
      \<lparr>st_activation_state := ACTIVATION_STATE_VALIDATING c,
       st_activation_error := ucast (ACTIVATION_RESULT_SUCCESS c)\<rparr>)
    (upd_status (\<lambda>st. st
      \<lparr>st_activation_attempts := saturating_add (st_activation_attempts st) 1,
       st_activation_request_id := msg_value m\<rparr>) s))"
  obtain a b h where rp: "read_pair env (ctl_hw s2) = ((a, b), h)"
    by (metis prod.exhaust)
  define s3 where "s3 = s2\<lparr>ctl_hw := h, ctl_log := ctl_log s2 @ [ReadPair a b]\<rparr>"
  have sp: "snapshot_pair env s2 = ((a, b), s3)"
    by (simp add: snapshot_pair_def rp s3_def)
  have gen: "st_generation (ctl_status s3) = st_generation (ctl_status s)"
    by (simp add: s3_def s2_def)
  have run': "Some (r, s') =
     (if a \<noteq> b then Some (reject c env (ACTIVATION_RESULT_MALFORMED_RECORD c) s3)
      else case validate_record c a (st_generation (ctl_status s)) of
        Inl result \<Rightarrow> Some (reject c env result s3)
      | Inr _ \<Rightarrow> if rq_request_id a \<noteq> msg_value m
          then Some (reject c env (ACTIVATION_RESULT_INVALID_ENVELOPE c) s3)
          else activate_leases c env a s3)"
    using run True unfolding handle_dormant_def Let_def s2_def [symmetric]
    by (simp only: sp prod.case gen request_equal_iff simp_thms if_False)
  have rej: "outcome_ok c env m s r s' Rejected"
    if "reject c env result s3 = (r, s')" "result \<in> set (tl (activation_results c))" for result
    using that st by (auto simp: reject_def s3_def s2_def)
  consider (act) "a = b" "validate_record c a (st_generation (ctl_status s)) = Inr ()"
      "rq_request_id a = msg_value m"
    | (rej) result where "reject c env result s3 = (r, s')"
      "result \<in> set (tl (activation_results c))"
    using run' validate_record_error [of c a]
    by (auto simp: activation_results_def split: if_splits sum.splits)
  then show ?thesis
  proof cases
    case act
    then have "activate_leases c env a s3 = Some (r, s')" using run' by simp
    moreover have "exact_ack c (st_generation (ctl_status s)) m a"
      using act True by (simp add: exact_ack_def)
    ultimately show ?thesis
      using st act
      by (intro activate_leases_outcome [where ?s3.0 = s3 and v = "ctl_status s2"])
        (auto simp: s3_def s2_def)
  qed (use rej in blast)
qed

text \<open>Every handled activation request has one of the four outcomes.\<close>

lemma handle_outcome:
  assumes "handle c env m s = Some (r, s')"
  shows "\<exists>oc. outcome_ok c env m s r s' oc"
proof -
  let ?st = "st_activation_state (ctl_status s)"
  consider (fault) "?st = ACTIVATION_STATE_LEASE_FAULT c"
    | (active) "?st \<noteq> ACTIVATION_STATE_LEASE_FAULT c" "?st = ACTIVATION_STATE_ACTIVE c"
    | (dormant) "?st \<in> {ACTIVATION_STATE_DORMANT c, ACTIVATION_STATE_REJECTED c}"
      "?st \<noteq> ACTIVATION_STATE_LEASE_FAULT c" "?st \<noteq> ACTIVATION_STATE_ACTIVE c"
    | (other) "?st \<notin> {ACTIVATION_STATE_DORMANT c, ACTIVATION_STATE_REJECTED c}"
      "?st \<noteq> ACTIVATION_STATE_LEASE_FAULT c" "?st \<noteq> ACTIVATION_STATE_ACTIVE c"
    by blast
  then show ?thesis
  proof cases
    case active
    with assms have "handle_active c env m s = (r, s')" by (simp add: handle_def)
    from handle_active_outcome [OF this active(2)] show ?thesis ..
  next
    case dormant
    with assms have "handle_dormant c env m s = Some (r, s')" by (auto simp: handle_def)
    then show ?thesis using dormant(1) by (rule handle_dormant_outcome)
  next
    case fault
    with assms have "outcome_ok c env m s r s' Refused" by (simp add: handle_def)
    then show ?thesis ..
  next
    case other
    with assms have "outcome_ok c env m s r s' Refused" by (simp add: handle_def)
    then show ?thesis ..
  qed
qed

section \<open>Sequences of requests and the invariant\<close>

fun handle_all :: "contract \<Rightarrow> 'h activation_env \<Rightarrow> message list \<Rightarrow> 'h control \<Rightarrow> 'h control option"
where
  "handle_all c env [] s = Some s"
| "handle_all c env (m # ms) s =
     (case handle c env m s of None \<Rightarrow> None | Some (r, s') \<Rightarrow> handle_all c env ms s')"

definition caps_ok :: "contract \<Rightarrow> status \<Rightarrow> bool" where
  "caps_ok c st \<longleftrightarrow> st_capabilities st =
     (if st_activation_state st = ACTIVATION_STATE_ACTIVE c
      then EXPECTED_CAPABILITIES c else DORMANT_CAPABILITIES c)"

definition control_inv :: "contract \<Rightarrow> 'h control \<Rightarrow> bool" where
  "control_inv c s \<longleftrightarrow>
     caps_ok c (ctl_status s) \<and> (\<forall>p. Published p \<in> set (ctl_log s) \<longrightarrow> caps_ok c p) \<and>
     (st_activation_state (ctl_status s) \<in> {ACTIVATION_STATE_DORMANT c, ACTIVATION_STATE_REJECTED c} \<and>
        activations (ctl_log s) = []
      \<or> st_activation_state (ctl_status s) = ACTIVATION_STATE_ACTIVE c \<and>
        (\<exists>q. ctl_accepted s = Some q \<and>
           validate_record c q (st_generation (ctl_status s)) = Inr ()) \<and>
        activations (ctl_log s) = [Inr ()]
      \<or> st_activation_state (ctl_status s) = ACTIVATION_STATE_LEASE_FAULT c \<and>
        (\<exists>f. activations (ctl_log s) = [Inl f]))"

text \<open>Fields of the status that activation never touches.\<close>

definition same_frame :: "status \<Rightarrow> status \<Rightarrow> bool" where
  "same_frame a b \<longleftrightarrow>
     st_magic a = st_magic b \<and> st_abi_major a = st_abi_major b \<and> st_abi_minor a = st_abi_minor b \<and>
     st_struct_size a = st_struct_size b \<and> st_state a = st_state b \<and>
     st_generation a = st_generation b \<and> st_heartbeat a = st_heartbeat b \<and>
     st_last_request a = st_last_request b \<and> st_last_response a = st_last_response b"

lemma snapshot_pair_simps [simp]:
  "ctl_status (snd (snapshot_pair env s)) = ctl_status s"
  "ctl_accepted (snd (snapshot_pair env s)) = ctl_accepted s"
  by (simp_all add: snapshot_pair_def split: prod.split)

lemma same_frame_refl [simp]: "same_frame a a"
  by (simp add: same_frame_def)

lemma same_frame_trans: "same_frame a b \<Longrightarrow> same_frame b d \<Longrightarrow> same_frame a d"
  by (simp add: same_frame_def)

lemma reject_frame: "reject c env x s = (r, s') \<Longrightarrow> same_frame (ctl_status s') (ctl_status s)"
  by (auto simp: reject_def same_frame_def)

lemma activate_leases_frame:
  "activate_leases c env q s = Some (r, s') \<Longrightarrow> same_frame (ctl_status s') (ctl_status s)"
  by (auto simp: activate_leases_def same_frame_def Let_def split: option.splits sum.splits)

lemma handle_active_frame: "handle_active c env m s = (r, s') \<Longrightarrow> ctl_status s' = ctl_status s"
  by (auto simp: handle_active_def snapshot_pair_def split: option.splits if_splits prod.splits)

lemma handle_dormant_frame:
  assumes "handle_dormant c env m s = Some (r, s')"
  shows "same_frame (ctl_status s') (ctl_status s)"
proof -
  define s1 where "s1 = upd_status (\<lambda>st. st
    \<lparr>st_activation_attempts := saturating_add (st_activation_attempts st) 1,
     st_activation_request_id := msg_value m\<rparr>) s"
  define s2 where "s2 = publish env (upd_status (\<lambda>st. st
    \<lparr>st_activation_state := ACTIVATION_STATE_VALIDATING c,
     st_activation_error := ucast (ACTIVATION_RESULT_SUCCESS c)\<rparr>) s1)"
  define s3 where "s3 = snd (snapshot_pair env s2)"
  have f1: "same_frame (ctl_status s1) (ctl_status s)" by (simp add: s1_def same_frame_def)
  have f3: "same_frame (ctl_status s3) (ctl_status s)"
    by (simp add: s3_def s2_def s1_def same_frame_def)
  from assms consider x where "reject c env x s1 = (r, s')" | x where "reject c env x s3 = (r, s')"
    | q where "activate_leases c env q s3 = Some (r, s')"
    unfolding handle_dormant_def Let_def s1_def [symmetric] s2_def [symmetric] s3_def
    by (cases "snapshot_pair env s2") (auto split: if_splits sum.splits)
  then show ?thesis
    by cases (blast intro: same_frame_trans reject_frame activate_leases_frame f1 f3)+
qed

lemma handle_frame:
  assumes "handle c env m s = Some (r, s')"
  shows "same_frame (ctl_status s') (ctl_status s)"
  using assms handle_dormant_frame [of c env m s r s'] handle_active_frame [of c env m s r s']
  by (simp add: handle_def split: if_splits)

lemma states_distinct:
  assumes "contract_ok c"
  shows "ACTIVATION_STATE_ACTIVE c \<noteq> ACTIVATION_STATE_DORMANT c"
    "ACTIVATION_STATE_ACTIVE c \<noteq> ACTIVATION_STATE_REJECTED c"
    "ACTIVATION_STATE_ACTIVE c \<noteq> ACTIVATION_STATE_LEASE_FAULT c"
    "ACTIVATION_STATE_ACTIVE c \<noteq> ACTIVATION_STATE_VALIDATING c"
    "ACTIVATION_STATE_ACTIVE c \<noteq> ACTIVATION_STATE_ACTIVATING c"
    "ACTIVATION_STATE_LEASE_FAULT c \<noteq> ACTIVATION_STATE_DORMANT c"
    "ACTIVATION_STATE_LEASE_FAULT c \<noteq> ACTIVATION_STATE_REJECTED c"
  using contract_ok_states [OF assms] by (auto simp: activation_states_def)

lemma handle_preserves_inv:
  assumes ok: "contract_ok c" and inv: "control_inv c s"
    and run: "handle c env m s = Some (r, s')"
  shows "control_inv c s'"
proof -
  have gen: "st_generation (ctl_status s') = st_generation (ctl_status s)"
    using handle_frame [OF run] by (simp add: same_frame_def)
  note d = states_distinct [OF ok] states_distinct [OF ok, symmetric]
  from handle_outcome [OF run] obtain oc where oc: "outcome_ok c env m s r s' oc" ..
  show ?thesis
  proof (cases oc)
    case Refused
    with oc have "ctl_status s' = ctl_status s" "ctl_accepted s' = ctl_accepted s"
      "ctl_log s' = ctl_log s \<or> (\<exists>a b. ctl_log s' = ctl_log s @ [ReadPair a b])" by auto
    then show ?thesis using inv by (auto simp: control_inv_def)
  next
    case Rejected
    with oc have st: "st_activation_state (ctl_status s)
        \<in> {ACTIVATION_STATE_DORMANT c, ACTIVATION_STATE_REJECTED c}" by simp
    then have "activations (ctl_log s) = []" "st_capabilities (ctl_status s) = DORMANT_CAPABILITIES c"
      using inv d by (auto simp: control_inv_def caps_ok_def)
    then show ?thesis using Rejected oc inv d by (fastforce simp: control_inv_def caps_ok_def)
  next
    case (Granted q)
    then have st: "st_activation_state (ctl_status s)
        \<in> {ACTIVATION_STATE_DORMANT c, ACTIVATION_STATE_REJECTED c}" using oc by simp
    then have "activations (ctl_log s) = []" "st_capabilities (ctl_status s) = DORMANT_CAPABILITIES c"
      using inv d by (auto simp: control_inv_def caps_ok_def)
    then show ?thesis using Granted oc inv d gen
      by (fastforce simp: control_inv_def caps_ok_def exact_ack_def)
  next
    case (Faulted q f)
    then have st: "st_activation_state (ctl_status s)
        \<in> {ACTIVATION_STATE_DORMANT c, ACTIVATION_STATE_REJECTED c}" using oc by simp
    then have "activations (ctl_log s) = []" "st_capabilities (ctl_status s) = DORMANT_CAPABILITIES c"
      using inv d by (auto simp: control_inv_def caps_ok_def)
    then show ?thesis using Faulted oc inv d
      by (fastforce simp: control_inv_def caps_ok_def)
  qed
qed

lemma handle_all_preserves_inv:
  assumes "contract_ok c" "control_inv c s" "handle_all c env ms s = Some s'"
  shows "control_inv c s'"
  using assms(2,3)
  by (induction ms arbitrary: s)
    (auto split: option.splits dest: handle_preserves_inv [OF assms(1)])

lemma control_inv_activations: "control_inv c s \<Longrightarrow> length (activations (ctl_log s)) \<le> 1"
  by (auto simp: control_inv_def)

section \<open>The contract of a lease provider\<close>

text \<open>What \<open>handle\<close> needs of \<open>LeaseActivator::activate\<close>: it returns, and it never reports a
  failure with the success code.\<close>

locale lease_provider =
  fixes c :: contract and env :: "'h activation_env"
  assumes contract: "contract_ok c"
    and activate_returns: "activate env h \<noteq> None"
    and failure_code: "activate env h = Some (Inl f, h') \<Longrightarrow> lf_result f \<in> set (tl (activation_results c))"
begin

lemma handle_total: "\<exists>r s'. handle c env m s = Some (r, s')"
  by (auto simp: activate_returns handle_def handle_dormant_def activate_leases_def Let_def
      split: sum.splits prod.splits option.splits)

lemma handle_all_total: "\<exists>s'. handle_all c env ms s = Some s'"
  by (induction ms arbitrary: s) (use handle_total in \<open>fastforce split: option.splits\<close>)+

lemma success_iff:
  assumes "handle c env m s = Some (r, s')"
  shows "r = ACTIVATION_RESULT_SUCCESS c \<longleftrightarrow>
    st_activation_state (ctl_status s') = ACTIVATION_STATE_ACTIVE c \<and> envelope_ok m \<and>
    (\<exists>q pre post. ctl_accepted s' = Some q \<and> rq_request_id q = msg_value m \<and>
       ctl_log s' = ctl_log s @ pre @ ReadPair q q # post)"
proof -
  have res: "ACTIVATION_RESULT_SUCCESS c \<notin> set (tl (activation_results c))"
    "ACTIVATION_RESULT_SUCCESS c \<noteq> ACTIVATION_RESULT_INVALID_STATE c"
    using contract_ok_results [OF contract] by (auto simp: activation_results_def)
  from handle_outcome [OF assms] obtain oc where oc: "outcome_ok c env m s r s' oc" ..
  show ?thesis
  proof (cases oc)
    case Refused
    have one: "pre @ y # post = [x] \<longleftrightarrow> pre = [] \<and> post = [] \<and> x = y"
      for x y :: act_event and pre post
      by (cases pre) auto
    show ?thesis using oc res Refused by (auto simp: one one [THEN eq_commute [THEN trans]])
  next
    case Rejected
    then show ?thesis using oc res states_distinct [OF contract] by auto
  next
    case (Granted q)
    then obtain v post where "ctl_log s' = ctl_log s @ [Published v] @ ReadPair q q # post"
      using oc by auto
    moreover from Granted oc have "r = ACTIVATION_RESULT_SUCCESS c" "ctl_accepted s' = Some q"
      "st_activation_state (ctl_status s') = ACTIVATION_STATE_ACTIVE c"
      "exact_ack c (st_generation (ctl_status s)) m q" by auto
    ultimately show ?thesis unfolding exact_ack_def by blast
  next
    case (Faulted q f)
    then have "r \<noteq> ACTIVATION_RESULT_SUCCESS c" using oc res failure_code by force
    moreover have "st_activation_state (ctl_status s') \<noteq> ACTIVATION_STATE_ACTIVE c"
      using oc Faulted states_distinct [OF contract] by auto
    ultimately show ?thesis by blast
  qed
qed

end

section \<open>Concrete inputs\<close>

text \<open>A well-formed acknowledgement of generation 7 under the shipped Timer4 contract, and a
  peer that always shows it.\<close>

definition shipped_request :: activation_request where
  "shipped_request =
     \<lparr>rq_magic = 0x31414b4e, rq_format_major = 1, rq_format_minor = 0, rq_struct_size = 128,
      rq_generation = 7, rq_request_id = 0x10042, rq_contract_epoch = 2, rq_profile_id = 2,
      rq_abi_version = 0x10001, rq_final_capabilities = 0x0f, rq_lease_mask = 1,
      rq_contract_sha256 = replicate 32 0xa5, rq_reserved = replicate 44 0,
      rq_commit = 0x314b4341\<rparr>"

definition shipped_envelope :: message where
  "shipped_envelope = \<lparr>service = 1, opcode = 4, sequence = 0x42, msg_value = 0x10042\<rparr>"

definition dormant_status :: status where
  "dormant_status =
     \<lparr>st_magic = 0x4d564b4e, st_abi_major = 1, st_abi_minor = 1, st_struct_size = 64,
      st_state = 2, st_generation = 7, st_flags = 0, st_heartbeat = 0, st_capabilities = 0x0b,
      st_last_request = 0, st_last_response = 0, st_activation_state = 1,
      st_activation_error = 0, st_activation_attempts = 0, st_activation_request_id = 0\<rparr>"

definition dormant_control :: "unit control" where
  "dormant_control = \<lparr>ctl_status = dormant_status, ctl_accepted = None, ctl_hw = (), ctl_log = []\<rparr>"

definition steady_env :: "lease_failure + unit \<Rightarrow> unit activation_env" where
  "steady_env outcome = \<lparr>read_pair = (\<lambda>h. ((shipped_request, shipped_request), h)),
     activate = (\<lambda>h. Some (outcome, h)), publish_status = (\<lambda>st h. h)\<rparr>"

lemmas shipped_defs = shipped_request_def shipped_envelope_def dormant_status_def
  dormant_control_def steady_env_def timer_contract_def

lemma shipped_exact_ack: "exact_ack timer_contract 7 shipped_envelope shipped_request"
  by (simp add: exact_ack_def envelope_ok_def validate_record_def ABI_VERSION_def shipped_defs)

lemma dormant_control_inv: "control_inv timer_contract dormant_control"
  by (simp add: control_inv_def caps_ok_def shipped_defs)

section \<open>Further facts used by the properties\<close>

text \<open>The exact course of a grant, for an environment that shows the record twice.\<close>

lemma handle_granted:
  assumes ok: "contract_ok c"
    and st: "st_activation_state (ctl_status s)
      \<in> {ACTIVATION_STATE_DORMANT c, ACTIVATION_STATE_REJECTED c}"
    and ack: "exact_ack c (st_generation (ctl_status s)) m q"
    and rd: "\<And>h. fst (read_pair env h) = (q, q)"
    and act: "\<And>h. fst (the (activate env h)) = Inr () \<and> activate env h \<noteq> None"
  shows "\<exists>s'. handle c env m s = Some (ACTIVATION_RESULT_SUCCESS c, s') \<and>
    ctl_accepted s' = Some q \<and>
    st_activation_state (ctl_status s') = ACTIVATION_STATE_ACTIVE c \<and>
    st_capabilities (ctl_status s') = EXPECTED_CAPABILITIES c"
proof -
  note d = states_distinct [OF ok] states_distinct [OF ok, symmetric]
  have rd': "snapshot_pair env s2 = ((q, q), snd (snapshot_pair env s2))" for s2
    using rd [of "ctl_hw s2"] by (auto simp: snapshot_pair_def split: prod.splits)
  have act': "\<exists>h'. activate env h = Some (Inr (), h')" for h
    using act [of h] by (cases "activate env h") auto
  have "handle c env m s = handle_dormant c env m s" using st d by (auto simp: handle_def)
  also have "\<exists>s'. \<dots> = Some (ACTIVATION_RESULT_SUCCESS c, s') \<and> ctl_accepted s' = Some q \<and>
    st_activation_state (ctl_status s') = ACTIVATION_STATE_ACTIVE c \<and>
    st_capabilities (ctl_status s') = EXPECTED_CAPABILITIES c"
  proof -
    define s2 where "s2 = publish env (upd_status (\<lambda>st. st
        \<lparr>st_activation_state := ACTIVATION_STATE_VALIDATING c,
         st_activation_error := ucast (ACTIVATION_RESULT_SUCCESS c)\<rparr>)
      (upd_status (\<lambda>st. st
        \<lparr>st_activation_attempts := saturating_add (st_activation_attempts st) 1,
         st_activation_request_id := msg_value m\<rparr>) s))"
    define s3 where "s3 = snd (snapshot_pair env s2)"
    have gen: "st_generation (ctl_status s3) = st_generation (ctl_status s)"
      by (simp add: s3_def s2_def)
    have "handle_dormant c env m s = activate_leases c env q s3"
      using ack unfolding handle_dormant_def Let_def exact_ack_def s2_def [symmetric]
        rd' [of s2, folded s3_def]
      by (simp add: request_equal_iff gen)
    moreover have "\<exists>s'. activate_leases c env q s3 = Some (ACTIVATION_RESULT_SUCCESS c, s') \<and>
        ctl_accepted s' = Some q \<and>
        st_activation_state (ctl_status s') = ACTIVATION_STATE_ACTIVE c \<and>
        st_capabilities (ctl_status s') = EXPECTED_CAPABILITIES c"
      using act' [of "ctl_hw (publish env (upd_status (\<lambda>st. st
          \<lparr>st_activation_request_id := rq_request_id q,
           st_activation_state := ACTIVATION_STATE_ACTIVATING c\<rparr>) s3))"]
      by (auto simp: activate_leases_def Let_def)
    ultimately show ?thesis by auto
  qed
  finally show ?thesis .
qed

lemma handle_settled:
  assumes "contract_ok c" "handle c env m s = Some (r, s')"
    "st_activation_state (ctl_status s) \<in> {ACTIVATION_STATE_ACTIVE c, ACTIVATION_STATE_LEASE_FAULT c}"
  shows "ctl_status s' = ctl_status s \<and> ctl_accepted s' = ctl_accepted s \<and>
    (\<exists>new. ctl_log s' = ctl_log s @ new \<and> (\<forall>e\<in>set new. \<exists>a b. e = ReadPair a b))"
proof -
  note d = states_distinct [OF assms(1)] states_distinct [OF assms(1), symmetric]
  from handle_outcome [OF assms(2)] obtain oc where "outcome_ok c env m s r s' oc" ..
  with assms(3) d show ?thesis by (cases oc) auto
qed

lemma handle_all_settled:
  assumes "contract_ok c" "handle_all c env ms s = Some s'"
    "st_activation_state (ctl_status s) \<in> {ACTIVATION_STATE_ACTIVE c, ACTIVATION_STATE_LEASE_FAULT c}"
  shows "ctl_status s' = ctl_status s \<and> ctl_accepted s' = ctl_accepted s \<and>
    (\<exists>new. ctl_log s' = ctl_log s @ new \<and> (\<forall>e\<in>set new. \<exists>a b. e = ReadPair a b))"
  using assms(2,3)
proof (induction ms arbitrary: s)
  case (Cons m ms)
  then obtain r s1 where h: "handle c env m s = Some (r, s1)" "handle_all c env ms s1 = Some s'"
    by (auto split: option.splits)
  from handle_settled [OF assms(1) h(1) Cons.prems(2)] obtain new where
    "ctl_status s1 = ctl_status s" "ctl_accepted s1 = ctl_accepted s"
    "ctl_log s1 = ctl_log s @ new" "\<forall>e\<in>set new. \<exists>a b. e = ReadPair a b" by blast
  moreover from this Cons.IH [OF h(2)] Cons.prems(2) obtain new' where
    "ctl_status s' = ctl_status s1" "ctl_accepted s' = ctl_accepted s1"
    "ctl_log s' = ctl_log s1 @ new'" "\<forall>e\<in>set new'. \<exists>a b. e = ReadPair a b" by auto
  ultimately show ?case by (intro conjI exI [of _ "new @ new'"]) auto
qed simp

section \<open>Properties\<close>

text \<open>C1: activation is fail-closed. When a handled request causes any lease activation at all,
  the request was an exact acknowledgement of this boot, the same record was read twice,
  VALIDATING and ACTIVATING were published before the leases were touched, exactly one
  activation happened, and the final status grants the leased capabilities exactly when it
  succeeded; a failure is published as LEASE_FAULT with the dormant capabilities only.\<close>

theorem activation_fail_closed:
  assumes "handle c env m s = Some (r, s')" "ctl_log s' = ctl_log s @ new" "Activated x \<in> set new"
  shows "\<exists>q v a. exact_ack c (st_generation (ctl_status s)) m q \<and>
    new = [Published v, ReadPair q q, Published a, Activated x, Published (ctl_status s')] \<and>
    st_activation_state v = ACTIVATION_STATE_VALIDATING c \<and>
    st_activation_state a = ACTIVATION_STATE_ACTIVATING c \<and>
    (case x of
       Inr _ \<Rightarrow> r = ACTIVATION_RESULT_SUCCESS c \<and> ctl_accepted s' = Some q \<and>
         st_activation_state (ctl_status s') = ACTIVATION_STATE_ACTIVE c \<and>
         st_capabilities (ctl_status s') = EXPECTED_CAPABILITIES c
     | Inl f \<Rightarrow> r = lf_result f \<and> ctl_accepted s' = ctl_accepted s \<and>
         st_activation_state (ctl_status s') = ACTIVATION_STATE_LEASE_FAULT c \<and>
         st_capabilities (ctl_status s') = DORMANT_CAPABILITIES c \<and>
         st_flags (ctl_status s') =
           st_flags (ctl_status s) OR (FLAG_ACTIVATION_FAILED c OR lf_flag f))"
proof -
  from handle_outcome [OF assms(1)] obtain oc where oc: "outcome_ok c env m s r s' oc" ..
  then show ?thesis using assms(2,3) by (cases oc) auto
qed

theorem activation_fail_closed_witness:
  "\<exists>s' q v a. handle timer_contract (steady_env (Inr ())) shipped_envelope dormant_control = Some (0, s') \<and>
     ctl_log s' = [Published v, ReadPair q q, Published a, Activated (Inr ()), Published (ctl_status s')] \<and>
     ctl_accepted s' = Some q"
proof -
  obtain r s' where run: "handle timer_contract (steady_env (Inr ())) shipped_envelope dormant_control
      = Some (r, s')" and ev: "Activated (Inr ()) \<in> set (ctl_log s')"
    by (simp add: handle_def handle_dormant_def activate_leases_def control_defs request_equal_iff
        validate_record_def envelope_ok_def ABI_VERSION_def shipped_defs)
  have "ctl_log s' = ctl_log dormant_control @ ctl_log s'" by (simp add: dormant_control_def)
  from activation_fail_closed [OF run this ev] run show ?thesis
    by (auto simp: timer_contract_def)
qed

text \<open>C2: for every sequence of requests and every behaviour of the peer, the publisher and the
  leases, the control invariant is kept: the status is dormant, rejected, active or lease-fault
  whenever a request has been handled, every status ever published advertises the leased
  capabilities only in the active state, the active state has an accepted record that
  validates for this boot, and the leases are activated at most once.\<close>

theorem activation_sequence_invariant:
  assumes "contract_ok c" "control_inv c s" "handle_all c env ms s = Some s'"
  shows "control_inv c s' \<and> length (activations (ctl_log s')) \<le> 1 \<and>
    (\<forall>p. Published p \<in> set (ctl_log s') \<longrightarrow>
       st_capabilities p = EXPECTED_CAPABILITIES c \<or> st_capabilities p = DORMANT_CAPABILITIES c)"
proof -
  have inv: "control_inv c s'" using assms by (rule handle_all_preserves_inv)
  have "caps_ok c p \<Longrightarrow> st_capabilities p = EXPECTED_CAPABILITIES c \<or>
      st_capabilities p = DORMANT_CAPABILITIES c" for p
    by (simp add: caps_ok_def split: if_splits)
  then show ?thesis
    using inv control_inv_activations [OF inv] by (auto simp: control_inv_def)
qed

theorem activation_sequence_invariant_witness:
  "\<exists>s'. handle_all timer_contract (steady_env (Inr ())) [shipped_envelope, shipped_envelope] dormant_control
     = Some s' \<and> length (activations (ctl_log s')) \<le> 1"
proof -
  obtain s' where run: "handle_all timer_contract (steady_env (Inr ()))
      [shipped_envelope, shipped_envelope] dormant_control = Some s'"
    by (simp add: handle_def handle_active_def handle_dormant_def activate_leases_def control_defs
        request_equal_iff validate_record_def envelope_ok_def ABI_VERSION_def shipped_defs)
  show ?thesis
    using activation_sequence_invariant [OF timer_contract_ok dormant_control_inv run] run by blast
qed

text \<open>C3: activation settles. Once the status is active or lease-fault, no sequence of requests
  changes the status or the accepted record, publishes anything or touches a lease again: a
  lease fault is terminal, and an active processor can only re-read the request record.\<close>

theorem activation_settles:
  assumes "contract_ok c" "handle_all c env ms s = Some s'"
    "st_activation_state (ctl_status s) \<in> {ACTIVATION_STATE_ACTIVE c, ACTIVATION_STATE_LEASE_FAULT c}"
  shows "ctl_status s' = ctl_status s \<and> ctl_accepted s' = ctl_accepted s \<and>
    (\<exists>new. ctl_log s' = ctl_log s @ new \<and> (\<forall>e\<in>set new. \<exists>a b. e = ReadPair a b))"
  using assms by (rule handle_all_settled)

theorem activation_settles_witness:
  "\<exists>s'. handle_all timer_contract (steady_env (Inr ())) [shipped_envelope]
      (upd_status (\<lambda>st. st\<lparr>st_activation_state := 6\<rparr>) dormant_control) = Some s' \<and>
     st_activation_state (ctl_status s') = 6"
proof -
  let ?s = "upd_status (\<lambda>st. st\<lparr>st_activation_state := 6\<rparr>) dormant_control"
  obtain s' where run: "handle_all timer_contract (steady_env (Inr ())) [shipped_envelope] ?s = Some s'"
    by (simp add: handle_def shipped_defs)
  have "st_activation_state (ctl_status ?s)
      \<in> {ACTIVATION_STATE_ACTIVE timer_contract, ACTIVATION_STATE_LEASE_FAULT timer_contract}"
    by (simp add: shipped_defs)
  from activation_settles [OF timer_contract_ok run this] run show ?thesis by simp
qed

text \<open>C4: the acknowledgement is live and idempotent. A dormant or rejected processor that reads
  an exact acknowledgement twice and whose leases come up answers SUCCESS and becomes active,
  and repeating the same acknowledgement is answered SUCCESS again without any change.\<close>

theorem activation_live_and_idempotent:
  assumes "contract_ok c"
    "st_activation_state (ctl_status s) \<in> {ACTIVATION_STATE_DORMANT c, ACTIVATION_STATE_REJECTED c}"
    "exact_ack c (st_generation (ctl_status s)) m q"
    "\<And>h. fst (read_pair env h) = (q, q)"
    "\<And>h. fst (the (activate env h)) = Inr () \<and> activate env h \<noteq> None"
  shows "\<exists>s1 s2. handle c env m s = Some (ACTIVATION_RESULT_SUCCESS c, s1) \<and>
    ctl_accepted s1 = Some q \<and>
    st_activation_state (ctl_status s1) = ACTIVATION_STATE_ACTIVE c \<and>
    st_capabilities (ctl_status s1) = EXPECTED_CAPABILITIES c \<and>
    handle c env m s1 = Some (ACTIVATION_RESULT_SUCCESS c, s2) \<and>
    ctl_status s2 = ctl_status s1 \<and> ctl_accepted s2 = Some q"
proof -
  from handle_granted [OF assms] obtain s1 where
    s1: "handle c env m s = Some (ACTIVATION_RESULT_SUCCESS c, s1)" "ctl_accepted s1 = Some q"
      "st_activation_state (ctl_status s1) = ACTIVATION_STATE_ACTIVE c"
      "st_capabilities (ctl_status s1) = EXPECTED_CAPABILITIES c" by blast
  obtain h where rp: "read_pair env (ctl_hw s1) = ((q, q), h)"
    using assms(4) by (metis prod.collapse)
  have "\<exists>s2. handle c env m s1 = Some (ACTIVATION_RESULT_SUCCESS c, s2) \<and>
      ctl_status s2 = ctl_status s1 \<and> ctl_accepted s2 = Some q"
    using s1(2,3) assms(3) states_distinct(3) [OF assms(1)] rp
    by (simp add: handle_def handle_active_def snapshot_pair_def request_equal_iff exact_ack_def)
  with s1 show ?thesis by blast
qed

theorem activation_live_and_idempotent_witness:
  "\<exists>s1. handle timer_contract (steady_env (Inr ())) shipped_envelope dormant_control = Some (0, s1) \<and>
     st_capabilities (ctl_status s1) = 0x0f"
proof -
  have "st_activation_state (ctl_status dormant_control)
      \<in> {ACTIVATION_STATE_DORMANT timer_contract, ACTIVATION_STATE_REJECTED timer_contract}"
    "exact_ack timer_contract (st_generation (ctl_status dormant_control)) shipped_envelope shipped_request"
    using shipped_exact_ack by (simp_all add: dormant_control_def dormant_status_def timer_contract_def)
  from activation_live_and_idempotent [OF timer_contract_ok this, of "steady_env (Inr ())"]
  show ?thesis by (auto simp: steady_env_def timer_contract_def)
qed

text \<open>C5: every refusal of a dormant or rejected processor and every lease failure is recorded
  without loss: the byte in the status record is the 32-bit code that is returned to Linux, and
  SUCCESS is returned exactly when the processor is active afterwards, provided the lease provider
  reports one of the contract's failure codes. In every other state a request is answered without
  touching the record: the status stays as it is and nothing is published, the answer is
  INVALID_STATE or SUCCESS, and SUCCESS is the answer only of an active processor that reads its
  accepted record again for its request number.\<close>

theorem activation_error_lossless:
  assumes "contract_ok c" "handle c env m s = Some (r, s')"
    "\<And>h f h'. activate env h = Some (Inl f, h') \<Longrightarrow> lf_result f \<in> set (tl (activation_results c))"
  shows "if st_activation_state (ctl_status s)
            \<in> {ACTIVATION_STATE_DORMANT c, ACTIVATION_STATE_REJECTED c}
    then ucast (st_activation_error (ctl_status s')) = r \<and> r \<in> set (activation_results c) \<and>
      (r = ACTIVATION_RESULT_SUCCESS c \<longleftrightarrow>
         st_activation_state (ctl_status s') = ACTIVATION_STATE_ACTIVE c)
    else ctl_status s' = ctl_status s \<and>
      (r = ACTIVATION_RESULT_INVALID_STATE c \<and>
       (ctl_log s' = ctl_log s \<or>
        (\<exists>a b. ctl_log s' = ctl_log s @ [ReadPair a b] \<and>
          \<not> (a = b \<and> ctl_accepted s = Some a \<and> rq_request_id a = msg_value m))) \<or>
       r = ACTIVATION_RESULT_SUCCESS c \<and>
       st_activation_state (ctl_status s) = ACTIVATION_STATE_ACTIVE c \<and>
       (\<exists>q. ctl_accepted s = Some q \<and> rq_request_id q = msg_value m \<and>
          ctl_log s' = ctl_log s @ [ReadPair q q]))"
proof -
  note d = states_distinct [OF assms(1)]
  have fits: "ucast (ucast x :: u8) = x" if "x \<in> set (activation_results c)" for x :: u32
  proof -
    have "unat x < 256" using assms(1) that by (auto simp: contract_ok_def list_all_iff)
    then show ?thesis by (simp add: word_unat_eq_iff unsigned_ucast_eq unsigned_take_bit_eq take_bit_nat_eq_self)
  qed
  have cons: "activation_results c = ACTIVATION_RESULT_SUCCESS c # tl (activation_results c)"
    by (simp add: activation_results_def)
  then have in_tl: "x \<in> set (activation_results c)" "x \<noteq> ACTIVATION_RESULT_SUCCESS c"
    if "x \<in> set (tl (activation_results c))" for x
    using that contract_ok_results [OF assms(1)] by (metis list.set_intros(2), metis distinct.simps(2))
  have success: "ACTIVATION_RESULT_SUCCESS c \<in> set (activation_results c)"
    by (simp add: activation_results_def)
  from handle_outcome [OF assms(2)] obtain oc where oc: "outcome_ok c env m s r s' oc" ..
  show ?thesis
  proof (cases oc)
    case Refused
    have settled: "st_activation_state (ctl_status s)
        \<notin> {ACTIVATION_STATE_DORMANT c, ACTIVATION_STATE_REJECTED c}"
    proof
      assume st: "st_activation_state (ctl_status s)
        \<in> {ACTIVATION_STATE_DORMANT c, ACTIVATION_STATE_REJECTED c}"
      then have "handle c env m s = handle_dormant c env m s" using d by (auto simp: handle_def)
      with assms(2) have "ctl_log s' \<noteq> ctl_log s \<and> (\<forall>a b. ctl_log s' \<noteq> ctl_log s @ [ReadPair a b])"
        by (auto simp: handle_dormant_def activate_leases_def reject_def snapshot_pair_def Let_def
            split: if_splits option.splits sum.splits prod.splits)
      then show False using oc Refused st d by auto
    qed
    then show ?thesis using oc Refused by auto
  next
    case Rejected
    then show ?thesis using oc d in_tl fits by auto
  next
    case (Granted q)
    then show ?thesis using oc fits success by simp
  next
    case (Faulted q f)
    then obtain h h' where "activate env h = Some (Inl f, h')" using oc by auto
    from assms(3) [OF this] Faulted oc d in_tl fits show ?thesis by simp
  qed
qed

theorem activation_error_lossless_witness:
  "\<exists>r s'. handle timer_contract (steady_env (Inl \<lparr>lf_result = 13, lf_flag = 4\<rparr>)) shipped_envelope
       dormant_control = Some (r, s') \<and> ucast (st_activation_error (ctl_status s')) = r \<and> r = 13"
proof -
  obtain s' where run: "handle timer_contract (steady_env (Inl \<lparr>lf_result = 13, lf_flag = 4\<rparr>))
      shipped_envelope dormant_control = Some (13, s')"
    by (simp add: handle_def handle_dormant_def activate_leases_def control_defs request_equal_iff
        validate_record_def envelope_ok_def ABI_VERSION_def shipped_defs)
  have st: "st_activation_state (ctl_status dormant_control)
      \<in> {ACTIVATION_STATE_DORMANT timer_contract, ACTIVATION_STATE_REJECTED timer_contract}"
    by (simp add: shipped_defs)
  have codes: "lf_result f \<in> set (tl (activation_results timer_contract))"
    if "activate (steady_env (Inl \<lparr>lf_result = 13, lf_flag = 4\<rparr>)) h = Some (Inl f, h')" for h f h'
    using that by (auto simp: steady_env_def activation_results_def timer_contract_def)
  have "ucast (st_activation_error (ctl_status s')) = (13 :: u32)"
    using activation_error_lossless [OF timer_contract_ok run codes] st by simp
  with run show ?thesis by blast
qed

end
