(* ===== verification/Manifest.thy ===== *)
theory Manifest
  imports Activation
begin

text \<open>
  Publication of the boot manifest, \<open>firmware/sg2002-c906l/src/activation.rs\<close> (lines 185 to 300),
  over a non-coherent memory.

  The C906L stores into its data cache and Linux reads DRAM. \<open>ncmem\<close> is the pair of them:
  a store reaches the cache only, \<open>c906l_cache_clean\<close> writes lines back, \<open>c906l_cache_invalidate\<close>
  drops them, and the hardware may write back, evict or fill any line at any time
  (\<open>mm_weather\<close>, an arbitrary schedule). \<open>mm_seen\<close> collects every DRAM content Linux could
  have observed, one entry for each single-line step.
\<close>

section \<open>The record and its wire image\<close>

definition manifest_equal :: "manifest \<Rightarrow> manifest \<Rightarrow> bool" where
  "manifest_equal left right \<longleftrightarrow>
     mf_magic left = mf_magic right
     \<and> mf_format_major left = mf_format_major right
     \<and> mf_format_minor left = mf_format_minor right
     \<and> mf_struct_size left = mf_struct_size right
     \<and> mf_generation left = mf_generation right
     \<and> mf_contract_epoch left = mf_contract_epoch right
     \<and> mf_profile_id left = mf_profile_id right
     \<and> mf_abi_major left = mf_abi_major right
     \<and> mf_abi_minor left = mf_abi_minor right
     \<and> mf_capability_width left = mf_capability_width right
     \<and> mf_lease_width left = mf_lease_width right
     \<and> mf_final_capabilities left = mf_final_capabilities right
     \<and> mf_dormant_capabilities left = mf_dormant_capabilities right
     \<and> mf_lease_mask left = mf_lease_mask right
     \<and> mf_flags left = mf_flags right
     \<and> mf_reserved0 left = mf_reserved0 right
     \<and> mf_contract_sha256 left = mf_contract_sha256 right
     \<and> mf_reserved1 left = mf_reserved1 right
     \<and> mf_commit left = mf_commit right"

definition expected_manifest :: "contract \<Rightarrow> u32 \<Rightarrow> u32 \<Rightarrow> manifest" where
  "expected_manifest c generation commit =
     \<lparr>mf_magic = MANIFEST_MAGIC c,
      mf_format_major = MANIFEST_FORMAT_MAJOR c,
      mf_format_minor = MANIFEST_FORMAT_MINOR c,
      mf_struct_size = of_nat (MANIFEST_SIZE c),
      mf_generation = generation,
      mf_contract_epoch = CONTRACT_EPOCH c,
      mf_profile_id = PROFILE_ID c,
      mf_abi_major = ABI_MAJOR c,
      mf_abi_minor = ABI_MINOR c,
      mf_capability_width = CAPABILITY_WIRE_WIDTH c,
      mf_lease_width = LEASE_WIRE_WIDTH c,
      mf_final_capabilities = EXPECTED_CAPABILITIES c,
      mf_dormant_capabilities = DORMANT_CAPABILITIES c,
      mf_lease_mask = LEASE_MASK c,
      mf_flags = MANIFEST_FLAGS c,
      mf_reserved0 = 0,
      mf_contract_sha256 = CONTRACT_SHA256 c,
      mf_reserved1 = replicate 28 0,
      mf_commit = commit\<rparr>"

text \<open>The \<open>repr(C)\<close> image of a manifest: all fields are naturally aligned, so there is no padding.\<close>

definition manifest_body :: "manifest \<Rightarrow> u8 list" where
  "manifest_body m =
     to_le 4 (mf_magic m) @ to_le 2 (mf_format_major m) @ to_le 2 (mf_format_minor m) @
     to_le 4 (mf_struct_size m) @ to_le 4 (mf_generation m) @ to_le 4 (mf_contract_epoch m) @
     to_le 4 (mf_profile_id m) @ to_le 2 (mf_abi_major m) @ to_le 2 (mf_abi_minor m) @
     to_le 2 (mf_capability_width m) @ to_le 2 (mf_lease_width m) @
     to_le 8 (mf_final_capabilities m) @ to_le 8 (mf_dormant_capabilities m) @
     to_le 8 (mf_lease_mask m) @ to_le 4 (mf_flags m) @ to_le 4 (mf_reserved0 m) @
     mf_contract_sha256 m @ mf_reserved1 m"

definition encode_manifest :: "manifest \<Rightarrow> u8 list" where
  "encode_manifest m = manifest_body m @ to_le 4 (mf_commit m)"

definition decode_manifest :: "u8 list \<Rightarrow> manifest" where
  "decode_manifest bs =
     \<lparr>mf_magic = from_le (slice 0 4 bs), mf_format_major = from_le (slice 4 2 bs),
      mf_format_minor = from_le (slice 6 2 bs), mf_struct_size = from_le (slice 8 4 bs),
      mf_generation = from_le (slice 12 4 bs), mf_contract_epoch = from_le (slice 16 4 bs),
      mf_profile_id = from_le (slice 20 4 bs), mf_abi_major = from_le (slice 24 2 bs),
      mf_abi_minor = from_le (slice 26 2 bs), mf_capability_width = from_le (slice 28 2 bs),
      mf_lease_width = from_le (slice 30 2 bs), mf_final_capabilities = from_le (slice 32 8 bs),
      mf_dormant_capabilities = from_le (slice 40 8 bs), mf_lease_mask = from_le (slice 48 8 bs),
      mf_flags = from_le (slice 56 4 bs), mf_reserved0 = from_le (slice 60 4 bs),
      mf_contract_sha256 = slice 64 32 bs, mf_reserved1 = slice 96 28 bs,
      mf_commit = from_le (slice 124 4 bs)\<rparr>"

section \<open>Publication over an arbitrary manifest interface\<close>

record 'h manifest_io =
  write_commit :: "u32 \<Rightarrow> 'h \<Rightarrow> 'h"
  write_record :: "manifest \<Rightarrow> 'h \<Rightarrow> 'h"
  mio_clean :: "nat \<Rightarrow> nat \<Rightarrow> 'h \<Rightarrow> 'h"
  mio_fence :: "'h \<Rightarrow> 'h"
  mio_invalidate :: "nat \<Rightarrow> nat \<Rightarrow> 'h \<Rightarrow> 'h"
  read_record :: "'h \<Rightarrow> manifest \<times> 'h"

definition publish_manifest_with ::
    "contract \<Rightarrow> 'h manifest_io \<Rightarrow> u32 \<Rightarrow> 'h \<Rightarrow> bool \<times> 'h" where
  "publish_manifest_with c io generation h0 =
     (let uncommitted = expected_manifest c generation 0;
          expected = expected_manifest c generation (MANIFEST_COMMIT c);
          last_line = MANIFEST_ADDRESS c + MANIFEST_SIZE c - CACHE_LINE_SIZE c;
          h1 = mio_fence io (mio_clean io last_line (CACHE_LINE_SIZE c) (write_commit io 0 h0));
          h2 = mio_fence io (mio_clean io (MANIFEST_ADDRESS c) (MANIFEST_SIZE c)
                 (write_record io uncommitted h1));
          h3 = mio_fence io (mio_clean io last_line (CACHE_LINE_SIZE c)
                 (write_commit io (MANIFEST_COMMIT c) h2));
          h4 = mio_fence io (mio_invalidate io (MANIFEST_ADDRESS c) (MANIFEST_SIZE c) h3)
      in case read_record io h4 of (found, h5) \<Rightarrow> (manifest_equal found expected, h5))"

section \<open>Non-coherent memory\<close>

record ncmem =
  dram :: "nat \<Rightarrow> u8"
  cache :: "nat \<Rightarrow> u8 option"

datatype cache_op = WriteBack nat | Evict nat | Fill nat

definition cpu_read :: "ncmem \<Rightarrow> nat \<Rightarrow> u8" where
  "cpu_read m a = (case cache m a of Some b \<Rightarrow> b | None \<Rightarrow> dram m a)"

definition cpu_store :: "nat \<Rightarrow> u8 list \<Rightarrow> ncmem \<Rightarrow> ncmem" where
  "cpu_store addr bs m = m\<lparr>cache := (\<lambda>a.
     if addr \<le> a \<and> a < addr + length bs then Some (bs ! (a - addr)) else cache m a)\<rparr>"

definition write_back :: "nat \<Rightarrow> nat \<Rightarrow> ncmem \<Rightarrow> ncmem" where
  "write_back ls l m = m\<lparr>dram := (\<lambda>a. if a div ls = l then cpu_read m a else dram m a)\<rparr>"

definition drop_line :: "nat \<Rightarrow> nat \<Rightarrow> ncmem \<Rightarrow> ncmem" where
  "drop_line ls l m = m\<lparr>cache := (\<lambda>a. if a div ls = l then None else cache m a)\<rparr>"

definition fill_line :: "nat \<Rightarrow> nat \<Rightarrow> ncmem \<Rightarrow> ncmem" where
  "fill_line ls l m = m\<lparr>cache := (\<lambda>a. if a div ls = l then Some (cpu_read m a) else cache m a)\<rparr>"

fun cache_step :: "nat \<Rightarrow> cache_op \<Rightarrow> ncmem \<Rightarrow> ncmem" where
  "cache_step ls (WriteBack l) m = write_back ls l m"
| "cache_step ls (Evict l) m = drop_line ls l (write_back ls l m)"
| "cache_step ls (Fill l) m = fill_line ls l m"

definition mem_bytes :: "(nat \<Rightarrow> u8) \<Rightarrow> nat \<Rightarrow> nat \<Rightarrow> u8 list" where
  "mem_bytes f addr n = map f [addr..<addr + n]"

text \<open>The lines a cache maintenance call on a range touches.\<close>

definition range_lines :: "nat \<Rightarrow> nat \<Rightarrow> nat \<Rightarrow> nat list" where
  "range_lines ls addr len = [addr div ls..<(addr + len + ls - 1) div ls]"

section \<open>The interface on shared memory\<close>

record manifest_mem =
  mm_mem :: ncmem
  mm_weather :: "cache_op list list"
  mm_seen :: "(nat \<Rightarrow> u8) list"

definition see :: "(ncmem \<Rightarrow> ncmem) \<Rightarrow> manifest_mem \<Rightarrow> manifest_mem" where
  "see f s = s\<lparr>mm_mem := f (mm_mem s), mm_seen := mm_seen s @ [dram (f (mm_mem s))]\<rparr>"

definition weather :: "nat \<Rightarrow> manifest_mem \<Rightarrow> manifest_mem" where
  "weather ls s = (case mm_weather s of
     [] \<Rightarrow> s
   | ops # rest \<Rightarrow> fold (\<lambda>op. see (cache_step ls op)) ops (s\<lparr>mm_weather := rest\<rparr>))"

definition shared_manifest_io :: "contract \<Rightarrow> manifest_mem manifest_io" where
  "shared_manifest_io c =
     (let ls = CACHE_LINE_SIZE c; act = (\<lambda>f s. weather ls (see f s)) in
      \<lparr>write_commit = (\<lambda>v. act (cpu_store (MANIFEST_ADDRESS c + MANIFEST_SIZE c - 4) (to_le 4 v))),
       write_record = (\<lambda>m. act (cpu_store (MANIFEST_ADDRESS c) (encode_manifest m))),
       mio_clean = (\<lambda>addr len. fold (\<lambda>l. act (write_back ls l)) (range_lines ls addr len)),
       mio_fence = weather ls,
       mio_invalidate = (\<lambda>addr len. fold (\<lambda>l. act (drop_line ls l)) (range_lines ls addr len)),
       read_record = (\<lambda>s. (decode_manifest
          (mem_bytes (cpu_read (mm_mem s)) (MANIFEST_ADDRESS c) (MANIFEST_SIZE c)), weather ls s))\<rparr>)"

definition publish_manifest :: "contract \<Rightarrow> u32 \<Rightarrow> manifest_mem \<Rightarrow> bool \<times> manifest_mem" where
  "publish_manifest c generation = publish_manifest_with c (shared_manifest_io c) generation"

section \<open>Facts about the wire image\<close>

lemma manifest_equal_iff: "manifest_equal a b \<longleftrightarrow> a = b"
  by (auto simp: manifest_equal_def)

lemma length_manifest_body:
  "length (mf_contract_sha256 m) = 32 \<Longrightarrow> length (mf_reserved1 m) = 28 \<Longrightarrow>
    length (manifest_body m) = 124"
  by (simp add: manifest_body_def)

lemma decode_encode_manifest:
  assumes "length (mf_contract_sha256 m) = 32" "length (mf_reserved1 m) = 28"
  shows "decode_manifest (encode_manifest m) = m"
  using assms
  by (simp add: decode_manifest_def encode_manifest_def manifest_body_def slice_def from_to_le)

lemma expected_manifest_body:
  "manifest_body (expected_manifest c g v) = manifest_body (expected_manifest c g v')"
  by (simp add: manifest_body_def expected_manifest_def)

section \<open>Facts about the memory\<close>

lemmas mem_defs = cpu_read_def cpu_store_def write_back_def drop_line_def fill_line_def

text \<open>
  \<open>between ls R A X S m\<close>: on the addresses \<open>R\<close> the processor sees \<open>X\<close>, and every line of
  DRAM holds \<open>X\<close> or, unless it is one of the lines \<open>S\<close>, still holds \<open>A\<close>.
\<close>

definition line_eq :: "nat \<Rightarrow> nat set \<Rightarrow> (nat \<Rightarrow> u8) \<Rightarrow> (nat \<Rightarrow> u8) \<Rightarrow> nat \<Rightarrow> bool" where
  "line_eq ls R f g l \<longleftrightarrow> (\<forall>a\<in>R. a div ls = l \<longrightarrow> f a = g a)"

definition between ::
    "nat \<Rightarrow> nat set \<Rightarrow> (nat \<Rightarrow> u8) \<Rightarrow> (nat \<Rightarrow> u8) \<Rightarrow> nat set \<Rightarrow> ncmem \<Rightarrow> bool" where
  "between ls R A X S m \<longleftrightarrow> (\<forall>a\<in>R. cpu_read m a = X a) \<and>
     (\<forall>l. line_eq ls R (dram m) X l \<or> l \<notin> S \<and> line_eq ls R (dram m) A l)"

lemma cpu_read_simps [simp]:
  "cpu_read (write_back ls l m) a = cpu_read m a"
  "cpu_read (fill_line ls l m) a = cpu_read m a"
  "cpu_read (drop_line ls l m) a = (if a div ls = l then dram m a else cpu_read m a)"
  "dram (drop_line ls l m) = dram m"
  "dram (fill_line ls l m) = dram m"
  "dram (write_back ls l m) a = (if a div ls = l then cpu_read m a else dram m a)"
  "dram (cpu_store addr bs m) = dram m"
  by (auto simp: mem_defs split: option.splits)

lemma line_eq_write_back:
  "line_eq ls R (dram (write_back ls l m)) Y k \<longleftrightarrow>
     (if k = l then line_eq ls R (cpu_read m) Y k else line_eq ls R (dram m) Y k)"
  by (auto simp: line_eq_def)

lemma between_write_back:
  assumes "between ls R A X S m"
  shows "between ls R A X (insert l S) (write_back ls l m)"
proof -
  have "line_eq ls R (cpu_read m) X l" using assms by (simp add: between_def line_eq_def)
  then show ?thesis using assms by (simp add: between_def line_eq_write_back)
qed

lemma between_drop:
  assumes "between ls R A X S m" "l \<in> S"
  shows "between ls R A X S (drop_line ls l m)"
proof -
  have "line_eq ls R (dram m) X l" using assms by (auto simp: between_def)
  then show ?thesis using assms by (simp add: between_def line_eq_def)
qed

lemma between_subset: "between ls R A X S m \<Longrightarrow> T \<subseteq> S \<Longrightarrow> between ls R A X T m"
  unfolding between_def by blast

lemma between_cache_step:
  assumes "between ls R A X S m"
  shows "between ls R A X S (cache_step ls op m)"
proof (cases op)
  case (WriteBack l)
  show ?thesis using between_write_back [OF assms, of l] WriteBack by (auto elim: between_subset)
next
  case (Evict l)
  show ?thesis using between_drop [OF between_write_back [OF assms, of l], of l] Evict
    by (auto elim: between_subset)
qed (use assms in \<open>simp add: between_def\<close>)

lemma between_store:
  assumes "between ls R A X UNIV m" "\<forall>a\<in>R. X' a = cpu_read (cpu_store addr bs m) a"
  shows "between ls R X X' {} (cpu_store addr bs m)"
  using assms unfolding between_def by auto

text \<open>The same for the machine with its schedule and its observations.\<close>

definition phase ::
    "nat \<Rightarrow> nat set \<Rightarrow> ((nat \<Rightarrow> u8) \<Rightarrow> bool) \<Rightarrow> (nat \<Rightarrow> u8) \<Rightarrow> (nat \<Rightarrow> u8) \<Rightarrow> nat set \<Rightarrow> manifest_mem \<Rightarrow> bool"
where
  "phase ls R Q A X S s \<longleftrightarrow> between ls R A X S (mm_mem s) \<and> (\<forall>d\<in>set (mm_seen s). Q d) \<and>
     (\<forall>S m. between ls R A X S m \<longrightarrow> Q (dram m))"

lemma see_simps [simp]:
  "mm_mem (see f s) = f (mm_mem s)" "mm_seen (see f s) = mm_seen s @ [dram (f (mm_mem s))]"
  by (simp_all add: see_def)

lemma phase_see:
  "phase ls R Q A X S s \<Longrightarrow> between ls R A X T (f (mm_mem s)) \<Longrightarrow> phase ls R Q A X T (see f s)"
  by (auto simp: phase_def)

lemma phase_weather: "phase ls R Q A X S s \<Longrightarrow> phase ls R Q A X S (weather ls s)"
proof -
  assume p: "phase ls R Q A X S s"
  have "phase ls R Q A X S (fold (\<lambda>op. see (cache_step ls op)) ops t)"
    if "phase ls R Q A X S t" for ops t
    using that
  proof (induction ops arbitrary: t)
    case (Cons op ops)
    have "phase ls R Q A X S (see (cache_step ls op) t)"
      using Cons.prems by (auto simp: phase_def intro: between_cache_step intro!: phase_see)
    then show ?case using Cons.IH by simp
  qed simp
  moreover have "phase ls R Q A X S (s\<lparr>mm_weather := rest\<rparr>)" for rest
    using p by (simp add: phase_def)
  ultimately show ?thesis using p by (simp add: weather_def split: list.split)
qed

lemma phase_clean:
  "phase ls R Q A X S s \<Longrightarrow>
    phase ls R Q A X (S \<union> set lines) (fold (\<lambda>l s. weather ls (see (write_back ls l) s)) lines s)"
proof (induction lines arbitrary: S s)
  case (Cons l lines)
  have "phase ls R Q A X (insert l S) (weather ls (see (write_back ls l) s))"
    using Cons.prems by (intro phase_weather phase_see) (auto simp: phase_def intro: between_write_back)
  from Cons.IH [OF this] show ?case by simp
qed simp

lemma phase_invalidate:
  "phase ls R Q A X S s \<Longrightarrow> set lines \<subseteq> S \<Longrightarrow>
    phase ls R Q A X S (fold (\<lambda>l s. weather ls (see (drop_line ls l) s)) lines s)"
proof (induction lines arbitrary: s)
  case (Cons l lines)
  have "phase ls R Q A X S (weather ls (see (drop_line ls l) s))"
    using Cons.prems by (intro phase_weather phase_see) (auto simp: phase_def intro: between_drop)
  then show ?case using Cons.IH Cons.prems by simp
qed simp

section \<open>Publication over shared memory\<close>

text \<open>What the contract compiler fixes about the place of the manifest: a 128-byte record that
  starts on a cache line and fills whole lines.\<close>

definition manifest_layout_ok :: "contract \<Rightarrow> bool" where
  "manifest_layout_ok c \<longleftrightarrow> 4 \<le> CACHE_LINE_SIZE c \<and> MANIFEST_SIZE c = 128 \<and>
     CACHE_LINE_SIZE c dvd MANIFEST_ADDRESS c \<and> CACHE_LINE_SIZE c dvd MANIFEST_SIZE c \<and>
     length (CONTRACT_SHA256 c) = 32 \<and> MANIFEST_COMMIT c \<noteq> 0"

abbreviation manifest_range :: "contract \<Rightarrow> nat set" where
  "manifest_range c \<equiv> {MANIFEST_ADDRESS c..<MANIFEST_ADDRESS c + 128}"

text \<open>Memory contents inside the range, as a function of the address.\<close>

definition image_at :: "nat \<Rightarrow> u8 list \<Rightarrow> nat \<Rightarrow> u8" where
  "image_at addr bs a = bs ! (a - addr)"

text \<open>What Linux may find in DRAM: no valid commit, the whole old manifest or the whole new one.\<close>

definition lawful_manifest :: "contract \<Rightarrow> u32 \<Rightarrow> (nat \<Rightarrow> u8) \<Rightarrow> (nat \<Rightarrow> u8) \<Rightarrow> bool" where
  "lawful_manifest c g old d \<longleftrightarrow>
     (let bs = mem_bytes d (MANIFEST_ADDRESS c) 128 in
      mf_commit (decode_manifest bs) \<noteq> MANIFEST_COMMIT c \<or>
      bs = mem_bytes old (MANIFEST_ADDRESS c) 128 \<or>
      bs = encode_manifest (expected_manifest c g (MANIFEST_COMMIT c)))"

lemma mem_bytes_eqI: "(\<And>a. a \<in> {addr..<addr + n} \<Longrightarrow> f a = g a) \<Longrightarrow> mem_bytes f addr n = mem_bytes g addr n"
  by (simp add: mem_bytes_def)

lemma mem_bytes_image_at: "length bs = n \<Longrightarrow> mem_bytes (image_at addr bs) addr n = bs"
  by (rule nth_equalityI) (simp_all add: mem_bytes_def image_at_def)

lemma between_all:
  "between ls R A X UNIV m \<Longrightarrow> a \<in> R \<Longrightarrow> dram m a = X a"
  by (auto simp: between_def line_eq_def)

lemma between_dram:
  assumes "between ls R A X S m" "a \<in> R"
  shows "dram m a = A a \<or> dram m a = X a"
  using assms unfolding between_def line_eq_def by metis

lemma between_lines:
  assumes "between ls R A X S m" "\<And>a. a \<in> R \<Longrightarrow> a div ls \<in> S \<or> A a = X a"
  shows "between ls R X X UNIV m"
proof -
  have "dram m a = X a" if "a \<in> R" for a
    using assms(1) assms(2) [OF that] that unfolding between_def line_eq_def by metis
  then show ?thesis using assms(1) by (simp add: between_def line_eq_def)
qed

lemma phase_relax:
  assumes "phase ls R Q A X S s" "\<And>a. a \<in> R \<Longrightarrow> a div ls \<in> S \<or> A a = X a"
  shows "phase ls R Q X X UNIV s"
proof -
  have "between ls R A X S' m" if "between ls R X X S' m" for S' m
    using that by (auto simp: between_def)
  then show ?thesis
    using assms between_lines [of ls R A X S "mm_mem s"] unfolding phase_def by blast
qed

lemma phase_store:
  assumes "phase ls R Q X X UNIV s" "\<And>a. a \<in> R \<Longrightarrow> X' a = cpu_read (cpu_store addr bs (mm_mem s)) a"
    "\<And>S m. between ls R X X' S m \<Longrightarrow> Q (dram m)"
  shows "phase ls R Q X X' {} (weather ls (see (cpu_store addr bs) s))"
proof -
  have "between ls R X X' {} (cpu_store addr bs (mm_mem s))"
    using assms(1,2) by (intro between_store) (auto simp: phase_def)
  then show ?thesis
    using assms by (intro phase_weather) (auto simp: phase_def)
qed

text \<open>The last line of the manifest, the one that holds the commit word.\<close>

definition commit_line :: "contract \<Rightarrow> nat" where
  "commit_line c = (MANIFEST_ADDRESS c + 124) div CACHE_LINE_SIZE c"

lemma commit_line_bounds:
  assumes "manifest_layout_ok c"
  shows "MANIFEST_ADDRESS c + 128 = CACHE_LINE_SIZE c * commit_line c + CACHE_LINE_SIZE c"
proof -
  let ?ls = "CACHE_LINE_SIZE c"
  have ls: "4 \<le> ?ls" "?ls dvd MANIFEST_ADDRESS c" "?ls dvd 128"
    using assms by (auto simp: manifest_layout_ok_def)
  then have "?ls dvd MANIFEST_ADDRESS c + 128" by (simp add: dvd_add)
  then obtain k where k: "MANIFEST_ADDRESS c + 128 = ?ls * k" by (elim dvdE)
  then obtain j where j: "k = Suc j" by (cases k) auto
  have "(MANIFEST_ADDRESS c + 124) div ?ls = j"
    using k j ls(1) by (intro div_nat_eqI) (auto simp: algebra_simps)
  then show ?thesis using k j by (simp add: commit_line_def)
qed

lemma commit_line_eq:
  assumes "manifest_layout_ok c" "a \<in> manifest_range c" "MANIFEST_ADDRESS c + 124 \<le> a"
  shows "a div CACHE_LINE_SIZE c = commit_line c"
proof -
  have "4 \<le> CACHE_LINE_SIZE c" using assms(1) by (simp add: manifest_layout_ok_def)
  then show ?thesis
    using commit_line_bounds [OF assms(1)] assms(2,3)
    by (intro div_nat_eqI) (auto simp: algebra_simps)
qed

lemma range_lines_last:
  assumes "manifest_layout_ok c"
  shows "range_lines (CACHE_LINE_SIZE c) (MANIFEST_ADDRESS c + MANIFEST_SIZE c - CACHE_LINE_SIZE c)
    (CACHE_LINE_SIZE c) = [commit_line c]"
proof -
  let ?ls = "CACHE_LINE_SIZE c"
  have ls: "4 \<le> ?ls" "MANIFEST_SIZE c = 128" using assms by (auto simp: manifest_layout_ok_def)
  have "(?ls * commit_line c + ?ls + ?ls - 1) div ?ls = Suc (commit_line c)"
    using ls by (intro div_nat_eqI) (auto simp: algebra_simps)
  then show ?thesis
    using commit_line_bounds [OF assms] ls by (simp add: range_lines_def)
qed

lemma range_lines_all:
  assumes "0 < ls" "a \<in> {addr..<addr + n}"
  shows "a div ls \<in> set (range_lines ls addr n)"
proof -
  have "addr div ls \<le> a div ls" using assms(2) by (simp add: div_le_mono)
  moreover have "a div ls < (addr + n + ls - 1) div ls"
  proof -
    have "(a + ls) div ls \<le> (addr + n + ls - 1) div ls" using assms by (intro div_le_mono) auto
    then show ?thesis using assms(1) by (simp add: div_add_self2)
  qed
  ultimately show ?thesis by (simp add: range_lines_def)
qed

lemma commit_of_bytes:
  "mf_commit (decode_manifest (mem_bytes d addr 128)) = from_le (mem_bytes d (addr + 124) 4)"
  by (simp add: decode_manifest_def mem_bytes_def slice_def drop_map take_map drop_upt take_upt
      add.commute [of addr])

lemma commit_zero:
  assumes "manifest_layout_ok c" "\<And>a. a \<in> manifest_range c \<Longrightarrow> MANIFEST_ADDRESS c + 124 \<le> a \<Longrightarrow> d a = 0"
  shows "lawful_manifest c g old d"
proof -
  have "mem_bytes d (MANIFEST_ADDRESS c + 124) 4 = replicate 4 0"
    using assms(2) by (simp add: mem_bytes_def list_eq_iff_nth_eq)
  then have "from_le (mem_bytes d (MANIFEST_ADDRESS c + 124) 4) = (0 :: u32)"
    by (simp add: numeral_eq_Suc)
  then show ?thesis
    using assms(1) by (simp add: lawful_manifest_def commit_of_bytes manifest_layout_ok_def)
qed

text \<open>When two images differ in the commit word only, DRAM holds one of them completely.\<close>

lemma between_commit:
  assumes "manifest_layout_ok c" "between (CACHE_LINE_SIZE c) (manifest_range c) A X S m"
    "\<And>a. a \<in> manifest_range c \<Longrightarrow> a < MANIFEST_ADDRESS c + 124 \<Longrightarrow> A a = X a"
  shows "(\<forall>a\<in>manifest_range c. dram m a = A a) \<or> (\<forall>a\<in>manifest_range c. dram m a = X a)"
proof -
  have other: "dram m a = X a" if "a \<in> manifest_range c" "a < MANIFEST_ADDRESS c + 124" for a
    using assms(2) assms(3) [OF that] that(1) unfolding between_def line_eq_def by metis
  have "line_eq (CACHE_LINE_SIZE c) (manifest_range c) (dram m) A (commit_line c) \<or>
      line_eq (CACHE_LINE_SIZE c) (manifest_range c) (dram m) X (commit_line c)"
    using assms(2) by (auto simp: between_def)
  then show ?thesis
    using other assms(3) commit_line_eq [OF assms(1)] unfolding line_eq_def by (metis not_le)
qed

text \<open>The four images the range goes through.\<close>

definition erased_image :: "contract \<Rightarrow> (nat \<Rightarrow> u8) \<Rightarrow> nat \<Rightarrow> u8" where
  "erased_image c old a = (if MANIFEST_ADDRESS c + 124 \<le> a then 0 else old a)"

definition new_image :: "contract \<Rightarrow> u32 \<Rightarrow> u32 \<Rightarrow> nat \<Rightarrow> u8" where
  "new_image c g commit = image_at (MANIFEST_ADDRESS c) (encode_manifest (expected_manifest c g commit))"

lemma length_expected_manifest:
  assumes "manifest_layout_ok c"
  shows "length (manifest_body (expected_manifest c g v)) = 124"
    "length (encode_manifest (expected_manifest c g v)) = 128"
  using assms
  by (simp_all add: encode_manifest_def length_manifest_body manifest_layout_ok_def expected_manifest_def)

lemma to_le_zero: "to_le n 0 = replicate n 0"
  by (simp add: list_eq_iff_nth_eq nth_to_le)

lemma new_image_commit:
  assumes "manifest_layout_ok c" "a \<in> manifest_range c" "MANIFEST_ADDRESS c + 124 \<le> a"
  shows "new_image c g v a = to_le 4 v ! (a - (MANIFEST_ADDRESS c + 124))"
proof -
  have "mf_commit (expected_manifest c g v) = v" by (simp add: expected_manifest_def)
  moreover have "\<not> a - MANIFEST_ADDRESS c < 124" using assms(3) by linarith
  ultimately show ?thesis
    using length_expected_manifest(1) [OF assms(1), of g v]
    by (simp add: new_image_def image_at_def encode_manifest_def nth_append)
qed

lemma new_image_body:
  assumes "manifest_layout_ok c" "a \<in> manifest_range c" "a < MANIFEST_ADDRESS c + 124"
  shows "new_image c g v a = new_image c g w a"
  using assms(2,3) length_expected_manifest(1) [OF assms(1)] expected_manifest_body [of c g v w]
  by (simp add: new_image_def image_at_def encode_manifest_def nth_append less_diff_conv2)

lemma lawful_erase:
  assumes lay: "manifest_layout_ok c"
    and btw: "between (CACHE_LINE_SIZE c) (manifest_range c) old (erased_image c old) S m"
  shows "lawful_manifest c g old (dram m)"
proof -
  have "(\<forall>a\<in>manifest_range c. dram m a = old a) \<or>
      (\<forall>a\<in>manifest_range c. dram m a = erased_image c old a)"
    using lay btw by (rule between_commit) (simp add: erased_image_def)
  then show ?thesis
  proof (elim disjE)
    assume "\<forall>a\<in>manifest_range c. dram m a = old a"
    then show ?thesis by (simp add: lawful_manifest_def Let_def mem_bytes_def)
  qed (auto simp: erased_image_def intro: commit_zero [OF lay])
qed

lemma lawful_replace:
  assumes lay: "manifest_layout_ok c"
    and btw: "between (CACHE_LINE_SIZE c) (manifest_range c) (erased_image c old) (new_image c g 0) S m"
  shows "lawful_manifest c g old (dram m)"
proof (rule commit_zero [OF lay])
  fix a assume a: "a \<in> manifest_range c" "MANIFEST_ADDRESS c + 124 \<le> a"
  have "new_image c g 0 a = 0"
    using new_image_commit [OF lay a] a by (simp add: to_le_zero)
  moreover have "erased_image c old a = 0" using a by (simp add: erased_image_def)
  moreover have "dram m a = erased_image c old a \<or> dram m a = new_image c g 0 a"
    using btw a(1) by (rule between_dram)
  ultimately show "dram m a = 0" by auto
qed

lemma lawful_commit:
  assumes lay: "manifest_layout_ok c"
    and btw: "between (CACHE_LINE_SIZE c) (manifest_range c) (new_image c g 0)
      (new_image c g (MANIFEST_COMMIT c)) S m"
  shows "lawful_manifest c g old (dram m)"
proof (cases "\<forall>a\<in>manifest_range c. dram m a = new_image c g 0 a")
  case True
  then show ?thesis
    using new_image_commit [OF lay] by (intro commit_zero [OF lay]) (simp add: to_le_zero)
next
  case False
  have "(\<forall>a\<in>manifest_range c. dram m a = new_image c g 0 a) \<or>
      (\<forall>a\<in>manifest_range c. dram m a = new_image c g (MANIFEST_COMMIT c) a)"
    using lay btw by (rule between_commit) (rule new_image_body [OF lay])
  with False have *: "\<forall>a\<in>manifest_range c. dram m a = new_image c g (MANIFEST_COMMIT c) a"
    by blast
  have "mem_bytes (dram m) (MANIFEST_ADDRESS c) 128 =
      mem_bytes (new_image c g (MANIFEST_COMMIT c)) (MANIFEST_ADDRESS c) 128"
    using * by (intro mem_bytes_eqI) simp
  also have "\<dots> = encode_manifest (expected_manifest c g (MANIFEST_COMMIT c))"
    unfolding new_image_def using length_expected_manifest(2) [OF lay] by (rule mem_bytes_image_at)
  finally show ?thesis by (simp add: lawful_manifest_def Let_def)
qed

text \<open>The cache holds nothing dirty in the manifest range, as after reset.\<close>

definition manifest_clean :: "contract \<Rightarrow> ncmem \<Rightarrow> bool" where
  "manifest_clean c m \<longleftrightarrow>
     (\<forall>a\<in>manifest_range c. cache m a = None \<or> cache m a = Some (dram m a))"

lemma clean_phase:
  assumes "phase ls R Q A X {} s" "\<And>a. a \<in> R \<Longrightarrow> a div ls \<in> set lines \<or> A a = X a"
  shows "phase ls R Q X X UNIV
    (weather ls (fold (\<lambda>l s. weather ls (see (write_back ls l) s)) lines s))"
  using phase_relax [OF phase_weather [OF phase_clean [OF assms(1), of lines]]] assms(2) by simp

lemma cpu_read_store:
  "cpu_read (cpu_store addr bs m) a =
    (if addr \<le> a \<and> a < addr + length bs then bs ! (a - addr) else cpu_read m a)"
  by (simp add: cpu_read_def cpu_store_def split: option.split)

lemma publish_manifest_phases:
  fixes c g s
  defines "ls \<equiv> CACHE_LINE_SIZE c" and "R \<equiv> manifest_range c" and "old \<equiv> dram (mm_mem s)"
  assumes lay: "manifest_layout_ok c" and cl: "manifest_clean c (mm_mem s)"
    and seen: "mm_seen s = []"
  shows "\<exists>s'. publish_manifest c g s = (True, s') \<and>
    phase ls R (lawful_manifest c g old) (new_image c g (MANIFEST_COMMIT c))
      (new_image c g (MANIFEST_COMMIT c)) UNIV s'"
proof -
  let ?Q = "lawful_manifest c g old"
  let ?X1 = "erased_image c old" and ?X2 = "new_image c g 0" and ?X3 = "new_image c g (MANIFEST_COMMIT c)"
  define cln where "cln = (\<lambda>lines s. weather ls (fold (\<lambda>l s. weather ls (see (write_back ls l) s)) lines s))"
  define st where "st = (\<lambda>addr bs s. weather ls (see (cpu_store addr bs) s))"
  define all where "all = range_lines ls (MANIFEST_ADDRESS c) 128"
  define h1 where "h1 = cln [commit_line c] (st (MANIFEST_ADDRESS c + 124) (to_le 4 (0::u32)) s)"
  define h2 where "h2 = cln all (st (MANIFEST_ADDRESS c) (encode_manifest (expected_manifest c g 0)) h1)"
  define h3 where "h3 = cln [commit_line c] (st (MANIFEST_ADDRESS c + 124) (to_le 4 (MANIFEST_COMMIT c)) h2)"
  define h4 where "h4 = weather ls (fold (\<lambda>l s. weather ls (see (drop_line ls l) s)) all h3)"
  have ls: "0 < ls" "MANIFEST_SIZE c = 128" using lay by (auto simp: manifest_layout_ok_def ls_def)
  have same: "?Q (dram m)" if "\<forall>a\<in>R. dram m a = old a" for m
    using that by (simp add: lawful_manifest_def Let_def mem_bytes_def R_def)
  have commit: "a div ls \<in> set [commit_line c]" if "a \<in> R" "MANIFEST_ADDRESS c + 124 \<le> a" for a
    using commit_line_eq [OF lay] that by (simp add: R_def ls_def)
  have p0: "phase ls R ?Q old old UNIV s"
  proof -
    have "between ls R old old UNIV (mm_mem s)"
      using cl by (auto simp: between_def line_eq_def R_def old_def manifest_clean_def cpu_read_def
          split: option.split)
    moreover have "?Q (dram m)" if "between ls R old old S m" for S m
      using between_dram [OF that] by (intro same) blast
    ultimately show ?thesis using seen by (simp add: phase_def)
  qed
  have p1: "phase ls R ?Q ?X1 ?X1 UNIV h1"
    unfolding h1_def cln_def st_def
    using p0 commit lawful_erase [OF lay, of old] unfolding ls_def R_def
    by (intro clean_phase phase_store)
      (auto simp: erased_image_def cpu_read_store to_le_zero phase_def between_def)
  have p2: "phase ls R ?Q ?X2 ?X2 UNIV h2"
    unfolding h2_def cln_def st_def
    using p1 lawful_replace [OF lay, of old] range_lines_all [OF ls(1), of _ "MANIFEST_ADDRESS c" 128]
      length_expected_manifest(2) [OF lay]
    by (intro clean_phase phase_store)
      (auto simp: new_image_def image_at_def cpu_read_store all_def R_def ls_def)
  have p3: "phase ls R ?Q ?X3 ?X3 UNIV h3"
  proof -
    have img: "?X3 a =
        cpu_read (cpu_store (MANIFEST_ADDRESS c + 124) (to_le 4 (MANIFEST_COMMIT c)) (mm_mem h2)) a"
      if "a \<in> R" for a
      using that p2 new_image_commit [OF lay] new_image_body [OF lay]
      by (auto simp: cpu_read_store R_def phase_def between_def)
    have same: "a div ls \<in> set [commit_line c] \<or> ?X2 a = ?X3 a" if "a \<in> R" for a
      using that commit new_image_body [OF lay] by (metis R_def not_le)
    have "phase ls R ?Q ?X2 ?X3 {}
        (st (MANIFEST_ADDRESS c + 124) (to_le 4 (MANIFEST_COMMIT c)) h2)"
      unfolding st_def by (rule phase_store [OF p2 img]) (use lawful_commit [OF lay] in \<open>simp_all add: ls_def R_def\<close>)
    then show ?thesis unfolding h3_def cln_def by (rule clean_phase) (rule same)
  qed
  have p4: "phase ls R ?Q ?X3 ?X3 UNIV h4"
    unfolding h4_def by (intro phase_weather phase_invalidate p3) simp
  have "mem_bytes (cpu_read (mm_mem h4)) (MANIFEST_ADDRESS c) 128 = mem_bytes ?X3 (MANIFEST_ADDRESS c) 128"
    using p4 by (intro mem_bytes_eqI) (simp add: phase_def between_def R_def)
  also have "\<dots> = encode_manifest (expected_manifest c g (MANIFEST_COMMIT c))"
    unfolding new_image_def using length_expected_manifest(2) [OF lay] by (rule mem_bytes_image_at)
  finally have rd: "decode_manifest (mem_bytes (cpu_read (mm_mem h4)) (MANIFEST_ADDRESS c) 128) =
      expected_manifest c g (MANIFEST_COMMIT c)"
    using lay by (simp add: decode_encode_manifest expected_manifest_def manifest_layout_ok_def)
  have "publish_manifest c g s = (True, weather ls h4)"
    using rd range_lines_last [OF lay] ls(2)
    by (simp add: add.commute [of "MANIFEST_ADDRESS c"] publish_manifest_def publish_manifest_with_def shared_manifest_io_def Let_def
        manifest_equal_iff h4_def h3_def h2_def h1_def cln_def st_def all_def ls_def)
  moreover have "phase ls R ?Q ?X3 ?X3 UNIV (weather ls h4)" using p4 by (rule phase_weather)
  ultimately show ?thesis by blast
qed

section \<open>Properties\<close>

text \<open>C13: manifest publication is atomic for Linux. Whatever lines the cache writes back, evicts or
  fills between any two steps, every DRAM content that Linux can observe during publication has
  no valid commit word, or is still the complete old manifest, or is the complete new one; and
  publication ends with success and the complete new manifest in DRAM, which decodes to the
  expected record.\<close>

theorem publish_manifest_atomic:
  assumes "manifest_layout_ok c" "manifest_clean c (mm_mem s)" "mm_seen s = []"
  shows "\<exists>s'. publish_manifest c g s = (True, s') \<and>
    (\<forall>d\<in>set (mm_seen s'). lawful_manifest c g (dram (mm_mem s)) d) \<and>
    mem_bytes (dram (mm_mem s')) (MANIFEST_ADDRESS c) 128 =
      encode_manifest (expected_manifest c g (MANIFEST_COMMIT c)) \<and>
    decode_manifest (mem_bytes (dram (mm_mem s')) (MANIFEST_ADDRESS c) 128) =
      expected_manifest c g (MANIFEST_COMMIT c)"
proof -
  obtain s' where s': "publish_manifest c g s = (True, s')"
    "phase (CACHE_LINE_SIZE c) (manifest_range c) (lawful_manifest c g (dram (mm_mem s)))
      (new_image c g (MANIFEST_COMMIT c)) (new_image c g (MANIFEST_COMMIT c)) UNIV s'"
    using publish_manifest_phases [OF assms] by blast
  then have "mem_bytes (dram (mm_mem s')) (MANIFEST_ADDRESS c) 128 =
      mem_bytes (new_image c g (MANIFEST_COMMIT c)) (MANIFEST_ADDRESS c) 128"
    by (intro mem_bytes_eqI) (auto simp: phase_def intro: between_all)
  also have "\<dots> = encode_manifest (expected_manifest c g (MANIFEST_COMMIT c))"
    unfolding new_image_def using length_expected_manifest(2) [OF assms(1)] by (rule mem_bytes_image_at)
  finally have img: "mem_bytes (dram (mm_mem s')) (MANIFEST_ADDRESS c) 128 =
      encode_manifest (expected_manifest c g (MANIFEST_COMMIT c))" .
  moreover have "decode_manifest (encode_manifest (expected_manifest c g (MANIFEST_COMMIT c))) =
      expected_manifest c g (MANIFEST_COMMIT c)"
    using assms(1) by (simp add: decode_encode_manifest expected_manifest_def manifest_layout_ok_def)
  ultimately show ?thesis using s' by (auto simp: phase_def)
qed

lemma timer_manifest_layout: "manifest_layout_ok timer_contract"
  by (simp add: manifest_layout_ok_def timer_contract_def)

theorem publish_manifest_atomic_witness:
  "\<exists>s'. publish_manifest timer_contract 7 \<lparr>mm_mem = \<lparr>dram = (\<lambda>a. 0xff), cache = (\<lambda>a. None)\<rparr>,
       mm_weather = [[Evict 0x23fc002, Fill 0x23fc001], [], [WriteBack 0x23fc001]], mm_seen = []\<rparr> = (True, s') \<and>
     mf_generation (decode_manifest (mem_bytes (dram (mm_mem s')) 0x8ff00040 128)) = 7"
proof -
  let ?s = "\<lparr>mm_mem = \<lparr>dram = (\<lambda>a. 0xff), cache = (\<lambda>a. None)\<rparr>,
       mm_weather = [[Evict 0x23fc002, Fill 0x23fc001], [], [WriteBack 0x23fc001]], mm_seen = []\<rparr>"
  have "manifest_clean timer_contract (mm_mem ?s)" by (simp add: manifest_clean_def)
  from publish_manifest_atomic [OF timer_manifest_layout this, of 7] show ?thesis
    by (auto simp: expected_manifest_def timer_contract_def)
qed

end
