(* ===== verification/Control.thy ===== *)
theory Control
  imports Manifest
begin

text \<open>
  Boot and the control task, \<open>firmware/sg2002-c906l/src/lib.rs\<close>.

  \<open>c906l_rust_main\<close> publishes the booting status and the manifest and starts the scheduler;
  \<open>control_task\<close> answers mailbox requests, keeps the heartbeat and publishes the status at the
  end of every turn. The functions of the C shim (\<open>extern "C"\<close>), the status cacheline, the
  RPMsg and the LCD modules are the fields of \<open>task_env\<close>, arbitrary functions of an arbitrary
  hardware state; a blocking receive is one of them, so every interleaving of mailbox traffic
  is some behaviour of the environment. The shim itself is modelled in \<open>Shim\<close> and put under the
  control task in \<open>Shim_Control\<close>.
\<close>

section \<open>The environment\<close>

record 'h task_env =
  te_act :: "'h activation_env"
  te_rpmsg_initialize :: "'h \<Rightarrow> 'h"
  te_read_status :: "'h \<Rightarrow> status \<times> 'h"
  te_publish_manifest :: "u32 \<Rightarrow> 'h \<Rightarrow> bool \<times> 'h"
  te_platform_start :: "'h \<Rightarrow> bool \<times> 'h"
  te_request_receive :: "u32 \<Rightarrow> 'h \<Rightarrow> u64 option \<times> 'h"
  te_response_send :: "u64 \<Rightarrow> 'h \<Rightarrow> bool \<times> 'h"
  te_request_drops :: "'h \<Rightarrow> u32 \<times> 'h"
  te_mailbox_lock_failures :: "'h \<Rightarrow> u32 \<times> 'h"
  te_unexpected_mailbox_events :: "'h \<Rightarrow> u32 \<times> 'h"
  te_ticks :: "'h \<Rightarrow> u32 \<times> 'h"
  te_lcd_initialize_generation :: "(u32 \<Rightarrow> 'h \<Rightarrow> 'h) option"
  te_lcd_faulted :: "('h \<Rightarrow> bool \<times> 'h) option"

definition observe :: "('h \<Rightarrow> 'v \<times> 'h) \<Rightarrow> 'h control \<Rightarrow> 'v \<times> 'h control" where
  "observe f s = (case f (ctl_hw s) of (v, h) \<Rightarrow> (v, s\<lparr>ctl_hw := h\<rparr>))"

section \<open>Boot\<close>

definition zero_status :: "contract \<Rightarrow> status" where
  "zero_status c =
     \<lparr>st_magic = 0, st_abi_major = 0, st_abi_minor = 0, st_struct_size = 0, st_state = 0,
      st_generation = 0, st_flags = 0, st_heartbeat = 0, st_capabilities = 0,
      st_last_request = 0, st_last_response = 0,
      st_activation_state = ACTIVATION_STATE_INITIALIZING c, st_activation_error = 0,
      st_activation_attempts = 0, st_activation_request_id = 0\<rparr>"

definition next_generation :: "contract \<Rightarrow> status \<Rightarrow> u32" where
  "next_generation c previous =
     (let previous_generation =
        (if st_magic previous = SHMEM_MAGIC c \<and> st_abi_major previous = ABI_MAJOR c
            \<and> st_struct_size previous = of_nat (STATUS_SIZE c)
         then st_generation previous else 0);
        generation = previous_generation + 1
      in if generation = 0 then 1 else generation)"

definition initial_status :: "contract \<Rightarrow> status \<Rightarrow> status" where
  "initial_status c previous =
     \<lparr>st_magic = SHMEM_MAGIC c, st_abi_major = ABI_MAJOR c, st_abi_minor = ABI_MINOR c,
      st_struct_size = of_nat (STATUS_SIZE c), st_state = STATE_BOOTING c,
      st_generation = next_generation c previous, st_flags = 0, st_heartbeat = 0,
      st_capabilities = DORMANT_CAPABILITIES c, st_last_request = 0, st_last_response = 0,
      st_activation_state = ACTIVATION_STATE_INITIALIZING c, st_activation_error = 0,
      st_activation_attempts = 0, st_activation_request_id = 0\<rparr>"

datatype boot_end = ManifestFault | SchedulerStarted | StartFailed

definition c906l_rust_main :: "contract \<Rightarrow> 'h task_env \<Rightarrow> 'h \<Rightarrow> boot_end \<times> 'h control" where
  "c906l_rust_main c env h0 =
     (case te_read_status env (te_rpmsg_initialize env h0) of (previous, h1) \<Rightarrow>
      let status = initial_status c previous;
          h2 = (case te_lcd_initialize_generation env of None \<Rightarrow> h1
                | Some initialize \<Rightarrow> initialize (st_generation status) h1);
          s = publish (te_act env)
                \<lparr>ctl_status = status, ctl_accepted = None, ctl_hw = h2, ctl_log = []\<rparr>
      in case observe (te_publish_manifest env (st_generation status)) s of (published, s1) \<Rightarrow>
         if \<not> published
         then (ManifestFault, publish (te_act env) (upd_status (\<lambda>st. st
                \<lparr>st_flags := st_flags st OR FLAG_MANIFEST_FAULT c,
                 st_state := STATE_FAULT c,
                 st_activation_error := ucast (ACTIVATION_RESULT_INTERNAL_FAILURE c)\<rparr>) s1))
         else case observe (te_platform_start env) s1 of (started, s2) \<Rightarrow>
           if started then (SchedulerStarted, s2)
           else case observe (te_mailbox_lock_failures env) s2 of (failures, s3) \<Rightarrow>
             (StartFailed, publish (te_act env) (upd_status (\<lambda>st. st
                \<lparr>st_flags := st_flags st OR mailbox_diagnostic_flags c 0 failures 0,
                 st_state := STATE_FAULT c,
                 st_activation_error := ucast (ACTIVATION_RESULT_INTERNAL_FAILURE c)\<rparr>) s3)))"

text \<open>The panic handler publishes a fresh record, whatever the control task was doing.\<close>

definition panic_status :: "contract \<Rightarrow> status" where
  "panic_status c = (zero_status c)
     \<lparr>st_magic := SHMEM_MAGIC c, st_abi_major := ABI_MAJOR c, st_abi_minor := ABI_MINOR c,
      st_struct_size := of_nat (STATUS_SIZE c), st_state := STATE_FAULT c,
      st_activation_error := ucast (ACTIVATION_RESULT_INTERNAL_FAILURE c)\<rparr>"

section \<open>The control task\<close>

record 'h task =
  tk_ctl :: "'h control"
  tk_next_heartbeat :: u32

definition start_status :: "contract \<Rightarrow> status \<Rightarrow> status" where
  "start_status c st =
     (let running = st\<lparr>st_state := STATE_RUNNING c\<rparr>
      in if ACTIVATION_REQUIRED c
         then running\<lparr>st_activation_state := ACTIVATION_STATE_DORMANT c\<rparr>
         else running\<lparr>st_capabilities := EXPECTED_CAPABILITIES c,
                      st_activation_state := ACTIVATION_STATE_ACTIVE c\<rparr>)"

definition control_start :: "contract \<Rightarrow> 'h task_env \<Rightarrow> 'h \<Rightarrow> 'h task" where
  "control_start c env h =
     (case te_read_status env h of (status, h1) \<Rightarrow>
      let s = publish (te_act env)
            \<lparr>ctl_status = start_status c status, ctl_accepted = None, ctl_hw = h1, ctl_log = []\<rparr>
      in case observe (te_ticks env) s of (now, s1) \<Rightarrow>
         \<lparr>tk_ctl = s1, tk_next_heartbeat = now + HEARTBEAT_TICKS\<rparr>)"

definition control_wait :: "u32 \<Rightarrow> u32 \<Rightarrow> u32" where
  "control_wait now next_heartbeat =
     (if deadline_reached now next_heartbeat then 0 else next_heartbeat - now)"

definition answer ::
    "contract \<Rightarrow> 'h task_env \<Rightarrow> u64 \<Rightarrow> 'h control \<Rightarrow> (u64 \<times> 'h control) option" where
  "answer c env request_word s =
     (let request = decode request_word;
          s1 = upd_status (\<lambda>st. st\<lparr>st_last_request := request_word\<rparr>) s
      in if service request = SERVICE_CONTROL c \<and> opcode request = OP_ACTIVATE_LEASES c
         then (case handle c (te_act env) request s1 of
                 None \<Rightarrow> None
               | Some (result, s2) \<Rightarrow> Some (encode (activation_response c request result), s2))
         else Some (encode (ordinary_response c request (st_capabilities (ctl_status s1))), s1))"

definition serve :: "contract \<Rightarrow> 'h task_env \<Rightarrow> u32 \<Rightarrow> 'h control \<Rightarrow> 'h control option" where
  "serve c env wait s =
     (case observe (te_request_receive env wait) s of (received, s1) \<Rightarrow>
      let s2 = s1\<lparr>ctl_log := ctl_log s1 @ [Received received]\<rparr>
      in case received of
           None \<Rightarrow> Some s2
         | Some word \<Rightarrow>
             (case answer c env word s2 of
                None \<Rightarrow> None
              | Some (response_word, s3) \<Rightarrow>
                  case observe (te_response_send env response_word) s3 of (sent, s4) \<Rightarrow>
                  let s5 = s4\<lparr>ctl_log := ctl_log s4 @ [Sent response_word sent]\<rparr>
                  in Some (upd_status (\<lambda>st.
                       if sent then st\<lparr>st_last_response := response_word\<rparr>
                       else st\<lparr>st_flags := st_flags st OR FLAG_RESPONSE_TIMEOUT c\<rparr>) s5)))"

definition beat :: "u32 \<Rightarrow> 'h task \<Rightarrow> 'h task" where
  "beat now t =
     (if deadline_reached now (tk_next_heartbeat t)
      then \<lparr>tk_ctl = upd_status (\<lambda>st. st\<lparr>st_heartbeat := st_heartbeat st + 1\<rparr>) (tk_ctl t),
            tk_next_heartbeat = now + HEARTBEAT_TICKS\<rparr>
      else t)"

definition diagnose :: "contract \<Rightarrow> 'h task_env \<Rightarrow> 'h control \<Rightarrow> 'h control" where
  "diagnose c env s =
     (case observe (te_request_drops env) s of (drops, s1) \<Rightarrow>
      case observe (te_mailbox_lock_failures env) s1 of (failures, s2) \<Rightarrow>
      case observe (te_unexpected_mailbox_events env) s2 of (events, s3) \<Rightarrow>
      let s4 = upd_status (\<lambda>st. st
            \<lparr>st_flags := st_flags st OR mailbox_diagnostic_flags c drops failures events\<rparr>) s3
      in case te_lcd_faulted env of
           None \<Rightarrow> s4
         | Some faulted \<Rightarrow>
             (case observe faulted s4 of (bad, s5) \<Rightarrow>
              if bad then upd_status (\<lambda>st. st
                \<lparr>st_flags := st_flags st OR FLAG_PICOCLAW_LCD_FAILED c\<rparr>) s5 else s5))"

definition control_turn :: "contract \<Rightarrow> 'h task_env \<Rightarrow> 'h task \<Rightarrow> 'h task option" where
  "control_turn c env t =
     (case observe (te_ticks env) (tk_ctl t) of (now, s1) \<Rightarrow>
      case serve c env (control_wait now (tk_next_heartbeat t)) s1 of
        None \<Rightarrow> None
      | Some s2 \<Rightarrow>
          (case observe (te_ticks env) s2 of (now', s3) \<Rightarrow>
           let t' = beat now' \<lparr>tk_ctl = s3, tk_next_heartbeat = tk_next_heartbeat t\<rparr>
           in Some (t'\<lparr>tk_ctl := publish (te_act env) (diagnose c env (tk_ctl t'))\<rparr>)))"

text \<open>The states the control task goes through.\<close>

inductive control_reaches :: "contract \<Rightarrow> 'h task_env \<Rightarrow> 'h task \<Rightarrow> 'h task \<Rightarrow> bool"
  for c env t0 where
  start: "control_reaches c env t0 t0"
| turn: "control_reaches c env t0 t \<Longrightarrow> control_turn c env t = Some t' \<Longrightarrow> control_reaches c env t0 t'"

section \<open>Facts\<close>

lemma observe_simps [simp]:
  "ctl_status (snd (observe f s)) = ctl_status s"
  "ctl_accepted (snd (observe f s)) = ctl_accepted s"
  "ctl_log (snd (observe f s)) = ctl_log s"
  by (simp_all add: observe_def split: prod.split)

lemma observeD:
  assumes "observe f s = (v, s')"
  shows "ctl_status s' = ctl_status s" "ctl_accepted s' = ctl_accepted s" "ctl_log s' = ctl_log s"
  using observe_simps [of f s] assms by simp_all

lemma observe_frame:
  "observe f s = (v, s') \<Longrightarrow>
    ctl_status s' = ctl_status s \<and> ctl_accepted s' = ctl_accepted s \<and> ctl_log s' = ctl_log s"
  by (simp add: observeD)

text \<open>\<open>extends c s s'\<close>: the part of the state that activation decides on is unchanged and the
  events added since contain no lease activation and no publication with wrong capabilities.\<close>

definition extends :: "contract \<Rightarrow> 'h control \<Rightarrow> 'h control \<Rightarrow> bool" where
  "extends c s s' \<longleftrightarrow>
     st_activation_state (ctl_status s') = st_activation_state (ctl_status s) \<and>
     st_capabilities (ctl_status s') = st_capabilities (ctl_status s) \<and>
     st_generation (ctl_status s') = st_generation (ctl_status s) \<and>
     ctl_accepted s' = ctl_accepted s \<and>
     (\<exists>new. ctl_log s' = ctl_log s @ new \<and> activations new = [] \<and>
        (\<forall>p. Published p \<in> set new \<longrightarrow> st_capabilities p = st_capabilities (ctl_status s) \<and>
           st_activation_state p = st_activation_state (ctl_status s)))"

lemma extends_refl [intro, simp]: "extends c s s"
  by (simp add: extends_def)

lemma extends_trans [trans]: "extends c s t \<Longrightarrow> extends c t u \<Longrightarrow> extends c s u"
  unfolding extends_def by (elim conjE exE) auto

lemma extends_observe: "observe f s = (v, s') \<Longrightarrow> extends c s s'"
  by (auto simp: extends_def dest: observeD)

lemma extends_upd_status:
  "st_activation_state (f (ctl_status s)) = st_activation_state (ctl_status s) \<Longrightarrow>
   st_capabilities (f (ctl_status s)) = st_capabilities (ctl_status s) \<Longrightarrow>
   st_generation (f (ctl_status s)) = st_generation (ctl_status s) \<Longrightarrow> extends c s (upd_status f s)"
  by (simp add: extends_def)

lemma extends_publish: "extends c s (publish env s)"
  by (simp add: extends_def)

lemma extends_log:
  "(\<And>p. e \<noteq> Published p) \<Longrightarrow> activations [e] = [] \<Longrightarrow> extends c s (s\<lparr>ctl_log := ctl_log s @ [e]\<rparr>)"
  by (auto simp: extends_def)

lemma extends_observe_log:
  assumes "observe f s = (v, s1)" "\<And>p. e \<noteq> Published p" "activations [e] = []"
  shows "extends c s (s1\<lparr>ctl_log := ctl_log s1 @ [e]\<rparr>)"
  using extends_observe [OF assms(1)] extends_log [OF assms(2,3)] by (rule extends_trans)

lemmas extends_intros = extends_observe extends_upd_status extends_publish extends_log

lemma diagnose_extends: "extends c s (diagnose c env s)"
proof -
  obtain a s1 where 1: "observe (te_request_drops env) s = (a, s1)" by force
  obtain b s2 where 2: "observe (te_mailbox_lock_failures env) s1 = (b, s2)" by force
  obtain d s3 where 3: "observe (te_unexpected_mailbox_events env) s2 = (d, s3)" by force
  define s4 where "s4 = upd_status (\<lambda>st. st
    \<lparr>st_flags := st_flags st OR mailbox_diagnostic_flags c a b d\<rparr>) s3"
  have "extends c s s3" using 1 2 3 by (blast intro: extends_trans extends_observe)
  then have 4: "extends c s s4" unfolding s4_def by (rule extends_trans) (rule extends_upd_status; simp)
  show ?thesis
  proof (cases "te_lcd_faulted env")
    case None
    then show ?thesis using 4 by (simp add: diagnose_def 1 2 3 Let_def s4_def)
  next
    case (Some f)
    obtain e s5 where 5: "observe f s4 = (e, s5)" by force
    have "extends c s s5" using 4 5 by (blast intro: extends_trans extends_observe)
    moreover have "extends c s5 (upd_status (\<lambda>st. st
        \<lparr>st_flags := st_flags st OR FLAG_PICOCLAW_LCD_FAILED c\<rparr>) s5)"
      by (rule extends_upd_status) simp_all
    ultimately show ?thesis
      using Some 5 by (auto simp: diagnose_def 1 2 3 Let_def s4_def [symmetric] intro: extends_trans)
  qed
qed

text \<open>The invariant of the control task: the activation invariant when the profile has leases,
  and the permanently active state without any lease activation when it has none.\<close>

definition base_inv :: "contract \<Rightarrow> 'h control \<Rightarrow> bool" where
  "base_inv c s \<longleftrightarrow>
     st_activation_state (ctl_status s) = ACTIVATION_STATE_ACTIVE c \<and>
     st_capabilities (ctl_status s) = EXPECTED_CAPABILITIES c \<and>
     ctl_accepted s = None \<and> activations (ctl_log s) = [] \<and>
     (\<forall>p. Published p \<in> set (ctl_log s) \<longrightarrow> caps_ok c p)"

definition task_inv :: "contract \<Rightarrow> 'h control \<Rightarrow> bool" where
  "task_inv c s \<longleftrightarrow> (if ACTIVATION_REQUIRED c then control_inv c s else base_inv c s)"

lemma extends_inv:
  assumes "extends c s s'" "task_inv c s"
  shows "task_inv c s'"
proof (cases "ACTIVATION_REQUIRED c")
  case True
  then have "control_inv c s" using assms(2) by (simp add: task_inv_def)
  then have "control_inv c s'"
    using assms(1) by (auto simp: control_inv_def extends_def caps_ok_def)
  then show ?thesis using True by (simp add: task_inv_def)
next
  case False
  then have "base_inv c s" using assms(2) by (simp add: task_inv_def)
  then have "base_inv c s'"
    using assms(1) by (auto simp: base_inv_def extends_def caps_ok_def)
  then show ?thesis using False by (simp add: task_inv_def)
qed

lemma handle_task_inv:
  assumes "contract_ok c" "task_inv c s" "handle c env m s = Some (r, s')"
  shows "task_inv c s'"
proof (cases "ACTIVATION_REQUIRED c")
  case True
  then show ?thesis using assms handle_preserves_inv by (auto simp: task_inv_def)
next
  case False
  then have base: "base_inv c s" using assms(2) by (simp add: task_inv_def)
  then have "s' = s"
    using assms(3) states_distinct [OF assms(1)]
    by (auto simp: handle_def handle_active_def base_inv_def split: if_splits)
  then show ?thesis using assms(2) by simp
qed

lemma answer_inv:
  assumes "contract_ok c" "task_inv c s" "answer c env w s = Some (rw, s')"
  shows "task_inv c s'"
proof -
  define s1 where "s1 = upd_status (\<lambda>st. st\<lparr>st_last_request := w\<rparr>) s"
  have s1: "task_inv c s1"
    using assms(2) unfolding s1_def by (rule extends_inv [rotated]) (rule extends_upd_status; simp)
  show ?thesis
    using assms(3) s1 handle_task_inv [OF assms(1) s1]
    by (auto simp: answer_def Let_def s1_def [symmetric] split: if_splits option.splits)
qed

text \<open>The two ways a turn of the mailbox can go.\<close>

lemma serve_cases:
  assumes "serve c env w s = Some s'"
  obtains (idle) s1 where "observe (te_request_receive env w) s = (None, s1)"
      "s' = s1\<lparr>ctl_log := ctl_log s1 @ [Received None]\<rparr>"
    | (answered) word s1 rw s3 sent s4 where
      "observe (te_request_receive env w) s = (Some word, s1)"
      "answer c env word (s1\<lparr>ctl_log := ctl_log s1 @ [Received (Some word)]\<rparr>) = Some (rw, s3)"
      "observe (te_response_send env rw) s3 = (sent, s4)"
      "s' = upd_status (\<lambda>st. if sent then st\<lparr>st_last_response := rw\<rparr>
             else st\<lparr>st_flags := st_flags st OR FLAG_RESPONSE_TIMEOUT c\<rparr>)
           (s4\<lparr>ctl_log := ctl_log s4 @ [Sent rw sent]\<rparr>)"
proof -
  obtain rec s1 where 1: "observe (te_request_receive env w) s = (rec, s1)" by force
  show thesis
  proof (cases rec)
    case None
    then show thesis using assms 1 by (intro idle) (auto simp: serve_def)
  next
    case (Some word)
    then obtain rw s3 where 3: "answer c env word (s1\<lparr>ctl_log := ctl_log s1 @ [Received (Some word)]\<rparr>)
        = Some (rw, s3)"
      using assms 1 by (auto simp: serve_def Let_def split: option.splits)
    obtain sent s4 where 4: "observe (te_response_send env rw) s3 = (sent, s4)" by force
    show thesis
      by (rule answered [OF 1 [unfolded Some] 3 4])
        (use assms in \<open>simp add: serve_def 1 Some 3 4 Let_def\<close>)
  qed
qed

lemma serve_inv:
  assumes "contract_ok c" "task_inv c s" "serve c env w s = Some s'"
  shows "task_inv c s'"
  using assms(3)
proof (cases rule: serve_cases)
  case (idle s1)
  have "extends c s s'" unfolding idle(2) by (rule extends_observe_log [OF idle(1)]) simp_all
  then show ?thesis using assms(2) by (rule extends_inv)
next
  case (answered word s1 rw s3 sent s4)
  have "extends c s (s1\<lparr>ctl_log := ctl_log s1 @ [Received (Some word)]\<rparr>)"
    by (rule extends_observe_log [OF answered(1)]) simp_all
  then have "task_inv c s3"
    using assms(2) answer_inv [OF assms(1) _ answered(2)] by (blast intro: extends_inv)
  moreover have "extends c s3 (s4\<lparr>ctl_log := ctl_log s4 @ [Sent rw sent]\<rparr>)"
    by (rule extends_observe_log [OF answered(3)]) simp_all
  moreover have "extends c (s4\<lparr>ctl_log := ctl_log s4 @ [Sent rw sent]\<rparr>) s'"
    unfolding answered(4) by (rule extends_upd_status) simp_all
  ultimately show ?thesis by (blast intro: extends_inv)
qed

lemma beat_extends: "extends c (tk_ctl t) (tk_ctl (beat now t))"
  unfolding beat_def by (auto intro: extends_upd_status)

lemma control_turn_cases:
  assumes "control_turn c env t = Some t'"
  obtains now s1 s2 now' s3 where
    "observe (te_ticks env) (tk_ctl t) = (now, s1)"
    "serve c env (control_wait now (tk_next_heartbeat t)) s1 = Some s2"
    "observe (te_ticks env) s2 = (now', s3)"
    "tk_ctl t' = publish (te_act env) (diagnose c env
       (tk_ctl (beat now' \<lparr>tk_ctl = s3, tk_next_heartbeat = tk_next_heartbeat t\<rparr>)))"
    "tk_next_heartbeat t' =
       tk_next_heartbeat (beat now' \<lparr>tk_ctl = s3, tk_next_heartbeat = tk_next_heartbeat t\<rparr>)"
  using assms by (auto simp: control_turn_def Let_def split: prod.splits option.splits)

lemma control_turn_inv:
  assumes "contract_ok c" "task_inv c (tk_ctl t)" "control_turn c env t = Some t'"
  shows "task_inv c (tk_ctl t')"
  using assms(3)
proof (cases rule: control_turn_cases)
  case (1 now s1 s2 now' s3)
  have "task_inv c s1" using extends_observe [OF 1(1)] assms(2) by (rule extends_inv)
  from serve_inv [OF assms(1) this 1(2)] have "task_inv c s3"
    using extends_observe [OF 1(3)] by (blast intro: extends_inv)
  then have "task_inv c (tk_ctl (beat now' \<lparr>tk_ctl = s3, tk_next_heartbeat = tk_next_heartbeat t\<rparr>))"
    by (rule extends_inv [rotated]) (metis beat_extends task.select_convs(1))
  then show ?thesis
    unfolding 1(4) by (blast intro: extends_inv diagnose_extends extends_publish)
qed

lemma control_reaches_inv:
  assumes "contract_ok c" "control_reaches c env t0 t" "task_inv c (tk_ctl t0)"
  shows "task_inv c (tk_ctl t)"
  using assms(2,3) by induction (auto intro: control_turn_inv [OF assms(1)])

lemma control_start_inv:
  assumes "contract_ok c" "st_capabilities (fst (te_read_status env h)) = DORMANT_CAPABILITIES c"
  shows "task_inv c (tk_ctl (control_start c env h))"
proof -
  obtain st h1 where 1: "te_read_status env h = (st, h1)" by force
  define s where "s = publish (te_act env)
    \<lparr>ctl_status = start_status c st, ctl_accepted = None, ctl_hw = h1, ctl_log = []\<rparr>"
  obtain now s1 where 2: "observe (te_ticks env) s = (now, s1)" by force
  have "task_inv c s"
    using assms(2) 1 states_distinct [OF assms(1)]
    by (auto simp: s_def task_inv_def control_inv_def base_inv_def caps_ok_def start_status_def Let_def)
  then have "task_inv c s1" using extends_observe [OF 2] by (blast intro: extends_inv)
  then show ?thesis by (simp add: control_start_def 1 Let_def s_def [symmetric] 2)
qed

text \<open>Flag bits are only ever added.\<close>

definition keeps_flags :: "'h control \<Rightarrow> 'h control \<Rightarrow> bool" where
  "keeps_flags s s' \<longleftrightarrow> st_flags (ctl_status s) OR st_flags (ctl_status s') = st_flags (ctl_status s')"

lemma keeps_flags_eq: "st_flags (ctl_status s') = st_flags (ctl_status s) OR f \<Longrightarrow> keeps_flags s s'"
  by (simp add: keeps_flags_def or.assoc [symmetric])

lemma keeps_flags_same: "st_flags (ctl_status s') = st_flags (ctl_status s) \<Longrightarrow> keeps_flags s s'"
  by (simp add: keeps_flags_def)

lemma keeps_flags_trans: "keeps_flags s t \<Longrightarrow> keeps_flags t u \<Longrightarrow> keeps_flags s u"
  unfolding keeps_flags_def by (metis or.assoc)

lemma keeps_flag_set:
  assumes "keeps_flags s t" "st_flags (ctl_status s) = x OR f"
  shows "f OR st_flags (ctl_status t) = st_flags (ctl_status t)"
proof -
  have t: "(x OR f) OR st_flags (ctl_status t) = st_flags (ctl_status t)"
    using assms by (simp add: keeps_flags_def)
  have "f OR ((x OR f) OR st_flags (ctl_status t)) = (x OR f) OR st_flags (ctl_status t)"
    by (rule bit_eqI) (auto simp: bit_simps)
  then show ?thesis unfolding t .
qed

lemma handle_keeps_flags:
  assumes "handle c env m s = Some (r, s')"
  shows "keeps_flags s s'"
proof -
  from handle_outcome [OF assms] obtain oc where "outcome_ok c env m s r s' oc" ..
  then show ?thesis
    by (cases oc) (auto intro: keeps_flags_same keeps_flags_eq)
qed

lemma answer_keeps_flags:
  assumes "answer c env w s = Some (rw, s')"
  shows "keeps_flags s s'"
proof -
  have "keeps_flags s (upd_status (\<lambda>st. st\<lparr>st_last_request := w\<rparr>) s)"
    by (rule keeps_flags_same) simp
  then show ?thesis
    using assms
    by (auto simp: answer_def Let_def split: if_splits option.splits
        intro: keeps_flags_trans handle_keeps_flags)
qed

lemma serve_keeps_flags:
  assumes "serve c env w s = Some s'"
  shows "keeps_flags s s'"
  using assms
proof (cases rule: serve_cases)
  case (idle s1)
  then show ?thesis by (auto intro!: keeps_flags_same dest: observeD)
next
  case (answered word s1 rw s3 sent s4)
  have "keeps_flags s s3"
    using answer_keeps_flags [OF answered(2)] observeD(1) [OF answered(1)]
    by (simp add: keeps_flags_def)
  moreover have "keeps_flags s3 s'"
    using observeD(1) [OF answered(3)] answered(4)
    by (cases sent) (auto intro: keeps_flags_same keeps_flags_eq)
  ultimately show ?thesis by (rule keeps_flags_trans)
qed

lemma diagnose_keeps_flags: "keeps_flags s (diagnose c env s)"
proof -
  obtain a s1 where 1: "observe (te_request_drops env) s = (a, s1)" by force
  obtain b s2 where 2: "observe (te_mailbox_lock_failures env) s1 = (b, s2)" by force
  obtain d s3 where 3: "observe (te_unexpected_mailbox_events env) s2 = (d, s3)" by force
  define s4 where "s4 = upd_status (\<lambda>st. st
    \<lparr>st_flags := st_flags st OR mailbox_diagnostic_flags c a b d\<rparr>) s3"
  have 4: "keeps_flags s s4"
    using observeD(1) [OF 1] observeD(1) [OF 2] observeD(1) [OF 3]
    by (intro keeps_flags_eq) (simp add: s4_def)
  show ?thesis
  proof (cases "te_lcd_faulted env")
    case None
    then show ?thesis using 4 by (simp add: diagnose_def 1 2 3 Let_def s4_def)
  next
    case (Some f)
    obtain e s5 where 5: "observe f s4 = (e, s5)" by force
    have "keeps_flags s4 (diagnose c env s)"
      using Some 5 observeD(1) [OF 5]
      by (cases e) (auto simp: diagnose_def 1 2 3 Let_def s4_def [symmetric]
          intro: keeps_flags_same keeps_flags_eq)
    with 4 show ?thesis by (rule keeps_flags_trans)
  qed
qed

lemma control_turn_keeps_flags:
  assumes "control_turn c env t = Some t'"
  shows "keeps_flags (tk_ctl t) (tk_ctl t')"
  using assms
proof (cases rule: control_turn_cases)
  case (1 now s1 s2 now' s3)
  have "keeps_flags (tk_ctl t) s3"
    using observeD(1) [OF 1(1)] serve_keeps_flags [OF 1(2)] observeD(1) [OF 1(3)]
    by (simp add: keeps_flags_def)
  moreover have "keeps_flags s3 (tk_ctl (beat now' \<lparr>tk_ctl = s3, tk_next_heartbeat = tk_next_heartbeat t\<rparr>))"
    by (rule keeps_flags_same) (simp add: beat_def)
  moreover have "keeps_flags (diagnose c env (tk_ctl (beat now' \<lparr>tk_ctl = s3,
      tk_next_heartbeat = tk_next_heartbeat t\<rparr>))) (tk_ctl t')"
    unfolding 1(4) by (rule keeps_flags_same) simp
  ultimately show ?thesis by (blast intro: keeps_flags_trans diagnose_keeps_flags)
qed

text \<open>Mailbox events of a log.\<close>

definition mailbox_event :: "act_event \<Rightarrow> bool" where
  "mailbox_event e \<longleftrightarrow> (case e of Received _ \<Rightarrow> True | Sent _ _ \<Rightarrow> True | _ \<Rightarrow> False)"

lemma handle_no_mailbox:
  assumes "handle c env m s = Some (r, s')"
  shows "\<exists>mid. ctl_log s' = ctl_log s @ mid \<and> (\<forall>e\<in>set mid. \<not> mailbox_event e)"
proof -
  from handle_outcome [OF assms] obtain oc where "outcome_ok c env m s r s' oc" ..
  then show ?thesis by (cases oc) (auto simp: mailbox_event_def)
qed

lemma answer_shape:
  assumes "answer c env w s = Some (rw, s')"
  shows "service (decode rw) = service (decode w) \<and> sequence (decode rw) = sequence (decode w) \<and>
    (\<exists>mid. ctl_log s' = ctl_log s @ mid \<and> (\<forall>e\<in>set mid. \<not> mailbox_event e))"
proof -
  let ?m = "decode w"
  have ord: "service (ordinary_response c ?m x) = service ?m \<and> sequence (ordinary_response c ?m x) = sequence ?m" for x
    by (simp add: ordinary_response_def error_response_def)
  show ?thesis
    using assms handle_no_mailbox
    by (auto simp: answer_def Let_def decode_encode ord activation_response_def
        split: if_splits option.splits) fastforce
qed

lemma answer_frame:
  assumes "answer c env w s = Some (rw, s')"
  shows "st_last_request (ctl_status s') = w"
proof -
  have "st_last_request (ctl_status s2) = w"
    if "handle c (te_act env) m (upd_status (\<lambda>st. st\<lparr>st_last_request := w\<rparr>) s) = Some (r, s2)" for m r s2
    using handle_frame [OF that] by (simp add: same_frame_def)
  then show ?thesis
    using assms by (auto simp: answer_def Let_def split: if_splits option.splits)
qed

lemma diagnose_frame:
  "ctl_log (diagnose c env s) = ctl_log s"
  "st_last_request (ctl_status (diagnose c env s)) = st_last_request (ctl_status s)"
  "st_last_response (ctl_status (diagnose c env s)) = st_last_response (ctl_status s)"
  by (auto simp: diagnose_def Let_def split: prod.splits option.splits dest!: observe_frame)

lemma beat_frame:
  "ctl_log (tk_ctl (beat now t)) = ctl_log (tk_ctl t)"
  "st_last_request (ctl_status (tk_ctl (beat now t))) = st_last_request (ctl_status (tk_ctl t))"
  "st_last_response (ctl_status (tk_ctl (beat now t))) = st_last_response (ctl_status (tk_ctl t))"
  "st_flags (ctl_status (tk_ctl (beat now t))) = st_flags (ctl_status (tk_ctl t))"
  by (simp_all add: beat_def)

section \<open>The calls of boot\<close>

text \<open>An environment that behaves like \<open>env\<close> and also writes down the calls boot makes on it, with
  the answers it gives.\<close>

datatype boot_call =
    Rpmsg_Initialized
  | Status_Read status
  | Lcd_Generation u32
  | Status_Published status
  | Manifest_Published u32 bool
  | Platform_Started bool
  | Lock_Failures_Read u32

definition recording :: "('v \<Rightarrow> boot_call list) \<Rightarrow> ('h \<Rightarrow> 'v \<times> 'h) \<Rightarrow>
    'h \<times> boot_call list \<Rightarrow> 'v \<times> ('h \<times> boot_call list)" where
  "recording call f = (\<lambda>(h, calls). case f h of (v, h') \<Rightarrow> (v, (h', calls @ call v)))"

definition recorded :: "'h task_env \<Rightarrow> ('h \<times> boot_call list) task_env" where
  "recorded env =
     \<lparr>te_act = \<lparr>read_pair = recording (\<lambda>_. []) (read_pair (te_act env)),
        activate = (\<lambda>(h, calls). map_option (\<lambda>(r, h'). (r, (h', calls))) (activate (te_act env) h)),
        publish_status = (\<lambda>st (h, calls).
          (publish_status (te_act env) st h, calls @ [Status_Published st]))\<rparr>,
      te_rpmsg_initialize = (\<lambda>(h, calls). (te_rpmsg_initialize env h, calls @ [Rpmsg_Initialized])),
      te_read_status = recording (\<lambda>st. [Status_Read st]) (te_read_status env),
      te_publish_manifest = (\<lambda>g. recording (\<lambda>ok. [Manifest_Published g ok]) (te_publish_manifest env g)),
      te_platform_start = recording (\<lambda>started. [Platform_Started started]) (te_platform_start env),
      te_request_receive = (\<lambda>w. recording (\<lambda>_. []) (te_request_receive env w)),
      te_response_send = (\<lambda>w. recording (\<lambda>_. []) (te_response_send env w)),
      te_request_drops = recording (\<lambda>_. []) (te_request_drops env),
      te_mailbox_lock_failures = recording (\<lambda>n. [Lock_Failures_Read n]) (te_mailbox_lock_failures env),
      te_unexpected_mailbox_events = recording (\<lambda>_. []) (te_unexpected_mailbox_events env),
      te_ticks = recording (\<lambda>_. []) (te_ticks env),
      te_lcd_initialize_generation = map_option (\<lambda>initialize g (h, calls).
        (initialize g h, calls @ [Lcd_Generation g])) (te_lcd_initialize_generation env),
      te_lcd_faulted = map_option (recording (\<lambda>_. [])) (te_lcd_faulted env)\<rparr>"

text \<open>The calls of a boot that read \<open>previous\<close> from the cacheline and ended in \<open>e\<close> with the status \<open>st\<close>.\<close>

definition boot_calls ::
    "contract \<Rightarrow> 'h task_env \<Rightarrow> status \<Rightarrow> boot_end \<Rightarrow> status \<Rightarrow> boot_call list \<Rightarrow> bool" where
  "boot_calls c env previous e st calls \<longleftrightarrow>
     (let status = initial_status c previous; g = st_generation status in
      \<exists>outcome. calls = [Rpmsg_Initialized, Status_Read previous] @
        (case te_lcd_initialize_generation env of None \<Rightarrow> [] | Some _ \<Rightarrow> [Lcd_Generation g]) @
        Status_Published status # outcome \<and>
      (case e of
         ManifestFault \<Rightarrow> outcome = [Manifest_Published g False, Status_Published st]
       | SchedulerStarted \<Rightarrow> outcome = [Manifest_Published g True, Platform_Started True] \<and> st = status
       | StartFailed \<Rightarrow> (\<exists>failures.
           outcome = [Manifest_Published g True, Platform_Started False,
             Lock_Failures_Read failures, Status_Published st] \<and>
           st_flags st = mailbox_diagnostic_flags c 0 failures 0)))"

lemma boot_recorded:
  assumes "c906l_rust_main c env h = (e, s)"
  shows "\<exists>s' previous calls. c906l_rust_main c (recorded env) (h, []) = (e, s') \<and>
    ctl_hw s' = (ctl_hw s, calls) \<and> ctl_status s' = ctl_status s \<and> ctl_log s' = ctl_log s \<and>
    boot_calls c env previous e (ctl_status s) calls"
  using assms
  by (auto simp: c906l_rust_main_def recorded_def recording_def boot_calls_def observe_def publish_def
      upd_status_def initial_status_def Let_def split: prod.splits if_splits option.splits)

section \<open>Restarts\<close>

text \<open>
  The record that stays in the status cacheline when a boot ends. A boot that reads \<open>p\<close> leaves one
  of the records it published, from \<open>c906l_rust_main\<close> or from any turn of the control task, which
  reads what was published before. A boot that panics leaves the record of the panic handler.
\<close>

inductive boot_leaves :: "contract \<Rightarrow> 'h task_env \<Rightarrow> status \<Rightarrow> status \<Rightarrow> bool"
  for c env p where
  boot: "fst (te_read_status env (te_rpmsg_initialize env h)) = p \<Longrightarrow>
    c906l_rust_main c env h = (e, s) \<Longrightarrow> Published r \<in> set (ctl_log s) \<Longrightarrow> boot_leaves c env p r"
| run: "boot_leaves c env p r \<Longrightarrow> fst (te_read_status env h) = r \<Longrightarrow>
    control_reaches c env (control_start c env h) t \<Longrightarrow> Published r' \<in> set (ctl_log (tk_ctl t)) \<Longrightarrow>
    boot_leaves c env p r'"

datatype restart = Reset | Panic

inductive restarts :: "contract \<Rightarrow> 'h task_env \<Rightarrow> status \<Rightarrow> restart list \<Rightarrow> status \<Rightarrow> bool"
  for c env r0 where
  none: "restarts c env r0 [] r0"
| reset: "restarts c env r0 hs p \<Longrightarrow> boot_leaves c env p r \<Longrightarrow> restarts c env r0 (hs @ [Reset]) r"
| panic: "restarts c env r0 hs p \<Longrightarrow> restarts c env r0 (hs @ [Panic]) (panic_status c)"

text \<open>The fields of a record that the next boot looks at.\<close>

definition same_header :: "status \<Rightarrow> status \<Rightarrow> bool" where
  "same_header a b \<longleftrightarrow> st_magic a = st_magic b \<and> st_abi_major a = st_abi_major b \<and>
     st_struct_size a = st_struct_size b \<and> st_generation a = st_generation b"

definition header_inv :: "status \<Rightarrow> 'h control \<Rightarrow> bool" where
  "header_inv st s \<longleftrightarrow> same_header (ctl_status s) st \<and>
     (\<forall>p. Published p \<in> set (ctl_log s) \<longrightarrow> same_header p st)"

lemma same_header_refl [simp]: "same_header a a"
  by (simp add: same_header_def)

lemma same_header_trans: "same_header a b \<Longrightarrow> same_header b d \<Longrightarrow> same_header a d"
  by (simp add: same_header_def)

lemma header_inv_publish [simp]: "header_inv st (publish env s) = header_inv st s"
  by (auto simp: header_inv_def)

lemma header_inv_upd_status:
  "header_inv st s \<Longrightarrow> same_header (f (ctl_status s)) (ctl_status s) \<Longrightarrow> header_inv st (upd_status f s)"
  by (auto simp: header_inv_def intro: same_header_trans)

lemma header_inv_observe: "observe f s = (v, s') \<Longrightarrow> header_inv st s' = header_inv st s"
  by (auto simp: header_inv_def dest: observeD)

lemma header_inv_log:
  "(\<And>p. e \<noteq> Published p) \<Longrightarrow> header_inv st (s\<lparr>ctl_log := ctl_log s @ [e]\<rparr>) = header_inv st s"
  by (auto simp: header_inv_def)

lemma header_inv_snapshot: "snapshot_pair env s = (ab, s') \<Longrightarrow> header_inv st s \<Longrightarrow> header_inv st s'"
  by (auto simp: header_inv_def snapshot_pair_def split: prod.splits)

lemma header_inv_reject: "reject c env x s = (r, s') \<Longrightarrow> header_inv st s \<Longrightarrow> header_inv st s'"
  by (auto simp: reject_def same_header_def intro!: header_inv_upd_status)

lemma header_inv_leases:
  assumes "activate_leases c env q s = Some (r, s')" "header_inv st s"
  shows "header_inv st s'"
  using assms
  by (auto simp: activate_leases_def Let_def header_inv_def same_header_def
      split: option.splits sum.splits)

lemma header_inv_handle:
  assumes "handle c env m s = Some (r, s')" "header_inv st s"
  shows "header_inv st s'"
proof -
  have dormant: "header_inv st s'" if run: "handle_dormant c env m s = Some (r, s')"
  proof -
    define s1 where "s1 = upd_status (\<lambda>st. st
      \<lparr>st_activation_attempts := saturating_add (st_activation_attempts st) 1,
       st_activation_request_id := msg_value m\<rparr>) s"
    define s2 where "s2 = publish env (upd_status (\<lambda>st. st
      \<lparr>st_activation_state := ACTIVATION_STATE_VALIDATING c,
       st_activation_error := ucast (ACTIVATION_RESULT_SUCCESS c)\<rparr>) s1)"
    obtain ab s3 where sp: "snapshot_pair env s2 = (ab, s3)" by (metis surj_pair)
    have h1: "header_inv st s1"
      unfolding s1_def using assms(2) by (rule header_inv_upd_status) (simp add: same_header_def)
    have "header_inv st s2"
      unfolding s2_def header_inv_publish using h1 by (rule header_inv_upd_status) (simp add: same_header_def)
    with sp have h3: "header_inv st s3" by (rule header_inv_snapshot)
    from run consider x where "reject c env x s1 = (r, s')" | x where "reject c env x s3 = (r, s')"
      | q where "activate_leases c env q s3 = Some (r, s')"
      unfolding handle_dormant_def Let_def s1_def [symmetric] s2_def [symmetric] sp
      by (cases ab) (auto split: if_splits sum.splits)
    then show ?thesis by cases (blast intro: h1 h3 header_inv_reject header_inv_leases)+
  qed
  have active: "header_inv st s'" if "handle_active c env m s = (r, s')"
    using that assms(2) header_inv_snapshot
    by (auto simp: handle_active_def split: option.splits if_splits prod.splits)
  show ?thesis using assms dormant active by (simp add: handle_def split: if_splits)
qed

lemma header_inv_serve:
  assumes "serve c env w s = Some s'" "header_inv st s"
  shows "header_inv st s'"
  using assms(1)
proof (cases rule: serve_cases)
  case (idle s1)
  then show ?thesis using assms(2) by (simp add: header_inv_log header_inv_observe)
next
  case (answered word s1 rw s3 sent s4)
  let ?s2 = "s1\<lparr>ctl_log := ctl_log s1 @ [Received (Some word)]\<rparr>"
  have "header_inv st ?s2"
    using assms(2) header_inv_observe [OF answered(1)] by (simp add: header_inv_log)
  then have "header_inv st (upd_status (\<lambda>st. st\<lparr>st_last_request := word\<rparr>) ?s2)"
    by (rule header_inv_upd_status) (simp add: same_header_def)
  then have "header_inv st s3"
    using answered(2) header_inv_handle
    by (fastforce simp: answer_def Let_def split: if_splits option.splits)
  then have "header_inv st (s4\<lparr>ctl_log := ctl_log s4 @ [Sent rw sent]\<rparr>)"
    using header_inv_observe [OF answered(3)] by (simp add: header_inv_log)
  then show ?thesis
    unfolding answered(4) by (rule header_inv_upd_status) (simp add: same_header_def)
qed

lemma header_inv_diagnose: "header_inv st s \<Longrightarrow> header_inv st (diagnose c env s)"
  by (auto simp: diagnose_def Let_def header_inv_def same_header_def
      split: prod.splits option.splits dest!: observe_frame)

lemma header_inv_turn:
  assumes "control_turn c env t = Some t'" "header_inv st (tk_ctl t)"
  shows "header_inv st (tk_ctl t')"
  using assms(1)
proof (cases rule: control_turn_cases)
  case (1 now s1 s2 now' s3)
  have "header_inv st s3"
    using assms(2) header_inv_observe [OF 1(1)] header_inv_serve [OF 1(2)] header_inv_observe [OF 1(3)]
    by simp
  then have "header_inv st (tk_ctl (beat now' \<lparr>tk_ctl = s3, tk_next_heartbeat = tk_next_heartbeat t\<rparr>))"
    by (auto simp: beat_def same_header_def intro!: header_inv_upd_status)
  then show ?thesis unfolding 1(4) by (simp add: header_inv_diagnose)
qed

lemma header_inv_reaches:
  assumes "control_reaches c env (control_start c env h) t" "fst (te_read_status env h) = st"
  shows "header_inv st (tk_ctl t)"
  using assms(1)
proof induction
  case start
  show ?case
    using assms(2)
    by (auto simp: control_start_def Let_def header_inv_def same_header_def start_status_def
        split: prod.splits dest!: observe_frame)
qed (rule header_inv_turn)

lemma boot_leaves_header:
  "boot_leaves c env p r \<Longrightarrow> same_header r (initial_status c p)"
proof (induction rule: boot_leaves.induct)
  case (boot h e s r)
  then show ?case
    by (auto simp: c906l_rust_main_def Let_def same_header_def split: prod.splits if_splits
        dest!: observe_frame)
next
  case (run r h t r')
  from header_inv_reaches [OF run(3,2)] run(4) have "same_header r' r" by (simp add: header_inv_def)
  then show ?case using run.IH by (rule same_header_trans)
qed

text \<open>The generation numbers run through 1 to \<open>2 ^ 32 - 1\<close> and start again.\<close>

abbreviation generations :: nat where "generations \<equiv> 2 ^ 32 - 1"

lemma unat_successor:
  "unat (if g + 1 = 0 then 1 else g + 1) = unat (g :: u32) mod generations + 1"
proof -
  have lt: "unat g < 2 ^ 32" using unat_lt [of g] by simp
  have u: "unat (g + 1) = (unat g + 1) mod 2 ^ 32" by (simp add: unat_word_ariths)
  show ?thesis
  proof (cases "unat g + 1 < 2 ^ 32")
    case True
    then have "unat (g + 1) = unat g + 1" using u by simp
    moreover from this have "g + 1 \<noteq> 0" by (auto simp del: add_eq_0_iff_both_eq_0)
    ultimately show ?thesis using True by simp
  next
    case False
    then have top: "unat g = 2 ^ 32 - 1" using lt by simp
    then have "g + 1 = 0" using u by (simp add: word_unat_eq_iff)
    then show ?thesis using top by simp
  qed
qed

text \<open>The boots of a history since the last panic.\<close>

definition boots :: "restart list \<Rightarrow> nat" where
  "boots hs = length (takeWhile (\<lambda>x. x = Reset) (rev hs))"

lemma boots_simps [simp]: "boots [] = 0" "boots (hs @ [Reset]) = Suc (boots hs)" "boots (hs @ [Panic]) = 0"
  by (simp_all add: boots_def)

lemma boots_no_panic: "Panic \<notin> set hs \<Longrightarrow> boots hs = length hs"
proof -
  assume "Panic \<notin> set hs"
  then have "\<forall>x\<in>set (rev hs). x = Reset" by (auto intro: restart.exhaust)
  then have "takeWhile (\<lambda>x. x = Reset) (rev hs) = rev hs" by (simp only: takeWhile_eq_all_conv)
  then show ?thesis by (simp only: boots_def length_rev)
qed

lemma restarts_generation:
  assumes "restarts c env r0 hs r"
  shows "unat (st_generation (initial_status c r)) =
    ((if Panic \<in> set hs then 0 else unat (st_generation (initial_status c r0)) - 1) + boots hs)
      mod generations + 1"
  using assms
proof induction
  case none
  have "unat (st_generation (initial_status c r0)) = x mod generations + 1 \<Longrightarrow> ?case" for x by simp
  then show ?case
    using unat_successor by (simp add: initial_status_def next_generation_def Let_def)
next
  case (reset hs p r)
  from boot_leaves_header [OF reset(2)]
  have "unat (st_generation (initial_status c r)) =
      unat (st_generation (initial_status c p)) mod generations + 1"
    unfolding unat_successor [symmetric]
    by (simp add: initial_status_def [of c r] next_generation_def [of c r] same_header_def Let_def)
      (simp add: initial_status_def)
  then show ?case unfolding reset.IH by (simp add: mod_Suc_eq)
next
  case (panic hs p)
  show ?case by (simp add: initial_status_def next_generation_def panic_status_def zero_status_def)
qed

section \<open>A concrete environment\<close>

text \<open>A peer that sends one mailbox word over and over; the hardware state counts the ticks.\<close>

definition echo_env :: "bool \<Rightarrow> u64 \<Rightarrow> nat task_env" where
  "echo_env manifest_ok word =
     \<lparr>te_act = \<lparr>read_pair = (\<lambda>h. ((shipped_request, shipped_request), h)),
        activate = (\<lambda>h. Some (Inr (), h)), publish_status = (\<lambda>st h. h)\<rparr>,
      te_rpmsg_initialize = (\<lambda>h. h), te_read_status = (\<lambda>h. (dormant_status, h)),
      te_publish_manifest = (\<lambda>g h. (manifest_ok, h)), te_platform_start = (\<lambda>h. (True, h)),
      te_request_receive = (\<lambda>w h. (Some word, h)), te_response_send = (\<lambda>w h. (True, h)),
      te_request_drops = (\<lambda>h. (0, h)), te_mailbox_lock_failures = (\<lambda>h. (0, h)),
      te_unexpected_mailbox_events = (\<lambda>h. (0, h)), te_ticks = (\<lambda>h. (of_nat h, Suc h)),
      te_lcd_initialize_generation = None, te_lcd_faulted = None\<rparr>"

section \<open>Properties\<close>

text \<open>C14: boot fails closed. Whatever the peer left in shared memory and whatever the manifest and
  the scheduler do, boot never activates a lease and publishes only statuses that carry a
  non-zero generation, the dormant capabilities and the initializing state; if the manifest
  cannot be read back the processor stops in FAULT with the manifest flag and the scheduler is
  never started, and if the scheduler returns it stops in FAULT with the error code set. Which of
  the three ends is reached is decided by what the manifest publication and the platform start
  answered: on the environment that records its calls, boot makes exactly the calls of
  \<open>boot_calls\<close>, in their order and with these answers.\<close>

theorem boot_fails_closed:
  assumes "c906l_rust_main c env h = (e, s)"
  shows "activations (ctl_log s) = [] \<and> ctl_accepted s = None \<and>
    st_generation (ctl_status s) \<noteq> 0 \<and>
    (\<forall>p. Published p \<in> set (ctl_log s) \<longrightarrow>
       st_generation p = st_generation (ctl_status s) \<and>
       st_capabilities p = DORMANT_CAPABILITIES c \<and>
       st_activation_state p = ACTIVATION_STATE_INITIALIZING c) \<and>
    (case e of
       SchedulerStarted \<Rightarrow> ctl_log s = [Published (ctl_status s)] \<and>
         st_state (ctl_status s) = STATE_BOOTING c
     | ManifestFault \<Rightarrow> last (ctl_log s) = Published (ctl_status s) \<and>
         st_state (ctl_status s) = STATE_FAULT c \<and>
         st_flags (ctl_status s) = FLAG_MANIFEST_FAULT c \<and>
         st_activation_error (ctl_status s) = ucast (ACTIVATION_RESULT_INTERNAL_FAILURE c)
     | StartFailed \<Rightarrow> last (ctl_log s) = Published (ctl_status s) \<and>
         st_state (ctl_status s) = STATE_FAULT c \<and>
         st_activation_error (ctl_status s) = ucast (ACTIVATION_RESULT_INTERNAL_FAILURE c)) \<and>
    (\<exists>s' previous calls. c906l_rust_main c (recorded env) (h, []) = (e, s') \<and>
       ctl_hw s' = (ctl_hw s, calls) \<and> ctl_status s' = ctl_status s \<and> ctl_log s' = ctl_log s \<and>
       boot_calls c env previous e (ctl_status s) calls)"
proof -
  have gen: "next_generation c p \<noteq> 0" for p by (simp add: next_generation_def Let_def)
  have closed: "activations (ctl_log s) = [] \<and> ctl_accepted s = None \<and>
    st_generation (ctl_status s) \<noteq> 0 \<and>
    (\<forall>p. Published p \<in> set (ctl_log s) \<longrightarrow>
       st_generation p = st_generation (ctl_status s) \<and>
       st_capabilities p = DORMANT_CAPABILITIES c \<and>
       st_activation_state p = ACTIVATION_STATE_INITIALIZING c)"
    using assms gen
    by (auto simp: c906l_rust_main_def Let_def initial_status_def split: prod.splits if_splits
        dest!: observe_frame)
  have "case e of
       SchedulerStarted \<Rightarrow> ctl_log s = [Published (ctl_status s)] \<and>
         st_state (ctl_status s) = STATE_BOOTING c
     | ManifestFault \<Rightarrow> last (ctl_log s) = Published (ctl_status s) \<and>
         st_state (ctl_status s) = STATE_FAULT c \<and>
         st_flags (ctl_status s) = FLAG_MANIFEST_FAULT c \<and>
         st_activation_error (ctl_status s) = ucast (ACTIVATION_RESULT_INTERNAL_FAILURE c)
     | StartFailed \<Rightarrow> last (ctl_log s) = Published (ctl_status s) \<and>
         st_state (ctl_status s) = STATE_FAULT c \<and>
         st_activation_error (ctl_status s) = ucast (ACTIVATION_RESULT_INTERNAL_FAILURE c)"
    using assms
    by (auto simp: c906l_rust_main_def Let_def initial_status_def split: prod.splits if_splits
        dest!: observe_frame)
  with closed boot_recorded [OF assms] show ?thesis by simp
qed

theorem boot_fails_closed_witness:
  "\<exists>s. c906l_rust_main timer_contract (echo_env False 0) 0 = (ManifestFault, s) \<and>
     st_state (ctl_status s) = 3 \<and> st_flags (ctl_status s) = 32"
proof -
  obtain s where run: "c906l_rust_main timer_contract (echo_env False 0) 0 = (ManifestFault, s)"
    by (simp add: c906l_rust_main_def echo_env_def observe_def)
  from boot_fails_closed [OF run] show ?thesis
    using run by (simp add: timer_contract_def)
qed



text \<open>C7: in every state the control task can reach, whatever the mailbox, the request record, the
  leases and the clock do, the leases have been activated at most once and never in a profile
  without leases, every published status advertises the leased capabilities exactly when it is
  active, and an active status of a leased profile comes with an accepted record that validates
  for this generation.\<close>

theorem control_task_safe:
  assumes "contract_ok c" "st_capabilities (fst (te_read_status env h)) = DORMANT_CAPABILITIES c"
    "control_reaches c env (control_start c env h) t"
  shows "length (activations (ctl_log (tk_ctl t))) \<le> (if ACTIVATION_REQUIRED c then 1 else 0) \<and>
    (\<forall>p. Published p \<in> set (ctl_log (tk_ctl t)) \<longrightarrow> st_capabilities p =
       (if st_activation_state p = ACTIVATION_STATE_ACTIVE c
        then EXPECTED_CAPABILITIES c else DORMANT_CAPABILITIES c)) \<and>
    (ACTIVATION_REQUIRED c \<and>
     st_activation_state (ctl_status (tk_ctl t)) = ACTIVATION_STATE_ACTIVE c \<longrightarrow>
       (\<exists>q. ctl_accepted (tk_ctl t) = Some q \<and>
          validate_record c q (st_generation (ctl_status (tk_ctl t))) = Inr ()))"
proof -
  have inv: "task_inv c (tk_ctl t)"
    using control_reaches_inv [OF assms(1,3)] control_start_inv [OF assms(1,2)] by simp
  show ?thesis
  proof (cases "ACTIVATION_REQUIRED c")
    case True
    then have "control_inv c (tk_ctl t)" using inv by (simp add: task_inv_def)
    with True states_distinct [OF assms(1)] control_inv_activations [OF this] show ?thesis
      by (auto simp: control_inv_def caps_ok_def)
  next
    case False
    then have "base_inv c (tk_ctl t)" using inv by (simp add: task_inv_def)
    with False show ?thesis by (auto simp: base_inv_def caps_ok_def)
  qed
qed

theorem control_task_safe_witness:
  "\<exists>t'. control_turn timer_contract (echo_env True 0x1004200420401)
       (control_start timer_contract (echo_env True 0x1004200420401) 0) = Some t' \<and>
     length (activations (ctl_log (tk_ctl t'))) \<le> 1"
proof -
  let ?env = "echo_env True 0x1004200420401" and ?c = timer_contract
  obtain t' where run: "control_turn ?c ?env (control_start ?c ?env 0) = Some t'"
    by (simp add: control_turn_def serve_def answer_def handle_def handle_dormant_def activate_leases_def
        control_start_def start_status_def observe_def control_defs echo_env_def decode_def reject_def
        request_equal_iff validate_record_def envelope_ok_def ABI_VERSION_def shipped_defs Let_def
        split: prod.split if_splits)
  have reach: "control_reaches ?c ?env (control_start ?c ?env 0) t'"
    by (rule control_reaches.turn [OF control_reaches.start run])
  have "st_capabilities (fst (te_read_status ?env 0)) = DORMANT_CAPABILITIES ?c"
    by (simp add: echo_env_def dormant_status_def timer_contract_def)
  from control_task_safe [OF timer_contract_ok this reach] run show ?thesis
    by (auto simp: timer_contract_def)
qed

text \<open>C8: every turn of the control task answers the request it received, exactly once and in the same
  turn: the response carries the request's service and sequence number, follows everything the
  request caused, is recorded in the status (or its loss flagged), and the turn ends with the
  publication of that status.\<close>

theorem control_turn_answers:
  assumes "control_turn c env t = Some t'"
  shows "\<exists>ev. ctl_log (tk_ctl t') = ctl_log (tk_ctl t) @ ev @ [Published (ctl_status (tk_ctl t'))] \<and>
    (ev = [Received None] \<or>
     (\<exists>w mid rw sent. ev = Received (Some w) # mid @ [Sent rw sent] \<and>
        (\<forall>e\<in>set mid. \<not> mailbox_event e) \<and>
        service (decode rw) = service (decode w) \<and> sequence (decode rw) = sequence (decode w) \<and>
        st_last_request (ctl_status (tk_ctl t')) = w \<and>
        (if sent then st_last_response (ctl_status (tk_ctl t')) = rw
         else FLAG_RESPONSE_TIMEOUT c OR st_flags (ctl_status (tk_ctl t')) =
           st_flags (ctl_status (tk_ctl t')))))"
  using assms
proof (cases rule: control_turn_cases)
  case (1 now s1 s2 now' s3)
  let ?b = "tk_ctl (beat now' \<lparr>tk_ctl = s3, tk_next_heartbeat = tk_next_heartbeat t\<rparr>)"
  note frame = observeD [OF 1(3)] diagnose_frame beat_frame 1(4)
  have log: "ctl_log (tk_ctl t') = ctl_log s2 @ [Published (ctl_status (tk_ctl t'))]"
    by (simp add: frame)
  have flags: "keeps_flags s2 (tk_ctl t')"
    using diagnose_keeps_flags [of ?b c env] by (simp add: keeps_flags_def frame)
  have sent: "st_last_request (ctl_status (tk_ctl t')) = st_last_request (ctl_status s2)"
    "st_last_response (ctl_status (tk_ctl t')) = st_last_response (ctl_status s2)"
    by (simp_all add: frame)
  from 1(2) show ?thesis
  proof (cases rule: serve_cases)
    case (idle s1')
    then have "ctl_log s2 = ctl_log (tk_ctl t) @ [Received None]"
      using observeD(3) [OF idle(1)] observeD(3) [OF 1(1)] by simp
    then show ?thesis using log by (intro exI [of _ "[Received None]"]) simp
  next
    case (answered w s1' rw s4 snt s5)
    from answer_shape [OF answered(2)] obtain mid where
      shape: "service (decode rw) = service (decode w)" "sequence (decode rw) = sequence (decode w)"
      and mid: "ctl_log s4 = ctl_log s1' @ Received (Some w) # mid" "\<forall>e\<in>set mid. \<not> mailbox_event e"
      by auto
    have "ctl_log s2 = ctl_log (tk_ctl t) @ Received (Some w) # mid @ [Sent rw snt]"
      using answered(4) observeD(3) [OF answered(3)] observeD(3) [OF answered(1)] mid(1) observeD(3) [OF 1(1)] by simp
    moreover have "st_last_request (ctl_status s2) = w"
      using answer_frame [OF answered(2)] observeD(1) [OF answered(3)] answered(4) by simp
    moreover have "snt \<Longrightarrow> st_last_response (ctl_status s2) = rw" using answered(4) by simp
    moreover have "FLAG_RESPONSE_TIMEOUT c OR st_flags (ctl_status (tk_ctl t')) =
        st_flags (ctl_status (tk_ctl t'))" if "\<not> snt"
      by (rule keeps_flag_set [OF flags, of "st_flags (ctl_status s5)"]) (use answered(4) that in simp)
    ultimately show ?thesis
      using log sent shape mid(2)
      by (intro exI [of _ "Received (Some w) # mid @ [Sent rw snt]"]) auto
  qed
qed

theorem control_turn_answers_witness:
  "\<exists>t'. control_turn timer_contract (echo_env True 0xfeedbeef00110101)
       (control_start timer_contract (echo_env True 0xfeedbeef00110101) 0) = Some t' \<and>
     last (ctl_log (tk_ctl t')) = Published (ctl_status (tk_ctl t'))"
proof -
  let ?env = "echo_env True 0xfeedbeef00110101" and ?c = timer_contract
  obtain t' where run: "control_turn ?c ?env (control_start ?c ?env 0) = Some t'"
    by (simp add: control_turn_def serve_def answer_def control_start_def start_status_def observe_def
        control_defs echo_env_def decode_def shipped_defs Let_def split: prod.split)
  from control_turn_answers [OF run] run show ?thesis by auto
qed

text \<open>Diagnostics are sticky: no turn of the control task ever clears a flag bit of the status.\<close>

theorem control_flags_sticky:
  assumes "control_reaches c env t0 t"
  shows "st_flags (ctl_status (tk_ctl t0)) OR st_flags (ctl_status (tk_ctl t)) =
    st_flags (ctl_status (tk_ctl t))"
proof -
  have "keeps_flags (tk_ctl t0) (tk_ctl t)"
    using assms
    by induction (auto intro: keeps_flags_same keeps_flags_trans control_turn_keeps_flags)
  then show ?thesis by (simp add: keeps_flags_def)
qed

theorem control_flags_sticky_witness:
  "\<exists>t'. control_reaches timer_contract (echo_env True 0x101)
       (control_start timer_contract (echo_env True 0x101) 0) t' \<and>
     st_flags (ctl_status (tk_ctl (control_start timer_contract (echo_env True 0x101) 0)))
       OR st_flags (ctl_status (tk_ctl t')) = st_flags (ctl_status (tk_ctl t')) \<and>
     ctl_log (tk_ctl t') \<noteq> ctl_log (tk_ctl (control_start timer_contract (echo_env True 0x101) 0))"
proof -
  let ?env = "echo_env True 0x101" and ?c = timer_contract
  obtain t' where run: "control_turn ?c ?env (control_start ?c ?env 0) = Some t'"
    by (simp add: control_turn_def serve_def answer_def control_start_def start_status_def observe_def
        control_defs echo_env_def decode_def shipped_defs Let_def split: prod.split)
  have "ctl_log (tk_ctl t') \<noteq> ctl_log (tk_ctl (control_start ?c ?env 0))"
    using run by (auto simp: control_turn_def serve_def answer_def control_start_def observe_def
        control_defs echo_env_def decode_def shipped_defs Let_def diagnose_frame beat_frame
        split: prod.splits if_splits)
  moreover have "control_reaches ?c ?env (control_start ?c ?env 0) t'"
    by (rule control_reaches.turn [OF control_reaches.start run])
  ultimately show ?thesis using control_flags_sticky by blast
qed

text \<open>The control task never oversleeps its heartbeat. For an unbounded clock \<open>t\<close> seen through the
  32-bit tick counter and a heartbeat due at \<open>d\<close>, the receive timeout is exactly the remaining
  time, zero when the heartbeat is overdue, also across the wrap-around of the counter.\<close>

theorem control_wait_exact:
  assumes "t < d + 2 ^ 31" "d \<le> t + 2 ^ 31"
  shows "unat (control_wait (of_nat t) (of_nat d)) = d - t"
proof (cases "d \<le> t")
  case True
  then show ?thesis using deadline_reached_of_nat [OF assms] by (simp add: control_wait_def)
next
  case False
  define k where "k = d - t"
  have "(of_nat d - of_nat t :: u32) = of_nat k" "k \<le> 2 ^ 31"
    using False assms by (simp_all add: k_def of_nat_diff)
  then show ?thesis
    using False deadline_reached_of_nat [OF assms]
    by (simp add: control_wait_def unat_of_nat k_def [symmetric])
qed

theorem control_wait_exact_witness:
  "unat (control_wait (of_nat (2 ^ 32 - 5)) (of_nat (2 ^ 32 + 15))) = 20"
  using control_wait_exact [of "2 ^ 32 - 5" "2 ^ 32 + 15"] by simp

end
