(* ===== verification/Timer.thy ===== *)
theory Timer
  imports Control
begin

text \<open>
  The timer leases, \<open>firmware/sg2002-c906l/src/dw_apb_timer.rs\<close>, the register slice they use,
  \<open>pac/src/timer.rs\<close>, and the lease provider built from them, \<open>activation.rs\<close> lines 70 to 165.

  The traits \<open>TimerIo\<close> and \<open>TimerRuntime\<close> are records of programs over an arbitrary
  environment; \<open>mmio\<close> and \<open>platform_runtime\<close> are the two implementations the firmware uses,
  over a machine whose hardware (registers, interrupt controller, scheduler, interrupt
  handlers that run in between) is an arbitrary \<open>timer_hw\<close> and whose log records every access.
  Addresses are 64-bit words, as \<open>usize\<close> is on the C906L.
\<close>

section \<open>Configuration\<close>

record precondition =
  pc_address :: u64
  pc_mask :: u32
  pc_expected :: u32

record timer_config =
  tc_channel :: u32
  tc_irq :: u32
  bank_address :: u64
  bank_size :: u64
  load_address :: u64
  current_address :: u64
  control_address :: u64
  eoi_address :: u64
  status_address :: u64
  clock_xtal_misc :: precondition
  clock_channel :: precondition
  reset_timer_ip :: precondition
  reset_channel :: precondition
  clock_source :: precondition
  period_ticks :: u32
  timeout_rtos_ticks :: u32

definition CHANNEL_SIZE :: u64 where
  "CHANNEL_SIZE = 0x14"

definition CONTROL_STOPPED_MASKED :: u32 where
  "CONTROL_STOPPED_MASKED = push_bit 2 1"

definition CONTROL_RUNNING_UNMASKED :: u32 where
  "CONTROL_RUNNING_UNMASKED = push_bit 0 1 OR push_bit 1 1"

definition checked_mul :: "'a::len word \<Rightarrow> 'a word \<Rightarrow> 'a word option" where
  "checked_mul a b = (if unat a * unat b < 2 ^ LENGTH('a) then Some (a * b) else None)"

definition fired_mask :: "timer_config \<Rightarrow> u32" where
  "fired_mask cfg = push_bit (unat (tc_channel cfg)) 1"

definition precondition_shape :: "precondition \<Rightarrow> bool" where
  "precondition_shape p \<longleftrightarrow> pc_mask p \<noteq> 0 \<and> pc_expected p AND NOT (pc_mask p) = 0"

definition valid_config :: "timer_config \<Rightarrow> bool" where
  "valid_config cfg \<longleftrightarrow>
     (case checked_add (bank_address cfg) (bank_size cfg) of None \<Rightarrow> False | Some bank_end \<Rightarrow>
      case checked_add (load_address cfg) CHANNEL_SIZE of None \<Rightarrow> False | Some channel_end \<Rightarrow>
      case checked_mul (ucast (tc_channel cfg)) CHANNEL_SIZE of None \<Rightarrow> False | Some channel_offset \<Rightarrow>
      case checked_add (bank_address cfg) channel_offset of None \<Rightarrow> False | Some expected_load_address \<Rightarrow>
        4 \<le> tc_channel cfg \<and> tc_channel cfg \<le> 7
        \<and> tc_irq cfg = tc_channel cfg + 51
        \<and> CHANNEL_SIZE \<le> bank_size cfg
        \<and> load_address cfg \<noteq> 0
        \<and> load_address cfg mod 4 = 0
        \<and> bank_address cfg \<le> load_address cfg
        \<and> load_address cfg = expected_load_address
        \<and> channel_end \<le> bank_end
        \<and> current_address cfg = load_address cfg + 0x04
        \<and> control_address cfg = load_address cfg + 0x08
        \<and> eoi_address cfg = load_address cfg + 0x0c
        \<and> status_address cfg = load_address cfg + 0x10
        \<and> pc_address (reset_timer_ip cfg) = pc_address (reset_channel cfg)
        \<and> pc_address (clock_xtal_misc cfg) mod 4 = 0
        \<and> pc_address (clock_channel cfg) mod 4 = 0
        \<and> pc_address (reset_timer_ip cfg) mod 4 = 0
        \<and> pc_address (clock_source cfg) mod 4 = 0
        \<and> precondition_shape (clock_xtal_misc cfg)
        \<and> precondition_shape (clock_channel cfg)
        \<and> precondition_shape (reset_timer_ip cfg)
        \<and> precondition_shape (reset_channel cfg)
        \<and> precondition_shape (clock_source cfg)
        \<and> period_ticks cfg \<noteq> 0
        \<and> timeout_rtos_ticks cfg \<noteq> 0)"

text \<open>The constants the contract emits for one channel, and the configuration the macro
  \<open>timer_config!\<close> builds from them.\<close>

record timer_consts =
  kt_IRQ :: u32
  kt_BANK_ADDRESS :: u64
  kt_BANK_SIZE :: u64
  kt_LOAD_ADDRESS :: u64
  kt_CURRENT_ADDRESS :: u64
  kt_CONTROL_ADDRESS :: u64
  kt_EOI_ADDRESS :: u64
  kt_STATUS_ADDRESS :: u64
  kt_PRECONDITION_CLOCK_XTAL_MISC :: "u64 \<times> u32 \<times> u32"
  kt_PRECONDITION_CLOCK_TIMER :: "u64 \<times> u32 \<times> u32"
  kt_PRECONDITION_RESET_TIMER_IP :: "u64 \<times> u32 \<times> u32"
  kt_PRECONDITION_RESET_TIMER :: "u64 \<times> u32 \<times> u32"
  kt_PRECONDITION_CLOCK_SOURCE :: "u64 \<times> u32 \<times> u32"
  kt_TEST_PERIOD_TICKS :: u32
  kt_TEST_TIMEOUT_RTOS_TICKS :: u32

fun precondition_of :: "u64 \<times> u32 \<times> u32 \<Rightarrow> precondition" where
  "precondition_of (address, msk, expected) =
     \<lparr>pc_address = address, pc_mask = msk, pc_expected = expected\<rparr>"

definition timer_config_of :: "u32 \<Rightarrow> timer_consts \<Rightarrow> timer_config" where
  "timer_config_of channel k =
     \<lparr>tc_channel = channel, tc_irq = kt_IRQ k,
      bank_address = kt_BANK_ADDRESS k, bank_size = kt_BANK_SIZE k,
      load_address = kt_LOAD_ADDRESS k, current_address = kt_CURRENT_ADDRESS k,
      control_address = kt_CONTROL_ADDRESS k, eoi_address = kt_EOI_ADDRESS k,
      status_address = kt_STATUS_ADDRESS k,
      clock_xtal_misc = precondition_of (kt_PRECONDITION_CLOCK_XTAL_MISC k),
      clock_channel = precondition_of (kt_PRECONDITION_CLOCK_TIMER k),
      reset_timer_ip = precondition_of (kt_PRECONDITION_RESET_TIMER_IP k),
      reset_channel = precondition_of (kt_PRECONDITION_RESET_TIMER k),
      clock_source = precondition_of (kt_PRECONDITION_CLOCK_SOURCE k),
      period_ticks = kt_TEST_PERIOD_TICKS k,
      timeout_rtos_ticks = kt_TEST_TIMEOUT_RTOS_TICKS k\<rparr>"

text \<open>The constants of each channel are looked up in \<open>k\<close> by channel number.\<close>

definition TIMER4 :: "(u32 \<Rightarrow> timer_consts) \<Rightarrow> timer_config" where
  "TIMER4 k = timer_config_of 4 (k 4)"

definition TIMER5 :: "(u32 \<Rightarrow> timer_consts) \<Rightarrow> timer_config" where
  "TIMER5 k = timer_config_of 5 (k 5)"

definition TIMER6 :: "(u32 \<Rightarrow> timer_consts) \<Rightarrow> timer_config" where
  "TIMER6 k = timer_config_of 6 (k 6)"

definition TIMER7 :: "(u32 \<Rightarrow> timer_consts) \<Rightarrow> timer_config" where
  "TIMER7 k = timer_config_of 7 (k 7)"

text \<open>The configurations compiled in by the cargo features, in source order.\<close>

record timer_features =
  feature_timer4 :: bool
  feature_timer5 :: bool
  feature_timer6 :: bool
  feature_timer7 :: bool

definition selected_timers :: "timer_features \<Rightarrow> (u32 \<Rightarrow> timer_consts) \<Rightarrow> timer_config list" where
  "selected_timers ft k =
     (if feature_timer4 ft then [TIMER4 k] else []) @ (if feature_timer5 ft then [TIMER5 k] else []) @
     (if feature_timer6 ft then [TIMER6 k] else []) @ (if feature_timer7 ft then [TIMER7 k] else [])"

section \<open>Registers and the two traits\<close>

datatype register = ClockXtalMisc | ClockChannel | ResetTimer | TimerSource | Load | Control | Eoi

fun register_address :: "timer_config \<Rightarrow> register \<Rightarrow> u64" where
  "register_address cfg ClockXtalMisc = pc_address (clock_xtal_misc cfg)"
| "register_address cfg ClockChannel = pc_address (clock_channel cfg)"
| "register_address cfg ResetTimer = pc_address (reset_timer_ip cfg)"
| "register_address cfg TimerSource = pc_address (clock_source cfg)"
| "register_address cfg Load = load_address cfg"
| "register_address cfg Control = control_address cfg"
| "register_address cfg Eoi = eoi_address cfg"

datatype self_test_error = InvalidContract | ClockXtalMiscDisabled | ClockChannelDisabled
  | TimerResetAsserted | ChannelResetAsserted | WrongClockSource | InterruptRegistration | Timeout

record 'e timer_io =
  tio_read :: "register \<Rightarrow> ('e, self_test_error, u32) prog"
  tio_write :: "register \<Rightarrow> u32 \<Rightarrow> ('e, self_test_error, unit) prog"

record 'e timer_runtime =
  rt_reset_fired :: "('e, self_test_error, unit) prog"
  rt_fired :: "('e, self_test_error, bool) prog"
  rt_irq_install :: "('e, self_test_error, int) prog"
  rt_irq_disable :: "('e, self_test_error, unit) prog"
  rt_ticks :: "('e, self_test_error, u32) prog"
  rt_delay :: "u32 \<Rightarrow> ('e, self_test_error, unit) prog"

section \<open>The driver\<close>

definition precondition_met ::
    "'e timer_io \<Rightarrow> register \<Rightarrow> precondition \<Rightarrow> ('e, self_test_error, bool) prog" where
  "precondition_met io r p = bind (tio_read io r) (\<lambda>v. ok (v AND pc_mask p = pc_expected p))"

definition validate_platform ::
    "timer_config \<Rightarrow> 'e timer_io \<Rightarrow> ('e, self_test_error, unit) prog" where
  "validate_platform cfg io =
     (if \<not> valid_config cfg then fail InvalidContract
      else bind (precondition_met io ClockXtalMisc (clock_xtal_misc cfg)) (\<lambda>met.
        if \<not> met then fail ClockXtalMiscDisabled
        else bind (precondition_met io ClockChannel (clock_channel cfg)) (\<lambda>met.
          if \<not> met then fail ClockChannelDisabled
          else bind (tio_read io ResetTimer) (\<lambda>reset.
            if reset AND pc_mask (reset_timer_ip cfg) \<noteq> pc_expected (reset_timer_ip cfg)
            then fail TimerResetAsserted
            else if reset AND pc_mask (reset_channel cfg) \<noteq> pc_expected (reset_channel cfg)
            then fail ChannelResetAsserted
            else bind (precondition_met io TimerSource (clock_source cfg)) (\<lambda>met.
              if \<not> met then fail WrongClockSource else ok ())))))"

definition prepare :: "timer_config \<Rightarrow> 'e timer_io \<Rightarrow> ('e, self_test_error, unit) prog" where
  "prepare cfg io =
     bind (tio_write io Control CONTROL_STOPPED_MASKED) (\<lambda>_.
     bind (tio_read io Eoi) (\<lambda>_. tio_write io Load (period_ticks cfg)))"

definition arm :: "'e timer_io \<Rightarrow> ('e, self_test_error, unit) prog" where
  "arm io = tio_write io Control CONTROL_RUNNING_UNMASKED"

definition acknowledge_and_stop :: "'e timer_io \<Rightarrow> ('e, self_test_error, unit) prog" where
  "acknowledge_and_stop io =
     bind (tio_read io Eoi) (\<lambda>_. tio_write io Control CONTROL_STOPPED_MASKED)"

definition stop_and_clear :: "'e timer_io \<Rightarrow> ('e, self_test_error, unit) prog" where
  "stop_and_clear io =
     bind (tio_write io Control CONTROL_STOPPED_MASKED) (\<lambda>_. bind (tio_read io Eoi) (\<lambda>_. ok ()))"

text \<open>The polling loop, by recursion on \<open>remaining_polls\<close>.\<close>

primrec poll_fired ::
    "'e timer_runtime \<Rightarrow> u32 \<Rightarrow> nat \<Rightarrow> ('e, self_test_error, bool) prog" where
  "poll_fired rt deadline 0 =
     bind (rt_fired rt) (\<lambda>fired. if fired then ok True
       else bind (rt_ticks rt) (\<lambda>now. ok False))"
| "poll_fired rt deadline (Suc remaining_polls) =
     bind (rt_fired rt) (\<lambda>fired. if fired then ok True
       else bind (rt_ticks rt) (\<lambda>now. if deadline_reached now deadline then ok False
         else bind (rt_delay rt 1) (\<lambda>_. poll_fired rt deadline remaining_polls)))"

definition self_test_with ::
    "timer_config \<Rightarrow> 'e timer_io \<Rightarrow> 'e timer_runtime \<Rightarrow> ('e, self_test_error, unit) prog" where
  "self_test_with cfg io rt =
     bind (validate_platform cfg io) (\<lambda>_.
     bind (rt_reset_fired rt) (\<lambda>_.
     bind (prepare cfg io) (\<lambda>_.
     bind (rt_irq_install rt) (\<lambda>installed.
       if installed \<noteq> 0
       then bind (stop_and_clear io) (\<lambda>_. fail InterruptRegistration)
       else bind (arm io) (\<lambda>_.
         bind (rt_ticks rt) (\<lambda>now.
         bind (poll_fired rt (now + timeout_rtos_ticks cfg)
             (unat (saturating_add (timeout_rtos_ticks cfg) 1))) (\<lambda>passed.
         bind (stop_and_clear io) (\<lambda>_.
         bind (rt_irq_disable rt) (\<lambda>_.
           if passed then ok () else fail Timeout)))))))))"

section \<open>The implementations on the C906L\<close>

record 'h timer_hw =
  th_load :: "u64 \<Rightarrow> 'h \<Rightarrow> u32 \<times> 'h"
  th_store :: "u64 \<Rightarrow> u32 \<Rightarrow> 'h \<Rightarrow> 'h"
  th_irq_save :: "'h \<Rightarrow> u8 \<times> 'h"
  th_irq_restore :: "u8 \<Rightarrow> 'h \<Rightarrow> 'h"
  th_irq_install :: "u32 \<Rightarrow> u32 \<Rightarrow> 'h \<Rightarrow> int \<times> 'h"
  th_irq_disable :: "u32 \<Rightarrow> u32 \<Rightarrow> 'h \<Rightarrow> 'h"
  th_ticks :: "'h \<Rightarrow> u32 \<times> 'h"
  th_delay :: "u32 \<Rightarrow> 'h \<Rightarrow> 'h"
  th_fired_load :: "'h \<Rightarrow> u32 \<times> 'h"
  th_fired_and :: "u32 \<Rightarrow> 'h \<Rightarrow> 'h"
  th_fired_or :: "u32 \<Rightarrow> 'h \<Rightarrow> 'h"

datatype timer_event = IrqSave u8 | IrqRestore u8 | Load32 u64 u32 | Store32 u64 u32
  | IrqInstall u32 u32 int | IrqDisable u32 u32 | Ticks u32 | Delay u32
  | FiredLoad u32 | FiredAnd u32 | FiredOr u32

type_synonym 'h timer_machine = "('h, timer_event) machine"

text \<open>\<open>TimerChannel\<close>: a register is reached at its offset from the channel base.\<close>

fun register_offset :: "register \<Rightarrow> u64" where
  "register_offset Load = 0x00"
| "register_offset Control = 0x08"
| "register_offset Eoi = 0x0c"
| "register_offset _ = 0"

definition load32 :: "'h timer_hw \<Rightarrow> u64 \<Rightarrow> ('h timer_machine, self_test_error, u32) prog" where
  "load32 hw addr = sense (th_load hw addr) (Load32 addr)"

definition store32 :: "'h timer_hw \<Rightarrow> u64 \<Rightarrow> u32 \<Rightarrow> ('h timer_machine, self_test_error, unit) prog" where
  "store32 hw addr v = drive (th_store hw addr v) (Store32 addr v)"

text \<open>Every channel access runs between \<open>c906l_local_irq_save\<close> and the restoring drop.\<close>

definition with_channel ::
    "'h timer_hw \<Rightarrow> ('h timer_machine, self_test_error, 'a) prog \<Rightarrow> ('h timer_machine, self_test_error, 'a) prog"
where
  "with_channel hw access =
     bind (sense (th_irq_save hw) IrqSave) (\<lambda>restore_irqs.
     bind access (\<lambda>result.
     bind (drive (th_irq_restore hw restore_irqs) (IrqRestore restore_irqs)) (\<lambda>_. ok result)))"

definition mmio :: "'h timer_hw \<Rightarrow> timer_config \<Rightarrow> 'h timer_machine timer_io" where
  "mmio hw cfg =
     \<lparr>tio_read = (\<lambda>r. if r \<in> {ClockXtalMisc, ClockChannel, ResetTimer, TimerSource}
        then load32 hw (register_address cfg r)
        else with_channel hw (load32 hw (load_address cfg + register_offset r))),
      tio_write = (\<lambda>r v. if r \<in> {Load, Control}
        then with_channel hw (store32 hw (load_address cfg + register_offset r) v)
        else panic)\<rparr>"

definition platform_runtime :: "'h timer_hw \<Rightarrow> timer_config \<Rightarrow> 'h timer_machine timer_runtime" where
  "platform_runtime hw cfg =
     \<lparr>rt_reset_fired = drive (th_fired_and hw (NOT (fired_mask cfg))) (FiredAnd (NOT (fired_mask cfg))),
      rt_fired = bind (sense (th_fired_load hw) FiredLoad) (\<lambda>v. ok (v AND fired_mask cfg \<noteq> 0)),
      rt_irq_install = sense (th_irq_install hw (tc_channel cfg) (tc_irq cfg))
        (IrqInstall (tc_channel cfg) (tc_irq cfg)),
      rt_irq_disable = drive (th_irq_disable hw (tc_channel cfg) (tc_irq cfg))
        (IrqDisable (tc_channel cfg) (tc_irq cfg)),
      rt_ticks = sense (th_ticks hw) Ticks,
      rt_delay = (\<lambda>n. drive (th_delay hw n) (Delay n))\<rparr>"

definition self_test :: "'h timer_hw \<Rightarrow> timer_config \<Rightarrow> ('h timer_machine, self_test_error, unit) prog" where
  "self_test hw cfg =
     (if \<not> valid_config cfg then fail InvalidContract
      else self_test_with cfg (mmio hw cfg) (platform_runtime hw cfg))"

text \<open>The interrupt side: \<open>selected\<close> are the configurations of the compiled-in channels.\<close>

definition interrupt_config :: "timer_config list \<Rightarrow> u32 \<Rightarrow> u32 \<Rightarrow> timer_config option" where
  "interrupt_config selected channel irq =
     find (\<lambda>cfg. channel = tc_channel cfg \<and> irq = tc_irq cfg) selected"

definition c906l_timer_interrupt ::
    "'h timer_hw \<Rightarrow> timer_config list \<Rightarrow> u32 \<Rightarrow> u32 \<Rightarrow> ('h timer_machine, self_test_error, int) prog" where
  "c906l_timer_interrupt hw selected channel irq =
     (case interrupt_config selected channel irq of
        None \<Rightarrow> ok (- 1)
      | Some cfg \<Rightarrow>
          if \<not> valid_config cfg then ok (- 1)
          else bind (acknowledge_and_stop (mmio hw cfg)) (\<lambda>_.
            bind (drive (th_fired_or hw (fired_mask cfg)) (FiredOr (fired_mask cfg))) (\<lambda>_. ok 0)))"

section \<open>The lease provider\<close>

definition timer_failure :: "contract \<Rightarrow> self_test_error \<Rightarrow> u32 \<Rightarrow> lease_failure" where
  "timer_failure c e flag =
     \<lparr>lf_result = (case e of
          ClockXtalMiscDisabled \<Rightarrow> ACTIVATION_RESULT_PRECONDITION_FAILED c
        | ClockChannelDisabled \<Rightarrow> ACTIVATION_RESULT_PRECONDITION_FAILED c
        | TimerResetAsserted \<Rightarrow> ACTIVATION_RESULT_PRECONDITION_FAILED c
        | ChannelResetAsserted \<Rightarrow> ACTIVATION_RESULT_PRECONDITION_FAILED c
        | WrongClockSource \<Rightarrow> ACTIVATION_RESULT_PRECONDITION_FAILED c
        | InterruptRegistration \<Rightarrow> ACTIVATION_RESULT_IRQ_INSTALL_FAILED c
        | Timeout \<Rightarrow> ACTIVATION_RESULT_SELF_TEST_TIMEOUT c
        | InvalidContract \<Rightarrow> ACTIVATION_RESULT_INTERNAL_FAILURE c),
      lf_flag = flag\<rparr>"

fun activate_selected_timers ::
    "contract \<Rightarrow> (timer_config \<Rightarrow> ('e, self_test_error, unit) prog) \<Rightarrow> timer_config list \<Rightarrow>
     ('e, lease_failure, unit) prog" where
  "activate_selected_timers c activate_one [] = ok ()"
| "activate_selected_timers c activate_one (cfg # rest) =
     bind (map_err (\<lambda>e. timer_failure c e (FLAG_TIMER_SELF_TEST_FAILED c (tc_channel cfg)))
         (activate_one cfg))
       (\<lambda>_. activate_selected_timers c activate_one rest)"

text \<open>\<open>HardwareLeases::activate\<close> for the three kinds of profile: the LCD profile
  asks the LCD service, a timer profile tests its channels, and a profile without any lease
  fails closed.\<close>

datatype 'e profile = LcdProfile "('e, unit, unit) prog" | TimerProfile "timer_config list"

definition hardware_activate ::
    "contract \<Rightarrow> 'h timer_hw \<Rightarrow> 'h timer_machine profile \<Rightarrow> ('h timer_machine, lease_failure, unit) prog" where
  "hardware_activate c hw prof = (case prof of
     LcdProfile authorize \<Rightarrow> map_err (\<lambda>_.
       \<lparr>lf_result = ACTIVATION_RESULT_PRECONDITION_FAILED c,
        lf_flag = FLAG_PICOCLAW_LCD_FAILED c\<rparr>) authorize
   | TimerProfile selected \<Rightarrow>
       if selected \<noteq> [] then activate_selected_timers c (self_test hw) selected
       else fail \<lparr>lf_result = ACTIVATION_RESULT_INTERNAL_FAILURE c, lf_flag = 0\<rparr>)"

section \<open>What the driver needs of its environment\<close>

abbreviation shared_registers :: "register set" where
  "shared_registers \<equiv> {ClockXtalMisc, ClockChannel, ResetTimer, TimerSource}"

definition validation_errors :: "self_test_error set" where
  "validation_errors = {InvalidContract, ClockXtalMiscDisabled, ClockChannelDisabled,
     TimerResetAsserted, ChannelResetAsserted, WrongClockSource}"

text \<open>An invariant of the environment that reading the shared prerequisite registers keeps.\<close>

locale timer_reader =
  fixes io :: "'e timer_io" and I :: "'e \<Rightarrow> bool"
  assumes read_shared:
    "r \<in> shared_registers \<Longrightarrow> I e \<Longrightarrow> wp (tio_read io r) (\<lambda>x e'. (\<exists>v. x = Inr v) \<and> I e') e"
begin

lemma seq:
  assumes "wp p (\<lambda>x e'. (\<exists>v. x = Inr v) \<and> I e') e" "\<And>v e'. I e' \<Longrightarrow> wp (f v) Q e'"
  shows "wp (bind p f) Q e"
  unfolding wp_bind by (rule wp_mono [OF assms(1)]) (use assms(2) in auto)

lemma precondition_keeps:
  assumes "r \<in> shared_registers" "I e"
  shows "wp (precondition_met io r p) (\<lambda>x e'. (\<exists>b. x = Inr b) \<and> I e') e"
  unfolding precondition_met_def wp_simps
  by (rule wp_mono [OF read_shared [OF assms]]) (auto simp: wp_simps)

lemma validate_keeps:
  assumes "I e"
  shows "wp (validate_platform cfg io)
    (\<lambda>x e'. I e' \<and> (\<forall>err. x = Inl err \<longrightarrow> err \<in> validation_errors)) e"
proof -
  let ?Q = "\<lambda>x e'. I e' \<and> (\<forall>err. x = Inl err \<longrightarrow> err \<in> validation_errors)"
  have err: "wp (fail x) ?Q e" if "I e" "x \<in> validation_errors" for x e
    using that by (simp add: wp_simps)
  have mem: "InvalidContract \<in> validation_errors" "ClockXtalMiscDisabled \<in> validation_errors"
    "ClockChannelDisabled \<in> validation_errors" "TimerResetAsserted \<in> validation_errors"
    "ChannelResetAsserted \<in> validation_errors" "WrongClockSource \<in> validation_errors"
    by (simp_all add: validation_errors_def)
  show ?thesis
    unfolding validate_platform_def
    by (auto simp: wp_ok assms mem intro!: seq [OF precondition_keeps] seq [OF read_shared] err)
qed

end

text \<open>An invariant that every access of the driver keeps: it stores to the load and control
  registers only.\<close>

locale timer_env = timer_reader io I for io :: "'e timer_io" and I :: "'e \<Rightarrow> bool" +
  fixes rt :: "'e timer_runtime"
  assumes read_eoi: "I e \<Longrightarrow> wp (tio_read io Eoi) (\<lambda>x e'. (\<exists>v. x = Inr v) \<and> I e') e"
    and write_ok: "r \<in> {Load, Control} \<Longrightarrow> I e \<Longrightarrow> wp (tio_write io r v) (\<lambda>x e'. x = Inr () \<and> I e') e"
    and reset_ok: "I e \<Longrightarrow> wp (rt_reset_fired rt) (\<lambda>x e'. x = Inr () \<and> I e') e"
    and fired_ok: "I e \<Longrightarrow> wp (rt_fired rt) (\<lambda>x e'. (\<exists>b. x = Inr b) \<and> I e') e"
    and install_ok: "I e \<Longrightarrow> wp (rt_irq_install rt) (\<lambda>x e'. (\<exists>i. x = Inr i) \<and> I e') e"
    and disable_ok: "I e \<Longrightarrow> wp (rt_irq_disable rt) (\<lambda>x e'. x = Inr () \<and> I e') e"
    and ticks_ok: "I e \<Longrightarrow> wp (rt_ticks rt) (\<lambda>x e'. (\<exists>t. x = Inr t) \<and> I e') e"
    and delay_ok: "I e \<Longrightarrow> wp (rt_delay rt n) (\<lambda>x e'. x = Inr () \<and> I e') e"
begin

lemma any: "wp p (\<lambda>x e'. x = Inr () \<and> I e') e \<Longrightarrow> wp p (\<lambda>x e'. (\<exists>v. x = Inr v) \<and> I e') e"
  by (erule wp_mono) auto

lemma poll_keeps: "I e \<Longrightarrow> wp (poll_fired rt d n) (\<lambda>x e'. (\<exists>b. x = Inr b) \<and> I e') e"
proof (induction n arbitrary: e)
  case 0
  then show ?case
    unfolding poll_fired.simps by (intro seq [OF fired_ok]) (auto simp: wp_ok intro!: seq [OF ticks_ok])
next
  case (Suc n)
  show ?case
    unfolding poll_fired.simps using Suc
    by (intro seq [OF fired_ok]) (auto simp: wp_ok intro!: seq [OF ticks_ok] seq [OF delay_ok [THEN any]])
qed

lemma stop_keeps: "I e \<Longrightarrow> wp (stop_and_clear io) (\<lambda>x e'. (\<exists>v. x = Inr v) \<and> I e') e"
  unfolding stop_and_clear_def
  by (intro seq [OF write_ok [THEN any]] seq [OF read_eoi]) (auto simp: wp_ok)

lemma self_test_keeps:
  assumes "I e"
  shows "wp (self_test_with cfg io rt) (\<lambda>x. I) e"
proof -
  have prep: "wp (prepare cfg io) (\<lambda>x e'. (\<exists>v. x = Inr v) \<and> I e') e" if "I e" for e
    unfolding prepare_def using that
    by (intro seq [OF write_ok [THEN any]] seq [OF read_eoi] write_ok [THEN any]) auto
  have armed: "wp (arm io) (\<lambda>x e'. (\<exists>v. x = Inr v) \<and> I e') e" if "I e" for e
    unfolding arm_def using that by (intro write_ok [THEN any]) auto
  show ?thesis
    unfolding self_test_with_def wp_bind [of "validate_platform cfg io"]
    by (rule wp_mono [OF validate_keeps [OF assms]])
      (auto split: sum.splits intro!: seq [OF reset_ok [THEN any]] seq [OF prep] seq [OF install_ok]
        seq [OF stop_keeps] seq [OF armed] seq [OF ticks_ok] seq [OF poll_keeps]
        seq [OF disable_ok [THEN any]] simp: wp_ok wp_fail)
qed

end

section \<open>The driver on the C906L\<close>

fun shared_load :: "timer_config \<Rightarrow> timer_event \<Rightarrow> bool" where
  "shared_load cfg (Load32 a v) \<longleftrightarrow> a \<in> register_address cfg ` shared_registers"
| "shared_load cfg _ \<longleftrightarrow> False"

fun own_access :: "timer_config \<Rightarrow> timer_event \<Rightarrow> bool" where
  "own_access cfg (Load32 a v) \<longleftrightarrow>
     a \<in> register_address cfg ` shared_registers \<or> a = load_address cfg + 0x0c"
| "own_access cfg (Store32 a v) \<longleftrightarrow> a \<in> {load_address cfg, load_address cfg + 0x08}"
| "own_access cfg (IrqInstall channel irq r) \<longleftrightarrow> channel = tc_channel cfg \<and> irq = tc_irq cfg"
| "own_access cfg (IrqDisable channel irq) \<longleftrightarrow> channel = tc_channel cfg \<and> irq = tc_irq cfg"
| "own_access cfg (FiredAnd m) \<longleftrightarrow> m = NOT (fired_mask cfg)"
| "own_access cfg (FiredOr m) \<longleftrightarrow> m = fired_mask cfg"
| "own_access cfg _ \<longleftrightarrow> True"

definition since :: "timer_event list \<Rightarrow> (timer_event \<Rightarrow> bool) \<Rightarrow> 'h timer_machine \<Rightarrow> bool" where
  "since l P m \<longleftrightarrow> (\<exists>new. m_log m = l @ new \<and> list_all P new)"

lemma since_more:
  "since l P m \<Longrightarrow> list_all P evs \<Longrightarrow> since l P \<lparr>m_hw = h, m_log = m_log m @ evs\<rparr>"
  by (auto simp: since_def)

lemmas timer_instances = mmio_def with_channel_def load32_def store32_def platform_runtime_def

interpretation mmio_reader: timer_reader "mmio hw cfg" "since l (shared_load cfg)" for hw cfg l
  by unfold_locales
    (auto simp: timer_instances wp_simps split: prod.split intro!: since_more)

interpretation mmio_env: timer_env "mmio hw cfg" "since l (own_access cfg)" "platform_runtime hw cfg"
  for hw cfg l
  by unfold_locales
    (auto simp: timer_instances wp_simps split: prod.split
      intro!: since_more)

text \<open>The accesses that matter to the other processor: registers and the interrupt controller.\<close>

fun is_access :: "timer_event \<Rightarrow> bool" where
  "is_access (Load32 a v) = True"
| "is_access (Store32 a v) = True"
| "is_access (IrqInstall channel irq r) = True"
| "is_access (IrqDisable channel irq) = True"
| "is_access _ = False"

fun delay_of :: "timer_event \<Rightarrow> nat" where
  "delay_of (Delay n) = unat n"
| "delay_of _ = 0"

definition accesses :: "timer_event list \<Rightarrow> timer_event list" where
  "accesses evs = filter is_access evs"

definition total_delay :: "timer_event list \<Rightarrow> nat" where
  "total_delay evs = sum_list (map delay_of evs)"

lemma accesses_simps [simp]:
  "accesses [] = []" "accesses (e # evs) = (if is_access e then e # accesses evs else accesses evs)"
  "accesses (a @ b) = accesses a @ accesses b"
  by (simp_all add: accesses_def)

lemma total_delay_simps [simp]:
  "total_delay [] = 0" "total_delay (e # evs) = delay_of e + total_delay evs"
  "total_delay (a @ b) = total_delay a + total_delay b"
  by (simp_all add: total_delay_def)

lemma runtime_sels:
  "rt_reset_fired (platform_runtime hw cfg) =
     drive (th_fired_and hw (NOT (fired_mask cfg))) (FiredAnd (NOT (fired_mask cfg)))"
  "rt_fired (platform_runtime hw cfg) =
     bind (sense (th_fired_load hw) FiredLoad) (\<lambda>v. ok (v AND fired_mask cfg \<noteq> 0))"
  "rt_irq_install (platform_runtime hw cfg) =
     sense (th_irq_install hw (tc_channel cfg) (tc_irq cfg)) (IrqInstall (tc_channel cfg) (tc_irq cfg))"
  "rt_irq_disable (platform_runtime hw cfg) =
     drive (th_irq_disable hw (tc_channel cfg) (tc_irq cfg)) (IrqDisable (tc_channel cfg) (tc_irq cfg))"
  "rt_ticks (platform_runtime hw cfg) = sense (th_ticks hw) Ticks"
  "rt_delay (platform_runtime hw cfg) = (\<lambda>n. drive (th_delay hw n) (Delay n))"
  by (simp_all add: platform_runtime_def)

lemma poll_trace:
  "wp (poll_fired (platform_runtime hw cfg) d n)
     (\<lambda>x m'. (\<exists>b. x = Inr b) \<and> (\<exists>new. m_log m' = m_log m @ new \<and> accesses new = [] \<and> total_delay new \<le> n)) m"
proof (induction n arbitrary: m)
  case 0
  show ?case by (auto simp: runtime_sels wp_simps split: prod.split)
next
  case (Suc n)
  have step: "wp (poll_fired (platform_runtime hw cfg) d n)
      (\<lambda>x m'. (\<exists>b. x = Inr b) \<and>
        (\<exists>new. m_log m' = m_log m @ new \<and> accesses new = [] \<and> total_delay new \<le> Suc n)) m1"
    if "m_log m1 = m_log m @ evs" "accesses evs = []" "total_delay evs = 1" for m1 evs
    by (rule wp_mono [OF Suc]) (use that in auto)
  show ?case
    using step by (auto simp: runtime_sels wp_simps split: prod.split)
qed

text \<open>The complete course of a self-test whose preconditions hold.\<close>

definition self_test_accesses :: "timer_config \<Rightarrow> u32 list \<Rightarrow> int \<Rightarrow> timer_event list" where
  "self_test_accesses cfg v installed =
     (let base = load_address cfg in
      [Load32 (pc_address (clock_xtal_misc cfg)) (v ! 0), Load32 (pc_address (clock_channel cfg)) (v ! 1),
       Load32 (pc_address (reset_timer_ip cfg)) (v ! 2), Load32 (pc_address (clock_source cfg)) (v ! 3),
       Store32 (base + 0x08) CONTROL_STOPPED_MASKED, Load32 (base + 0x0c) (v ! 4),
       Store32 base (period_ticks cfg), IrqInstall (tc_channel cfg) (tc_irq cfg) installed] @
      (if installed = 0 then [Store32 (base + 0x08) CONTROL_RUNNING_UNMASKED] else []) @
      [Store32 (base + 0x08) CONTROL_STOPPED_MASKED, Load32 (base + 0x0c) (v ! 5)] @
      (if installed = 0 then [IrqDisable (tc_channel cfg) (tc_irq cfg)] else []))"

lemma validate_trace:
  "wp (validate_platform cfg (mmio hw cfg))
     (\<lambda>x m'. \<forall>u. x = Inr u \<longrightarrow> (\<exists>v0 v1 v2 v3. m_log m' = m_log m @
        [Load32 (pc_address (clock_xtal_misc cfg)) v0, Load32 (pc_address (clock_channel cfg)) v1,
         Load32 (pc_address (reset_timer_ip cfg)) v2, Load32 (pc_address (clock_source cfg)) v3])) m"
  by (auto simp: validate_platform_def precondition_met_def mmio_def load32_def wp_simps split: prod.split)

lemma validate_outcome:
  "wp (validate_platform cfg (mmio hw cfg))
     (\<lambda>x m'. (since (m_log m) (shared_load cfg) m' \<and> (\<forall>e. x = Inl e \<longrightarrow> e \<in> validation_errors)) \<and>
        (\<forall>u. x = Inr u \<longrightarrow> (\<exists>v0 v1 v2 v3. m_log m' = m_log m @
        [Load32 (pc_address (clock_xtal_misc cfg)) v0, Load32 (pc_address (clock_channel cfg)) v1,
         Load32 (pc_address (reset_timer_ip cfg)) v2, Load32 (pc_address (clock_source cfg)) v3]))) m"
proof (rule wp_conj [OF mmio_reader.validate_keeps validate_trace])
  show "since (m_log m) (shared_load cfg) m" by (simp add: since_def)
qed

lemma stop_trace:
  "wp (stop_and_clear (mmio hw cfg)) (\<lambda>x m'. x = Inr () \<and> (\<exists>v new. m_log m' = m_log m @ new \<and>
     accesses new = [Store32 (load_address cfg + 0x08) CONTROL_STOPPED_MASKED,
       Load32 (load_address cfg + 0x0c) v] \<and> total_delay new = 0)) m"
  by (auto simp: stop_and_clear_def mmio_def with_channel_def load32_def store32_def wp_simps
      split: prod.split)

lemma prepare_trace:
  "wp (prepare cfg (mmio hw cfg)) (\<lambda>x m'. x = Inr () \<and> (\<exists>v new. m_log m' = m_log m @ new \<and>
     accesses new = [Store32 (load_address cfg + 0x08) CONTROL_STOPPED_MASKED,
       Load32 (load_address cfg + 0x0c) v, Store32 (load_address cfg) (period_ticks cfg)] \<and>
     total_delay new = 0)) m"
  by (auto simp: prepare_def mmio_def with_channel_def load32_def store32_def wp_simps split: prod.split)

lemma arm_trace:
  "wp (arm (mmio hw cfg)) (\<lambda>x m'. x = Inr () \<and> (\<exists>new. m_log m' = m_log m @ new \<and>
     accesses new = [Store32 (load_address cfg + 0x08) CONTROL_RUNNING_UNMASKED] \<and>
     total_delay new = 0)) m"
  by (auto simp: arm_def mmio_def with_channel_def load32_def store32_def wp_simps split: prod.split)

text \<open>Sequencing of traces: \<open>ran l acc n m\<close> holds of a machine that since the log \<open>l\<close> made
  the accesses \<open>acc\<close> and waited at most \<open>n\<close> ticks.\<close>

definition ran :: "timer_event list \<Rightarrow> timer_event list \<Rightarrow> nat \<Rightarrow> 'h timer_machine \<Rightarrow> bool" where
  "ran l acc n m \<longleftrightarrow> (\<exists>new. m_log m = l @ new \<and> accesses new = acc \<and> total_delay new \<le> n)"

lemma ran_step:
  assumes "ran l acc n m" "m_log m' = m_log m @ new" "accesses new = acc'" "total_delay new \<le> n'"
  shows "ran l (acc @ acc') (n + n') m'"
  using assms by (auto simp: ran_def)

lemma wp_seq_Inr:
  assumes "wp p (\<lambda>x m'. x = Inr a \<and> R m') m" "\<And>m'. R m' \<Longrightarrow> wp (f a) Q m'"
  shows "wp (bind p f) Q m"
  unfolding wp_bind by (rule wp_mono [OF assms(1)]) (use assms(2) in auto)

lemma wp_seq_any:
  assumes "wp p (\<lambda>x m'. (\<exists>a. x = Inr a) \<and> R m') m" "\<And>a m'. R m' \<Longrightarrow> wp (f a) Q m'"
  shows "wp (bind p f) Q m"
  unfolding wp_bind by (rule wp_mono [OF assms(1)]) (use assms(2) in auto)

lemma self_test_finish:
  assumes "ran l acc n m"
  shows "wp (bind (stop_and_clear (mmio hw cfg)) (\<lambda>_. bind (rt_irq_disable (platform_runtime hw cfg))
      (\<lambda>_. if passed then ok () else fail Timeout)))
    (\<lambda>x m'. x = (if passed then Inr () else Inl Timeout) \<and> (\<exists>v. ran l (acc @
      [Store32 (load_address cfg + 0x08) CONTROL_STOPPED_MASKED, Load32 (load_address cfg + 0x0c) v,
       IrqDisable (tc_channel cfg) (tc_irq cfg)]) n m')) m"
proof (rule wp_seq_Inr [OF stop_trace])
  fix m' :: "'a timer_machine"
  assume "\<exists>v new. m_log m' = m_log m @ new \<and>
     accesses new = [Store32 (load_address cfg + 0x08) CONTROL_STOPPED_MASKED,
       Load32 (load_address cfg + 0x0c) v] \<and> total_delay new = 0"
  then obtain v new where "m_log m' = m_log m @ new" "total_delay new = 0"
    "accesses new = [Store32 (load_address cfg + 0x08) CONTROL_STOPPED_MASKED,
       Load32 (load_address cfg + 0x0c) v]" by blast
  with assms show "wp (bind (rt_irq_disable (platform_runtime hw cfg))
      (\<lambda>_. if passed then ok () else fail Timeout))
    (\<lambda>x m'. x = (if passed then Inr () else Inl Timeout) \<and> (\<exists>v. ran l (acc @
      [Store32 (load_address cfg + 0x08) CONTROL_STOPPED_MASKED, Load32 (load_address cfg + 0x0c) v,
       IrqDisable (tc_channel cfg) (tc_irq cfg)]) n m')) m'"
    by (auto simp: runtime_sels wp_simps ran_def)
qed

lemma self_test_armed:
  assumes "ran l acc 0 m"
  shows "wp (bind (arm (mmio hw cfg)) (\<lambda>_. bind (rt_ticks (platform_runtime hw cfg)) (\<lambda>now.
      bind (poll_fired (platform_runtime hw cfg) (now + t) k) (\<lambda>passed.
      bind (stop_and_clear (mmio hw cfg)) (\<lambda>_. bind (rt_irq_disable (platform_runtime hw cfg))
      (\<lambda>_. if passed then ok () else fail Timeout))))))
    (\<lambda>x m'. (x = Inr () \<or> x = Inl Timeout) \<and> (\<exists>v. ran l (acc @
      [Store32 (load_address cfg + 0x08) CONTROL_RUNNING_UNMASKED,
       Store32 (load_address cfg + 0x08) CONTROL_STOPPED_MASKED, Load32 (load_address cfg + 0x0c) v,
       IrqDisable (tc_channel cfg) (tc_irq cfg)]) k m')) m" (is "wp _ ?Q m")
proof (rule wp_seq_Inr [OF arm_trace])
  let ?acc = "acc @ [Store32 (load_address cfg + 0x08) CONTROL_RUNNING_UNMASKED]"
  fix m1 :: "'a timer_machine"
  assume "\<exists>new. m_log m1 = m_log m @ new \<and>
     accesses new = [Store32 (load_address cfg + 0x08) CONTROL_RUNNING_UNMASKED] \<and> total_delay new = 0"
  then have r1: "ran l ?acc 0 m1" using assms by (auto simp: ran_def)
  show "wp (bind (rt_ticks (platform_runtime hw cfg)) (\<lambda>now.
      bind (poll_fired (platform_runtime hw cfg) (now + t) k) (\<lambda>passed.
      bind (stop_and_clear (mmio hw cfg)) (\<lambda>_. bind (rt_irq_disable (platform_runtime hw cfg))
      (\<lambda>_. if passed then ok () else fail Timeout))))) ?Q m1"
  proof (rule wp_seq_any [where R = "ran l ?acc 0"])
    show "wp (rt_ticks (platform_runtime hw cfg)) (\<lambda>x m'. (\<exists>a. x = Inr a) \<and> ran l ?acc 0 m') m1"
      using r1 by (auto simp: runtime_sels wp_simps ran_def split: prod.split)
  next
    fix now and m2 :: "'a timer_machine" assume r2: "ran l ?acc 0 m2"
    show "wp (bind (poll_fired (platform_runtime hw cfg) (now + t) k) (\<lambda>passed.
      bind (stop_and_clear (mmio hw cfg)) (\<lambda>_. bind (rt_irq_disable (platform_runtime hw cfg))
      (\<lambda>_. if passed then ok () else fail Timeout)))) ?Q m2"
    proof (rule wp_seq_any [OF poll_trace])
      fix passed and m3 :: "'a timer_machine"
      assume "\<exists>new. m_log m3 = m_log m2 @ new \<and> accesses new = [] \<and> total_delay new \<le> k"
      with r2 have "ran l ?acc k m3" using ran_step [OF r2] by fastforce
      from self_test_finish [OF this] show "wp (bind (stop_and_clear (mmio hw cfg))
          (\<lambda>_. bind (rt_irq_disable (platform_runtime hw cfg))
            (\<lambda>_. if passed then ok () else fail Timeout))) ?Q m3"
        by (rule wp_mono) (auto split: if_splits)
    qed
  qed
qed

text \<open>What a self-test reports and what it did to the hardware.\<close>

definition self_test_spec ::
    "timer_config \<Rightarrow> timer_event list \<Rightarrow> self_test_error + unit \<Rightarrow> 'h timer_machine \<Rightarrow> bool" where
  "self_test_spec cfg l x m \<longleftrightarrow>
     (\<exists>e\<in>validation_errors. x = Inl e) \<and> since l (shared_load cfg) m \<or>
     (\<exists>v i. ran l (self_test_accesses cfg v i) (unat (timeout_rtos_ticks cfg) + 1) m \<and>
        (if i \<noteq> 0 then x = Inl InterruptRegistration else x \<in> {Inr (), Inl Timeout}))"

text \<open>The part of \<open>self_test_with\<close> after validation.\<close>

abbreviation self_test_rest ::
    "timer_config \<Rightarrow> 'e timer_io \<Rightarrow> 'e timer_runtime \<Rightarrow> ('e, self_test_error, unit) prog" where
  "self_test_rest cfg io rt \<equiv>
     bind (rt_reset_fired rt) (\<lambda>_. bind (prepare cfg io) (\<lambda>_. bind (rt_irq_install rt) (\<lambda>installed.
       if installed \<noteq> 0 then bind (stop_and_clear io) (\<lambda>_. fail InterruptRegistration)
       else bind (arm io) (\<lambda>_. bind (rt_ticks rt) (\<lambda>now.
         bind (poll_fired rt (now + timeout_rtos_ticks cfg)
             (unat (saturating_add (timeout_rtos_ticks cfg) 1))) (\<lambda>passed.
         bind (stop_and_clear io) (\<lambda>_. bind (rt_irq_disable rt) (\<lambda>_.
           if passed then ok () else fail Timeout))))))))"

lemma self_test_after_validation:
  assumes r0: "ran l [Load32 (pc_address (clock_xtal_misc cfg)) v0, Load32 (pc_address (clock_channel cfg)) v1,
         Load32 (pc_address (reset_timer_ip cfg)) v2, Load32 (pc_address (clock_source cfg)) v3] 0 m0"
    (is "ran l ?loads 0 m0")
  shows "wp (self_test_rest cfg (mmio hw cfg) (platform_runtime hw cfg)) (self_test_spec cfg l) m0"
proof (rule wp_seq_Inr [where R = "ran l ?loads 0"])
  show "wp (rt_reset_fired (platform_runtime hw cfg)) (\<lambda>x m'. x = Inr () \<and> ran l ?loads 0 m') m0"
    using r0 by (auto simp: runtime_sels wp_simps ran_def)
next
  let ?rt = "platform_runtime hw cfg" and ?io = "mmio hw cfg" and ?base = "load_address cfg"
  let ?Q = "self_test_spec cfg l :: _ \<Rightarrow> 'a timer_machine \<Rightarrow> bool"
  let ?prep = "\<lambda>v4. ?loads @ [Store32 (?base + 0x08) CONTROL_STOPPED_MASKED, Load32 (?base + 0x0c) v4,
    Store32 ?base (period_ticks cfg)]"
  let ?inst = "\<lambda>v4 i. ?prep v4 @ [IrqInstall (tc_channel cfg) (tc_irq cfg) i]"
  fix m1 :: "'a timer_machine" assume r1: "ran l ?loads 0 m1"
  have fail: "wp (bind (stop_and_clear ?io) (\<lambda>_. fail InterruptRegistration)) ?Q m3"
    if "ran l (?inst v4 i) 0 m3" "i \<noteq> 0" for v4 i and m3 :: "'a timer_machine"
  proof (rule wp_seq_Inr [OF stop_trace])
    fix m4 :: "'a timer_machine"
    assume "\<exists>v new. m_log m4 = m_log m3 @ new \<and> accesses new = [Store32 (?base + 0x08) CONTROL_STOPPED_MASKED,
       Load32 (?base + 0x0c) v] \<and> total_delay new = 0"
    then obtain v5 new where n: "m_log m4 = m_log m3 @ new"
      "accesses new = [Store32 (?base + 0x08) CONTROL_STOPPED_MASKED, Load32 (?base + 0x0c) v5]"
      "total_delay new \<le> 0" by auto
    from ran_step [OF that(1) n] have "ran l (self_test_accesses cfg [v0, v1, v2, v3, v4, v5] i)
        (unat (timeout_rtos_ticks cfg) + 1) m4"
      using that(2) by (auto simp: self_test_accesses_def Let_def ran_def)
    then show "wp (fail InterruptRegistration) ?Q m4"
      using that(2) by (auto simp: wp_simps self_test_spec_def)
  qed
  have run: "wp (bind (arm ?io) (\<lambda>_. bind (rt_ticks ?rt) (\<lambda>now.
         bind (poll_fired ?rt (now + timeout_rtos_ticks cfg)
             (unat (saturating_add (timeout_rtos_ticks cfg) 1))) (\<lambda>passed.
         bind (stop_and_clear ?io) (\<lambda>_. bind (rt_irq_disable ?rt) (\<lambda>_.
           if passed then ok () else fail Timeout)))))) ?Q m3"
    if "ran l (?inst v4 0) 0 m3" for v4 and m3 :: "'a timer_machine"
  proof (rule wp_mono [OF self_test_armed [OF that]])
    fix x and m4 :: "'a timer_machine"
    assume "(x = Inr () \<or> x = Inl Timeout) \<and> (\<exists>v. ran l (?inst v4 0 @
      [Store32 (?base + 0x08) CONTROL_RUNNING_UNMASKED, Store32 (?base + 0x08) CONTROL_STOPPED_MASKED,
       Load32 (?base + 0x0c) v, IrqDisable (tc_channel cfg) (tc_irq cfg)])
       (unat (saturating_add (timeout_rtos_ticks cfg) 1)) m4)"
    then obtain v5 where x: "x = Inr () \<or> x = Inl Timeout" and
      "ran l (self_test_accesses cfg [v0, v1, v2, v3, v4, v5] 0)
        (unat (saturating_add (timeout_rtos_ticks cfg) 1)) m4"
      by (auto simp: self_test_accesses_def Let_def)
    moreover have "unat (saturating_add (timeout_rtos_ticks cfg) 1) \<le> unat (timeout_rtos_ticks cfg) + 1"
      by (simp add: unat_saturating_add)
    ultimately have "ran l (self_test_accesses cfg [v0, v1, v2, v3, v4, v5] 0)
        (unat (timeout_rtos_ticks cfg) + 1) m4"
      unfolding ran_def by (meson order_trans)
    then show "self_test_spec cfg l x m4" using x by (auto simp: self_test_spec_def)
  qed
  show "wp (bind (prepare cfg ?io) (\<lambda>_. bind (rt_irq_install ?rt) (\<lambda>installed.
       if installed \<noteq> 0 then bind (stop_and_clear ?io) (\<lambda>_. fail InterruptRegistration)
       else bind (arm ?io) (\<lambda>_. bind (rt_ticks ?rt) (\<lambda>now.
         bind (poll_fired ?rt (now + timeout_rtos_ticks cfg)
             (unat (saturating_add (timeout_rtos_ticks cfg) 1))) (\<lambda>passed.
         bind (stop_and_clear ?io) (\<lambda>_. bind (rt_irq_disable ?rt) (\<lambda>_.
           if passed then ok () else fail Timeout)))))))) ?Q m1"
  proof (rule wp_seq_Inr [OF prepare_trace])
    fix m2 :: "'a timer_machine"
    assume "\<exists>v new. m_log m2 = m_log m1 @ new \<and> accesses new = [Store32 (?base + 0x08) CONTROL_STOPPED_MASKED,
       Load32 (?base + 0x0c) v, Store32 ?base (period_ticks cfg)] \<and> total_delay new = 0"
    then obtain v4 where r2: "ran l (?prep v4) 0 m2" using r1 ran_step [OF r1] by fastforce
    then have r3: "ran l (?inst v4 i) 0 \<lparr>m_hw = h, m_log = m_log m2 @ [IrqInstall (tc_channel cfg) (tc_irq cfg) i]\<rparr>"
      for i h by (auto simp: ran_def)
    show "wp (bind (rt_irq_install ?rt) (\<lambda>installed.
       if installed \<noteq> 0 then bind (stop_and_clear ?io) (\<lambda>_. fail InterruptRegistration)
       else bind (arm ?io) (\<lambda>_. bind (rt_ticks ?rt) (\<lambda>now.
         bind (poll_fired ?rt (now + timeout_rtos_ticks cfg)
             (unat (saturating_add (timeout_rtos_ticks cfg) 1))) (\<lambda>passed.
         bind (stop_and_clear ?io) (\<lambda>_. bind (rt_irq_disable ?rt) (\<lambda>_.
           if passed then ok () else fail Timeout))))))) ?Q m2"
      using run [OF r3] fail [OF r3]
      by (subst wp_bind, subst runtime_sels(3), subst wp_sense) (auto split: prod.split)
  qed
qed

lemma self_test_with_trace:
  "wp (self_test_with cfg (mmio hw cfg) (platform_runtime hw cfg)) (self_test_spec cfg (m_log m)) m"
  unfolding self_test_with_def wp_bind [of "validate_platform cfg (mmio hw cfg)"]
proof (rule wp_mono [OF validate_outcome])
  let ?l = "m_log m" and ?rt = "platform_runtime hw cfg" and ?io = "mmio hw cfg"
  fix x and m0 :: "'a timer_machine"
  assume v: "(since ?l (shared_load cfg) m0 \<and> (\<forall>e. x = Inl e \<longrightarrow> e \<in> validation_errors)) \<and>
    (\<forall>u. x = Inr u \<longrightarrow> (\<exists>v0 v1 v2 v3. m_log m0 = ?l @
        [Load32 (pc_address (clock_xtal_misc cfg)) v0, Load32 (pc_address (clock_channel cfg)) v1,
         Load32 (pc_address (reset_timer_ip cfg)) v2, Load32 (pc_address (clock_source cfg)) v3]))"
  let ?rest = "self_test_rest cfg ?io ?rt"
  show "case x of Inl e \<Rightarrow> self_test_spec cfg ?l (Inl e) m0 | Inr u \<Rightarrow> wp ?rest (self_test_spec cfg ?l) m0"
  proof (cases x)
    case (Inl e)
    then show ?thesis using v by (auto simp: self_test_spec_def)
  next
    case (Inr u)
    then obtain v0 v1 v2 v3 where "m_log m0 = ?l @
        [Load32 (pc_address (clock_xtal_misc cfg)) v0, Load32 (pc_address (clock_channel cfg)) v1,
         Load32 (pc_address (reset_timer_ip cfg)) v2, Load32 (pc_address (clock_source cfg)) v3]"
      using v by blast
    then have "wp ?rest (self_test_spec cfg ?l) m0"
      by (intro self_test_after_validation) (auto simp: ran_def)
    with Inr show ?thesis by simp
  qed
qed

section \<open>Addresses\<close>

text \<open>In a valid configuration the channel slice lies where the channel number says, inside the
  bank, and no address of it wraps around.\<close>

lemma valid_slice:
  assumes "valid_config cfg" "unat k < 20"
  shows "unat (load_address cfg + k) = unat (bank_address cfg) + 20 * unat (tc_channel cfg) + unat k"
    "4 \<le> unat (tc_channel cfg)" "unat (tc_channel cfg) \<le> 7"
    "unat (load_address cfg + k) < unat (bank_address cfg) + unat (bank_size cfg)"
proof -
  obtain be ce co where v: "checked_add (bank_address cfg) (bank_size cfg) = Some be"
    "checked_add (load_address cfg) CHANNEL_SIZE = Some ce"
    "checked_mul (ucast (tc_channel cfg)) CHANNEL_SIZE = Some co"
    "checked_add (bank_address cfg) co = Some (load_address cfg)"
    "ce \<le> be" "4 \<le> tc_channel cfg" "tc_channel cfg \<le> 7"
    using assms(1) unfolding valid_config_def by (auto split: option.splits)
  have ch: "unat (ucast (tc_channel cfg) :: u64) = unat (tc_channel cfg)"
    using unat_lt_u32 [of "tc_channel cfg"] by (simp add: unsigned_ucast_eq unsigned_take_bit_eq take_bit_nat_eq_self)
  have "unat co = 20 * unat (tc_channel cfg)"
    using v(3) by (auto simp: checked_mul_def CHANNEL_SIZE_def unat_word_ariths ch split: if_splits)
  then have load: "unat (load_address cfg) = unat (bank_address cfg) + 20 * unat (tc_channel cfg)"
    using unat_checked_add [OF v(4)] by simp
  have ce: "unat ce = unat (load_address cfg) + 20"
    using unat_checked_add [OF v(2)] by (simp add: CHANNEL_SIZE_def)
  then have "unat (load_address cfg) + unat k < 2 ^ 64" using unat_lt [of ce] assms(2) by simp
  then have k: "unat (load_address cfg + k) = unat (load_address cfg) + unat k"
    by (simp add: unat_word_ariths)
  show "unat (load_address cfg + k) = unat (bank_address cfg) + 20 * unat (tc_channel cfg) + unat k"
    using k load by simp
  show "4 \<le> unat (tc_channel cfg)" "unat (tc_channel cfg) \<le> 7"
    using v(6,7) by (simp_all add: word_le_nat_alt)
  show "unat (load_address cfg + k) < unat (bank_address cfg) + unat (bank_size cfg)"
    using k ce v(5) unat_checked_add [OF v(1)] assms(2) by (simp add: word_le_nat_alt)
qed

text \<open>An address of the leased channel slice, and the bank's aggregate EOI register.\<close>

definition in_slice :: "timer_config \<Rightarrow> u64 \<Rightarrow> bool" where
  "in_slice cfg a \<longleftrightarrow>
     unat (bank_address cfg) + 20 * unat (tc_channel cfg) \<le> unat a \<and>
     unat a < unat (bank_address cfg) + 20 * unat (tc_channel cfg) + 20"

fun confined :: "timer_config \<Rightarrow> timer_event \<Rightarrow> bool" where
  "confined cfg (Store32 a v) \<longleftrightarrow> in_slice cfg a \<and> unat a \<noteq> unat (bank_address cfg) + 0xa4"
| "confined cfg (Load32 a v) \<longleftrightarrow>
     a \<in> register_address cfg ` shared_registers \<or>
     in_slice cfg a \<and> unat a \<noteq> unat (bank_address cfg) + 0xa4"
| "confined cfg (IrqInstall channel irq r) \<longleftrightarrow> channel = tc_channel cfg \<and> irq = tc_channel cfg + 51"
| "confined cfg (IrqDisable channel irq) \<longleftrightarrow> channel = tc_channel cfg \<and> irq = tc_channel cfg + 51"
| "confined cfg _ \<longleftrightarrow> True"

lemma own_access_confined:
  assumes "valid_config cfg" "own_access cfg ev"
  shows "confined cfg ev"
proof -
  have slice: "in_slice cfg (load_address cfg + k) \<and>
      unat (load_address cfg + k) \<noteq> unat (bank_address cfg) + 0xa4" if "unat k < 20" for k
    using valid_slice [OF assms(1) that] that by (simp add: in_slice_def)
  have "tc_irq cfg = tc_channel cfg + 51"
    using assms(1) unfolding valid_config_def by (auto split: option.splits)
  with assms(2) slice [of 0] slice [of 8] slice [of 12] show ?thesis
    by (cases ev) auto
qed

section \<open>The lease provider of the timer profiles\<close>

lemma self_test_total: "\<exists>x m'. self_test hw cfg m = Some (x, m')"
  using self_test_with_trace [of cfg hw m] by (auto simp: self_test_def fail_def wp_runs)

lemma activate_timers_total:
  assumes "\<And>cfg m. \<exists>x m'. act cfg m = Some (x, m')"
  shows "\<exists>x m'. activate_selected_timers c act cfgs m = Some (x, m')"
proof (induction cfgs arbitrary: m)
  case (Cons cfg cfgs)
  obtain x m1 where "act cfg m = Some (x, m1)" using assms by blast
  then show ?case using Cons.IH by (cases x) (auto simp: bind_def map_err_def)
qed (simp add: ok_def)

lemma activate_timers_cases:
  assumes "activate_selected_timers c act cfgs m = Some (Inl f, m')"
  shows "\<exists>pre cfg post mid e. cfgs = pre @ cfg # post \<and>
    activate_selected_timers c act pre m = Some (Inr (), mid) \<and> act cfg mid = Some (Inl e, m') \<and>
    f = timer_failure c e (FLAG_TIMER_SELF_TEST_FAILED c (tc_channel cfg))"
  using assms
proof (induction cfgs arbitrary: m)
  case (Cons cfg cfgs)
  then obtain x m1 where x: "act cfg m = Some (x, m1)"
    by (auto simp: bind_def map_err_def split: option.splits)
  show ?case
  proof (cases x)
    case (Inl e)
    then show ?thesis using Cons.prems x
      by (intro exI [of _ "[]"]) (auto simp: bind_def map_err_def ok_def)
  next
    case (Inr u)
    then have "activate_selected_timers c act cfgs m1 = Some (Inl f, m')"
      using Cons.prems x by (simp add: bind_def map_err_def)
    from Cons.IH [OF this] obtain pre d post mid e where "cfgs = pre @ d # post"
      "activate_selected_timers c act pre m1 = Some (Inr (), mid)" "act d mid = Some (Inl e, m')"
      "f = timer_failure c e (FLAG_TIMER_SELF_TEST_FAILED c (tc_channel d))" by blast
    then show ?thesis using x Inr
      by (intro exI [of _ "cfg # pre"] exI [of _ d] exI [of _ post] exI [of _ mid] exI [of _ e])
        (simp add: bind_def map_err_def)
  qed
qed (simp add: ok_def)

lemma timer_failure_code: "lf_result (timer_failure c e flag) \<in> set (tl (activation_results c))"
  by (cases e) (simp_all add: timer_failure_def activation_results_def)

definition hardware_env ::
    "contract \<Rightarrow> 'h timer_hw \<Rightarrow> timer_config list \<Rightarrow>
     ('h timer_machine \<Rightarrow> (activation_request \<times> activation_request) \<times> 'h timer_machine) \<Rightarrow>
     (status \<Rightarrow> 'h timer_machine \<Rightarrow> 'h timer_machine) \<Rightarrow> 'h timer_machine activation_env" where
  "hardware_env c hw cfgs rd pub = \<lparr>read_pair = rd, activate = hardware_activate c hw (TimerProfile cfgs),
     publish_status = pub\<rparr>"

lemma hardware_lease_provider:
  assumes "contract_ok c"
  shows "lease_provider c (hardware_env c hw cfgs rd pub)"
proof
  have total: "\<exists>x m'. hardware_activate c hw (TimerProfile cfgs) m = Some (x, m')" for m
    using activate_timers_total [of "self_test hw", OF self_test_total]
    by (auto simp: hardware_activate_def fail_def)
  then show "activate (hardware_env c hw cfgs rd pub) h \<noteq> None" for h
    by (auto simp: hardware_env_def)
  show "lf_result f \<in> set (tl (activation_results c))"
    if "activate (hardware_env c hw cfgs rd pub) h = Some (Inl f, h')" for h f h'
  proof (cases "cfgs = []")
    case True
    then show ?thesis using that
      by (auto simp: hardware_env_def hardware_activate_def fail_def activation_results_def)
  next
    case False
    then have "activate_selected_timers c (self_test hw) cfgs h = Some (Inl f, h')"
      using that by (simp add: hardware_env_def hardware_activate_def)
    from activate_timers_cases [OF this] show ?thesis using timer_failure_code by auto
  qed
qed (rule assms)

interpretation timer_leases: lease_provider timer_contract "hardware_env timer_contract hw cfgs rd pub"
  for hw cfgs rd pub
  by (rule hardware_lease_provider) (rule timer_contract_ok)

section \<open>The shipped channels and a concrete platform\<close>

definition shipped_consts :: "u32 \<Rightarrow> timer_consts" where
  "shipped_consts ch =
     (let base = 0x030a0000 + 0x14 * ucast ch; n = unat ch in
      \<lparr>kt_IRQ = ch + 51, kt_BANK_ADDRESS = 0x030a0000, kt_BANK_SIZE = 0x00010000,
       kt_LOAD_ADDRESS = base, kt_CURRENT_ADDRESS = base + 4, kt_CONTROL_ADDRESS = base + 8,
       kt_EOI_ADDRESS = base + 0x0c, kt_STATUS_ADDRESS = base + 0x10,
       kt_PRECONDITION_CLOCK_XTAL_MISC = (0x03002000, 0x00004000, 0x00004000),
       kt_PRECONDITION_CLOCK_TIMER = (0x0300200c, push_bit (n + 9) 1, push_bit (n + 9) 1),
       kt_PRECONDITION_RESET_TIMER_IP = (0x03003008, 0x00002000, 0x00002000),
       kt_PRECONDITION_RESET_TIMER = (0x03003008, push_bit (n + 14) 1, push_bit (n + 14) 1),
       kt_PRECONDITION_CLOCK_SOURCE = (0x030001a0, push_bit n 1, 0),
       kt_TEST_PERIOD_TICKS = 2500000, kt_TEST_TIMEOUT_RTOS_TICKS = 100\<rparr>)"

text \<open>A platform whose prerequisite registers read as all ones with the crystal selected, whose
  interrupt can be installed and whose channel fires at once.\<close>

definition prompt_hw :: "unit timer_hw" where
  "prompt_hw =
     \<lparr>th_load = (\<lambda>a h. (if a = 0x030001a0 then 0 else - 1, h)), th_store = (\<lambda>a v h. h),
      th_irq_save = (\<lambda>h. (1, h)), th_irq_restore = (\<lambda>r h. h), th_irq_install = (\<lambda>c i h. (0, h)),
      th_irq_disable = (\<lambda>c i h. h), th_ticks = (\<lambda>h. (0, h)), th_delay = (\<lambda>n h. h),
      th_fired_load = (\<lambda>h. (- 1, h)), th_fired_and = (\<lambda>m h. h), th_fired_or = (\<lambda>m h. h)\<rparr>"

lemma shipped_timers_valid:
  "valid_config (TIMER4 shipped_consts)" "valid_config (TIMER5 shipped_consts)"
  "valid_config (TIMER6 shipped_consts)" "valid_config (TIMER7 shipped_consts)"
  by (simp_all add: valid_config_def TIMER4_def TIMER5_def TIMER6_def TIMER7_def timer_config_of_def
      shipped_consts_def checked_add_def checked_mul_def CHANNEL_SIZE_def precondition_shape_def
      word_le_nat_alt unsigned_ucast_eq Let_def)

section \<open>Properties\<close>

text \<open>C16: the complete course of a timer self-test, for every behaviour of the registers, the clock, the
  interrupt controller and the interrupt handler. It always returns. Either validation fails
  and nothing but prerequisite registers was read; or the channel is stopped, acknowledged and
  loaded, the interrupt is installed, and the test ends with the channel stopped and
  acknowledged: without arming it and without masking the interrupt when installation failed, otherwise after arming
  it and before the interrupt is masked again. It never waits more than the configured timeout
  plus one tick, even if the tick counter stands still.\<close>

theorem timer_self_test_course:
  "\<exists>x m'. self_test hw cfg m = Some (x, m') \<and> self_test_spec cfg (m_log m) x m'"
proof (cases "valid_config cfg")
  case True
  then show ?thesis using self_test_with_trace [of cfg hw m] by (auto simp: self_test_def wp_runs)
next
  case False
  then show ?thesis
    by (auto simp: self_test_def fail_def self_test_spec_def validation_errors_def since_def)
qed

text \<open>C17: a self-test of any configuration stays inside its lease: it stores only into the 20-byte register
  slice of its own channel, loads only from there and from the addresses the configuration gives
  for the prerequisite registers, and installs and masks only the interrupt of its own channel.
  The slice does not hold the aggregate EOI register of the bank, so that register is never
  written, and it is read only by a configuration that names it as a prerequisite.\<close>

theorem timer_self_test_confined:
  "\<exists>x m'. self_test hw cfg m = Some (x, m') \<and> since (m_log m) (confined cfg) m'"
proof (cases "valid_config cfg")
  case True
  have "since (m_log m) (own_access cfg) m" by (simp add: since_def)
  from mmio_env.self_test_keeps [OF this, of cfg hw] obtain x m' where
    run: "self_test hw cfg m = Some (x, m')" and acc: "since (m_log m) (own_access cfg) m'"
    using True by (auto simp: self_test_def wp_runs)
  from acc have "since (m_log m) (confined cfg) m'"
    using own_access_confined [OF True] by (auto simp: since_def list_all_iff)
  with run show ?thesis by blast
next
  case False
  then show ?thesis by (auto simp: self_test_def fail_def since_def)
qed

text \<open>The interrupt handler never fails. A channel and interrupt pair that is not one of the
  selected valid configurations is refused without any access; otherwise exactly that channel
  is acknowledged and then stopped, in this order, before the fired bit of that channel is set.\<close>

theorem timer_interrupt_exact:
  "\<exists>r m'. c906l_timer_interrupt hw selected channel irq m = Some (Inr r, m') \<and>
     (if (\<exists>cfg. interrupt_config selected channel irq = Some cfg \<and> valid_config cfg)
      then r = 0 \<and> (\<exists>cfg new v. cfg \<in> set selected \<and> tc_channel cfg = channel \<and> tc_irq cfg = irq \<and>
        m_log m' = m_log m @ new @ [FiredOr (fired_mask cfg)] \<and>
        accesses new = [Load32 (load_address cfg + 0x0c) v,
          Store32 (load_address cfg + 0x08) CONTROL_STOPPED_MASKED])
      else r = - 1 \<and> m' = m)"
proof (cases "interrupt_config selected channel irq")
  case None
  then show ?thesis by (simp add: c906l_timer_interrupt_def ok_def)
next
  case (Some cfg)
  then have cfg: "cfg \<in> set selected" "tc_channel cfg = channel" "tc_irq cfg = irq"
    by (auto simp: interrupt_config_def find_Some_iff in_set_conv_nth)
  show ?thesis
  proof (cases "valid_config cfg")
    case True
    have "wp (c906l_timer_interrupt hw selected channel irq) (\<lambda>r m'. r = Inr 0 \<and> (\<exists>new v.
        m_log m' = m_log m @ new @ [FiredOr (fired_mask cfg)] \<and>
        accesses new = [Load32 (load_address cfg + 0x0c) v,
          Store32 (load_address cfg + 0x08) CONTROL_STOPPED_MASKED])) m"
      using Some True
      by (simp add: c906l_timer_interrupt_def acknowledge_and_stop_def mmio_def with_channel_def load32_def
          store32_def wp_simps split: prod.split)
    then show ?thesis using Some True cfg by (auto simp: wp_runs)
  qed (simp add: c906l_timer_interrupt_def ok_def Some)
qed

text \<open>Selected channels are activated in order and activation stops at the first failure: the
  failing channel's test ran right after the successful tests of all the channels before it,
  no later channel was touched, and the reported code and flag are those of that channel.\<close>

theorem timers_stop_at_first_failure:
  assumes "activate_selected_timers c act cfgs m = Some (Inl f, m')"
  shows "\<exists>pre cfg post mid e. cfgs = pre @ cfg # post \<and>
    activate_selected_timers c act pre m = Some (Inr (), mid) \<and> act cfg mid = Some (Inl e, m') \<and>
    f = timer_failure c e (FLAG_TIMER_SELF_TEST_FAILED c (tc_channel cfg))"
  using assms by (rule activate_timers_cases)

theorem timers_stop_at_first_failure_witness:
  "activate_selected_timers timer_contract
      (\<lambda>cfg. bind (drive (\<lambda>h. h) (tc_channel cfg)) (\<lambda>_. if tc_channel cfg = 5 then fail Timeout else ok ()))
      [TIMER4 shipped_consts, TIMER5 shipped_consts, TIMER6 shipped_consts] \<lparr>m_hw = (), m_log = []\<rparr> =
     Some (Inl \<lparr>lf_result = 13, lf_flag = 0x100\<rparr>, \<lparr>m_hw = (), m_log = [4, 5]\<rparr>) \<and>
   (\<exists>pre cfg post. [TIMER4 shipped_consts, TIMER5 shipped_consts, TIMER6 shipped_consts] = pre @ cfg # post)"
proof -
  let ?act = "\<lambda>cfg. bind (drive (\<lambda>h. h) (tc_channel cfg))
    (\<lambda>_. if tc_channel cfg = 5 then fail Timeout else ok ())"
  have "activate_selected_timers timer_contract ?act
      [TIMER4 shipped_consts, TIMER5 shipped_consts, TIMER6 shipped_consts] \<lparr>m_hw = (), m_log = []\<rparr> =
     Some (Inl \<lparr>lf_result = 13, lf_flag = 0x100\<rparr>, \<lparr>m_hw = (), m_log = [4, 5]\<rparr>)"
    by (simp add: bind_def map_err_def drive_def fail_def ok_def TIMER4_def TIMER5_def TIMER6_def
        timer_config_of_def timer_failure_def timer_contract_def)
  from timers_stop_at_first_failure [OF this] this show ?thesis by blast
qed

text \<open>C6: with the real timer leases behind it, every activation request is answered, and it is
  answered SUCCESS exactly when the processor ends up active, the envelope is consistent and
  the request record that was read twice is the accepted one with the envelope's id.\<close>

theorem timer_activation_answers:
  assumes "contract_ok c"
  shows "\<exists>r s'. handle c (hardware_env c hw cfgs rd pub) m s = Some (r, s') \<and>
    (r = ACTIVATION_RESULT_SUCCESS c \<longleftrightarrow>
      st_activation_state (ctl_status s') = ACTIVATION_STATE_ACTIVE c \<and> envelope_ok m \<and>
      (\<exists>q pre post. ctl_accepted s' = Some q \<and> rq_request_id q = msg_value m \<and>
         ctl_log s' = ctl_log s @ pre @ ReadPair q q # post))"
proof -
  note provider = hardware_lease_provider [OF assms, of hw cfgs rd pub]
  obtain r s' where "handle c (hardware_env c hw cfgs rd pub) m s = Some (r, s')"
    using lease_provider.handle_total [OF provider] by blast
  with lease_provider.success_iff [OF provider this] show ?thesis by blast
qed

theorem timer_activation_answers_witness:
  "\<exists>r s'. handle timer_contract
     (hardware_env timer_contract prompt_hw [TIMER4 shipped_consts]
        (\<lambda>h. ((shipped_request, shipped_request), h)) (\<lambda>st h. h))
     shipped_envelope \<lparr>ctl_status = dormant_status, ctl_accepted = None,
       ctl_hw = \<lparr>m_hw = (), m_log = []\<rparr>, ctl_log = []\<rparr> = Some (r, s')"
  using timer_activation_answers [OF timer_contract_ok] by blast

end
