(* ===== verification/Rpmsg.thy ===== *)
theory Rpmsg
  imports Prelude
begin

text \<open>
  The virtio-RPMsg transport, \<open>firmware/sg2002-c906l/src/rpmsg.rs\<close>.

  Linux is an arbitrary adversary: every volatile read of shared memory, every notification
  and the LCD service's reply are arbitrary functions of an arbitrary hardware state
  (\<open>rpmsg_hw\<close>), so ring indices and descriptors may change between any two reads. The log
  records each read, each byte string written and each cache maintenance call. Addresses are
  natural numbers; the only address arithmetic that could leave the 64-bit range is the one
  on descriptors, and there the checked additions of the source are written out. The layout
  constants come from the contract (\<open>rpmsg_contract\<close>); \<open>rpmsg_layout_ok\<close> is what the
  compile-time assertions of the source and the contract compiler fix about them.
\<close>

section \<open>The constants\<close>

record rsc_contract =
  RSC_TABLE_VERSION :: u32
  RSC_TABLE_ENTRIES :: u32
  RSC_TABLE_ENTRY_OFFSET :: u32
  RSC_VDEV :: u32
  VIRTIO_ID_RPMSG :: u32
  RSC_VDEV_NOTIFY_ID_INITIAL :: u32
  VIRTIO_RPMSG_FEATURES :: u32
  RSC_GUEST_FEATURES_INITIAL :: u32
  RSC_CONFIG_LENGTH :: u32
  RSC_STATUS_INITIAL :: u8
  RSC_VRING_COUNT :: u8
  RING_ALIGN :: u32
  VRING_NOTIFY_ID_INITIAL :: u32
  VRING_PHYSICAL_ADDRESS_INITIAL :: u32

record rpmsg_contract = rsc_contract +
  RESOURCE_TABLE_BASE :: nat
  RESOURCE_TABLE_SIZE :: nat
  VRING0_BASE :: nat
  VRING1_BASE :: nat
  VRING_SIZE :: nat
  RPMSG_BUFFER_BASE :: nat
  RPMSG_BUFFER_SIZE :: nat
  BULK_BASE :: nat
  BULK_SIZE :: nat
  SHMEM_END :: nat
  RPMSG_BUFFER_BYTES :: nat
  RPMSG_HEADER_BYTES :: nat
  RPMSG_PAYLOAD_BYTES :: nat
  RING_NUM :: nat
  RING_DRIVER_BYTES :: nat
  RING_USED_OFFSET :: nat
  RPMSG_ECHO_ADDRESS :: u32
  RPMSG_NS_ADDRESS :: u32
  RPMSG_NS_CREATE :: u32
  RPMSG_SERVICE_NAME :: "u8 list"
  VIRTIO_DRIVER_OK :: u8
  VRING_DESC_F_NEXT :: u16
  VRING_DESC_F_WRITE :: u16
  VRING_DESC_F_INDIRECT :: u16

section \<open>Shared memory\<close>

record 'h rpmsg_hw =
  rh_read8 :: "nat \<Rightarrow> 'h \<Rightarrow> u8 \<times> 'h"
  rh_read16 :: "nat \<Rightarrow> 'h \<Rightarrow> u16 \<times> 'h"
  rh_read32 :: "nat \<Rightarrow> 'h \<Rightarrow> u32 \<times> 'h"
  rh_read64 :: "nat \<Rightarrow> 'h \<Rightarrow> u64 \<times> 'h"
  rh_write :: "nat \<Rightarrow> u8 list \<Rightarrow> 'h \<Rightarrow> 'h"
  rh_clean :: "nat \<Rightarrow> nat \<Rightarrow> 'h \<Rightarrow> 'h"
  rh_invalidate :: "nat \<Rightarrow> nat \<Rightarrow> 'h \<Rightarrow> 'h"
  rh_vq_notify :: "u32 \<Rightarrow> 'h \<Rightarrow> int \<times> 'h"
  rh_vq_kick_receive :: "u32 \<Rightarrow> 'h \<Rightarrow> u32 \<times> 'h"
  rh_delay :: "u32 \<Rightarrow> 'h \<Rightarrow> 'h"

datatype rpmsg_event = RRead nat "u8 list" | RWrite nat "u8 list" | RClean nat nat | RInvalidate nat nat
  | RNotify u32 int | RKick u32 | RDelay u32 | RReply "u8 list" "u8 list"

type_synonym ('h, 'a) rpmsg_prog = "(('h, rpmsg_event) machine, unit, 'a) prog"

definition read_u8 :: "'h rpmsg_hw \<Rightarrow> nat \<Rightarrow> ('h, u8) rpmsg_prog" where
  "read_u8 hw a = sense (rh_read8 hw a) (\<lambda>v. RRead a [v])"

definition read_u16 :: "'h rpmsg_hw \<Rightarrow> nat \<Rightarrow> ('h, u16) rpmsg_prog" where
  "read_u16 hw a = sense (rh_read16 hw a) (\<lambda>v. RRead a (to_le 2 v))"

definition read_u32 :: "'h rpmsg_hw \<Rightarrow> nat \<Rightarrow> ('h, u32) rpmsg_prog" where
  "read_u32 hw a = sense (rh_read32 hw a) (\<lambda>v. RRead a (to_le 4 v))"

definition read_u64 :: "'h rpmsg_hw \<Rightarrow> nat \<Rightarrow> ('h, u64) rpmsg_prog" where
  "read_u64 hw a = sense (rh_read64 hw a) (\<lambda>v. RRead a (to_le 8 v))"

definition write_raw :: "'h rpmsg_hw \<Rightarrow> nat \<Rightarrow> u8 list \<Rightarrow> ('h, unit) rpmsg_prog" where
  "write_raw hw a bs = drive (rh_write hw a bs) (RWrite a bs)"

definition write_u8 :: "'h rpmsg_hw \<Rightarrow> nat \<Rightarrow> u8 \<Rightarrow> ('h, unit) rpmsg_prog" where
  "write_u8 hw a v = write_raw hw a [v]"

definition write_u16 :: "'h rpmsg_hw \<Rightarrow> nat \<Rightarrow> u16 \<Rightarrow> ('h, unit) rpmsg_prog" where
  "write_u16 hw a v = write_raw hw a (to_le 2 v)"

definition write_u32 :: "'h rpmsg_hw \<Rightarrow> nat \<Rightarrow> u32 \<Rightarrow> ('h, unit) rpmsg_prog" where
  "write_u32 hw a v = write_raw hw a (to_le 4 v)"

primrec write_bytes :: "'h rpmsg_hw \<Rightarrow> nat \<Rightarrow> u8 list \<Rightarrow> ('h, unit) rpmsg_prog" where
  "write_bytes hw a [] = ok ()"
| "write_bytes hw a (b # bs) = bind (write_u8 hw a b) (\<lambda>_. write_bytes hw (a + 1) bs)"

primrec read_bytes :: "'h rpmsg_hw \<Rightarrow> nat \<Rightarrow> nat \<Rightarrow> ('h, u8 list) rpmsg_prog" where
  "read_bytes hw a 0 = ok []"
| "read_bytes hw a (Suc n) = bind (read_u8 hw a) (\<lambda>b. bind (read_bytes hw (a + 1) n) (\<lambda>bs. ok (b # bs)))"

definition rp_clean :: "'h rpmsg_hw \<Rightarrow> nat \<Rightarrow> nat \<Rightarrow> ('h, unit) rpmsg_prog" where
  "rp_clean hw a n = drive (rh_clean hw a n) (RClean a n)"

definition rp_invalidate :: "'h rpmsg_hw \<Rightarrow> nat \<Rightarrow> nat \<Rightarrow> ('h, unit) rpmsg_prog" where
  "rp_invalidate hw a n = drive (rh_invalidate hw a n) (RInvalidate a n)"

section \<open>The resource table\<close>

definition initial_resource_table :: "rpmsg_contract \<Rightarrow> u8 list" where
  "initial_resource_table k =
     concat (map (to_le 4)
       [RSC_TABLE_VERSION k, RSC_TABLE_ENTRIES k, 0, 0, RSC_TABLE_ENTRY_OFFSET k,
        RSC_VDEV k, VIRTIO_ID_RPMSG k, RSC_VDEV_NOTIFY_ID_INITIAL k, VIRTIO_RPMSG_FEATURES k,
        RSC_GUEST_FEATURES_INITIAL k, RSC_CONFIG_LENGTH k]) @
     [RSC_STATUS_INITIAL k, RSC_VRING_COUNT k, 0, 0] @
     concat (map (\<lambda>base. to_le 4 (of_nat base :: u32) @ to_le 4 (RING_ALIGN k) @
         to_le 4 (of_nat (RING_NUM k) :: u32) @ to_le 4 (VRING_NOTIFY_ID_INITIAL k) @
         to_le 4 (VRING_PHYSICAL_ADDRESS_INITIAL k)) [VRING0_BASE k, VRING1_BASE k])"

definition rpmsg_initialize :: "rpmsg_contract \<Rightarrow> 'h rpmsg_hw \<Rightarrow> ('h, unit) rpmsg_prog" where
  "rpmsg_initialize k hw =
     bind (write_bytes hw (RESOURCE_TABLE_BASE k) (replicate (RESOURCE_TABLE_SIZE k) 0)) (\<lambda>_.
     bind (write_raw hw (RESOURCE_TABLE_BASE k) (initial_resource_table k)) (\<lambda>_.
     rp_clean hw (RESOURCE_TABLE_BASE k) (RESOURCE_TABLE_SIZE k)))"

definition vdev_online :: "rpmsg_contract \<Rightarrow> 'h rpmsg_hw \<Rightarrow> ('h, bool) rpmsg_prog" where
  "vdev_online k hw =
     bind (rp_invalidate hw (RESOURCE_TABLE_BASE k) 64) (\<lambda>_.
     bind (read_u8 hw (RESOURCE_TABLE_BASE k + 44)) (\<lambda>status.
     bind (read_u32 hw (RESOURCE_TABLE_BASE k + 36)) (\<lambda>negotiated.
     ok (status AND VIRTIO_DRIVER_OK k \<noteq> 0 \<and> negotiated AND NOT (VIRTIO_RPMSG_FEATURES k) = 0))))"

section \<open>Descriptors and rings\<close>

record vring_descriptor =
  d_address :: u64
  d_length :: u32
  d_flags :: u16
  d_next :: u16

definition descriptor :: "'h rpmsg_hw \<Rightarrow> nat \<Rightarrow> u16 \<Rightarrow> ('h, vring_descriptor) rpmsg_prog" where
  "descriptor hw ring index =
     (let address = ring + unat index * 16 in
      bind (read_u64 hw address) (\<lambda>a.
      bind (read_u32 hw (address + 8)) (\<lambda>l.
      bind (read_u16 hw (address + 12)) (\<lambda>f.
      bind (read_u16 hw (address + 14)) (\<lambda>n.
      ok \<lparr>d_address = a, d_length = l, d_flags = f, d_next = n\<rparr>)))))"

definition descriptor_buffer :: "rpmsg_contract \<Rightarrow> vring_descriptor \<Rightarrow> bool \<Rightarrow> nat \<Rightarrow> nat option" where
  "descriptor_buffer k d write minimum =
     (let disallowed = VRING_DESC_F_NEXT k OR VRING_DESC_F_INDIRECT k in
      if d_flags d AND disallowed \<noteq> 0
         \<or> (d_flags d AND VRING_DESC_F_WRITE k \<noteq> 0) \<noteq> write
         \<or> d_length d < of_nat minimum
         \<or> d_length d > of_nat (RPMSG_BUFFER_BYTES k)
      then None
      else let address = unat (d_address d);
               end' = address + unat (d_length d);
               pool_end = RPMSG_BUFFER_BASE k + RPMSG_BUFFER_SIZE k
           in if 2 ^ 64 \<le> end' then None
              else if 2 ^ 64 \<le> pool_end then None
              else if address < RPMSG_BUFFER_BASE k \<or> pool_end < end'
                   \<or> (address - RPMSG_BUFFER_BASE k) mod RPMSG_BUFFER_BYTES k \<noteq> 0
              then None
              else Some address)"

definition avail_index_address :: "rpmsg_contract \<Rightarrow> nat \<Rightarrow> nat" where
  "avail_index_address k ring = ring + RING_NUM k * 16 + 2"

definition avail_entry_address :: "rpmsg_contract \<Rightarrow> nat \<Rightarrow> u16 \<Rightarrow> nat" where
  "avail_entry_address k ring cursor = ring + RING_NUM k * 16 + 4 + unat cursor mod RING_NUM k * 2"

definition used_entry_address :: "rpmsg_contract \<Rightarrow> nat \<Rightarrow> u16 \<Rightarrow> nat" where
  "used_entry_address k ring cursor = ring + RING_USED_OFFSET k + 4 + unat cursor mod RING_NUM k * 8"

definition publish_used ::
    "rpmsg_contract \<Rightarrow> 'h rpmsg_hw \<Rightarrow> nat \<Rightarrow> u16 \<Rightarrow> u16 \<Rightarrow> u32 \<Rightarrow> ('h, unit) rpmsg_prog" where
  "publish_used k hw ring cursor descriptor_id length' =
     (let used = ring + RING_USED_OFFSET k; entry = used_entry_address k ring cursor in
      bind (write_u32 hw entry (ucast descriptor_id)) (\<lambda>_.
      bind (write_u32 hw (entry + 4) length') (\<lambda>_.
      bind (rp_clean hw entry 8) (\<lambda>_.
      bind (write_u16 hw (used + 2) (cursor + 1)) (\<lambda>_.
      rp_clean hw used 64)))))"

section \<open>Message headers\<close>

record rpmsg_header =
  h_source :: u32
  h_destination :: u32
  h_reserved :: u32
  h_length :: u16
  h_flags :: u16

definition encode_header :: "rpmsg_header \<Rightarrow> u8 list" where
  "encode_header h = to_le 4 (h_source h) @ to_le 4 (h_destination h) @ to_le 4 (h_reserved h) @
     to_le 2 (h_length h) @ to_le 2 (h_flags h)"

definition decode_header :: "u8 list \<Rightarrow> rpmsg_header" where
  "decode_header input =
     \<lparr>h_source = from_le (slice 0 4 input), h_destination = from_le (slice 4 4 input),
      h_reserved = from_le (slice 8 4 input), h_length = from_le (slice 12 2 input),
      h_flags = from_le (slice 14 2 input)\<rparr>"

section \<open>The transport\<close>

record transport =
  lcd_announced :: bool
  online :: bool
  announced :: bool
  rx_available :: u16
  rx_used :: u16
  tx_available :: u16
  tx_used :: u16
  pending_notifications :: u8
  next_notification :: u32

definition transport_new :: transport where
  "transport_new =
     \<lparr>lcd_announced = False, online = False, announced = False, rx_available = 0, rx_used = 0,
      tx_available = 0, tx_used = 0, pending_notifications = 0, next_notification = 0\<rparr>"

definition reset_for_attach :: "transport \<Rightarrow> transport" where
  "reset_for_attach t =
     t\<lparr>lcd_announced := False, online := True, announced := False, rx_available := 0, rx_used := 0,
       tx_available := 0, tx_used := 0, pending_notifications := 0, next_notification := 0\<rparr>"

definition queue_notification :: "u32 \<Rightarrow> transport \<Rightarrow> transport" where
  "queue_notification vqid t =
     t\<lparr>pending_notifications := pending_notifications t OR push_bit (unat vqid) 1\<rparr>"

primrec flush_from ::
    "'h rpmsg_hw \<Rightarrow> u32 list \<Rightarrow> transport \<Rightarrow> ('h, transport) rpmsg_prog" where
  "flush_from hw [] t = ok t"
| "flush_from hw (offset # rest) t =
     (let vqid = (next_notification t + offset) mod 2; bit = push_bit (unat vqid) 1 in
      if pending_notifications t AND bit = 0 then flush_from hw rest t
      else bind (sense (rh_vq_notify hw vqid) (RNotify vqid)) (\<lambda>r.
        if r = 0
        then ok (t\<lparr>pending_notifications := pending_notifications t AND NOT bit,
                   next_notification := (vqid + 1) mod 2\<rparr>)
        else ok t))"

definition flush_notification :: "'h rpmsg_hw \<Rightarrow> transport \<Rightarrow> ('h, transport) rpmsg_prog" where
  "flush_notification hw t = flush_from hw [0, 1] t"

definition send ::
    "rpmsg_contract \<Rightarrow> 'h rpmsg_hw \<Rightarrow> u32 \<Rightarrow> u32 \<Rightarrow> u8 list \<Rightarrow> transport \<Rightarrow> ('h, bool \<times> transport) rpmsg_prog"
where
  "send k hw source destination payload t =
     (if length payload > RPMSG_PAYLOAD_BYTES k then ok (False, t)
      else bind (rp_invalidate hw (VRING0_BASE k) (RING_DRIVER_BYTES k)) (\<lambda>_.
        bind (read_u16 hw (avail_index_address k (VRING0_BASE k))) (\<lambda>available.
        if rx_available t = available then ok (False, t)
        else bind (read_u16 hw (avail_entry_address k (VRING0_BASE k) (rx_available t))) (\<lambda>descriptor_id.
          if RING_NUM k \<le> unat descriptor_id then ok (False, t)
          else bind (descriptor hw (VRING0_BASE k) descriptor_id) (\<lambda>d.
            case descriptor_buffer k d True (RPMSG_HEADER_BYTES k + length payload) of
              None \<Rightarrow> ok (False, t)
            | Some buffer \<Rightarrow>
                let header = \<lparr>h_source = source, h_destination = destination, h_reserved = 0,
                      h_length = of_nat (length payload), h_flags = 0\<rparr>;
                    message_size = RPMSG_HEADER_BYTES k + length payload
                in bind (write_bytes hw buffer (encode_header header)) (\<lambda>_.
                   bind (write_bytes hw (buffer + RPMSG_HEADER_BYTES k) payload) (\<lambda>_.
                   bind (rp_clean hw buffer message_size) (\<lambda>_.
                   bind (publish_used k hw (VRING0_BASE k) (rx_used t) descriptor_id
                     (of_nat message_size)) (\<lambda>_.
                   ok (True, t\<lparr>rx_available := rx_available t + 1, rx_used := rx_used t + 1\<rparr>)))))))))) "

definition announcement :: "rpmsg_contract \<Rightarrow> u8 list \<Rightarrow> u32 \<Rightarrow> u8 list" where
  "announcement k name address =
     splice 36 (to_le 4 (RPMSG_NS_CREATE k)) (splice 32 (to_le 4 address) (splice 0 name (replicate 40 0)))"

definition announce ::
    "rpmsg_contract \<Rightarrow> 'h rpmsg_hw \<Rightarrow> transport \<Rightarrow> ('h, bool \<times> transport) rpmsg_prog" where
  "announce k hw t =
     (if length (RPMSG_SERVICE_NAME k) > 40 then panic
      else send k hw (RPMSG_NS_ADDRESS k) (RPMSG_NS_ADDRESS k)
        (announcement k (RPMSG_SERVICE_NAME k) (RPMSG_ECHO_ADDRESS k)) t)"

text \<open>The LCD service of the LCD profile, when it is compiled in.\<close>

record 'h lcd_port =
  lcd_address :: u32
  lcd_name :: "u8 list"
  lcd_reply :: "u8 list \<Rightarrow> 'h \<Rightarrow> u8 list \<times> 'h"

definition complete ::
    "rpmsg_contract \<Rightarrow> 'h rpmsg_hw \<Rightarrow> u16 \<Rightarrow> transport \<Rightarrow> ('h, transport) rpmsg_prog" where
  "complete k hw descriptor_id t =
     bind (publish_used k hw (VRING1_BASE k) (tx_used t) descriptor_id 0) (\<lambda>_.
     ok (t\<lparr>tx_available := tx_available t + 1, tx_used := tx_used t + 1\<rparr>))"

text \<open>\<open>NoRoom s\<close>: the loop breaks, \<open>Dispatched s\<close>: it goes on; \<open>s\<close>: a message was sent.\<close>

datatype dispatched = NoRoom bool | Dispatched bool

definition dispatch ::
    "rpmsg_contract \<Rightarrow> 'h rpmsg_hw \<Rightarrow> 'h lcd_port option \<Rightarrow> nat \<Rightarrow> u32 \<Rightarrow> transport \<Rightarrow>
     ('h, dispatched \<times> transport) rpmsg_prog" where
  "dispatch k hw lcd buffer buffer_length t =
     bind (read_bytes hw buffer (RPMSG_HEADER_BYTES k)) (\<lambda>encoded.
     let header = decode_header encoded;
         payload_len = unat (h_length header);
         valid = (h_reserved header = 0 \<and> h_flags header = 0 \<and> payload_len \<le> RPMSG_PAYLOAD_BYTES k
                  \<and> RPMSG_HEADER_BYTES k + payload_len \<le> unat buffer_length)
     in bind
          (if valid \<and> h_destination header = RPMSG_ECHO_ADDRESS k
           then bind (read_bytes hw (buffer + RPMSG_HEADER_BYTES k) payload_len) (\<lambda>payload.
             bind (send k hw (RPMSG_ECHO_ADDRESS k) (h_source header) payload t) (\<lambda>(sent, t').
             ok (if sent then Dispatched True else NoRoom False, t')))
           else ok (Dispatched False, t)) (\<lambda>(echoed, t1).
        case echoed of NoRoom sent \<Rightarrow> ok (NoRoom sent, t1)
        | Dispatched sent \<Rightarrow>
           (case lcd of None \<Rightarrow> ok (Dispatched sent, t1)
            | Some port \<Rightarrow>
                if valid \<and> h_destination header = lcd_address port
                then bind (read_bytes hw (buffer + RPMSG_HEADER_BYTES k) payload_len) (\<lambda>payload.
                  bind (sense (lcd_reply port payload) (RReply payload)) (\<lambda>response.
                  bind (send k hw (lcd_address port) (h_source header) response t1) (\<lambda>(sent', t2).
                  ok (if sent' then Dispatched True else NoRoom sent, t2))))
                else ok (Dispatched sent, t1))))"

text \<open>The loop over at most \<open>RING_NUM\<close> host messages; the result is \<open>(sent, completed)\<close>.\<close>

primrec drain ::
    "rpmsg_contract \<Rightarrow> 'h rpmsg_hw \<Rightarrow> 'h lcd_port option \<Rightarrow> nat \<Rightarrow> bool \<Rightarrow> bool \<Rightarrow> transport \<Rightarrow>
     ('h, (bool \<times> bool) \<times> transport) rpmsg_prog" where
  "drain k hw lcd 0 sent completed t = ok ((sent, completed), t)"
| "drain k hw lcd (Suc n) sent completed t =
     bind (rp_invalidate hw (VRING1_BASE k) (RING_DRIVER_BYTES k)) (\<lambda>_.
     bind (read_u16 hw (avail_index_address k (VRING1_BASE k))) (\<lambda>available.
     if tx_available t = available then ok ((sent, completed), t)
     else bind (read_u16 hw (avail_entry_address k (VRING1_BASE k) (tx_available t))) (\<lambda>descriptor_id.
       if RING_NUM k \<le> unat descriptor_id then ok ((sent, completed), t)
       else bind (descriptor hw (VRING1_BASE k) descriptor_id) (\<lambda>d.
         case descriptor_buffer k d False (RPMSG_HEADER_BYTES k) of
           None \<Rightarrow> bind (complete k hw descriptor_id t) (\<lambda>t'. drain k hw lcd n sent True t')
         | Some buffer \<Rightarrow>
             bind (rp_invalidate hw buffer (unat (d_length d))) (\<lambda>_.
             bind (dispatch k hw lcd buffer (d_length d) t) (\<lambda>(outcome, t1).
             case outcome of
               NoRoom s \<Rightarrow> ok ((sent \<or> s, completed), t1)
             | Dispatched s \<Rightarrow>
                 bind (complete k hw descriptor_id t1) (\<lambda>t2.
                 drain k hw lcd n (sent \<or> s) True t2)))))))"

definition drain_host_messages ::
    "rpmsg_contract \<Rightarrow> 'h rpmsg_hw \<Rightarrow> 'h lcd_port option \<Rightarrow> transport \<Rightarrow>
     ('h, (bool \<times> bool) \<times> transport) rpmsg_prog" where
  "drain_host_messages k hw lcd t = drain k hw lcd (RING_NUM k) False False t"

definition lcd_announce ::
    "rpmsg_contract \<Rightarrow> 'h rpmsg_hw \<Rightarrow> 'h lcd_port option \<Rightarrow> transport \<Rightarrow> ('h, bool \<times> transport) rpmsg_prog"
where
  "lcd_announce k hw lcd t = (case lcd of None \<Rightarrow> ok (False, t)
     | Some port \<Rightarrow>
         if announced t \<and> \<not> lcd_announced t
         then if length (lcd_name port) > 40 then panic
           else bind (send k hw (RPMSG_NS_ADDRESS k) (RPMSG_NS_ADDRESS k)
             (announcement k (lcd_name port) (lcd_address port)) t) (\<lambda>(sent, t').
             ok (sent, if sent then t'\<lparr>lcd_announced := True\<rparr> else t'))
         else ok (False, t))"

definition rpmsg_service ::
    "rpmsg_contract \<Rightarrow> 'h rpmsg_hw \<Rightarrow> 'h lcd_port option \<Rightarrow> transport \<Rightarrow> ('h, transport) rpmsg_prog" where
  "rpmsg_service k hw lcd t =
     bind (vdev_online k hw) (\<lambda>on.
     if \<not> on then ok (t\<lparr>online := False\<rparr>)
     else let t0 = (if \<not> online t then reset_for_attach t else t) in
       bind (if \<not> announced t0 then bind (announce k hw t0) (\<lambda>(sent, t').
               ok (sent, if sent then t'\<lparr>announced := True\<rparr> else t'))
             else ok (False, t0)) (\<lambda>(changed1, t1).
       bind (lcd_announce k hw lcd t1) (\<lambda>(changed2, t2).
       bind (drain_host_messages k hw lcd t2) (\<lambda>((sent, completed), t3).
       let t4 = (if changed1 \<or> changed2 \<or> sent then queue_notification 0 t3 else t3);
           t5 = (if completed then queue_notification 1 t4 else t4)
       in flush_notification hw t5))))"

text \<open>The first \<open>n\<close> turns of \<open>run\<close>.\<close>

primrec rpmsg_run ::
    "rpmsg_contract \<Rightarrow> 'h rpmsg_hw \<Rightarrow> 'h lcd_port option \<Rightarrow> nat \<Rightarrow> transport \<Rightarrow> ('h, transport) rpmsg_prog" where
  "rpmsg_run k hw lcd 0 t = ok t"
| "rpmsg_run k hw lcd (Suc n) t =
     bind (rpmsg_service k hw lcd t) (\<lambda>t'.
     bind (sense (rh_vq_kick_receive hw 1) RKick) (\<lambda>_.
     bind (drive (rh_delay hw 0) (RDelay 0)) (\<lambda>_.
     rpmsg_run k hw lcd n t')))"

section \<open>What the contract fixes\<close>

definition rpmsg_layout_ok :: "rpmsg_contract \<Rightarrow> bool" where
  "rpmsg_layout_ok k \<longleftrightarrow>
     RESOURCE_TABLE_BASE k + RESOURCE_TABLE_SIZE k = VRING0_BASE k \<and>
     VRING0_BASE k + VRING_SIZE k \<le> VRING1_BASE k \<and>
     VRING1_BASE k + VRING_SIZE k \<le> RPMSG_BUFFER_BASE k \<and>
     RPMSG_BUFFER_BASE k + RPMSG_BUFFER_SIZE k = BULK_BASE k \<and>
     BULK_BASE k + BULK_SIZE k = SHMEM_END k \<and> SHMEM_END k < 2 ^ 64 \<and>
     88 \<le> RESOURCE_TABLE_SIZE k \<and>
     RPMSG_HEADER_BYTES k = 16 \<and> RPMSG_BUFFER_BYTES k = 16 + RPMSG_PAYLOAD_BYTES k \<and>
     RPMSG_BUFFER_BYTES k < 2 ^ 16 \<and> RPMSG_BUFFER_BYTES k dvd RPMSG_BUFFER_SIZE k \<and>
     8 \<le> RING_NUM k \<and> RING_NUM k * 18 + 4 \<le> RING_DRIVER_BYTES k \<and>
     RING_DRIVER_BYTES k \<le> RING_USED_OFFSET k \<and>
     RING_USED_OFFSET k + 4 + RING_NUM k * 8 \<le> VRING_SIZE k \<and>
     length (RPMSG_SERVICE_NAME k) \<le> 32"

definition shipped_rpmsg :: rpmsg_contract where
  "shipped_rpmsg =
     \<lparr>RSC_TABLE_VERSION = 1, RSC_TABLE_ENTRIES = 1, RSC_TABLE_ENTRY_OFFSET = 20, RSC_VDEV = 3,
      VIRTIO_ID_RPMSG = 7, RSC_VDEV_NOTIFY_ID_INITIAL = 0, VIRTIO_RPMSG_FEATURES = 1,
      RSC_GUEST_FEATURES_INITIAL = 0, RSC_CONFIG_LENGTH = 0, RSC_STATUS_INITIAL = 0,
      RSC_VRING_COUNT = 2, RING_ALIGN = 4096, VRING_NOTIFY_ID_INITIAL = 0xffffffff,
      VRING_PHYSICAL_ADDRESS_INITIAL = 0,
      RESOURCE_TABLE_BASE = 0x8ff01000, RESOURCE_TABLE_SIZE = 0x1000, VRING0_BASE = 0x8ff02000,
      VRING1_BASE = 0x8ff06000, VRING_SIZE = 0x4000, RPMSG_BUFFER_BASE = 0x8ff10000,
      RPMSG_BUFFER_SIZE = 0x40000, BULK_BASE = 0x8ff50000, BULK_SIZE = 0xb0000,
      SHMEM_END = 0x90000000, RPMSG_BUFFER_BYTES = 512, RPMSG_HEADER_BYTES = 16,
      RPMSG_PAYLOAD_BYTES = 496, RING_NUM = 256, RING_DRIVER_BYTES = 0x2000,
      RING_USED_OFFSET = 0x2000, RPMSG_ECHO_ADDRESS = 0x400, RPMSG_NS_ADDRESS = 53,
      RPMSG_NS_CREATE = 0,
      RPMSG_SERVICE_NAME = [0x72, 0x70, 0x6d, 0x73, 0x67, 0x5f, 0x63, 0x68, 0x72, 0x64, 0x65, 0x76],
      VIRTIO_DRIVER_OK = 4, VRING_DESC_F_NEXT = 1, VRING_DESC_F_WRITE = 2,
      VRING_DESC_F_INDIRECT = 4\<rparr>"

lemma shipped_rpmsg_ok: "rpmsg_layout_ok shipped_rpmsg"
  by (simp add: rpmsg_layout_ok_def shipped_rpmsg_def)

section \<open>Facts about headers and descriptors\<close>

lemma length_encode_header [simp]: "length (encode_header h) = 16"
  by (simp add: encode_header_def)

lemma decode_encode_header: "decode_header (encode_header h) = h"
  by (simp add: decode_header_def encode_header_def slice_def from_to_le)

lemma encode_decode_header:
  assumes "length bs = 16"
  shows "encode_header (decode_header bs) = bs"
proof -
  have "encode_header (decode_header bs) =
      slice 0 4 bs @ slice 4 4 bs @ slice 8 4 bs @ slice 12 2 bs @ slice 14 2 bs"
    using assms by (simp add: encode_header_def decode_header_def to_from_le)
  also have "\<dots> = take 4 bs @ take 4 (drop 4 bs) @ take 4 (drop 4 (drop 4 bs)) @
      take 2 (drop 4 (drop 4 (drop 4 bs))) @ drop 2 (drop 4 (drop 4 (drop 4 bs)))"
    using assms by (simp add: slice_def)
  also have "\<dots> = bs" by (simp only: append_take_drop_id)
  finally show ?thesis .
qed

interpretation header_wire: codec encode_header decode_header "\<lambda>_. True" "\<lambda>bs. length bs = 16"
  by unfold_locales (simp_all add: decode_encode_header encode_decode_header)

text \<open>The buffer slots Linux allocates the pool in.\<close>

definition slot_base :: "rpmsg_contract \<Rightarrow> nat \<Rightarrow> nat" where
  "slot_base k i = RPMSG_BUFFER_BASE k + i * RPMSG_BUFFER_BYTES k"

definition slots :: "rpmsg_contract \<Rightarrow> nat" where
  "slots k = RPMSG_BUFFER_SIZE k div RPMSG_BUFFER_BYTES k"

lemma descriptor_buffer_slot:
  assumes lay: "rpmsg_layout_ok k" and buf: "descriptor_buffer k d w minimum = Some a"
    and min: "minimum \<le> RPMSG_BUFFER_BYTES k" "0 < minimum"
  shows "\<exists>i < slots k. a = slot_base k i \<and> unat (d_address d) = a \<and>
    minimum \<le> unat (d_length d) \<and> unat (d_length d) \<le> RPMSG_BUFFER_BYTES k"
proof -
  let ?B = "RPMSG_BUFFER_BYTES k" and ?base = "RPMSG_BUFFER_BASE k"
  have B: "0 < ?B" "?B < 2 ^ 16" "?B dvd RPMSG_BUFFER_SIZE k"
    using lay by (auto simp: rpmsg_layout_ok_def)
  have b: "a = unat (d_address d)" "?base \<le> a" "a + unat (d_length d) \<le> ?base + RPMSG_BUFFER_SIZE k"
    "(a - ?base) mod ?B = 0" "\<not> d_length d < of_nat minimum" "\<not> d_length d > of_nat ?B"
    using buf by (auto simp: descriptor_buffer_def Let_def split: if_splits)
  have u: "unat (of_nat minimum :: u32) = minimum" "unat (of_nat ?B :: u32) = ?B"
    using min B by (simp_all add: unat_of_nat)
  then have len: "minimum \<le> unat (d_length d)" "unat (d_length d) \<le> ?B"
    using b(5,6) by (simp_all add: word_less_nat_alt not_less)
  define i where "i = (a - ?base) div ?B"
  have ai: "a = slot_base k i"
    using b(2,4) div_mult_mod_eq [of "a - ?base" ?B] by (simp add: slot_base_def i_def)
  have "i * ?B < RPMSG_BUFFER_SIZE k"
    using b(3) len(1) min(2) ai by (simp add: slot_base_def)
  then have "i < slots k"
    using B by (auto simp: slots_def elim!: dvdE)
  then show ?thesis using ai b(1) len by (intro exI [of _ i] conjI) simp_all
qed

section \<open>Ownership of shared memory\<close>

text \<open>\<open>in_range a n base len\<close>: the \<open>n\<close> bytes from \<open>a\<close> lie in the \<open>len\<close> bytes from \<open>base\<close>.\<close>

definition in_range :: "nat \<Rightarrow> nat \<Rightarrow> nat \<Rightarrow> nat \<Rightarrow> bool" where
  "in_range a n base len \<longleftrightarrow> base \<le> a \<and> a + n \<le> base + len"

definition device_range :: "rpmsg_contract \<Rightarrow> nat \<Rightarrow> nat \<Rightarrow> bool" where
  "device_range k a n \<longleftrightarrow>
     in_range a n (VRING0_BASE k + RING_USED_OFFSET k) (4 + RING_NUM k * 8) \<or>
     in_range a n (VRING1_BASE k + RING_USED_OFFSET k) (4 + RING_NUM k * 8) \<or>
     (\<exists>i < slots k. in_range a n (slot_base k i) (RPMSG_BUFFER_BYTES k))"

text \<open>What the C906L may do to shared memory: write and clean its used rings and whole buffer slots.\<close>

fun device_event :: "rpmsg_contract \<Rightarrow> rpmsg_event \<Rightarrow> bool" where
  "device_event k (RWrite a bs) \<longleftrightarrow> device_range k a (length bs)"
| "device_event k (RClean a n) \<longleftrightarrow> device_range k a n"
| "device_event k _ \<longleftrightarrow> True"

abbreviation "any_result \<equiv> \<lambda>_. True"

lemmas access_defs = read_u8_def read_u16_def read_u32_def read_u64_def write_raw_def write_u8_def
  write_u16_def write_u32_def rp_clean_def rp_invalidate_def

lemma does_reads:
  "does (device_event k) any_result (read_u8 hw a)" "does (device_event k) any_result (read_u16 hw a)"
  "does (device_event k) any_result (read_u32 hw a)" "does (device_event k) any_result (read_u64 hw a)"
  "does (device_event k) any_result (rp_invalidate hw a n)"
  by (auto simp: access_defs intro!: does_sense does_drive)

lemma does_write_bytes:
  "device_range k a (length bs) \<Longrightarrow> does (device_event k) any_result (write_bytes hw a bs)"
proof (induction bs arbitrary: a)
  case (Cons b bs)
  have "device_range k a 1" "device_range k (a + 1) (length bs)"
    using Cons.prems by (auto simp: device_range_def in_range_def)
  then show ?case
    using Cons.IH by (auto simp: access_defs intro!: does_bind [OF does_drive])
qed (simp add: does_ok)

lemma does_read_bytes: "does (device_event k) (\<lambda>bs. length bs = n) (read_bytes hw a n)"
proof (induction n arbitrary: a)
  case (Suc n)
  show ?case
    by (auto intro!: does_bind [OF does_reads(1)] does_bind [OF Suc] does_ok)
qed (simp add: does_ok)

lemma does_descriptor: "does (device_event k) any_result (descriptor hw ring i)"
  unfolding descriptor_def Let_def
  by (intro does_bind [OF does_reads(4)] does_bind [OF does_reads(3)] does_bind [OF does_reads(2)] does_ok)
    simp

lemma used_range:
  assumes "rpmsg_layout_ok k" "ring \<in> {VRING0_BASE k, VRING1_BASE k}"
  shows "device_range k (used_entry_address k ring cursor) 8"
    "device_range k (used_entry_address k ring cursor) 4"
    "device_range k (used_entry_address k ring cursor + 4) 4"
    "device_range k (ring + RING_USED_OFFSET k + 2) 2"
    "device_range k (ring + RING_USED_OFFSET k) 64"
proof -
  have n: "8 \<le> RING_NUM k" using assms(1) by (simp add: rpmsg_layout_ok_def)
  then have "unat cursor mod RING_NUM k < RING_NUM k" by (intro mod_less_divisor) simp
  then have "unat cursor mod RING_NUM k * 8 + 8 \<le> RING_NUM k * 8" by linarith
  with n assms(2) show
    "device_range k (used_entry_address k ring cursor) 8"
    "device_range k (used_entry_address k ring cursor) 4"
    "device_range k (used_entry_address k ring cursor + 4) 4"
    "device_range k (ring + RING_USED_OFFSET k + 2) 2"
    "device_range k (ring + RING_USED_OFFSET k) 64"
    by (auto simp: device_range_def in_range_def used_entry_address_def)
qed

lemma does_publish_used:
  assumes "rpmsg_layout_ok k" "ring \<in> {VRING0_BASE k, VRING1_BASE k}"
  shows "does (device_event k) any_result (publish_used k hw ring cursor d l)"
  unfolding publish_used_def Let_def
  using used_range [OF assms]
  by (auto simp: access_defs intro!: does_bind [OF does_drive] does_drive)

text \<open>The invariant of the transport: both used cursors follow the available cursors.\<close>

definition cursors_ok :: "transport \<Rightarrow> bool" where
  "cursors_ok t \<longleftrightarrow> rx_used t = rx_available t \<and> tx_used t = tx_available t \<and> next_notification t < 2"

lemma does_send:
  assumes lay: "rpmsg_layout_ok k" and inv: "cursors_ok t"
  shows "does (device_event k) (\<lambda>(sent, t'). cursors_ok t') (send k hw src dst payload t)"
proof -
  have out: "does (device_event k) (\<lambda>(sent, t'). cursors_ok t')
     (let header = \<lparr>h_source = src, h_destination = dst, h_reserved = 0,
            h_length = of_nat (length payload), h_flags = 0\<rparr>;
          message_size = RPMSG_HEADER_BYTES k + length payload
      in bind (write_bytes hw buffer (encode_header header)) (\<lambda>_.
         bind (write_bytes hw (buffer + RPMSG_HEADER_BYTES k) payload) (\<lambda>_.
         bind (rp_clean hw buffer message_size) (\<lambda>_.
         bind (publish_used k hw (VRING0_BASE k) (rx_used t) descriptor_id (of_nat message_size)) (\<lambda>_.
         ok (True, t\<lparr>rx_available := rx_available t + 1, rx_used := rx_used t + 1\<rparr>))))))"
    if len: "length payload \<le> RPMSG_PAYLOAD_BYTES k"
      and buf: "descriptor_buffer k d True (RPMSG_HEADER_BYTES k + length payload) = Some buffer"
    for d buffer descriptor_id
  proof -
    have H: "RPMSG_HEADER_BYTES k = 16" "RPMSG_BUFFER_BYTES k = 16 + RPMSG_PAYLOAD_BYTES k"
      using lay by (auto simp: rpmsg_layout_ok_def)
    obtain i where "i < slots k" "buffer = slot_base k i"
      using descriptor_buffer_slot [OF lay buf] H len by auto
    then have "device_range k buffer 16" "device_range k (buffer + 16) (length payload)"
      "device_range k buffer (16 + length payload)"
      using len H by (auto simp: device_range_def in_range_def)
    then show ?thesis
      using inv H unfolding Let_def
      by (intro does_bind [OF does_write_bytes] does_bind [OF does_publish_used [OF lay]])
        (auto simp: rp_clean_def cursors_ok_def intro!: does_bind [OF does_drive]
          does_bind [OF does_publish_used [OF lay]] does_ok)
  qed
  show ?thesis
    unfolding send_def
    using inv out
    by (auto intro!: does_bind [OF does_reads(5)] does_bind [OF does_reads(2)] does_bind [OF does_descriptor]
        does_ok split: option.split)
qed

lemma does_complete:
  assumes "rpmsg_layout_ok k" "cursors_ok t"
  shows "does (device_event k) cursors_ok (complete k hw d t)"
  unfolding complete_def
  by (rule does_bind [OF does_publish_used [OF assms(1)]])
    (use assms(2) in \<open>auto simp: cursors_ok_def intro!: does_ok\<close>)

lemma does_dispatch:
  assumes lay: "rpmsg_layout_ok k" and inv: "cursors_ok t"
  shows "does (device_event k) (\<lambda>(r, t'). cursors_ok t') (dispatch k hw lcd buffer l t)"
proof -
  have reply: "does (device_event k) (\<lambda>(r, t'). cursors_ok t')
      (bind (read_bytes hw a n) (\<lambda>payload. bind (sense (lcd_reply port payload) (RReply payload)) (\<lambda>response.
        bind (send k hw x y response t1) (\<lambda>(sent', t2). ok (if sent' then Dispatched True else NoRoom s, t2)))))"
    if "cursors_ok t1" for port a n x y s t1
    by (auto intro!: does_bind [OF does_read_bytes] does_bind [OF does_sense [where R = any_result]]
        does_bind [OF does_send [OF lay that]] does_ok)
  have echo: "does (device_event k) (\<lambda>(r, t'). cursors_ok t')
      (bind (read_bytes hw a n) (\<lambda>payload. bind (send k hw x y payload t) (\<lambda>(sent, t').
        ok (if sent then Dispatched True else NoRoom False, t'))))" for a n x y
    by (auto intro!: does_bind [OF does_read_bytes] does_bind [OF does_send [OF lay inv]] does_ok)
  show ?thesis
    unfolding dispatch_def Let_def
    by (intro does_bind [OF does_read_bytes] does_bind [where S = "\<lambda>(r, t'). cursors_ok t'"])
      (use inv echo reply in \<open>auto split: dispatched.split option.split\<close>)
qed

lemma does_drain:
  assumes lay: "rpmsg_layout_ok k"
  shows "cursors_ok t \<Longrightarrow>
    does (device_event k) (\<lambda>(r, t'). cursors_ok t') (drain k hw lcd n sent completed t)"
proof (induction n arbitrary: sent completed t)
  case (Suc n)
  have skip: "does (device_event k) (\<lambda>(r, t'). cursors_ok t')
      (bind (complete k hw d t) (\<lambda>t'. drain k hw lcd n s True t'))" if "cursors_ok t" for d s t
    by (rule does_bind [OF does_complete [OF lay that]]) (rule Suc.IH)
  have serve: "does (device_event k) (\<lambda>(r, t'). cursors_ok t')
      (bind (dispatch k hw lcd buffer l t) (\<lambda>(outcome, t1). case outcome of
         NoRoom s \<Rightarrow> ok ((sent \<or> s, completed), t1)
       | Dispatched s \<Rightarrow> bind (complete k hw d t1) (\<lambda>t2. drain k hw lcd n (sent \<or> s) True t2)))"
    for buffer l d
    by (rule does_bind [OF does_dispatch [OF lay Suc.prems]])
      (auto split: dispatched.split intro: does_ok skip)
  show ?case
    unfolding drain.simps
    using Suc.prems skip serve
    by (auto intro!: does_bind [OF does_reads(5)] does_bind [OF does_reads(2)] does_bind [OF does_descriptor]
        does_ok split: option.split)
qed (simp add: does_ok)

lemma length_announcement: "length name \<le> 40 \<Longrightarrow> length (announcement k name a) = 40"
  by (simp add: announcement_def)

lemma does_announce:
  assumes "rpmsg_layout_ok k" "cursors_ok t"
  shows "does (device_event k) (\<lambda>(r, t'). cursors_ok t') (announce k hw t)"
  using assms does_send [OF assms] by (simp add: announce_def rpmsg_layout_ok_def)

lemma does_lcd_announce:
  assumes "rpmsg_layout_ok k" "cursors_ok t" "\<And>port. lcd = Some port \<Longrightarrow> length (lcd_name port) \<le> 40"
  shows "does (device_event k) (\<lambda>(r, t'). cursors_ok t') (lcd_announce k hw lcd t)"
  unfolding lcd_announce_def
  using assms
  by (auto split: option.split simp: not_less cursors_ok_def
      intro!: does_ok does_bind [OF does_send [OF assms(1,2)]])

lemma does_flush:
  assumes "cursors_ok t"
  shows "does (device_event k) cursors_ok (flush_notification hw t)"
proof -
  have "does (device_event k) cursors_ok (flush_from hw offs t)" for offs
  proof (induction offs)
    case (Cons off offs)
    have "(x + 1) mod 2 < (2 :: u32)" for x by (simp add: word_less_nat_alt unat_mod)
    then show ?case
      using Cons assms
      by (auto simp: Let_def cursors_ok_def intro!: does_bind [OF does_sense [where R = any_result]] does_ok)
  qed (simp add: does_ok assms)
  then show ?thesis unfolding flush_notification_def .
qed

lemma queue_keeps [simp]: "cursors_ok (queue_notification v t) = cursors_ok t"
  by (simp add: queue_notification_def cursors_ok_def)

lemma does_bind_pair:
  assumes "does E (\<lambda>(r, t'). P t') p" "\<And>r t'. P t' \<Longrightarrow> does E R (f r t')"
  shows "does E R (bind p (\<lambda>(r, t'). f r t'))"
  using assms by (auto intro: does_bind)

lemma does_service:
  assumes lay: "rpmsg_layout_ok k" and inv: "cursors_ok t"
    and name: "\<And>port. lcd = Some port \<Longrightarrow> length (lcd_name port) \<le> 40"
  shows "does (device_event k) cursors_ok (rpmsg_service k hw lcd t)"
proof -
  let ?R = "\<lambda>(r, t'). cursors_ok t'"
  have on: "does (device_event k) any_result (vdev_online k hw)"
    unfolding vdev_online_def
    by (intro does_bind [OF does_reads(5)] does_bind [OF does_reads(1)] does_bind [OF does_reads(3)] does_ok) simp
  have first: "does (device_event k) ?R
      (if \<not> announced t0 then bind (announce k hw t0) (\<lambda>(sent, t').
         ok (sent, if sent then t'\<lparr>announced := True\<rparr> else t')) else ok (False, t0))"
    if "cursors_ok t0" for t0
    using that by (auto simp: cursors_ok_def intro!: does_bind [OF does_announce [OF lay that]] does_ok)
  have rest: "does (device_event k) cursors_ok
      (bind (if \<not> announced t0 then bind (announce k hw t0) (\<lambda>(sent, t').
               ok (sent, if sent then t'\<lparr>announced := True\<rparr> else t'))
             else ok (False, t0)) (\<lambda>(changed1, t1).
       bind (lcd_announce k hw lcd t1) (\<lambda>(changed2, t2).
       bind (drain_host_messages k hw lcd t2) (\<lambda>((sent, completed), t3).
       let t4 = (if changed1 \<or> changed2 \<or> sent then queue_notification 0 t3 else t3);
           t5 = (if completed then queue_notification 1 t4 else t4)
       in flush_notification hw t5))))" if "cursors_ok t0" for t0
    unfolding drain_host_messages_def
    by (intro does_bind_pair [OF first [OF that]] does_bind_pair [OF does_lcd_announce [OF lay _ name]]
        does_bind_pair [OF does_drain [OF lay]]) (auto intro!: does_flush)
  show ?thesis
    unfolding rpmsg_service_def Let_def [of "if \<not> online t then reset_for_attach t else t"]
  proof (rule does_bind [OF on], split if_split, intro conjI impI)
    show "does (device_event k) cursors_ok (ok (t\<lparr>online := False\<rparr>))"
      using inv by (simp add: cursors_ok_def)
  next
    show "does (device_event k) cursors_ok
      (bind (if \<not> announced (if \<not> online t then reset_for_attach t else t)
             then bind (announce k hw (if \<not> online t then reset_for_attach t else t)) (\<lambda>(sent, t').
               ok (sent, if sent then t'\<lparr>announced := True\<rparr> else t'))
             else ok (False, if \<not> online t then reset_for_attach t else t)) (\<lambda>(changed1, t1).
       bind (lcd_announce k hw lcd t1) (\<lambda>(changed2, t2).
       bind (drain_host_messages k hw lcd t2) (\<lambda>((sent, completed), t3).
       let t4 = (if changed1 \<or> changed2 \<or> sent then queue_notification 0 t3 else t3);
           t5 = (if completed then queue_notification 1 t4 else t4)
       in flush_notification hw t5))))"
      by (rule rest) (use inv in \<open>simp add: cursors_ok_def reset_for_attach_def\<close>)
  qed
qed

lemma does_rpmsg_run:
  assumes "rpmsg_layout_ok k" "\<And>port. lcd = Some port \<Longrightarrow> length (lcd_name port) \<le> 40"
  shows "cursors_ok t \<Longrightarrow> does (device_event k) cursors_ok (rpmsg_run k hw lcd n t)"
proof (induction n arbitrary: t)
  case (Suc n)
  show ?case
    unfolding rpmsg_run.simps
    by (auto intro!: does_bind [OF does_service [OF assms(1) Suc.prems assms(2)]]
        does_bind [OF does_sense [where R = any_result]] does_bind [OF does_drive [where R = any_result]] Suc.IH)
qed (simp add: does_ok)

section \<open>What is stored, byte by byte\<close>

definition at :: "nat \<Rightarrow> u8 list \<Rightarrow> (nat \<times> u8) list" where
  "at a bs = zip [a..<a + length bs] bs"

fun store_of :: "rpmsg_event \<Rightarrow> (nat \<times> u8) list" where
  "store_of (RWrite a bs) = at a bs"
| "store_of _ = []"

definition stores :: "rpmsg_event list \<Rightarrow> (nat \<times> u8) list" where
  "stores evs = concat (map store_of evs)"

lemma stores_simps [simp]:
  "stores [] = []" "stores (e # evs) = store_of e @ stores evs" "stores (a @ b) = stores a @ stores b"
  by (simp_all add: stores_def)

lemma at_Nil [simp]: "at a [] = []"
  by (simp add: at_def)

lemma at_append: "at a (xs @ ys) = at a xs @ at (a + length xs) ys"
  by (rule nth_equalityI) (auto simp: at_def nth_append)

lemma at_Cons: "at a (b # bs) = (a, b) # at (a + 1) bs"
  using at_append [of a "[b]" bs] by (simp add: at_def)

text \<open>\<open>leaves p Q\<close>: the result of \<open>p\<close> and the bytes it stores satisfy \<open>Q\<close>.\<close>

definition leaves ::
    "('h, 'a) rpmsg_prog \<Rightarrow> ('a \<Rightarrow> (nat \<times> u8) list \<Rightarrow> bool) \<Rightarrow> bool" where
  "leaves p Q \<longleftrightarrow> traces p (\<lambda>a n. Q a (stores n))"

lemma leaves_ok [simp]: "leaves (ok a) Q = Q a []"
  by (simp add: leaves_def traces_def ok_def)

lemma leaves_bind:
  assumes "leaves p P" "\<And>a s. P a s \<Longrightarrow> leaves (f a) (\<lambda>b s'. Q b (s @ s'))"
  shows "leaves (bind p f) Q"
  using assms unfolding leaves_def by (auto intro: traces_bind)

lemma leaves_conseq: "leaves p P \<Longrightarrow> (\<And>a s. P a s \<Longrightarrow> Q a s) \<Longrightarrow> leaves p Q"
  unfolding leaves_def by (auto elim: traces_conseq)

lemma leaves_silent:
  assumes "leaves p (\<lambda>a s. s = [])" "\<And>a. leaves (f a) Q"
  shows "leaves (bind p f) Q"
  using assms(1) by (rule leaves_bind) (use assms(2) in simp)

lemma leaves_at:
  assumes "leaves p (\<lambda>_ s. s = x)" "\<And>a. leaves (f a) (\<lambda>b s'. Q b (x @ s'))"
  shows "leaves (bind p f) Q"
  using assms(1) by (rule leaves_bind) (use assms(2) in simp)

lemma leaves_reads:
  "leaves (read_u8 hw a) (\<lambda>v s. s = [])" "leaves (read_u16 hw a) (\<lambda>v s. s = [])"
  "leaves (read_u32 hw a) (\<lambda>v s. s = [])" "leaves (read_u64 hw a) (\<lambda>v s. s = [])"
  "leaves (rp_invalidate hw a n) (\<lambda>v s. s = [])" "leaves (rp_clean hw a n) (\<lambda>v s. s = [])"
  by (auto simp: access_defs leaves_def intro!: traces_sense traces_drive)

lemma leaves_writes:
  "leaves (write_u8 hw a v) (\<lambda>_ s. s = at a [v])"
  "leaves (write_u16 hw a v2) (\<lambda>_ s. s = at a (to_le 2 v2))"
  "leaves (write_u32 hw a v4) (\<lambda>_ s. s = at a (to_le 4 v4))"
  by (auto simp: access_defs leaves_def intro!: traces_drive)

lemma leaves_write_bytes: "leaves (write_bytes hw a bs) (\<lambda>_ s. s = at a bs)"
proof (induction bs arbitrary: a)
  case (Cons b bs)
  show ?case
    unfolding write_bytes.simps
    by (rule leaves_at [OF leaves_writes(1)], rule leaves_conseq [OF Cons]) (simp add: at_Cons)
qed simp

lemma leaves_read_bytes: "leaves (read_bytes hw a n) (\<lambda>bs s. s = [])"
  by (induction n arbitrary: a) (auto intro!: leaves_silent [OF leaves_reads(1)] leaves_silent)

lemma leaves_descriptor: "leaves (descriptor hw ring i) (\<lambda>d s. s = [])"
  unfolding descriptor_def Let_def
  by (intro leaves_silent [OF leaves_reads(4)] leaves_silent [OF leaves_reads(3)]
      leaves_silent [OF leaves_reads(2)]) simp

text \<open>The bytes of one used-ring publication, the index last.\<close>

definition used_stores :: "rpmsg_contract \<Rightarrow> nat \<Rightarrow> u16 \<Rightarrow> u16 \<Rightarrow> u32 \<Rightarrow> (nat \<times> u8) list" where
  "used_stores k ring cursor d l =
     at (used_entry_address k ring cursor) (to_le 4 (ucast d :: u32) @ to_le 4 l) @
     at (ring + RING_USED_OFFSET k + 2) (to_le 2 (cursor + 1))"

lemma leaves_publish_used:
  "leaves (publish_used k hw ring cursor d l) (\<lambda>_ s. s = used_stores k ring cursor d l)"
  unfolding publish_used_def Let_def
  by (rule leaves_at [OF leaves_writes(3)], rule leaves_at [OF leaves_writes(3)],
      rule leaves_silent [OF leaves_reads(6)], rule leaves_at [OF leaves_writes(2)],
      rule leaves_conseq [OF leaves_reads(6)]) (simp add: used_stores_def at_append)

text \<open>The complete effect of a successful \<open>send\<close>.\<close>

definition sent_stores ::
    "rpmsg_contract \<Rightarrow> u32 \<Rightarrow> u32 \<Rightarrow> u8 list \<Rightarrow> transport \<Rightarrow> nat \<Rightarrow> u16 \<Rightarrow> (nat \<times> u8) list" where
  "sent_stores k src dst payload t buffer d =
     at buffer (encode_header \<lparr>h_source = src, h_destination = dst, h_reserved = 0,
       h_length = of_nat (length payload), h_flags = 0\<rparr> @ payload) @
     used_stores k (VRING0_BASE k) (rx_used t) d (of_nat (16 + length payload))"

definition send_spec ::
    "rpmsg_contract \<Rightarrow> u32 \<Rightarrow> u32 \<Rightarrow> u8 list \<Rightarrow> transport \<Rightarrow> bool \<times> transport \<Rightarrow> (nat \<times> u8) list \<Rightarrow> bool" where
  "send_spec k src dst payload t r s \<longleftrightarrow>
     (case r of (sent, t') \<Rightarrow>
        if sent
        then t' = t\<lparr>rx_available := rx_available t + 1, rx_used := rx_used t + 1\<rparr> \<and>
          length payload \<le> RPMSG_PAYLOAD_BYTES k \<and>
          (\<exists>i d. i < slots k \<and> unat d < RING_NUM k \<and> s = sent_stores k src dst payload t (slot_base k i) d)
        else t' = t \<and> s = [])"

lemma leaves_send:
  assumes lay: "rpmsg_layout_ok k"
  shows "leaves (send k hw src dst payload t) (send_spec k src dst payload t)"
proof -
  have H: "RPMSG_HEADER_BYTES k = 16" "RPMSG_BUFFER_BYTES k = 16 + RPMSG_PAYLOAD_BYTES k"
    using lay by (auto simp: rpmsg_layout_ok_def)
  have out: "leaves
     (let header = \<lparr>h_source = src, h_destination = dst, h_reserved = 0,
            h_length = of_nat (length payload), h_flags = 0\<rparr>;
          message_size = RPMSG_HEADER_BYTES k + length payload
      in bind (write_bytes hw buffer (encode_header header)) (\<lambda>_.
         bind (write_bytes hw (buffer + RPMSG_HEADER_BYTES k) payload) (\<lambda>_.
         bind (rp_clean hw buffer message_size) (\<lambda>_.
         bind (publish_used k hw (VRING0_BASE k) (rx_used t) id' (of_nat message_size)) (\<lambda>_.
         ok (True, t\<lparr>rx_available := rx_available t + 1, rx_used := rx_used t + 1\<rparr>))))))
      (send_spec k src dst payload t)"
    if len: "length payload \<le> RPMSG_PAYLOAD_BYTES k" and idl: "unat id' < RING_NUM k"
      and buf: "descriptor_buffer k d True (RPMSG_HEADER_BYTES k + length payload) = Some buffer"
    for d buffer id'
  proof -
    obtain i where "i < slots k" "buffer = slot_base k i"
      using descriptor_buffer_slot [OF lay buf] H len by auto
    then have spec: "send_spec k src dst payload t (True, t\<lparr>rx_available := rx_available t + 1, rx_used := rx_used t + 1\<rparr>)
        (sent_stores k src dst payload t buffer id')"
      using len idl by (auto simp: send_spec_def)
    show ?thesis
      unfolding Let_def H
      by (rule leaves_at [OF leaves_write_bytes], rule leaves_at [OF leaves_write_bytes],
          rule leaves_silent [OF leaves_reads(6)], rule leaves_at [OF leaves_publish_used])
        (use spec in \<open>simp add: sent_stores_def at_append\<close>)
  qed
  show ?thesis
    unfolding send_def
    using out
    by (auto simp: send_spec_def not_le intro!: leaves_silent [OF leaves_reads(5)] leaves_silent [OF leaves_reads(2)]
        leaves_silent [OF leaves_descriptor] split: option.split)
qed

section \<open>Wakeups\<close>

definition touches :: "rpmsg_contract \<Rightarrow> nat \<Rightarrow> (nat \<times> u8) list \<Rightarrow> bool" where
  "touches k ring s \<longleftrightarrow> (\<exists>a\<in>fst ` set s. ring \<le> a \<and> a < ring + VRING_SIZE k)"

lemma touches_simps [simp]:
  "\<not> touches k ring []" "touches k ring (a @ b) \<longleftrightarrow> touches k ring a \<or> touches k ring b"
  by (auto simp: touches_def)

lemma fst_at: "fst ` set (at a bs) = {a..<a + length bs}"
proof -
  have "map fst (at a bs) = [a..<a + length bs]" by (simp add: at_def)
  then show ?thesis by (metis list.set_map set_upt)
qed

lemma used_stores_range:
  assumes "rpmsg_layout_ok k" "x \<in> fst ` set (used_stores k ring cursor d l)"
  shows "ring \<le> x \<and> x < ring + VRING_SIZE k"
proof -
  have n: "8 \<le> RING_NUM k" "RING_USED_OFFSET k + 4 + RING_NUM k * 8 \<le> VRING_SIZE k"
    using assms(1) by (auto simp: rpmsg_layout_ok_def)
  have "unat cursor mod RING_NUM k < RING_NUM k" using n by (intro mod_less_divisor) simp
  then have "unat cursor mod RING_NUM k * 8 + 8 \<le> RING_NUM k * 8" by linarith
  with n assms(2) show ?thesis
    by (auto simp: used_stores_def image_Un fst_at used_entry_address_def)
qed

lemma ring_stores_apart:
  assumes "rpmsg_layout_ok k"
  shows "\<not> touches k (VRING1_BASE k) (used_stores k (VRING0_BASE k) c d l)"
    "\<not> touches k (VRING0_BASE k) (used_stores k (VRING1_BASE k) c d l)"
    "\<not> touches k (VRING1_BASE k) (at (slot_base k i) bs)"
proof -
  have v: "VRING0_BASE k + VRING_SIZE k \<le> VRING1_BASE k" "VRING1_BASE k + VRING_SIZE k \<le> RPMSG_BUFFER_BASE k"
    using assms by (auto simp: rpmsg_layout_ok_def)
  show "\<not> touches k (VRING1_BASE k) (used_stores k (VRING0_BASE k) c d l)"
    "\<not> touches k (VRING0_BASE k) (used_stores k (VRING1_BASE k) c d l)"
    using used_stores_range [OF assms] v by (fastforce simp: touches_def)+
  show "\<not> touches k (VRING1_BASE k) (at (slot_base k i) bs)"
    using v by (auto simp: touches_def fst_at slot_base_def)
qed

definition same_pending :: "transport \<Rightarrow> transport \<Rightarrow> bool" where
  "same_pending t t' \<longleftrightarrow> pending_notifications t' = pending_notifications t \<and>
     next_notification t' = next_notification t \<and> online t' = online t"

lemma same_pending_simps [simp]:
  "same_pending t t"
  "same_pending t (t\<lparr>rx_available := a, rx_used := b\<rparr>)"
  "same_pending t (t\<lparr>tx_available := a, tx_used := b\<rparr>)"
  by (simp_all add: same_pending_def)

lemma same_pending_trans: "same_pending t u \<Longrightarrow> same_pending u v \<Longrightarrow> same_pending t v"
  by (simp add: same_pending_def)

lemma send_wakes:
  assumes lay: "rpmsg_layout_ok k"
  shows "leaves (send k hw src dst payload t) (\<lambda>(sent, t') s.
    \<not> touches k (VRING1_BASE k) s \<and> (touches k (VRING0_BASE k) s \<longrightarrow> sent) \<and> same_pending t t')"
proof (rule leaves_conseq [OF leaves_send [OF lay]])
  fix r s assume sp: "send_spec k src dst payload t r s"
  obtain sent t' where r: "r = (sent, t')" by force
  have B: "RPMSG_BUFFER_BYTES k = 16 + RPMSG_PAYLOAD_BYTES k" using lay by (simp add: rpmsg_layout_ok_def)
  show "(case r of (sent, t') \<Rightarrow> \<lambda>s. \<not> touches k (VRING1_BASE k) s \<and>
    (touches k (VRING0_BASE k) s \<longrightarrow> sent) \<and> same_pending t t') s"
  proof (cases sent)
    case True
    with sp r obtain i d where "s = sent_stores k src dst payload t (slot_base k i) d"
      "t' = t\<lparr>rx_available := rx_available t + 1, rx_used := rx_used t + 1\<rparr>"
      "length payload \<le> RPMSG_PAYLOAD_BYTES k" by (auto simp: send_spec_def)
    then show ?thesis using r True ring_stores_apart [OF lay] B by (simp add: sent_stores_def)
  qed (use sp r in \<open>simp add: send_spec_def\<close>)
qed

fun sent_of :: "dispatched \<Rightarrow> bool" where
  "sent_of (NoRoom s) = s"
| "sent_of (Dispatched s) = s"

definition dispatch_wakes ::
    "rpmsg_contract \<Rightarrow> transport \<Rightarrow> dispatched \<times> transport \<Rightarrow> (nat \<times> u8) list \<Rightarrow> bool" where
  "dispatch_wakes k t x s \<longleftrightarrow> \<not> touches k (VRING1_BASE k) s \<and>
     (touches k (VRING0_BASE k) s \<longrightarrow> sent_of (fst x)) \<and> same_pending t (snd x)"

lemma leaves_dispatch:
  assumes lay: "rpmsg_layout_ok k"
  shows "leaves (dispatch k hw lcd buffer l t) (dispatch_wakes k t)"
proof -
  have echo: "leaves (bind (read_bytes hw a n) (\<lambda>payload. bind (send k hw x y payload t) (\<lambda>(sent, t').
        ok (if sent then Dispatched True else NoRoom False, t')))) (dispatch_wakes k t)" for a n x y
    by (rule leaves_silent [OF leaves_read_bytes], rule leaves_bind [OF send_wakes [OF lay]])
      (auto simp: dispatch_wakes_def)
  have none: "dispatch_wakes k t (Dispatched False, t) []" by (simp add: dispatch_wakes_def)
  have reply: "leaves
      (bind (read_bytes hw a n) (\<lambda>payload. bind (sense (lcd_reply port payload) (RReply payload)) (\<lambda>response.
        bind (send k hw x y response t1) (\<lambda>(sent', t2). ok (if sent' then Dispatched True else NoRoom b, t2)))))
      (\<lambda>r s'. dispatch_wakes k t r (s @ s'))"
    if "dispatch_wakes k t (Dispatched b, t1) s" for port a n x y b t1 s
  proof -
    have sl: "leaves (sense (lcd_reply port payload) (RReply payload)) (\<lambda>a s. s = [])" for payload
      by (simp add: leaves_def traces_sense)
    show ?thesis
      by (rule leaves_silent [OF leaves_read_bytes], rule leaves_silent [OF sl],
          rule leaves_bind [OF send_wakes [OF lay]])
        (use that in \<open>auto simp: dispatch_wakes_def intro: same_pending_trans\<close>)
  qed
  show ?thesis
    unfolding dispatch_def Let_def
    by (rule leaves_silent [OF leaves_read_bytes], rule leaves_bind [where P = "dispatch_wakes k t"])
      (use none in \<open>auto split: dispatched.split option.split intro!: echo reply\<close>)
qed

lemma leaves_complete:
  assumes "rpmsg_layout_ok k"
  shows "leaves (complete k hw d t) (\<lambda>t' s. \<not> touches k (VRING0_BASE k) s \<and> same_pending t t')"
  unfolding complete_def
  by (rule leaves_at [OF leaves_publish_used]) (simp add: ring_stores_apart [OF assms])

definition drain_wakes ::
    "rpmsg_contract \<Rightarrow> transport \<Rightarrow> bool \<Rightarrow> bool \<Rightarrow> (bool \<times> bool) \<times> transport \<Rightarrow> (nat \<times> u8) list \<Rightarrow> bool" where
  "drain_wakes k t sent completed x s \<longleftrightarrow>
     (touches k (VRING0_BASE k) s \<or> sent \<longrightarrow> fst (fst x)) \<and>
     (touches k (VRING1_BASE k) s \<or> completed \<longrightarrow> snd (fst x)) \<and> same_pending t (snd x)"

lemma leaves_drain:
  assumes lay: "rpmsg_layout_ok k"
  shows "leaves (drain k hw lcd n sent completed t) (drain_wakes k t sent completed)"
proof (induction n arbitrary: sent completed t)
  case 0
  show ?case by (simp add: drain_wakes_def)
next
  case (Suc n)
  have go_on: "leaves (bind (complete k hw d t1) (\<lambda>t2. drain k hw lcd n (sent \<or> b) True t2))
     (\<lambda>x s. drain_wakes k t sent completed x (s0 @ s))"
    if "dispatch_wakes k t (Dispatched b, t1) s0" for d t1 b s0
    by (rule leaves_bind [OF leaves_complete [OF lay]], rule leaves_conseq [OF Suc])
      (use that in \<open>auto simp: drain_wakes_def dispatch_wakes_def intro: same_pending_trans\<close>)
  have stop: "drain_wakes k t sent completed ((sent \<or> b, completed), t1) s0"
    if "dispatch_wakes k t (NoRoom b, t1) s0" for t1 b s0
    using that by (auto simp: drain_wakes_def dispatch_wakes_def)
  have serve: "leaves (bind (dispatch k hw lcd buffer l t) (\<lambda>(outcome, t1). case outcome of
         NoRoom s \<Rightarrow> ok ((sent \<or> s, completed), t1)
       | Dispatched s \<Rightarrow> bind (complete k hw d t1) (\<lambda>t2. drain k hw lcd n (sent \<or> s) True t2)))
     (drain_wakes k t sent completed)" for buffer l d
    by (rule leaves_bind [OF leaves_dispatch [OF lay]])
      (auto split: dispatched.split intro!: go_on stop)
  have skip: "leaves (bind (complete k hw d t) (\<lambda>t'. drain k hw lcd n sent True t')) (drain_wakes k t sent completed)"
    for d
    using go_on [of False t "[]"] by (simp add: dispatch_wakes_def)
  have quit: "drain_wakes k t sent completed ((sent, completed), t) []" by (simp add: drain_wakes_def)
  show ?case
    unfolding drain.simps
    using quit
    by (auto intro!: leaves_silent [OF leaves_reads(5)] leaves_silent [OF leaves_reads(2)]
        leaves_silent [OF leaves_descriptor] serve skip split: option.split)
qed

text \<open>A pending notification survives a flush unless it was delivered.\<close>

lemma flush_keeps_pending:
  "traces (flush_from hw offs t) (\<lambda>t' n. stores n = [] \<and> online t' = online t \<and>
     (\<forall>i. bit (pending_notifications t) i \<longrightarrow>
        bit (pending_notifications t') i \<or> RNotify (of_nat i) 0 \<in> set n))"
proof (induction offs)
  case Nil
  show ?case by (simp add: traces_ok)
next
  case (Cons off offs)
  define v where "v = (next_notification t + off) mod 2"
  have sent: "bit (pending_notifications t AND NOT (push_bit (unat v) 1)) i \<or> RNotify (of_nat i) 0 = RNotify v 0"
    if "bit (pending_notifications t) i" for i
    using that by (cases "i = unat v") (auto simp: bit_simps dest: bit_imp_le_length)
  have sent': "of_nat i = v"
    if "bit (pending_notifications t) i" "\<not> bit (pending_notifications t AND NOT (2 ^ unat v)) i" for i
    using sent [OF that(1)] that(2) by simp
  show ?case
    unfolding flush_from.simps Let_def v_def [symmetric]
    using Cons
    by (auto intro!: traces_bind [OF traces_sense [where Q = "\<lambda>r n. n = [RNotify v r]"]] traces_ok
        split: if_splits) (erule (1) sent')
qed

abbreviation send_wakes_post ::
    "rpmsg_contract \<Rightarrow> transport \<Rightarrow> bool \<times> transport \<Rightarrow> (nat \<times> u8) list \<Rightarrow> bool" where
  "send_wakes_post k t x s \<equiv> \<not> touches k (VRING1_BASE k) s \<and>
     (touches k (VRING0_BASE k) s \<longrightarrow> fst x) \<and> same_pending t (snd x)"

lemma leaves_announcements:
  assumes lay: "rpmsg_layout_ok k" and name: "\<And>port. lcd = Some port \<Longrightarrow> length (lcd_name port) \<le> 40"
  shows "leaves (if \<not> announced t then bind (announce k hw t) (\<lambda>(sent, t').
         ok (sent, if sent then t'\<lparr>announced := True\<rparr> else t')) else ok (False, t)) (send_wakes_post k t)"
    "leaves (lcd_announce k hw lcd t) (send_wakes_post k t)"
proof -
  have upd: "same_pending t (t'\<lparr>announced := b\<rparr>) = same_pending t t'"
    "same_pending t (t'\<lparr>lcd_announced := b\<rparr>) = same_pending t t'" for t' b
    by (simp_all add: same_pending_def)
  have "leaves (announce k hw t) (\<lambda>(sent, t') s.
      \<not> touches k (VRING1_BASE k) s \<and> (touches k (VRING0_BASE k) s \<longrightarrow> sent) \<and> same_pending t t')"
    using lay send_wakes [OF lay] by (simp add: announce_def rpmsg_layout_ok_def)
  then show "leaves (if \<not> announced t then bind (announce k hw t) (\<lambda>(sent, t').
         ok (sent, if sent then t'\<lparr>announced := True\<rparr> else t')) else ok (False, t)) (send_wakes_post k t)"
    by (auto simp: upd intro!: leaves_bind [where f = "\<lambda>(sent, t'). ok (sent, if sent then t'\<lparr>announced := True\<rparr> else t')"])
  show "leaves (lcd_announce k hw lcd t) (send_wakes_post k t)"
    unfolding lcd_announce_def using name
    by (auto simp: upd not_less split: option.split intro!: leaves_bind [OF send_wakes [OF lay]])
qed

text \<open>No wakeup is lost in a turn from \<open>t\<close> to \<open>t'\<close> with the events \<open>n\<close>: a notification that is owed, because
  its ring was changed or because it was pending and the turn does not attach anew, is pending
  afterwards or was accepted by the mailbox. A turn attaches when the driver is seen online after
  it was offline; it starts both rings from zero and drops what was pending for their previous use.\<close>

definition attaches :: "transport \<Rightarrow> transport \<Rightarrow> bool" where
  "attaches t t' \<longleftrightarrow> \<not> online t \<and> online t'"

definition wakes_ok :: "rpmsg_contract \<Rightarrow> transport \<Rightarrow> transport \<Rightarrow> rpmsg_event list \<Rightarrow> bool" where
  "wakes_ok k t t' n \<longleftrightarrow>
     (touches k (VRING0_BASE k) (stores n) \<or> \<not> attaches t t' \<and> bit (pending_notifications t) 0 \<longrightarrow>
        bit (pending_notifications t') 0 \<or> RNotify 0 0 \<in> set n) \<and>
     (touches k (VRING1_BASE k) (stores n) \<or> \<not> attaches t t' \<and> bit (pending_notifications t) 1 \<longrightarrow>
        bit (pending_notifications t') 1 \<or> RNotify 1 0 \<in> set n)"

lemma service_tail:
  assumes "touches k (VRING0_BASE k) (stores n) \<longrightarrow> b0" "touches k (VRING1_BASE k) (stores n) \<longrightarrow> b1"
    "online t \<longrightarrow> pending_notifications t3 = pending_notifications t" "online t3"
  shows "traces (let t4 = (if b0 then queue_notification 0 t3 else t3);
      t5 = (if b1 then queue_notification 1 t4 else t4) in flush_notification hw t5)
    (\<lambda>t' n'. wakes_ok k t t' (n @ n'))"
proof -
  have q: "bit (pending_notifications (queue_notification v u)) i \<longleftrightarrow>
      bit (pending_notifications u) i \<or> i = unat v \<and> i < 8" for v u i
    by (auto simp: queue_notification_def bit_simps dest: bit_imp_le_length)
  let ?t5 = "if b1 then queue_notification 1 (if b0 then queue_notification 0 t3 else t3)
    else if b0 then queue_notification 0 t3 else t3"
  show ?thesis
    unfolding Let_def flush_notification_def
  proof (rule traces_conseq [OF flush_keeps_pending])
    fix t' :: transport and n'
    assume f: "stores n' = [] \<and> online t' = online ?t5 \<and>
      (\<forall>i. bit (pending_notifications ?t5) i \<longrightarrow>
         bit (pending_notifications t') i \<or> RNotify (of_nat i) 0 \<in> set n')"
    then have "bit (pending_notifications ?t5) 0 \<longrightarrow> bit (pending_notifications t') 0 \<or> RNotify 0 0 \<in> set n'"
      "bit (pending_notifications ?t5) 1 \<longrightarrow> bit (pending_notifications t') 1 \<or> RNotify 1 0 \<in> set n'"
      using spec [of "\<lambda>i. bit (pending_notifications ?t5) i \<longrightarrow>
         bit (pending_notifications t') i \<or> RNotify (of_nat i) 0 \<in> set n'" 0]
        spec [of "\<lambda>i. bit (pending_notifications ?t5) i \<longrightarrow>
         bit (pending_notifications t') i \<or> RNotify (of_nat i) 0 \<in> set n'" 1] by auto
    moreover have "b0 \<or> bit (pending_notifications t3) 0 \<Longrightarrow> bit (pending_notifications ?t5) 0"
      "b1 \<or> bit (pending_notifications t3) 1 \<Longrightarrow> bit (pending_notifications ?t5) 1"
      by (auto simp: q)
    ultimately show "wakes_ok k t t' (n @ n')"
      using assms f by (auto simp: wakes_ok_def attaches_def queue_notification_def)
  qed
qed

lemma service_wakes:
  assumes lay: "rpmsg_layout_ok k" and name: "\<And>port. lcd = Some port \<Longrightarrow> length (lcd_name port) \<le> 40"
  shows "traces (rpmsg_service k hw lcd t) (wakes_ok k t)"
proof -
  have on: "leaves (vdev_online k hw) (\<lambda>b s. s = [])"
    unfolding vdev_online_def
    by (intro leaves_silent [OF leaves_reads(5)] leaves_silent [OF leaves_reads(1)]
        leaves_silent [OF leaves_reads(3)]) simp
  define t0 where "t0 = (if \<not> online t then reset_for_attach t else t)"
  have t0: "online t \<longrightarrow> pending_notifications t0 = pending_notifications t" "online t0"
    by (simp_all add: t0_def reset_for_attach_def)
  note ann = leaves_announcements [OF lay name]
  have body: "traces (bind (if \<not> announced t0 then bind (announce k hw t0) (\<lambda>(sent, t').
               ok (sent, if sent then t'\<lparr>announced := True\<rparr> else t'))
             else ok (False, t0)) (\<lambda>(changed1, t1).
       bind (lcd_announce k hw lcd t1) (\<lambda>(changed2, t2).
       bind (drain_host_messages k hw lcd t2) (\<lambda>((sent, completed), t3).
       let t4 = (if changed1 \<or> changed2 \<or> sent then queue_notification 0 t3 else t3);
           t5 = (if completed then queue_notification 1 t4 else t4)
       in flush_notification hw t5)))) (\<lambda>t' n'. wakes_ok k t t' (n0 @ n'))"
    if n0: "stores n0 = []" for n0
  proof (rule traces_bind_pair [OF ann(1) [unfolded leaves_def]])
    fix c1 t1 n1 assume 1: "send_wakes_post k t0 (c1, t1) (stores n1)"
    show "traces (bind (lcd_announce k hw lcd t1) (\<lambda>(changed2, t2).
       bind (drain_host_messages k hw lcd t2) (\<lambda>((sent, completed), t3).
       let t4 = (if c1 \<or> changed2 \<or> sent then queue_notification 0 t3 else t3);
           t5 = (if completed then queue_notification 1 t4 else t4)
       in flush_notification hw t5))) (\<lambda>t' n'. wakes_ok k t t' (n0 @ n1 @ n'))"
    proof (rule traces_bind_pair [OF ann(2) [unfolded leaves_def]])
      fix c2 t2 n2 assume 2: "send_wakes_post k t1 (c2, t2) (stores n2)"
      show "traces (bind (drain_host_messages k hw lcd t2) (\<lambda>((sent, completed), t3).
         let t4 = (if c1 \<or> c2 \<or> sent then queue_notification 0 t3 else t3);
             t5 = (if completed then queue_notification 1 t4 else t4)
         in flush_notification hw t5)) (\<lambda>t' n'. wakes_ok k t t' (n0 @ n1 @ n2 @ n'))"
        unfolding drain_host_messages_def
      proof (rule traces_bind_triple [OF leaves_drain [OF lay, unfolded leaves_def]])
        fix sent completed t3 n3 assume 3: "drain_wakes k t2 False False ((sent, completed), t3) (stores n3)"
        have "traces (let t4 = (if c1 \<or> c2 \<or> sent then queue_notification 0 t3 else t3);
               t5 = (if completed then queue_notification 1 t4 else t4)
           in flush_notification hw t5) (\<lambda>t' n'. wakes_ok k t t' ((n0 @ n1 @ n2 @ n3) @ n'))"
          using n0 1 2 3 t0 by (intro service_tail) (auto simp: drain_wakes_def same_pending_def)
        then show "traces (let t4 = (if c1 \<or> c2 \<or> sent then queue_notification 0 t3 else t3);
               t5 = (if completed then queue_notification 1 t4 else t4)
           in flush_notification hw t5) (\<lambda>t' n'. wakes_ok k t t' (n0 @ n1 @ n2 @ n3 @ n'))"
          by simp
      qed
    qed
  qed
  show ?thesis
    unfolding rpmsg_service_def Let_def [of "if \<not> online t then reset_for_attach t else t"] t0_def [symmetric]
    by (rule traces_bind [OF on [unfolded leaves_def]])
      (use body in \<open>auto simp: wakes_ok_def attaches_def intro!: traces_ok\<close>)
qed

section \<open>Answers\<close>

fun load_of :: "rpmsg_event \<Rightarrow> (nat \<times> u8) list" where
  "load_of (RRead a bs) = at a bs"
| "load_of _ = []"

definition loads :: "rpmsg_event list \<Rightarrow> (nat \<times> u8) list" where
  "loads evs = concat (map load_of evs)"

lemma loads_simps [simp]:
  "loads [] = []" "loads (e # evs) = load_of e @ loads evs" "loads (a @ b) = loads a @ loads b"
  by (simp_all add: loads_def)

text \<open>The bytes \<open>bs\<close> read one by one from \<open>a\<close> on.\<close>

definition byte_reads :: "nat \<Rightarrow> u8 list \<Rightarrow> rpmsg_event list" where
  "byte_reads a bs = map (\<lambda>(x, b). RRead x [b]) (at a bs)"

lemma read_bytes_log:
  "traces (read_bytes hw a n) (\<lambda>bs ev. length bs = n \<and> ev = byte_reads a bs)"
proof (induction n arbitrary: a)
  case (Suc n)
  have rd: "traces (read_u8 hw a) (\<lambda>b ev. ev = [RRead a [b]])"
    by (simp add: read_u8_def traces_sense)
  show ?case
    unfolding read_bytes.simps
    by (rule traces_bind [OF rd], rule traces_bind [OF Suc]) (auto simp: byte_reads_def at_Cons intro: traces_ok)
qed (simp add: traces_ok byte_reads_def)

text \<open>\<open>writes p a s\<close>: \<open>p\<close> returns \<open>a\<close>, loads nothing and stores the bytes \<open>s\<close>.\<close>

definition writes :: "('h, 'a) rpmsg_prog \<Rightarrow> 'a \<Rightarrow> (nat \<times> u8) list \<Rightarrow> bool" where
  "writes p a s \<longleftrightarrow> traces p (\<lambda>b n. b = a \<and> loads n = [] \<and> stores n = s)"

lemma writes_ok: "writes (ok a) a []"
  by (simp add: writes_def traces_ok)

lemma writes_bind:
  assumes "writes p () s" "writes (f ()) b s'"
  shows "writes (bind p f) b (s @ s')"
  using assms(1) unfolding writes_def
  by (rule traces_bind) (use assms(2) in \<open>auto simp: writes_def elim: traces_conseq\<close>)

lemma writes_raw:
  "writes (write_u8 hw a v) () (at a [v])" "writes (write_u16 hw a v2) () (at a (to_le 2 v2))"
  "writes (write_u32 hw a v4) () (at a (to_le 4 v4))" "writes (rp_clean hw a n) () []"
  by (auto simp: access_defs writes_def intro!: traces_drive)

lemma writes_bytes: "writes (write_bytes hw a bs) () (at a bs)"
proof (induction bs arbitrary: a)
  case (Cons b bs)
  from writes_bind [OF writes_raw(1) Cons] show ?case by (simp add: at_Cons)
qed (simp add: writes_ok)

lemma writes_used: "writes (publish_used k hw ring cursor d l) () (used_stores k ring cursor d l)"
proof -
  have "used_stores k ring cursor d l = at (used_entry_address k ring cursor) (to_le 4 (ucast d :: u32)) @
      at (used_entry_address k ring cursor + 4) (to_le 4 l) @ [] @
      at (ring + RING_USED_OFFSET k + 2) (to_le 2 (cursor + 1)) @ []"
    by (simp add: used_stores_def at_append)
  then show ?thesis
    unfolding publish_used_def Let_def by (simp only:) (intro writes_bind writes_raw)
qed

text \<open>
  What \<open>send\<close> reads of the receive ring. \<open>buffer_offered k t need buffer id n\<close>: in the log \<open>n\<close> the available
  index is ahead of the cursor, and the entry at the cursor names the descriptor \<open>id\<close>, which is in the
  table and gives a writable buffer for \<open>need\<close> bytes. \<open>no_buffer k t need n\<close>: the index is not ahead, the
  entry is outside the table, or the descriptor is not such a buffer, and nothing further is read.
\<close>

definition index_read :: "rpmsg_contract \<Rightarrow> u16 \<Rightarrow> rpmsg_event list" where
  "index_read k available =
     [RInvalidate (VRING0_BASE k) (RING_DRIVER_BYTES k),
      RRead (avail_index_address k (VRING0_BASE k)) (to_le 2 available)]"

definition entry_read :: "rpmsg_contract \<Rightarrow> transport \<Rightarrow> u16 \<Rightarrow> rpmsg_event" where
  "entry_read k t d_id = RRead (avail_entry_address k (VRING0_BASE k) (rx_available t)) (to_le 2 d_id)"

definition descriptor_reads :: "nat \<Rightarrow> u16 \<Rightarrow> vring_descriptor \<Rightarrow> rpmsg_event list" where
  "descriptor_reads ring d_id d =
     [RRead (ring + unat d_id * 16) (to_le 8 (d_address d)),
      RRead (ring + unat d_id * 16 + 8) (to_le 4 (d_length d)),
      RRead (ring + unat d_id * 16 + 12) (to_le 2 (d_flags d)),
      RRead (ring + unat d_id * 16 + 14) (to_le 2 (d_next d))]"

definition buffer_offered ::
    "rpmsg_contract \<Rightarrow> transport \<Rightarrow> nat \<Rightarrow> nat \<Rightarrow> u16 \<Rightarrow> rpmsg_event list \<Rightarrow> bool" where
  "buffer_offered k t need buffer d_id n \<longleftrightarrow> (\<exists>available d.
     available \<noteq> rx_available t \<and> unat d_id < RING_NUM k \<and> descriptor_buffer k d True need = Some buffer \<and>
     n = index_read k available @ entry_read k t d_id # descriptor_reads (VRING0_BASE k) d_id d)"

definition no_buffer :: "rpmsg_contract \<Rightarrow> transport \<Rightarrow> nat \<Rightarrow> rpmsg_event list \<Rightarrow> bool" where
  "no_buffer k t need n \<longleftrightarrow>
     n = index_read k (rx_available t) \<or>
     (\<exists>available d_id. available \<noteq> rx_available t \<and> RING_NUM k \<le> unat d_id \<and>
        n = index_read k available @ [entry_read k t d_id]) \<or>
     (\<exists>available d_id d. available \<noteq> rx_available t \<and> unat d_id < RING_NUM k \<and>
        descriptor_buffer k d True need = None \<and>
        n = index_read k available @ entry_read k t d_id # descriptor_reads (VRING0_BASE k) d_id d)"

text \<open>The log and result of \<open>send\<close>.\<close>

definition send_log ::
    "rpmsg_contract \<Rightarrow> u32 \<Rightarrow> u32 \<Rightarrow> u8 list \<Rightarrow> transport \<Rightarrow> bool \<times> transport \<Rightarrow> rpmsg_event list \<Rightarrow> bool" where
  "send_log k src dst payload t x n \<longleftrightarrow>
     (case x of (sent, t') \<Rightarrow>
        if sent
        then t' = t\<lparr>rx_available := rx_available t + 1, rx_used := rx_used t + 1\<rparr> \<and>
          length payload \<le> RPMSG_PAYLOAD_BYTES k \<and>
          (\<exists>buffer d_id ring out. n = ring @ out \<and>
             buffer_offered k t (RPMSG_HEADER_BYTES k + length payload) buffer d_id ring \<and>
             loads out = [] \<and> stores out = sent_stores k src dst payload t buffer d_id)
        else t' = t \<and>
          (RPMSG_PAYLOAD_BYTES k < length payload \<and> n = [] \<or>
           length payload \<le> RPMSG_PAYLOAD_BYTES k \<and>
           no_buffer k t (RPMSG_HEADER_BYTES k + length payload) n))"

lemma descriptor_log: "traces (descriptor hw ring i) (\<lambda>d n. n = descriptor_reads ring i d)"
  unfolding descriptor_def Let_def read_u64_def read_u32_def read_u16_def
  by (rule traces_bind [OF traces_sense [where Q = "\<lambda>v n. n = [RRead (ring + unat i * 16) (to_le 8 v)]"]], simp,
      rule traces_bind [OF traces_sense [where Q = "\<lambda>v n. n = [RRead (ring + unat i * 16 + 8) (to_le 4 v)]"]], simp,
      rule traces_bind [OF traces_sense [where Q = "\<lambda>v n. n = [RRead (ring + unat i * 16 + 12) (to_le 2 v)]"]], simp,
      rule traces_bind [OF traces_sense [where Q = "\<lambda>v n. n = [RRead (ring + unat i * 16 + 14) (to_le 2 v)]"]], simp,
      rule traces_ok, simp add: descriptor_reads_def)

lemma writes_message:
  assumes "RPMSG_HEADER_BYTES k = 16"
  shows "writes
     (let header = \<lparr>h_source = src, h_destination = dst, h_reserved = 0,
            h_length = of_nat (length payload), h_flags = 0\<rparr>;
          message_size = RPMSG_HEADER_BYTES k + length payload
      in bind (write_bytes hw buffer (encode_header header)) (\<lambda>_.
         bind (write_bytes hw (buffer + RPMSG_HEADER_BYTES k) payload) (\<lambda>_.
         bind (rp_clean hw buffer message_size) (\<lambda>_.
         bind (publish_used k hw (VRING0_BASE k) (rx_used t) d_id (of_nat message_size)) (\<lambda>_.
         ok (True, t\<lparr>rx_available := rx_available t + 1, rx_used := rx_used t + 1\<rparr>))))))
     (True, t\<lparr>rx_available := rx_available t + 1, rx_used := rx_used t + 1\<rparr>)
     (sent_stores k src dst payload t buffer d_id)"
proof -
  have "sent_stores k src dst payload t buffer d_id =
      at buffer (encode_header \<lparr>h_source = src, h_destination = dst, h_reserved = 0,
        h_length = of_nat (length payload), h_flags = 0\<rparr>) @ at (buffer + 16) payload @ [] @
      used_stores k (VRING0_BASE k) (rx_used t) d_id (of_nat (16 + length payload)) @ []"
    by (simp add: sent_stores_def at_append)
  then show ?thesis
    unfolding Let_def assms by (simp only:) (intro writes_bind writes_bytes writes_raw writes_used writes_ok)
qed

lemma send_course:
  assumes lay: "rpmsg_layout_ok k"
  shows "traces (send k hw src dst payload t) (send_log k src dst payload t)"
proof (cases "RPMSG_PAYLOAD_BYTES k < length payload")
  case True
  then show ?thesis by (simp add: send_def send_log_def traces_ok)
next
  case False
  have H: "RPMSG_HEADER_BYTES k = 16" using lay by (simp add: rpmsg_layout_ok_def)
  note out = writes_message [OF H]
  have idx: "traces (rp_invalidate hw a n) (\<lambda>_ ev. ev = [RInvalidate a n])" for a n
    by (simp add: rp_invalidate_def traces_drive)
  have rd: "traces (read_u16 hw a) (\<lambda>v ev. ev = [RRead a (to_le 2 v)])" for a
    by (simp add: read_u16_def traces_sense)
  show ?thesis
    unfolding send_def if_not_P [OF False]
  proof (rule traces_bind [OF idx], rule traces_bind [OF rd], goal_cases)
    case (1 u n available n1)
    then have n: "n @ n1 = index_read k available" by (simp add: index_read_def)
    show ?case
    proof (cases "rx_available t = available")
      case True
      with False n show ?thesis
        by (auto simp: send_log_def no_buffer_def append_assoc [symmetric] simp del: append_assoc intro!: traces_ok)
    next
      case ne: False
      show ?thesis
        unfolding if_not_P [OF ne]
      proof (rule traces_bind [OF rd], goal_cases)
        case (1 d_id n2)
        then have n2: "n2 = [entry_read k t d_id]" by (simp add: entry_read_def)
        show ?case
        proof (cases "RING_NUM k \<le> unat d_id")
          case True
          then have "no_buffer k t (RPMSG_HEADER_BYTES k + length payload) (n @ n1 @ n2)"
            unfolding no_buffer_def append_assoc [symmetric] n n2
            using ne by (intro disjI2 disjI1 exI [of _ available] exI [of _ d_id]) auto
          with True False show ?thesis by (auto simp: send_log_def intro!: traces_ok)
        next
          case lt: False
          show ?thesis
            unfolding if_not_P [OF lt]
          proof (rule traces_bind [OF descriptor_log], goal_cases)
            case (1 d n3)
            then have ring: "n @ n1 @ n2 @ n3 =
                index_read k available @ entry_read k t d_id # descriptor_reads (VRING0_BASE k) d_id d"
              using n n2 by (metis append_Cons append_Nil append_assoc)
            show ?case
            proof (cases "descriptor_buffer k d True (RPMSG_HEADER_BYTES k + length payload)")
              case None
              then have "no_buffer k t (RPMSG_HEADER_BYTES k + length payload) (n @ n1 @ n2 @ n3)"
                unfolding no_buffer_def ring
                using ne lt by (intro disjI2 exI [of _ available] exI [of _ d_id] exI [of _ d]) auto
              with None False show ?thesis by (auto simp: send_log_def intro!: traces_ok)
            next
              case (Some buffer)
              then have off: "buffer_offered k t (RPMSG_HEADER_BYTES k + length payload) buffer d_id (n @ n1 @ n2 @ n3)"
                using ne lt unfolding buffer_offered_def ring by (intro exI [of _ available] exI [of _ d]) auto
              show ?thesis
                unfolding Some option.case
              proof (rule traces_conseq [OF out [unfolded writes_def]], goal_cases)
                case (1 x n4)
                then have "\<exists>buffer d_id ring out. n @ n1 @ n2 @ n3 @ n4 = ring @ out \<and>
                    buffer_offered k t (RPMSG_HEADER_BYTES k + length payload) buffer d_id ring \<and>
                    loads out = [] \<and> stores out = sent_stores k src dst payload t buffer d_id"
                  using off
                  by (intro exI [of _ buffer] exI [of _ d_id] exI [of _ "n @ n1 @ n2 @ n3"] exI [of _ n4]) simp
                with 1 False show ?case by (simp add: send_log_def)
              qed
            qed
          qed
        qed
      qed
    qed
  qed
qed

text \<open>
  The outcome of one host message. The header bytes \<open>hb\<close> are read first. A message that is not valid, or
  is not for the echo address or the LCD service, causes nothing else. The others are answered:
  the payload is read, and the response, the payload itself or what the LCD service makes of it,
  is sent to the source.
\<close>

definition valid_header :: "rpmsg_contract \<Rightarrow> rpmsg_header \<Rightarrow> u32 \<Rightarrow> bool" where
  "valid_header k h l \<longleftrightarrow> h_reserved h = 0 \<and> h_flags h = 0 \<and> unat (h_length h) \<le> RPMSG_PAYLOAD_BYTES k \<and>
     RPMSG_HEADER_BYTES k + unat (h_length h) \<le> unat l"

definition answer_log ::
    "rpmsg_contract \<Rightarrow> u32 \<Rightarrow> u32 \<Rightarrow> u8 list \<Rightarrow> transport \<Rightarrow> dispatched \<times> transport \<Rightarrow> rpmsg_event list \<Rightarrow> bool" where
  "answer_log k src dst response t x n \<longleftrightarrow>
     (\<exists>sent. send_log k src dst response t (sent, snd x) n \<and>
        fst x = (if sent then Dispatched True else NoRoom False))"

definition dispatch_log ::
    "rpmsg_contract \<Rightarrow> 'h lcd_port option \<Rightarrow> nat \<Rightarrow> u32 \<Rightarrow> transport \<Rightarrow> dispatched \<times> transport \<Rightarrow> rpmsg_event list \<Rightarrow> bool" where
  "dispatch_log k lcd buffer l t x n \<longleftrightarrow> (\<exists>hb rest. length hb = 16 \<and> n = byte_reads buffer hb @ rest \<and>
     (let h = decode_header hb in
      if valid_header k h l \<and> h_destination h = RPMSG_ECHO_ADDRESS k
      then \<exists>payload out. length payload = unat (h_length h) \<and> rest = byte_reads (buffer + 16) payload @ out \<and>
        answer_log k (RPMSG_ECHO_ADDRESS k) (h_source h) payload t x out
      else if valid_header k h l \<and> map_option lcd_address lcd = Some (h_destination h)
      then \<exists>payload response out. length payload = unat (h_length h) \<and>
        rest = byte_reads (buffer + 16) payload @ RReply payload response # out \<and>
        answer_log k (h_destination h) (h_source h) response t x out
      else rest = [] \<and> x = (Dispatched False, t)))"

lemma dispatch_log_echo:
  assumes "length hb = 16" "valid_header k (decode_header hb) l"
    "length payload = unat (h_length (decode_header hb))" "h_destination (decode_header hb) = RPMSG_ECHO_ADDRESS k"
    "answer_log k (RPMSG_ECHO_ADDRESS k) (h_source (decode_header hb)) payload t x out"
    "n = byte_reads buffer hb @ byte_reads (buffer + 16) payload @ out"
  shows "dispatch_log k lcd buffer l t x n"
  unfolding dispatch_log_def Let_def using assms by metis

lemma dispatch_log_lcd:
  assumes "length hb = 16" "valid_header k (decode_header hb) l"
    "map_option lcd_address lcd = Some (h_destination (decode_header hb))"
    "length payload = unat (h_length (decode_header hb))" "h_destination (decode_header hb) \<noteq> RPMSG_ECHO_ADDRESS k"
    "answer_log k (h_destination (decode_header hb)) (h_source (decode_header hb)) response t x out"
    "n = byte_reads buffer hb @ byte_reads (buffer + 16) payload @ RReply payload response # out"
  shows "dispatch_log k lcd buffer l t x n"
  unfolding dispatch_log_def Let_def using assms by metis

lemma dispatch_course:
  assumes lay: "rpmsg_layout_ok k" and apart: "map_option lcd_address lcd \<noteq> Some (RPMSG_ECHO_ADDRESS k)"
  shows "traces (dispatch k hw lcd buffer l t) (dispatch_log k lcd buffer l t)"
proof -
  have H: "RPMSG_HEADER_BYTES k = 16" using lay by (simp add: rpmsg_layout_ok_def)
  show ?thesis
    unfolding dispatch_def Let_def H valid_header_def [of k, unfolded H, symmetric]
  proof (rule traces_bind [OF read_bytes_log], goal_cases)
    case (1 hb n)
    then have hb: "length hb = 16" "n = byte_reads buffer hb" by auto
    let ?h = "decode_header hb"
    consider (echo) "valid_header k ?h l" "h_destination ?h = RPMSG_ECHO_ADDRESS k"
      | (lcd) port where "valid_header k ?h l" "h_destination ?h \<noteq> RPMSG_ECHO_ADDRESS k" "lcd = Some port"
        "h_destination ?h = lcd_address port"
      | (none) "\<not> (valid_header k ?h l \<and> h_destination ?h = RPMSG_ECHO_ADDRESS k)"
        "\<not> (valid_header k ?h l \<and> map_option lcd_address lcd = Some (h_destination ?h))"
      by (cases lcd) (simp_all only: option.map option.inject option.distinct simp_thms, blast, metis)
    then show ?case
    proof cases
      case none
      then have "dispatch_log k lcd buffer l t (Dispatched False, t) n"
        unfolding dispatch_log_def Let_def using 1 by (intro exI [of _ hb] exI [of _ "[]"]) auto
      with none show ?thesis by (auto simp: bind_def ok_def traces_def split: option.split)
    next
      case echo
      have core: "traces (bind (read_bytes hw (buffer + 16) (unat (h_length ?h))) (\<lambda>payload.
          bind (send k hw (RPMSG_ECHO_ADDRESS k) (h_source ?h) payload t) (\<lambda>(sent, t').
          ok (if sent then Dispatched True else NoRoom False, t'))))
        (\<lambda>x n'. dispatch_log k lcd buffer l t x (n @ n'))"
      proof (rule traces_bind [OF read_bytes_log], rule traces_bind_pair [OF send_course [OF lay]], goal_cases)
        case (1 payload n1 sent t' n2)
        then have ans: "answer_log k (RPMSG_ECHO_ADDRESS k) (h_source ?h) payload t
            (if sent then Dispatched True else NoRoom False, t') n2"
          unfolding answer_log_def by (intro exI [of _ sent]) simp
        from 1 hb(2) have "length payload = unat (h_length ?h)"
          "n @ n1 @ n2 = byte_reads buffer hb @ byte_reads (buffer + 16) payload @ n2" by simp_all
        then have "dispatch_log k lcd buffer l t (if sent then Dispatched True else NoRoom False, t') (n @ n1 @ n2)"
          by (rule dispatch_log_echo [OF hb(1) echo(1) _ echo(2) ans])
        then show ?case by (intro traces_ok) (simp only: append_Nil2)
      qed
      have skip: "\<not> (valid_header k ?h l \<and> h_destination ?h = lcd_address port)" if "lcd = Some port" for port
        using apart echo that by auto
      show ?thesis
        unfolding if_P [OF conjI [OF echo]]
      proof (rule traces_bind_pair [OF core], goal_cases)
        case (1 o' t1 n')
        then have fin: "traces (ok (o', t1)) (\<lambda>x n''. dispatch_log k lcd buffer l t x (n @ n' @ n''))"
          by (intro traces_ok) simp
        show ?case
        proof (cases o')
          case (NoRoom b)
          with fin show ?thesis by simp
        next
          case (Dispatched b)
          with fin skip show ?thesis by (cases lcd) auto
        qed
      qed
    next
      case (lcd port)
      have rep: "traces (sense (lcd_reply port payload) (RReply payload)) (\<lambda>r n. n = [RReply payload r])" for payload
        by (simp add: traces_sense)
      have "traces (bind (read_bytes hw (buffer + 16) (unat (h_length ?h))) (\<lambda>payload.
          bind (sense (lcd_reply port payload) (RReply payload)) (\<lambda>response.
          bind (send k hw (lcd_address port) (h_source ?h) response t) (\<lambda>(sent', t2).
          ok (if sent' then Dispatched True else NoRoom False, t2)))))
        (\<lambda>x n'. dispatch_log k lcd buffer l t x (n @ n'))"
      proof (rule traces_bind [OF read_bytes_log], rule traces_bind [OF rep],
          rule traces_bind_pair [OF send_course [OF lay]], goal_cases)
        case (1 payload n1 response n2 sent t' n3)
        then have ans: "answer_log k (h_destination ?h) (h_source ?h) response t
            (if sent then Dispatched True else NoRoom False, t') n3"
          unfolding answer_log_def lcd(4) by (intro exI [of _ sent]) simp
        from 1 hb(2) have "length payload = unat (h_length ?h)"
          "n @ n1 @ n2 @ n3 = byte_reads buffer hb @ byte_reads (buffer + 16) payload @ RReply payload response # n3"
          by simp_all
        moreover have "map_option lcd_address lcd = Some (h_destination ?h)" using lcd(3,4) by simp
        ultimately have "dispatch_log k lcd buffer l t (if sent then Dispatched True else NoRoom False, t') (n @ n1 @ n2 @ n3)"
          by (intro dispatch_log_lcd [OF hb(1) lcd(1) _ _ lcd(2) ans])
        then show ?case by (intro traces_ok) (simp only: append_Nil2)
      qed
      note core = this
      have other: "\<not> (valid_header k ?h l \<and> h_destination ?h = RPMSG_ECHO_ADDRESS k)" using lcd(2) by simp
      show ?thesis
        unfolding if_not_P [OF other] bind_ok prod.case dispatched.case lcd(3) option.case
          if_P [OF conjI [OF lcd(1,4)]]
        using core unfolding lcd(3) .
    qed
  qed
qed

section \<open>A concrete peer\<close>

text \<open>Shared memory as a function from addresses to bytes, with a driver that is online.\<close>

definition byte_hw :: "(nat \<Rightarrow> u8) rpmsg_hw" where
  "byte_hw =
     \<lparr>rh_read8 = (\<lambda>a m. (m a, m)),
      rh_read16 = (\<lambda>a m. (from_le (map m [a..<a + 2]), m)),
      rh_read32 = (\<lambda>a m. (from_le (map m [a..<a + 4]), m)),
      rh_read64 = (\<lambda>a m. (from_le (map m [a..<a + 8]), m)),
      rh_write = (\<lambda>a bs m x. if a \<le> x \<and> x < a + length bs then bs ! (x - a) else m x),
      rh_clean = (\<lambda>a n m. m), rh_invalidate = (\<lambda>a n m. m),
      rh_vq_notify = (\<lambda>v m. (0, m)), rh_vq_kick_receive = (\<lambda>n m. (0, m)), rh_delay = (\<lambda>n m. m)\<rparr>"

section \<open>Properties\<close>

text \<open>C25: the transport stays inside its ownership. However Linux fills or changes the rings, the
  descriptors and the buffers, any number of turns of the RPMsg task completes without a panic,
  every byte it writes and every line range it cleans lies in one of the two used rings or
  inside one whole buffer slot of the pool (never in a descriptor table, an available ring or
  the resource table), and the used cursors keep following the available cursors.\<close>

theorem rpmsg_confined:
  assumes "rpmsg_layout_ok k" "\<And>port. lcd = Some port \<Longrightarrow> length (lcd_name port) \<le> 40"
  shows "\<exists>t m' new. rpmsg_run k hw lcd turns transport_new m = Some (Inr t, m') \<and>
    m_log m' = m_log m @ new \<and> list_all (device_event k) new \<and>
    rx_used t = rx_available t \<and> tx_used t = tx_available t"
proof -
  have "cursors_ok transport_new" by (simp add: cursors_ok_def transport_new_def)
  then have "does (device_event k) cursors_ok (rpmsg_run k hw lcd turns transport_new)"
    using assms by (intro does_rpmsg_run) auto
  from does_run [OF this, where m = m] show ?thesis
    by (auto simp: cursors_ok_def)
qed

theorem rpmsg_confined_witness:
  "\<exists>t m' new. rpmsg_run shipped_rpmsg byte_hw None 3 transport_new
       \<lparr>m_hw = (\<lambda>a. 0), m_log = []\<rparr> = Some (Inr t, m') \<and>
     m_log m' = [] @ new \<and> list_all (device_event shipped_rpmsg) new"
  using rpmsg_confined [OF shipped_rpmsg_ok, where lcd = None and hw = byte_hw and turns = 3
      and m = "\<lparr>m_hw = (\<lambda>a. 0), m_log = []\<rparr>"] by auto

text \<open>C28: an accepted descriptor names exactly one whole slot. \<open>descriptor_buffer\<close> accepts a descriptor
  exactly when it is neither chained nor indirect, has the right direction, its length is
  between the minimum and the buffer size, and its address is the base of a slot of the pool;
  the buffer then lies inside that slot.\<close>

theorem descriptor_buffer_exact:
  assumes "rpmsg_layout_ok k" "minimum \<le> RPMSG_BUFFER_BYTES k" "0 < minimum"
  shows "descriptor_buffer k d w minimum = Some a \<longleftrightarrow>
    d_flags d AND (VRING_DESC_F_NEXT k OR VRING_DESC_F_INDIRECT k) = 0 \<and>
    (d_flags d AND VRING_DESC_F_WRITE k \<noteq> 0) = w \<and>
    minimum \<le> unat (d_length d) \<and> unat (d_length d) \<le> RPMSG_BUFFER_BYTES k \<and>
    a = unat (d_address d) \<and> a \<in> slot_base k ` {..<slots k}"
proof
  assume some: "descriptor_buffer k d w minimum = Some a"
  then have "d_flags d AND (VRING_DESC_F_NEXT k OR VRING_DESC_F_INDIRECT k) = 0 \<and>
      (d_flags d AND VRING_DESC_F_WRITE k \<noteq> 0) = w"
    by (auto simp: descriptor_buffer_def Let_def split: if_splits)
  with descriptor_buffer_slot [OF assms(1) some assms(2,3)] show
    "d_flags d AND (VRING_DESC_F_NEXT k OR VRING_DESC_F_INDIRECT k) = 0 \<and>
    (d_flags d AND VRING_DESC_F_WRITE k \<noteq> 0) = w \<and>
    minimum \<le> unat (d_length d) \<and> unat (d_length d) \<le> RPMSG_BUFFER_BYTES k \<and>
    a = unat (d_address d) \<and> a \<in> slot_base k ` {..<slots k}" by auto
next
  assume ok: "d_flags d AND (VRING_DESC_F_NEXT k OR VRING_DESC_F_INDIRECT k) = 0 \<and>
    (d_flags d AND VRING_DESC_F_WRITE k \<noteq> 0) = w \<and>
    minimum \<le> unat (d_length d) \<and> unat (d_length d) \<le> RPMSG_BUFFER_BYTES k \<and>
    a = unat (d_address d) \<and> a \<in> slot_base k ` {..<slots k}"
  then obtain i where i: "a = slot_base k i" "i < slots k" by auto
  have B: "0 < RPMSG_BUFFER_BYTES k" "RPMSG_BUFFER_BYTES k < 2 ^ 16"
    "RPMSG_BUFFER_BASE k + RPMSG_BUFFER_SIZE k < 2 ^ 64"
    using assms(1) by (auto simp: rpmsg_layout_ok_def)
  have "(i + 1) * RPMSG_BUFFER_BYTES k \<le> slots k * RPMSG_BUFFER_BYTES k"
    using i(2) by (intro mult_right_mono) simp_all
  also have "\<dots> \<le> RPMSG_BUFFER_SIZE k" by (simp add: slots_def)
  finally have "a + unat (d_length d) \<le> RPMSG_BUFFER_BASE k + RPMSG_BUFFER_SIZE k"
    using ok i(1) by (simp add: slot_base_def)
  moreover have "unat (of_nat minimum :: u32) = minimum"
    "unat (of_nat (RPMSG_BUFFER_BYTES k) :: u32) = RPMSG_BUFFER_BYTES k"
    using assms(2) B by (simp_all add: unat_of_nat)
  moreover have "(a - RPMSG_BUFFER_BASE k) mod RPMSG_BUFFER_BYTES k = 0"
    using i(1) by (simp add: slot_base_def)
  ultimately show "descriptor_buffer k d w minimum = Some a"
    using ok i B by (auto simp: descriptor_buffer_def Let_def word_less_nat_alt slot_base_def)
qed

theorem descriptor_buffer_exact_witness:
  "descriptor_buffer shipped_rpmsg
     \<lparr>d_address = 0x8ff10200, d_length = 512, d_flags = 2, d_next = 0\<rparr> True 20 = Some 0x8ff10200 \<and>
   rpmsg_layout_ok shipped_rpmsg"
proof -
  have minimum: "(20 :: nat) \<le> RPMSG_BUFFER_BYTES shipped_rpmsg" "0 < (20 :: nat)"
    by (simp_all add: shipped_rpmsg_def)
  note w = descriptor_buffer_exact [OF shipped_rpmsg_ok minimum, where w = True
      and d = "\<lparr>d_address = 0x8ff10200, d_length = 512, d_flags = 2, d_next = 0\<rparr>"
      and a = "0x8ff10200"]
  have "(0x8ff10200 :: nat) \<in> slot_base shipped_rpmsg ` {..<slots shipped_rpmsg}"
    by (rule image_eqI [of _ _ 1]) (simp_all add: slot_base_def slots_def shipped_rpmsg_def)
  with w shipped_rpmsg_ok show ?thesis by (simp add: shipped_rpmsg_def)
qed

text \<open>A message is sent completely or not at all. \<open>send\<close> always returns; when it reports
  success it has stored exactly the encoded header and the payload into one whole slot, then
  the used entry with the descriptor id and the length, then the used index, in this order, and
  has advanced both cursors by one; otherwise it has stored nothing and changed nothing.\<close>

theorem rpmsg_send_exact:
  assumes "rpmsg_layout_ok k"
  shows "\<exists>r m' new. send k hw src dst payload t m = Some (Inr r, m') \<and>
    m_log m' = m_log m @ new \<and> send_spec k src dst payload t r (stores new)"
  using traces_run [OF leaves_send [OF assms, unfolded leaves_def]] by blast

theorem rpmsg_send_exact_witness:
  "\<exists>r m' new. send shipped_rpmsg byte_hw 0x400 7 [1, 2, 3] transport_new
       \<lparr>m_hw = (\<lambda>a. 0), m_log = []\<rparr> = Some (Inr r, m') \<and>
     send_spec shipped_rpmsg 0x400 7 [1, 2, 3] transport_new r (stores new)"
  using rpmsg_send_exact [OF shipped_rpmsg_ok] by blast

text \<open>C26: the echo service returns exactly what it was sent. For every behaviour of Linux the header is
  read from the buffer; a valid message for the echo address is answered to its sender with the
  very payload bytes that were read from the message buffer, and a valid message for the LCD
  service, when there is one, with what the service made of its payload. The answer is sent
  exactly when the receive ring, as read, offers a writable buffer that holds it, into that
  buffer; otherwise nothing is stored and the message stays queued. Any other message is dropped
  without a reply and without a further access.\<close>

theorem rpmsg_echo_exact:
  assumes "rpmsg_layout_ok k" "map_option lcd_address lcd \<noteq> Some (RPMSG_ECHO_ADDRESS k)"
  shows "\<exists>x m' new. dispatch k hw lcd buffer l t m = Some (Inr x, m') \<and>
    m_log m' = m_log m @ new \<and> dispatch_log k lcd buffer l t x new"
  using traces_run [OF dispatch_course [OF assms]] by blast

text \<open>Three bytes from address 7 in the first slot, and an offered buffer in the second.\<close>

definition echo_memory :: "nat \<Rightarrow> u8" where
  "echo_memory a = case_option 0 id (map_of
     [(0x8ff10000, 7), (0x8ff10005, 4), (0x8ff1000c, 3), (0x8ff10010, 1), (0x8ff10011, 2), (0x8ff10012, 3),
      (0x8ff03002, 1), (0x8ff02001, 2), (0x8ff02002, 0xf1), (0x8ff02003, 0x8f), (0x8ff02009, 2), (0x8ff0200c, 2)] a)"

definition memory_descriptor :: "(nat \<Rightarrow> u8) \<Rightarrow> nat \<Rightarrow> vring_descriptor" where
  "memory_descriptor mem a =
     \<lparr>d_address = from_le (map mem [a..<a + 8]), d_length = from_le (map mem [a + 8..<a + 8 + 4]),
      d_flags = from_le (map mem [a + 12..<a + 12 + 2]), d_next = from_le (map mem [a + 14..<a + 14 + 2])\<rparr>"

lemma byte_hw_access:
  "read_u8 byte_hw a \<lparr>m_hw = mem, m_log = log\<rparr> = Some (Inr (mem a), \<lparr>m_hw = mem, m_log = log @ [RRead a [mem a]]\<rparr>)"
  "read_u16 byte_hw a \<lparr>m_hw = mem, m_log = log\<rparr> = Some (Inr (from_le (map mem [a..<a + 2])),
     \<lparr>m_hw = mem, m_log = log @ [RRead a (to_le 2 (from_le (map mem [a..<a + 2]) :: u16))]\<rparr>)"
  "rp_invalidate byte_hw a n \<lparr>m_hw = mem, m_log = log\<rparr> = Some (Inr (), \<lparr>m_hw = mem, m_log = log @ [RInvalidate a n]\<rparr>)"
  unfolding read_u8_def read_u16_def rp_invalidate_def sense_def drive_def byte_hw_def by simp_all

lemma byte_hw_descriptor:
  "\<exists>log'. descriptor byte_hw ring d_id \<lparr>m_hw = mem, m_log = log\<rparr> =
     Some (Inr (memory_descriptor mem (ring + unat d_id * 16)), \<lparr>m_hw = mem, m_log = log'\<rparr>)"
  unfolding descriptor_def Let_def memory_descriptor_def read_u64_def read_u32_def read_u16_def
    sense_def byte_hw_def bind_def ok_def
  by (simp del: add_2_eq_Suc add_2_eq_Suc')

lemma byte_hw_read_bytes:
  "\<exists>log'. read_bytes byte_hw a n \<lparr>m_hw = mem, m_log = log\<rparr> =
     Some (Inr (map mem [a..<a + n]), \<lparr>m_hw = mem, m_log = log'\<rparr>)"
proof (induction n arbitrary: a log)
  case (Suc n)
  obtain log' where "read_bytes byte_hw (a + 1) n \<lparr>m_hw = mem, m_log = log @ [RRead a [mem a]]\<rparr> =
      Some (Inr (map mem [a + 1..<a + 1 + n]), \<lparr>m_hw = mem, m_log = log'\<rparr>)" using Suc by blast
  moreover have "[a..<a + Suc n] = a # [a + 1..<a + 1 + n]" by (simp add: upt_conv_Cons)
  ultimately show ?case by (simp add: bind_def byte_hw_access ok_def)
qed (simp add: ok_def)

lemma byte_hw_send:
  fixes d_id :: u16
  assumes "rpmsg_layout_ok k" "length payload \<le> RPMSG_PAYLOAD_BYTES k"
    "from_le (map mem [avail_index_address k (VRING0_BASE k)..<avail_index_address k (VRING0_BASE k) + 2]) \<noteq> rx_available t"
    "from_le (map mem [avail_entry_address k (VRING0_BASE k) (rx_available t)..<
        avail_entry_address k (VRING0_BASE k) (rx_available t) + 2]) = d_id" "unat d_id < RING_NUM k"
    "descriptor_buffer k (memory_descriptor mem (VRING0_BASE k + unat d_id * 16)) True
       (RPMSG_HEADER_BYTES k + length payload) = Some buffer"
  shows "\<exists>t' m'. send k byte_hw src dst payload t \<lparr>m_hw = mem, m_log = log\<rparr> = Some (Inr (True, t'), m')"
proof -
  have H: "RPMSG_HEADER_BYTES k = 16" using assms(1) by (simp add: rpmsg_layout_ok_def)
  let ?l = "log @ [RInvalidate (VRING0_BASE k) (RING_DRIVER_BYTES k)] @
      [RRead (avail_index_address k (VRING0_BASE k)) (to_le 2 (from_le (map mem
        [avail_index_address k (VRING0_BASE k)..<avail_index_address k (VRING0_BASE k) + 2]) :: u16))] @
      [RRead (avail_entry_address k (VRING0_BASE k) (rx_available t)) (to_le 2 d_id)]"
  obtain log' where d: "descriptor byte_hw (VRING0_BASE k) d_id \<lparr>m_hw = mem, m_log = ?l\<rparr> =
      Some (Inr (memory_descriptor mem (VRING0_BASE k + unat d_id * 16)), \<lparr>m_hw = mem, m_log = log'\<rparr>)"
    using byte_hw_descriptor by blast
  from traces_run [OF writes_message [OF H, unfolded writes_def], where m = "\<lparr>m_hw = mem, m_log = log'\<rparr>"]
  obtain m' where
    w: "(let header = \<lparr>h_source = src, h_destination = dst, h_reserved = 0,
            h_length = of_nat (length payload), h_flags = 0\<rparr>;
          message_size = RPMSG_HEADER_BYTES k + length payload
      in bind (write_bytes byte_hw buffer (encode_header header)) (\<lambda>_.
         bind (write_bytes byte_hw (buffer + RPMSG_HEADER_BYTES k) payload) (\<lambda>_.
         bind (rp_clean byte_hw buffer message_size) (\<lambda>_.
         bind (publish_used k byte_hw (VRING0_BASE k) (rx_used t) d_id (of_nat message_size)) (\<lambda>_.
         ok (True, t\<lparr>rx_available := rx_available t + 1, rx_used := rx_used t + 1\<rparr>))))))
      \<lparr>m_hw = mem, m_log = log'\<rparr> =
      Some (Inr (True, t\<lparr>rx_available := rx_available t + 1, rx_used := rx_used t + 1\<rparr>), m')"
    by blast
  have "\<not> RPMSG_PAYLOAD_BYTES k < length payload" "\<not> RING_NUM k \<le> unat d_id"
    "rx_available t \<noteq> from_le (map mem [avail_index_address k (VRING0_BASE k)..<avail_index_address k (VRING0_BASE k) + 2])"
    using assms by auto
  then show ?thesis
    unfolding send_def bind_def [of "rp_invalidate _ _ _"] bind_def [of "read_u16 _ _"] bind_def [of "descriptor _ _ _"]
    by (simp only: if_False byte_hw_access option.case prod.case sum.case assms(4,6) append_assoc d w) blast
qed

lemma byte_hw_echo:
  assumes "rpmsg_layout_ok k" "valid_header k (decode_header (map mem [b..<b + 16])) l"
    "h_destination (decode_header (map mem [b..<b + 16])) = RPMSG_ECHO_ADDRESS k"
    "\<And>log. \<exists>t' m'. send k byte_hw (RPMSG_ECHO_ADDRESS k) (h_source (decode_header (map mem [b..<b + 16])))
       (map mem [b + 16..<b + 16 + unat (h_length (decode_header (map mem [b..<b + 16])))]) t
       \<lparr>m_hw = mem, m_log = log\<rparr> = Some (Inr (True, t'), m')"
  shows "\<exists>t' m'. dispatch k byte_hw None b l t \<lparr>m_hw = mem, m_log = log\<rparr> = Some (Inr (Dispatched True, t'), m')"
proof -
  have H: "RPMSG_HEADER_BYTES k = 16" using assms(1) by (simp add: rpmsg_layout_ok_def)
  obtain l1 where 1: "read_bytes byte_hw b 16 \<lparr>m_hw = mem, m_log = log\<rparr> =
      Some (Inr (map mem [b..<b + 16]), \<lparr>m_hw = mem, m_log = l1\<rparr>)" using byte_hw_read_bytes by blast
  define h where "h = decode_header (map mem [b..<b + 16])"
  obtain l2 where 2: "read_bytes byte_hw (b + 16) (unat (h_length h)) \<lparr>m_hw = mem, m_log = l1\<rparr> =
      Some (Inr (map mem [b + 16..<b + 16 + unat (h_length h)]), \<lparr>m_hw = mem, m_log = l2\<rparr>)"
    using byte_hw_read_bytes by blast
  obtain t' m' where 3: "send k byte_hw (RPMSG_ECHO_ADDRESS k) (h_source h)
      (map mem [b + 16..<b + 16 + unat (h_length h)]) t \<lparr>m_hw = mem, m_log = l2\<rparr> = Some (Inr (True, t'), m')"
    using assms(4) unfolding h_def by blast
  note v = assms(2,3) [folded h_def, unfolded valid_header_def H]
  show ?thesis
    unfolding dispatch_def Let_def H
    using v by (simp add: bind_def 1 2 3 h_def [symmetric] ok_def)
qed

text \<open>The bench message is answered.\<close>

lemma echo_bench:
  "\<exists>t' m'. dispatch shipped_rpmsg byte_hw None 0x8ff10000 512 transport_new
     \<lparr>m_hw = echo_memory, m_log = []\<rparr> = Some (Inr (Dispatched True, t'), m')"
proof (rule byte_hw_echo [OF shipped_rpmsg_ok])
  have up: "[0..<4] = [0, 1, 2, 3 :: nat]" "[0..<2] = [0, 1 :: nat]" by (simp_all add: upt_rec)
  have hb: "map echo_memory [0x8ff10000..<0x8ff10000 + 16] =
      encode_header \<lparr>h_source = 7, h_destination = 0x400, h_reserved = 0, h_length = 3, h_flags = 0\<rparr>"
    by (simp add: upt_rec_numeral echo_memory_def encode_header_def to_le_def up)
  show "valid_header shipped_rpmsg (decode_header (map echo_memory [0x8ff10000..<0x8ff10000 + 16])) 512"
    "h_destination (decode_header (map echo_memory [0x8ff10000..<0x8ff10000 + 16])) = RPMSG_ECHO_ADDRESS shipped_rpmsg"
    unfolding hb decode_encode_header by (simp_all add: valid_header_def shipped_rpmsg_def)
  show "\<exists>t' m'. send shipped_rpmsg byte_hw (RPMSG_ECHO_ADDRESS shipped_rpmsg)
      (h_source (decode_header (map echo_memory [0x8ff10000..<0x8ff10000 + 16])))
      (map echo_memory [0x8ff10000 + 16..<0x8ff10000 + 16 +
         unat (h_length (decode_header (map echo_memory [0x8ff10000..<0x8ff10000 + 16])))]) transport_new
      \<lparr>m_hw = echo_memory, m_log = log\<rparr> = Some (Inr (True, t'), m')" for log
    unfolding hb decode_encode_header
  proof (rule byte_hw_send [OF shipped_rpmsg_ok, where d_id = "0" and buffer = "0x8ff10200"])
    show "descriptor_buffer shipped_rpmsg (memory_descriptor echo_memory (VRING0_BASE shipped_rpmsg + unat (0 :: u16) * 16)) True
        (RPMSG_HEADER_BYTES shipped_rpmsg + length (map echo_memory [0x8ff10000 + 16..<0x8ff10000 + 16 +
         unat (h_length \<lparr>h_source = 7, h_destination = 0x400, h_reserved = 0, h_length = 3, h_flags = 0\<rparr>)])) =
        Some 0x8ff10200"
      by (simp add: memory_descriptor_def shipped_rpmsg_def upt_rec_numeral echo_memory_def descriptor_buffer_def)
  qed (simp_all add: shipped_rpmsg_def upt_rec_numeral echo_memory_def transport_new_def
      avail_index_address_def avail_entry_address_def)
qed

theorem rpmsg_echo_exact_witness:
  "\<exists>x m' new. dispatch shipped_rpmsg byte_hw None 0x8ff10000 512 transport_new
       \<lparr>m_hw = echo_memory, m_log = []\<rparr> = Some (Inr x, m') \<and> fst x = Dispatched True \<and>
     dispatch_log shipped_rpmsg (None :: (nat \<Rightarrow> u8) lcd_port option) 0x8ff10000 512 transport_new x new"
proof -
  have "map_option lcd_address (None :: (nat \<Rightarrow> u8) lcd_port option) \<noteq> Some (RPMSG_ECHO_ADDRESS shipped_rpmsg)"
    by simp
  from rpmsg_echo_exact [OF shipped_rpmsg_ok this, where hw = byte_hw and buffer = "0x8ff10000" and l = "512"
      and t = transport_new and m = "\<lparr>m_hw = echo_memory, m_log = []\<rparr>"] echo_bench
  show ?thesis by auto
qed

text \<open>C27: no wakeup is lost. When a service turn changes a ring, or a notification of a ring was still
  pending before it, then after the turn that notification is pending or the mailbox accepted it
  in this turn. The one exception is a pending notification in a turn that attaches to a driver
  that was offline: attaching restarts both rings and drops the notifications of their previous
  use. A turn that finds the driver offline keeps what is pending.\<close>

theorem rpmsg_no_lost_wakeup:
  assumes "rpmsg_layout_ok k" "\<And>port. lcd = Some port \<Longrightarrow> length (lcd_name port) \<le> 40"
  shows "\<exists>t' m' new. rpmsg_service k hw lcd t m = Some (Inr t', m') \<and>
    m_log m' = m_log m @ new \<and> wakes_ok k t t' new"
  using traces_run [OF service_wakes [OF assms]] by blast

text \<open>A notification left pending for the second ring, on a link that is up.\<close>

theorem rpmsg_no_lost_wakeup_witness:
  "\<exists>t' m' new. rpmsg_service shipped_rpmsg byte_hw None (transport_new\<lparr>online := True, pending_notifications := 2\<rparr>)
       \<lparr>m_hw = (\<lambda>a. if a = 0x8ff0102c then 4 else 0), m_log = []\<rparr> = Some (Inr t', m') \<and>
     m_log m' = new \<and> (bit (pending_notifications t') 1 \<or> RNotify 1 0 \<in> set new)"
proof -
  let ?t = "transport_new\<lparr>online := True, pending_notifications := 2\<rparr>"
  obtain t' m' new where "rpmsg_service shipped_rpmsg byte_hw None ?t
      \<lparr>m_hw = (\<lambda>a. if a = 0x8ff0102c then 4 else 0), m_log = []\<rparr> = Some (Inr t', m')"
    "m_log m' = [] @ new" "wakes_ok shipped_rpmsg ?t t' new"
    using rpmsg_no_lost_wakeup [OF shipped_rpmsg_ok, of None byte_hw ?t
        "\<lparr>m_hw = (\<lambda>a. if a = 0x8ff0102c then 4 else 0), m_log = []\<rparr>"] by auto
  moreover have "bit (pending_notifications ?t) 1" by (simp add: bit_numeral_rec)
  ultimately show ?thesis by (auto simp: wakes_ok_def attaches_def)
qed

text \<open>The RPMsg header codec is a bijection between headers and 16-byte strings.\<close>

theorem rpmsg_header_roundtrip:
  "decode_header (encode_header h) = h \<and>
   encode_header ` UNIV = {bs. length bs = 16} \<and> (encode_header h = encode_header h' \<longleftrightarrow> h = h')"
  using header_wire.image_enc header_wire.enc_inject by (simp add: decode_encode_header)

end
