(* ===== verification/Pac.thy ===== *)
theory Pac
  imports Prelude
begin

text \<open>
  Register access of the \<open>sg2002-pac\<close> crate (firmware/sg2002-c906l/pac/src/lib.rs) and the
  vocabulary its four drivers share.

  A peripheral is an arbitrary state \<open>'h\<close> with a load and a store function on the byte offsets
  of its aperture: nothing is assumed about what a load returns or what a store does, so a
  theorem about a driver holds for every behaviour of the device. A driver object is the first
  half of the machine state; its methods keep it on every exit, \<open>Err\<close> included, as a Rust
  \<open>&mut self\<close> method does. The log records the register accesses in order: \<open>Load\<close> and
  \<open>Store\<close> are the fenced accesses of \<open>ordered_read\<close> and \<open>ordered_write\<close>, \<open>Burst\<close> is
  a store without fences and \<open>Fence\<close> an explicit \<open>io_fence\<close>.

  \<open>course p d Q\<close> says that from driver state \<open>d\<close> the method \<open>p\<close> returns whatever the device
  does, and that its result, the driver state it leaves and the accesses it makes satisfy \<open>Q\<close>.
  \<open>poll\<close> is \<open>for _ in 0..n\<close> with an early exit.
\<close>

section \<open>Registers\<close>

record 'h pac_hw =
  ph_load :: "nat \<Rightarrow> 'h \<Rightarrow> u32 \<times> 'h"
  ph_store :: "nat \<Rightarrow> u32 \<Rightarrow> 'h \<Rightarrow> 'h"

datatype 'r pac_event = Load 'r u32 | Store 'r u32 | Burst 'r u32 | Fence

type_synonym ('d, 'h, 'r) pac = "('d \<times> 'h, 'r pac_event) machine"
type_synonym ('d, 'h, 'r, 'x, 'a) method_prog = "(('d, 'h, 'r) pac, 'x, 'a) prog"

definition io_fence :: "('d, 'h, 'r, 'x, unit) method_prog" where
  "io_fence = drive (\<lambda>s. s) Fence"

definition ordered_read :: "('r \<Rightarrow> nat) \<Rightarrow> 'h pac_hw \<Rightarrow> 'r \<Rightarrow> ('d, 'h, 'r, 'x, u32) method_prog" where
  "ordered_read offset hw r =
     sense (\<lambda>(d, h). case ph_load hw (offset r) h of (v, h') \<Rightarrow> (v, (d, h'))) (Load r)"

definition ordered_write ::
    "('r \<Rightarrow> nat) \<Rightarrow> 'h pac_hw \<Rightarrow> 'r \<Rightarrow> u32 \<Rightarrow> ('d, 'h, 'r, 'x, unit) method_prog" where
  "ordered_write offset hw r v = drive (\<lambda>(d, h). (d, ph_store hw (offset r) v h)) (Store r v)"

text \<open>\<open>field!(..).write\<close> outside \<open>ordered_write\<close>.\<close>

definition plain_write ::
    "('r \<Rightarrow> nat) \<Rightarrow> 'h pac_hw \<Rightarrow> 'r \<Rightarrow> u32 \<Rightarrow> ('d, 'h, 'r, 'x, unit) method_prog" where
  "plain_write offset hw r v = drive (\<lambda>(d, h). (d, ph_store hw (offset r) v h)) (Burst r v)"

text \<open>The fields of \<open>self\<close>.\<close>

definition self :: "(('d \<times> 'h, 'ev) machine, 'x, 'd) prog" where
  "self = (\<lambda>m. Some (Inr (fst (m_hw m)), m))"

definition set_self :: "'d \<Rightarrow> (('d \<times> 'h, 'ev) machine, 'x, unit) prog" where
  "set_self d = (\<lambda>m. Some (Inr (), m\<lparr>m_hw := (d, snd (m_hw m))\<rparr>))"

primrec poll :: "nat \<Rightarrow> ('e, 'x, 'a option) prog \<Rightarrow> ('e, 'x, 'a option) prog" where
  "poll 0 p = ok None"
| "poll (Suc n) p = bind p (\<lambda>r. case r of Some a \<Rightarrow> ok (Some a) | None \<Rightarrow> poll n p)"

section \<open>Courses\<close>

definition course ::
    "(('d \<times> 'h, 'ev) machine, 'x, 'a) prog \<Rightarrow> 'd \<Rightarrow> ('x + 'a \<Rightarrow> 'd \<Rightarrow> 'ev list \<Rightarrow> bool) \<Rightarrow> bool" where
  "course p d Q \<longleftrightarrow> (\<forall>h log. \<exists>r d' h' new.
     p \<lparr>m_hw = (d, h), m_log = log\<rparr> = Some (r, \<lparr>m_hw = (d', h'), m_log = log @ new\<rparr>) \<and> Q r d' new)"

lemma course_run:
  assumes "course p (fst (m_hw m)) Q"
  shows "\<exists>r m' new. p m = Some (r, m') \<and> m_log m' = m_log m @ new \<and> Q r (fst (m_hw m')) new"
proof -
  obtain d h log where m: "m = \<lparr>m_hw = (d, h), m_log = log\<rparr>"
    by (cases m) (metis surj_pair old.unit.exhaust)
  with assms obtain r d' h' new where
    "p m = Some (r, \<lparr>m_hw = (d', h'), m_log = log @ new\<rparr>)" "Q r d' new"
    unfolding course_def by auto metis
  with m show ?thesis by auto
qed

lemma course_runE:
  assumes "course p (fst (m_hw m)) Q"
  obtains r m' new where "p m = Some (r, m')" "m_log m' = m_log m @ new" "Q r (fst (m_hw m')) new"
  using course_run [OF assms] by blast

lemma course_bind:
  assumes "course p d P"
    "\<And>a d' n. P (Inr a) d' n \<Longrightarrow> course (f a) d' (\<lambda>r d'' n'. Q r d'' (n @ n'))"
    "\<And>x d' n. P (Inl x) d' n \<Longrightarrow> Q (Inl x) d' n"
  shows "course (bind p f) d Q"
  unfolding course_def
proof (intro allI)
  fix h log
  obtain r d1 h1 n where 1: "p \<lparr>m_hw = (d, h), m_log = log\<rparr> = Some (r, \<lparr>m_hw = (d1, h1), m_log = log @ n\<rparr>)"
    "P r d1 n"
    using assms(1) unfolding course_def by metis
  show "\<exists>r d' h' new. bind p f \<lparr>m_hw = (d, h), m_log = log\<rparr> =
      Some (r, \<lparr>m_hw = (d', h'), m_log = log @ new\<rparr>) \<and> Q r d' new"
  proof (cases r)
    case (Inl x)
    with 1 assms(3) [of x d1 n] show ?thesis by (auto simp: bind_def)
  next
    case (Inr a)
    with 1 have "course (f a) d1 (\<lambda>r d'' n'. Q r d'' (n @ n'))" by (auto intro: assms(2))
    then obtain r2 d2 h2 n2 where
      "f a \<lparr>m_hw = (d1, h1), m_log = log @ n\<rparr> = Some (r2, \<lparr>m_hw = (d2, h2), m_log = (log @ n) @ n2\<rparr>)"
      "Q r2 d2 (n @ n2)"
      unfolding course_def by metis
    with 1(1) Inr show ?thesis by (auto simp: bind_def)
  qed
qed

lemma course_ok [simp]: "course (ok a) d Q \<longleftrightarrow> Q (Inr a) d []"
  by (auto simp: course_def ok_def)

lemma course_fail [simp]: "course (fail x) d Q \<longleftrightarrow> Q (Inl x) d []"
  by (auto simp: course_def fail_def)

lemma course_give [simp]: "course (give r) d Q \<longleftrightarrow> Q r d []"
  by (auto simp: course_def give_def)

lemma course_attempt: "course p d (\<lambda>r. Q (Inr r)) \<Longrightarrow> course (attempt p) d Q"
  unfolding course_def attempt_def by (fastforce split: option.split)

lemma course_mono: "course p d P \<Longrightarrow> (\<And>r d' n. P r d' n \<Longrightarrow> Q r d' n) \<Longrightarrow> course p d Q"
  unfolding course_def by metis

lemma course_conj: "course p d P \<Longrightarrow> course p d Q \<Longrightarrow> course p d (\<lambda>r d' n. P r d' n \<and> Q r d' n)"
  unfolding course_def
  by (metis (no_types, lifting) Pair_inject machine.iffs option.inject same_append_eq)

lemma course_read: "(\<And>v. Q (Inr v) d [Load r v]) \<Longrightarrow> course (ordered_read off hw r) d Q"
  by (auto simp: course_def ordered_read_def sense_def split: prod.split)

lemma course_write: "Q (Inr ()) d [Store r v] \<Longrightarrow> course (ordered_write off hw r v) d Q"
  by (auto simp: course_def ordered_write_def drive_def)

lemma course_plain: "Q (Inr ()) d [Burst r v] \<Longrightarrow> course (plain_write off hw r v) d Q"
  by (auto simp: course_def plain_write_def drive_def)

lemma course_fence: "Q (Inr ()) d [Fence] \<Longrightarrow> course io_fence d Q"
  by (auto simp: course_def io_fence_def drive_def)

lemma course_bind_attempt:
  assumes "course p d P" "\<And>r d' n. P r d' n \<Longrightarrow> course (f r) d' (\<lambda>x d'' n'. Q x d'' (n @ n'))"
  shows "course (bind (attempt p) f) d Q"
proof (rule course_bind [where P = "\<lambda>x d' n. \<exists>r. x = Inr r \<and> P r d' n"])
  show "course (attempt p) d (\<lambda>x d' n. \<exists>r. x = Inr r \<and> P r d' n)"
    using assms(1) by (intro course_attempt) simp
qed (use assms(2) in auto)

lemma course_bind_read:
  "(\<And>v. course (f v) d (\<lambda>x d' n. Q x d' (Load r v # n))) \<Longrightarrow> course (bind (ordered_read off hw r) f) d Q"
  by (rule course_bind [OF course_read [where Q = "\<lambda>x d' n. d' = d \<and> (\<exists>v. x = Inr v \<and> n = [Load r v])"]]) auto

lemma course_bind_write:
  "course (f ()) d (\<lambda>x d' n. Q x d' (Store r v # n)) \<Longrightarrow> course (bind (ordered_write off hw r v) f) d Q"
  by (rule course_bind [OF course_write [where Q = "\<lambda>x d' n. d' = d \<and> x = Inr () \<and> n = [Store r v]"]]) auto

lemma course_bind_plain:
  "course (f ()) d (\<lambda>x d' n. Q x d' (Burst r v # n)) \<Longrightarrow> course (bind (plain_write off hw r v) f) d Q"
  by (rule course_bind [OF course_plain [where Q = "\<lambda>x d' n. d' = d \<and> x = Inr () \<and> n = [Burst r v]"]]) auto

lemma course_bind_fence:
  "course (f ()) d (\<lambda>x d' n. Q x d' (Fence # n)) \<Longrightarrow> course (bind io_fence f) d Q"
  by (rule course_bind [OF course_fence [where Q = "\<lambda>x d' n. d' = d \<and> x = Inr () \<and> n = [Fence]"]]) auto

lemma course_bind_self: "course (f d) d Q \<Longrightarrow> course (bind self f) d Q"
  by (simp add: course_def bind_def self_def)

lemma course_set_self [simp]: "course (set_self d') d Q \<longleftrightarrow> Q (Inr ()) d' []"
  by (simp add: course_def set_self_def)

lemma course_bind_set_self: "course (f ()) d' Q \<Longrightarrow> course (bind (set_self d') f) d Q"
  by (simp add: course_def bind_def set_self_def)

lemma course_if: "(b \<Longrightarrow> course p d Q) \<Longrightarrow> (\<not> b \<Longrightarrow> course q d Q) \<Longrightarrow> course (if b then p else q) d Q"
  by simp

lemmas course_steps = course_bind_read course_bind_write course_bind_plain course_bind_fence
  course_bind_self course_bind_set_self course_if

section \<open>Bounded polling\<close>

text \<open>\<open>polled Q n r log\<close>: at most \<open>n\<close> iterations; all but the last found nothing.\<close>

primrec polled :: "('x + 'a option \<Rightarrow> 'ev list \<Rightarrow> bool) \<Rightarrow> nat \<Rightarrow> 'x + 'a option \<Rightarrow> 'ev list \<Rightarrow> bool" where
  "polled Q 0 r log \<longleftrightarrow> r = Inr None \<and> log = []"
| "polled Q (Suc n) r log \<longleftrightarrow>
     (r \<noteq> Inr None \<and> Q r log) \<or> (\<exists>l1 l2. log = l1 @ l2 \<and> Q (Inr None) l1 \<and> polled Q n r l2)"

lemma course_poll:
  assumes "course p d (\<lambda>r d' n. d' = d \<and> P r n)"
  shows "course (poll k p) d (\<lambda>r d' n. d' = d \<and> polled P k r n)"
proof (induction k)
  case (Suc k)
  show ?case
    unfolding poll.simps
  proof (rule course_bind [OF assms], goal_cases)
    case (1 a d' n)
    then show ?case
      by (cases a) (auto intro: course_mono [OF Suc])
  qed auto
qed simp

text \<open>The polls of one status register: \<open>n\<close> samples \<open>vs\<close> none of which satisfies \<open>hit\<close>.\<close>

definition misses :: "'r \<Rightarrow> (u32 \<Rightarrow> bool) \<Rightarrow> nat \<Rightarrow> 'r pac_event list \<Rightarrow> bool" where
  "misses r hit n log \<longleftrightarrow> (\<exists>vs. length vs = n \<and> (\<forall>v\<in>set vs. \<not> hit v) \<and> log = map (Load r) vs)"

lemma misses_0 [simp]: "misses r hit 0 log \<longleftrightarrow> log = []"
  by (auto simp: misses_def)

lemma misses_Cons: "\<not> hit v \<Longrightarrow> misses r hit n log \<Longrightarrow> misses r hit (Suc n) (Load r v # log)"
  unfolding misses_def by (metis (no_types, lifting) length_Cons list.simps(9) set_ConsD)

lemma misses_loads: "misses r hit n log \<Longrightarrow> length log = n \<and> (\<forall>e\<in>set log. \<exists>v. e = Load r v)"
  by (auto simp: misses_def)

text \<open>Polls that sample one register and act on the first hit.\<close>

lemma polled_misses:
  assumes "polled P k r log"
    "\<And>l. P (Inr None) l \<Longrightarrow> \<exists>v. l = [Load s v] \<and> \<not> hit v"
  shows "(r = Inr None \<and> misses s hit k log) \<or>
    (r \<noteq> Inr None \<and> (\<exists>n < k. \<exists>l1 l2. log = l1 @ l2 \<and> misses s hit n l1 \<and> P r l2))"
  using assms(1)
proof (induction k arbitrary: log)
  case (Suc k)
  show ?case
  proof (cases "r \<noteq> Inr None \<and> P r log")
    case True
    then show ?thesis
      by (intro disjI2 conjI exI [of _ "0 :: nat"] exI [of _ "[]"] exI [of _ log]) auto
  next
    case False
    with Suc.prems obtain l1 l2 where l: "log = l1 @ l2" "P (Inr None) l1" "polled P k r l2" by auto
    from assms(2) [OF l(2)] obtain v where v: "l1 = [Load s v]" "\<not> hit v" by auto
    from Suc.IH [OF l(3)] show ?thesis
    proof
      assume "r = Inr None \<and> misses s hit k l2"
      with l(1) v show ?thesis by (auto intro: misses_Cons)
    next
      assume "r \<noteq> Inr None \<and> (\<exists>n < k. \<exists>l1 l2'. l2 = l1 @ l2' \<and> misses s hit n l1 \<and> P r l2')"
      then obtain n m1 m2 where "r \<noteq> Inr None" "n < k" "l2 = m1 @ m2" "misses s hit n m1" "P r m2" by blast
      with l(1) v show ?thesis
        by (intro disjI2 conjI exI [of _ "Suc n"] exI [of _ "Load s v # m1"] exI [of _ m2])
          (auto intro: misses_Cons)
    qed
  qed
qed simp

section \<open>What a log says\<close>

text \<open>The values written to and read from a register, in order, and the number of reads of some registers.\<close>

definition stores_to :: "'r \<Rightarrow> 'r pac_event list \<Rightarrow> u32 list" where
  "stores_to q log = concat (map (\<lambda>e. case e of Store r v \<Rightarrow> if r = q then [v] else []
     | Burst r v \<Rightarrow> if r = q then [v] else [] | _ \<Rightarrow> []) log)"

definition loads_from :: "'r \<Rightarrow> 'r pac_event list \<Rightarrow> u32 list" where
  "loads_from q log = concat (map (\<lambda>e. case e of Load r v \<Rightarrow> if r = q then [v] else [] | _ \<Rightarrow> []) log)"

definition samples :: "'r set \<Rightarrow> 'r pac_event list \<Rightarrow> nat" where
  "samples R log = length (filter (\<lambda>e. case e of Load r v \<Rightarrow> r \<in> R | _ \<Rightarrow> False) log)"

lemma log_Nil [simp]: "stores_to q [] = []" "loads_from q [] = []" "samples R [] = 0"
  by (simp_all add: stores_to_def loads_from_def samples_def)

lemma log_Cons [simp]:
  "stores_to q (e # log) = (case e of Store r v \<Rightarrow> if r = q then [v] else []
     | Burst r v \<Rightarrow> if r = q then [v] else [] | _ \<Rightarrow> []) @ stores_to q log"
  "loads_from q (e # log) = (case e of Load r v \<Rightarrow> if r = q then [v] else [] | _ \<Rightarrow> []) @ loads_from q log"
  "samples R (e # log) = (case e of Load r v \<Rightarrow> if r \<in> R then 1 else 0 | _ \<Rightarrow> 0) + samples R log"
  by (auto simp: stores_to_def loads_from_def samples_def split: pac_event.split)

lemma log_append [simp]:
  "stores_to q (l @ l') = stores_to q l @ stores_to q l'"
  "loads_from q (l @ l') = loads_from q l @ loads_from q l'"
  "samples R (l @ l') = samples R l + samples R l'"
  by (simp_all add: stores_to_def loads_from_def samples_def)

section \<open>Plain registers\<close>

text \<open>An aperture whose registers read back what was stored last.\<close>

definition latch_hw :: "(nat \<Rightarrow> u32) pac_hw" where
  "latch_hw = \<lparr>ph_load = (\<lambda>a h. (h a, h)), ph_store = (\<lambda>a v h. h(a := v))\<rparr>"

end
