(* ===== verification/Shim.thy ===== *)
theory Shim
  imports Control Pac
begin

text \<open>
  The C shim between the Rust firmware and FreeRTOS,
  \<open>pkgs/sg2002/c906l-firmware/rtos-shim.c\<close>: the hardware spinlock that the C906L shares with
  Linux, the mailbox interrupt handler, the sender of responses and of virtqueue notifications,
  the timer interrupt glue and the start of the platform.

  The static variables of the file and the interrupt enable bit of \<open>mstatus\<close> are the record
  \<open>shim\<close>. FreeRTOS, the vendor interrupt controller and the mailbox registers are arbitrary
  functions (\<open>rtos\<close>). Wherever interrupts are enabled the static variables can change under
  the running task: \<open>fr_preempt\<close> is what the interrupts that are taken do, and a blocking
  FreeRTOS call acts on the static variables as well. Between \<open>c906l_local_irq_save\<close> and
  \<open>c906l_local_irq_restore\<close> the code is alone on its core, and only Linux interferes, through
  the registers.

  Shown: no mailbox register or slot is touched outside the spinlock, whatever happens; with a
  spinlock that behaves as the comment in the source says, Linux is never inside at the same
  time; what the interrupt handler takes from the mailbox is queued or counted; a response is
  posted exactly when success is returned.
\<close>

section \<open>Constants of the generated header\<close>

record mailbox_contract =
  MAILBOX_HWSPIN_C906L_TOKEN_SHIFT :: nat
  MAILBOX_HWSPIN_TASK_ACQUIRE_ATTEMPTS :: nat
  MAILBOX_HWSPIN_IRQ_ACQUIRE_ATTEMPTS :: nat
  MAILBOX_HWSPIN_IRQ_CONSECUTIVE_DEFERRAL_LIMIT :: u32
  MAILBOX_SLOT_COUNT :: nat
  MAILBOX_PROCESSOR_COUNT :: nat
  MAILBOX_C906L_IRQ :: nat
  LINUX_CPU_ID :: nat
  RTOS_CPU_ID :: nat
  CHANNEL_CONTROL :: nat
  CHANNEL_VQ_KICK :: nat
  CHANNEL_VQ_NOTIFY :: nat
  TIMER_IRQS :: "(u32 \<times> u32) list" \<comment> \<open>\<open>TIMER<n>_IRQ\<close> of the channels with \<open>HAVE_TIMER<n>\<close>\<close>

text \<open>What \<open>lib.nix\<close> enforces before it emits the header: the channels are unique and below the slot
  count of eight, and the C906L tokens are the high byte (also a static assertion of the shim).\<close>

definition mailbox_ok :: "mailbox_contract \<Rightarrow> bool" where
  "mailbox_ok k \<longleftrightarrow> MAILBOX_HWSPIN_C906L_TOKEN_SHIFT k = 8 \<and>
     distinct [CHANNEL_CONTROL k, CHANNEL_VQ_KICK k, CHANNEL_VQ_NOTIFY k] \<and>
     list_all (\<lambda>ch. ch < 8) [CHANNEL_CONTROL k, CHANNEL_VQ_KICK k, CHANNEL_VQ_NOTIFY k]"

text \<open>The shipped contract with Timer4.\<close>

definition timer_mailbox :: mailbox_contract where
  "timer_mailbox =
     \<lparr>MAILBOX_HWSPIN_C906L_TOKEN_SHIFT = 8, MAILBOX_HWSPIN_TASK_ACQUIRE_ATTEMPTS = 1024,
      MAILBOX_HWSPIN_IRQ_ACQUIRE_ATTEMPTS = 64, MAILBOX_HWSPIN_IRQ_CONSECUTIVE_DEFERRAL_LIMIT = 16,
      MAILBOX_SLOT_COUNT = 8, MAILBOX_PROCESSOR_COUNT = 4, MAILBOX_C906L_IRQ = 61,
      LINUX_CPU_ID = 1, RTOS_CPU_ID = 2, CHANNEL_CONTROL = 0, CHANNEL_VQ_KICK = 1,
      CHANNEL_VQ_NOTIFY = 2, TIMER_IRQS = [(4, 55)]\<rparr>"

lemma timer_mailbox_ok: "mailbox_ok timer_mailbox"
  by (simp add: mailbox_ok_def timer_mailbox_def)

section \<open>State and environment\<close>

record shim =
  mie :: bool \<comment> \<open>\<open>mstatus.MIE\<close>\<close>
  request_drops :: u32
  vq_kick_drops :: u32
  mailbox_lock_failures :: u32
  mailbox_irq_lock_deferrals :: u32
  mailbox_irq_lock_streak :: u32
  unexpected_mailbox_events :: u32
  mailbox_lock_counter :: u8

datatype queue = Requests | Vq_Kicks

datatype rust_task = Control_Task | Rpmsg_Task | Lcd_Task

text \<open>\<open>cpu_mbox_int_clr\<close>, \<open>cpu_mbox_int_int\<close> and \<open>cpu_mbox_en\<close> of a processor, and \<open>mbox_set\<close>.\<close>

datatype mbox_register = Int_Clr nat | Int_Int nat | En nat | Mbox_Set

datatype irq_handler = Mailbox_Isr | Timer_Isr u32

datatype shim_event =
    Mie_Clear bool | Mie_Set
  | Spin_Load u16 | Spin_Store u16
  | Mbox_Load mbox_register u8 | Mbox_Store mbox_register u8
  | Slot_Load nat u64 | Slot_Store nat u64
  | Shim_Fence
  | Queue_Create queue bool | Queue_Send queue u64 bool | Queue_Receive queue "u64 option"
  | Yield bool | Irq_Disable nat | Irq_Request nat irq_handler int
  | Task_Create rust_task nat nat bool | Scheduler bool
  | Rtos_Ticks u32 | Cache_Clean nat nat | Cache_Invalidate nat nat | Rtos_Delay u32

record 'h rtos =
  fr_preempt :: "shim \<times> 'h \<Rightarrow> shim \<times> 'h"
  fr_spin_load :: "'h \<Rightarrow> u16 \<times> 'h"
  fr_spin_store :: "u16 \<Rightarrow> 'h \<Rightarrow> 'h"
  fr_mbox_load :: "mbox_register \<Rightarrow> 'h \<Rightarrow> u8 \<times> 'h"
  fr_mbox_store :: "mbox_register \<Rightarrow> u8 \<Rightarrow> 'h \<Rightarrow> 'h"
  fr_slot_load :: "nat \<Rightarrow> 'h \<Rightarrow> u64 \<times> 'h"
  fr_slot_store :: "nat \<Rightarrow> u64 \<Rightarrow> 'h \<Rightarrow> 'h"
  fr_queue_create :: "queue \<Rightarrow> nat \<Rightarrow> 'h \<Rightarrow> bool \<times> 'h"
  fr_queue_send :: "queue \<Rightarrow> u64 \<Rightarrow> 'h \<Rightarrow> (bool \<times> bool) \<times> 'h" \<comment> \<open>\<open>pdPASS\<close>, task woken\<close>
  fr_yield :: "bool \<Rightarrow> 'h \<Rightarrow> 'h"
  fr_disable_irq :: "nat \<Rightarrow> 'h \<Rightarrow> 'h"
  fr_queue_receive :: "queue \<Rightarrow> u32 \<Rightarrow> shim \<times> 'h \<Rightarrow> u64 option \<times> (shim \<times> 'h)"
  fr_request_irq :: "nat \<Rightarrow> irq_handler \<Rightarrow> shim \<times> 'h \<Rightarrow> int \<times> (shim \<times> 'h)"
  fr_task_create :: "rust_task \<Rightarrow> nat \<Rightarrow> nat \<Rightarrow> shim \<times> 'h \<Rightarrow> bool \<times> (shim \<times> 'h)"
  fr_start_scheduler :: "shim \<times> 'h \<Rightarrow> bool \<times> (shim \<times> 'h)" \<comment> \<open>it runs and never returns\<close>
  fr_ticks :: "shim \<times> 'h \<Rightarrow> u32 \<times> (shim \<times> 'h)"
  fr_clean :: "nat \<Rightarrow> nat \<Rightarrow> shim \<times> 'h \<Rightarrow> shim \<times> 'h"
  fr_invalidate :: "nat \<Rightarrow> nat \<Rightarrow> shim \<times> 'h \<Rightarrow> shim \<times> 'h"
  fr_delay :: "u32 \<Rightarrow> shim \<times> 'h \<Rightarrow> shim \<times> 'h"

type_synonym 'h shim_machine = "(shim \<times> 'h, shim_event) machine"
type_synonym ('h, 'a) shim_prog = "('h shim_machine, unit, 'a) prog"

definition hw_load :: "('h \<Rightarrow> 'v \<times> 'h) \<Rightarrow> ('v \<Rightarrow> shim_event) \<Rightarrow> ('h, 'v) shim_prog" where
  "hw_load f = sense (\<lambda>(d, h). case f h of (v, h') \<Rightarrow> (v, (d, h')))"

definition hw_store :: "('h \<Rightarrow> 'h) \<Rightarrow> shim_event \<Rightarrow> ('h, unit) shim_prog" where
  "hw_store f = drive (\<lambda>(d, h). (d, f h))"

definition update :: "(shim \<Rightarrow> shim) \<Rightarrow> ('h, unit) shim_prog" where
  "update f = bind self (\<lambda>d. set_self (f d))"

definition shim_fence :: "('h, unit) shim_prog" where
  "shim_fence = hw_store (\<lambda>h. h) Shim_Fence"

text \<open>The read-modify-write assignments \<open>reg &= mask\<close> and \<open>reg |= bits\<close>.\<close>

definition and_assign :: "'h rtos \<Rightarrow> mbox_register \<Rightarrow> u8 \<Rightarrow> ('h, unit) shim_prog" where
  "and_assign env reg bits = bind (hw_load (fr_mbox_load env reg) (Mbox_Load reg)) (\<lambda>v.
     hw_store (fr_mbox_store env reg (v AND bits)) (Mbox_Store reg (v AND bits)))"

definition or_assign :: "'h rtos \<Rightarrow> mbox_register \<Rightarrow> u8 \<Rightarrow> ('h, unit) shim_prog" where
  "or_assign env reg bits = bind (hw_load (fr_mbox_load env reg) (Mbox_Load reg)) (\<lambda>v.
     hw_store (fr_mbox_store env reg (v OR bits)) (Mbox_Store reg (v OR bits)))"

definition clear_interrupts :: "'h rtos \<Rightarrow> nat \<Rightarrow> u8 \<Rightarrow> ('h, unit) shim_prog" where
  "clear_interrupts env cpu bits =
     hw_store (fr_mbox_store env (Int_Clr cpu) bits) (Mbox_Store (Int_Clr cpu) bits)"

section \<open>The cross-core lock\<close>

definition c906l_local_irq_save :: "'h rtos \<Rightarrow> ('h, bool) shim_prog" where
  "c906l_local_irq_save env = sense (\<lambda>(d, h).
     if mie d then (case fr_preempt env (d, h) of (d', h') \<Rightarrow> (True, (d'\<lparr>mie := False\<rparr>, h')))
     else (False, (d, h))) Mie_Clear"

definition c906l_local_irq_restore :: "'h rtos \<Rightarrow> bool \<Rightarrow> ('h, unit) shim_prog" where
  "c906l_local_irq_restore env restore_irqs =
     (if restore_irqs
      then drive (\<lambda>(d, h). case fr_preempt env (d\<lparr>mie := True\<rparr>, h) of (d', h') \<Rightarrow>
        (d'\<lparr>mie := True\<rparr>, h')) Mie_Set
      else ok ())"

record mailbox_lock_guard =
  token :: u16
  restore_irqs :: bool

definition mailbox_lock_next_token :: "mailbox_contract \<Rightarrow> ('h, u16) shim_prog" where
  "mailbox_lock_next_token k =
     bind (update (\<lambda>d. let n = mailbox_lock_counter d + 1
       in d\<lparr>mailbox_lock_counter := if n = 0 then 1 else n\<rparr>)) (\<lambda>_.
     bind self (\<lambda>d. ok (push_bit (MAILBOX_HWSPIN_C906L_TOKEN_SHIFT k) (ucast (mailbox_lock_counter d)))))"

definition lock_attempt :: "'h rtos \<Rightarrow> u16 \<Rightarrow> ('h, unit option) shim_prog" where
  "lock_attempt env t =
     bind (hw_store (fr_spin_store env t) (Spin_Store t)) (\<lambda>_.
     bind shim_fence (\<lambda>_.
     bind (hw_load (fr_spin_load env) Spin_Load) (\<lambda>v.
     if v = t then bind shim_fence (\<lambda>_. ok (Some ())) else ok None)))"

definition lock_failed :: "shim \<Rightarrow> shim" where
  "lock_failed d = d\<lparr>mailbox_lock_failures := mailbox_lock_failures d + 1\<rparr>"

text \<open>\<open>None\<close> is the result \<open>MAILBOX_LOCK_ERROR\<close>.\<close>

definition mailbox_lock_acquire ::
    "mailbox_contract \<Rightarrow> 'h rtos \<Rightarrow> nat \<Rightarrow> bool \<Rightarrow> ('h, mailbox_lock_guard option) shim_prog" where
  "mailbox_lock_acquire k env attempts terminal_failure =
     bind (c906l_local_irq_save env) (\<lambda>restore.
     bind (mailbox_lock_next_token k) (\<lambda>t.
     bind (poll attempts (lock_attempt env t)) (\<lambda>acquired.
     case acquired of
       Some _ \<Rightarrow> ok (Some \<lparr>token = t, restore_irqs = restore\<rparr>)
     | None \<Rightarrow>
         bind (if terminal_failure then update lock_failed else ok ()) (\<lambda>_.
         bind (c906l_local_irq_restore env restore) (\<lambda>_. ok None)))))"

text \<open>\<open>True\<close> is the result 0, \<open>False\<close> is \<open>MAILBOX_LOCK_ERROR\<close>.\<close>

definition mailbox_lock_release :: "'h rtos \<Rightarrow> mailbox_lock_guard \<Rightarrow> ('h, bool) shim_prog" where
  "mailbox_lock_release env guard =
     bind shim_fence (\<lambda>_.
     bind (hw_load (fr_spin_load env) Spin_Load) (\<lambda>v.
     bind (if v = token guard
           then bind (hw_store (fr_spin_store env (token guard)) (Spin_Store (token guard))) (\<lambda>_.
                bind shim_fence (\<lambda>_. ok True))
           else bind (update lock_failed) (\<lambda>_. ok False)) (\<lambda>result.
     bind (c906l_local_irq_restore env (restore_irqs guard)) (\<lambda>_. ok result))))"

section \<open>The mailbox interrupt\<close>

definition channel_bit :: "nat \<Rightarrow> u8" where
  "channel_bit ch = push_bit ch 1"

definition MAILBOX_BUSY :: int where "MAILBOX_BUSY = -1"

definition MAILBOX_LOCK_ERROR :: int where "MAILBOX_LOCK_ERROR = -2"

definition lock_deferred :: "mailbox_contract \<Rightarrow> 'h rtos \<Rightarrow> ('h, unit) shim_prog" where
  "lock_deferred k env =
     bind (update (\<lambda>d. d\<lparr>mailbox_irq_lock_deferrals := mailbox_irq_lock_deferrals d + 1\<rparr>)) (\<lambda>_.
     bind self (\<lambda>d.
     if mailbox_irq_lock_streak d < MAILBOX_HWSPIN_IRQ_CONSECUTIVE_DEFERRAL_LIMIT k
     then bind (set_self (d\<lparr>mailbox_irq_lock_streak := mailbox_irq_lock_streak d + 1\<rparr>)) (\<lambda>_.
          if mailbox_irq_lock_streak d + 1 = MAILBOX_HWSPIN_IRQ_CONSECUTIVE_DEFERRAL_LIMIT k
          then bind (update lock_failed) (\<lambda>_.
               hw_store (fr_disable_irq env (MAILBOX_C906L_IRQ k)) (Irq_Disable (MAILBOX_C906L_IRQ k)))
          else ok ())
     else ok ()))"

text \<open>Read one channel's slot, then acknowledge it.\<close>

definition take_channel :: "mailbox_contract \<Rightarrow> 'h rtos \<Rightarrow> nat \<Rightarrow> ('h, u64) shim_prog" where
  "take_channel k env ch =
     bind (hw_load (fr_slot_load env ch) (Slot_Load ch)) (\<lambda>word.
     bind shim_fence (\<lambda>_.
     bind (clear_interrupts env (RTOS_CPU_ID k) (channel_bit ch)) (\<lambda>_.
     bind (and_assign env (En (RTOS_CPU_ID k)) (NOT (channel_bit ch))) (\<lambda>_.
     bind shim_fence (\<lambda>_. ok word)))))"

definition take_pending :: "mailbox_contract \<Rightarrow> 'h rtos \<Rightarrow> u8 \<Rightarrow> nat \<Rightarrow> ('h, u64 option) shim_prog" where
  "take_pending k env pending ch =
     (if pending AND channel_bit ch \<noteq> 0
      then bind (take_channel k env ch) (\<lambda>word. ok (Some word)) else ok None)"

text \<open>The loop over the bits of \<open>unexpected\<close>.\<close>

function count_events :: "u8 \<Rightarrow> u32 \<Rightarrow> u32" where
  "count_events bits n =
     (if bits \<noteq> 0 then count_events (drop_bit 1 bits) (n + ucast (bits AND 1)) else n)"
  by auto
termination
  by (relation "measure (\<lambda>(bits, n). unat bits)") (auto simp: drop_bit_eq_div unat_div unat_gt_0)

definition drain_unexpected :: "mailbox_contract \<Rightarrow> 'h rtos \<Rightarrow> u8 \<Rightarrow> ('h, unit) shim_prog" where
  "drain_unexpected k env unexpected =
     (if unexpected \<noteq> 0
      then bind (clear_interrupts env (RTOS_CPU_ID k) unexpected) (\<lambda>_.
           bind (and_assign env (En (RTOS_CPU_ID k)) (NOT unexpected)) (\<lambda>_.
           bind shim_fence (\<lambda>_.
           update (\<lambda>d. d\<lparr>unexpected_mailbox_events :=
             count_events unexpected (unexpected_mailbox_events d)\<rparr>))))
      else ok ())"

text \<open>Hand a word to a task; the result says whether a task was woken.\<close>

definition enqueue :: "'h rtos \<Rightarrow> queue \<Rightarrow> (shim \<Rightarrow> shim) \<Rightarrow> u64 option \<Rightarrow> ('h, bool) shim_prog" where
  "enqueue env q dropped word =
     (case word of
        None \<Rightarrow> ok False
      | Some w \<Rightarrow>
          bind (hw_load (fr_queue_send env q w) (\<lambda>(sent, woken). Queue_Send q w sent)) (\<lambda>(sent, woken).
          bind (if sent then ok () else update dropped) (\<lambda>_. ok woken)))"

definition mailbox_isr :: "mailbox_contract \<Rightarrow> 'h rtos \<Rightarrow> ('h, int) shim_prog" where
  "mailbox_isr k env =
     bind (mailbox_lock_acquire k env (MAILBOX_HWSPIN_IRQ_ACQUIRE_ATTEMPTS k) False) (\<lambda>lock.
     case lock of
       None \<Rightarrow> bind (lock_deferred k env) (\<lambda>_. ok MAILBOX_LOCK_ERROR)
     | Some guard \<Rightarrow>
         bind (update (\<lambda>d. d\<lparr>mailbox_irq_lock_streak := 0\<rparr>)) (\<lambda>_.
         bind (hw_load (fr_mbox_load env (Int_Int (RTOS_CPU_ID k))) (Mbox_Load (Int_Int (RTOS_CPU_ID k)))) (\<lambda>pending.
         bind (take_pending k env pending (CHANNEL_CONTROL k)) (\<lambda>control_word.
         bind (take_pending k env pending (CHANNEL_VQ_KICK k)) (\<lambda>vq_word.
         bind (drain_unexpected k env (pending AND
           NOT (channel_bit (CHANNEL_CONTROL k) OR channel_bit (CHANNEL_VQ_KICK k)))) (\<lambda>_.
         bind (mailbox_lock_release env guard) (\<lambda>released.
         bind (enqueue env Requests (\<lambda>d. d\<lparr>request_drops := request_drops d + 1\<rparr>) control_word) (\<lambda>wake.
         bind (enqueue env Vq_Kicks (\<lambda>d. d\<lparr>vq_kick_drops := vq_kick_drops d + 1\<rparr>)
           (map_option (\<lambda>w. ucast (ucast w :: u32)) vq_word)) (\<lambda>wake'.
         bind (hw_store (fr_yield env (wake \<or> wake')) (Yield (wake \<or> wake'))) (\<lambda>_.
         ok (if released then 0 else MAILBOX_LOCK_ERROR)))))))))))"

section \<open>Sending\<close>

primrec channel_busy :: "'h rtos \<Rightarrow> u8 \<Rightarrow> nat list \<Rightarrow> ('h, bool) shim_prog" where
  "channel_busy env bits [] = ok False"
| "channel_busy env bits (processor # ps) =
     bind (hw_load (fr_mbox_load env (En processor)) (Mbox_Load (En processor))) (\<lambda>v.
     if v AND bits \<noteq> 0 then ok True else channel_busy env bits ps)"

definition post :: "mailbox_contract \<Rightarrow> 'h rtos \<Rightarrow> nat \<Rightarrow> u64 \<Rightarrow> ('h, unit) shim_prog" where
  "post k env ch word =
     bind (hw_store (fr_slot_store env ch word) (Slot_Store ch word)) (\<lambda>_.
     bind shim_fence (\<lambda>_.
     bind (clear_interrupts env (LINUX_CPU_ID k) (channel_bit ch)) (\<lambda>_.
     bind (or_assign env (En (LINUX_CPU_ID k)) (channel_bit ch)) (\<lambda>_.
     bind (hw_store (fr_mbox_store env Mbox_Set (channel_bit ch)) (Mbox_Store Mbox_Set (channel_bit ch))) (\<lambda>_.
     shim_fence)))))"

definition c906l_delay :: "'h rtos \<Rightarrow> u32 \<Rightarrow> ('h, unit) shim_prog" where
  "c906l_delay env ticks = drive (fr_delay env ticks) (Rtos_Delay ticks)"

primrec mailbox_send :: "mailbox_contract \<Rightarrow> 'h rtos \<Rightarrow> nat \<Rightarrow> u64 \<Rightarrow> nat \<Rightarrow> ('h, int) shim_prog" where
  "mailbox_send k env ch word 0 = ok MAILBOX_BUSY"
| "mailbox_send k env ch word (Suc retries) =
     bind (mailbox_lock_acquire k env (MAILBOX_HWSPIN_TASK_ACQUIRE_ATTEMPTS k) True) (\<lambda>lock.
     case lock of
       None \<Rightarrow> ok MAILBOX_LOCK_ERROR
     | Some guard \<Rightarrow>
         bind (channel_busy env (channel_bit ch) [0..<MAILBOX_PROCESSOR_COUNT k]) (\<lambda>busy.
         bind (if busy then ok () else post k env ch word) (\<lambda>_.
         bind (mailbox_lock_release env guard) (\<lambda>released.
         if \<not> released then ok MAILBOX_LOCK_ERROR
         else if \<not> busy then ok 0
         else bind (if retries > 0 then c906l_delay env 1 else ok ()) (\<lambda>_.
              mailbox_send k env ch word retries)))))"

definition RESPONSE_RETRIES :: nat where "RESPONSE_RETRIES = 20"

definition c906l_response_send :: "mailbox_contract \<Rightarrow> 'h rtos \<Rightarrow> u64 \<Rightarrow> ('h, int) shim_prog" where
  "c906l_response_send k env word = mailbox_send k env (CHANNEL_CONTROL k) word RESPONSE_RETRIES"

definition c906l_vq_notify :: "mailbox_contract \<Rightarrow> 'h rtos \<Rightarrow> u32 \<Rightarrow> ('h, int) shim_prog" where
  "c906l_vq_notify k env vqid = mailbox_send k env (CHANNEL_VQ_NOTIFY k) (ucast vqid) 1"

section \<open>Queues, counters and the kernel\<close>

definition c906l_request_receive :: "'h rtos \<Rightarrow> u32 \<Rightarrow> ('h, u64 option) shim_prog" where
  "c906l_request_receive env timeout_ticks =
     sense (fr_queue_receive env Requests timeout_ticks) (Queue_Receive Requests)"

definition c906l_vq_kick_receive :: "'h rtos \<Rightarrow> u32 \<Rightarrow> ('h, u32 option) shim_prog" where
  "c906l_vq_kick_receive env timeout_ticks =
     bind (sense (fr_queue_receive env Vq_Kicks timeout_ticks) (Queue_Receive Vq_Kicks)) (\<lambda>received.
     ok (map_option ucast received))"

definition c906l_request_drops :: "('h, u32) shim_prog" where
  "c906l_request_drops = bind self (\<lambda>d. ok (request_drops d))"

definition c906l_mailbox_lock_failures :: "('h, u32) shim_prog" where
  "c906l_mailbox_lock_failures = bind self (\<lambda>d. ok (mailbox_lock_failures d))"

definition c906l_unexpected_mailbox_events :: "('h, u32) shim_prog" where
  "c906l_unexpected_mailbox_events = bind self (\<lambda>d. ok (unexpected_mailbox_events d))"

definition c906l_ticks :: "'h rtos \<Rightarrow> ('h, u32) shim_prog" where
  "c906l_ticks env = sense (fr_ticks env) Rtos_Ticks"

definition c906l_cache_clean :: "'h rtos \<Rightarrow> nat \<Rightarrow> nat \<Rightarrow> ('h, unit) shim_prog" where
  "c906l_cache_clean env address n = drive (fr_clean env address n) (Cache_Clean address n)"

definition c906l_cache_invalidate :: "'h rtos \<Rightarrow> nat \<Rightarrow> nat \<Rightarrow> ('h, unit) shim_prog" where
  "c906l_cache_invalidate env address n = drive (fr_invalidate env address n) (Cache_Invalidate address n)"

section \<open>Timer interrupts\<close>

text \<open>The trampoline of a channel; \<open>handler\<close> is the Rust function \<open>c906l_timer_interrupt\<close>.\<close>

definition timer_isr ::
    "mailbox_contract \<Rightarrow> (u32 \<Rightarrow> u32 \<Rightarrow> ('h, int) shim_prog) \<Rightarrow> u32 \<Rightarrow> u32 \<Rightarrow> bool \<Rightarrow> ('h, int) shim_prog" where
  "timer_isr k handler channel irqn priv_null =
     (case map_of (TIMER_IRQS k) channel of
        None \<Rightarrow> ok (-1)
      | Some irq \<Rightarrow> if irqn \<noteq> irq \<or> \<not> priv_null then ok (-1) else handler channel irq)"

definition c906l_timer_irq_install :: "mailbox_contract \<Rightarrow> 'h rtos \<Rightarrow> u32 \<Rightarrow> u32 \<Rightarrow> ('h, int) shim_prog" where
  "c906l_timer_irq_install k env channel irq =
     (case map_of (TIMER_IRQS k) channel of
        None \<Rightarrow> ok (-1)
      | Some n \<Rightarrow> if irq \<noteq> n then ok (-1)
          else sense (fr_request_irq env (unat n) (Timer_Isr channel)) (Irq_Request (unat n) (Timer_Isr channel)))"

definition c906l_timer_irq_disable :: "mailbox_contract \<Rightarrow> 'h rtos \<Rightarrow> u32 \<Rightarrow> u32 \<Rightarrow> ('h, unit) shim_prog" where
  "c906l_timer_irq_disable k env channel irq =
     (case map_of (TIMER_IRQS k) channel of
        None \<Rightarrow> ok ()
      | Some n \<Rightarrow> if irq \<noteq> n then ok ()
          else hw_store (fr_disable_irq env (unat n)) (Irq_Disable (unat n)))"

section \<open>Starting the platform\<close>

text \<open>The chain of setup steps: each gives a code to return when it fails.\<close>

definition create_queue :: "'h rtos \<Rightarrow> queue \<Rightarrow> nat \<Rightarrow> ('h, bool) shim_prog" where
  "create_queue env q n = hw_load (fr_queue_create env q n) (Queue_Create q)"

definition create_task :: "'h rtos \<Rightarrow> rust_task \<Rightarrow> nat \<Rightarrow> nat \<Rightarrow> ('h, bool) shim_prog" where
  "create_task env t stack priority = sense (fr_task_create env t stack priority) (Task_Create t stack priority)"

definition reset_counters :: "shim \<Rightarrow> shim" where
  "reset_counters d = d\<lparr>request_drops := 0, vq_kick_drops := 0, mailbox_lock_failures := 0,
     mailbox_irq_lock_deferrals := 0, mailbox_irq_lock_streak := 0, unexpected_mailbox_events := 0\<rparr>"

definition reset_mailbox :: "mailbox_contract \<Rightarrow> 'h rtos \<Rightarrow> ('h, unit) shim_prog" where
  "reset_mailbox k env =
     bind (clear_interrupts env (RTOS_CPU_ID k) (of_nat (2 ^ MAILBOX_SLOT_COUNT k - 1))) (\<lambda>_.
     bind (and_assign env (En (RTOS_CPU_ID k)) (NOT (of_nat (2 ^ MAILBOX_SLOT_COUNT k - 1)))) (\<lambda>_.
     shim_fence))"

text \<open>\<open>None\<close>: the scheduler runs and the function does not return.\<close>

definition c906l_platform_start :: "mailbox_contract \<Rightarrow> 'h rtos \<Rightarrow> bool \<Rightarrow> ('h, int option) shim_prog" where
  "c906l_platform_start k env with_lcd =
     bind (create_queue env Requests 8) (\<lambda>created. if \<not> created then ok (Some (-1)) else
     bind (create_queue env Vq_Kicks 32) (\<lambda>created. if \<not> created then ok (Some (-2)) else
     bind (update reset_counters) (\<lambda>_.
     bind (mailbox_lock_acquire k env (MAILBOX_HWSPIN_TASK_ACQUIRE_ATTEMPTS k) True) (\<lambda>lock.
     case lock of None \<Rightarrow> ok (Some (-7)) | Some guard \<Rightarrow>
     bind (reset_mailbox k env) (\<lambda>_.
     bind (mailbox_lock_release env guard) (\<lambda>released. if \<not> released then ok (Some (-8)) else
     bind (sense (fr_request_irq env (MAILBOX_C906L_IRQ k) Mailbox_Isr)
       (Irq_Request (MAILBOX_C906L_IRQ k) Mailbox_Isr)) (\<lambda>irq_result. if irq_result \<noteq> 0 then ok (Some (-3)) else
     bind (create_task env Control_Task 1024 2) (\<lambda>created. if \<not> created then ok (Some (-4)) else
     bind (create_task env Rpmsg_Task 2048 2) (\<lambda>created. if \<not> created then ok (Some (-5)) else
     bind (if with_lcd then create_task env Lcd_Task 2048 1 else ok True) (\<lambda>created.
       if \<not> created then ok (Some (-9)) else
     bind (sense (fr_start_scheduler env) Scheduler) (\<lambda>started.
     ok (if started then None else Some (-6)))))))))))))"

declare count_events.simps [simp del]

section \<open>Runs\<close>

text \<open>The functions of the shim always return and never fail: \<open>runs p d Q\<close> is the course of \<open>p\<close>
  from the static variables \<open>d\<close>.\<close>

definition runs :: "('h, 'a) shim_prog \<Rightarrow> shim \<Rightarrow> ('a \<Rightarrow> shim \<Rightarrow> shim_event list \<Rightarrow> bool) \<Rightarrow> bool" where
  "runs p d Q \<longleftrightarrow> course p d (\<lambda>r d' n. \<exists>a. r = Inr a \<and> Q a d' n)"

lemma runs_bind:
  assumes "runs p d P" "\<And>a d' n. P a d' n \<Longrightarrow> runs (f a) d' (\<lambda>b d'' n'. Q b d'' (n @ n'))"
  shows "runs (bind p f) d Q"
  unfolding runs_def
  by (rule course_bind [OF assms(1) [unfolded runs_def]]) (use assms(2) in \<open>auto simp: runs_def\<close>)

lemma runs_mono: "runs p d P \<Longrightarrow> (\<And>a d' n. P a d' n \<Longrightarrow> Q a d' n) \<Longrightarrow> runs p d Q"
  unfolding runs_def by (erule course_mono) auto

lemma runs_conj: "runs p d P \<Longrightarrow> runs p d Q \<Longrightarrow> runs p d (\<lambda>a d' n. P a d' n \<and> Q a d' n)"
  unfolding runs_def by (drule (1) course_conj) (auto elim: course_mono)

lemma runs_ok [simp]: "runs (ok a) d Q \<longleftrightarrow> Q a d []"
  by (simp add: runs_def)

lemma runs_if: "(b \<Longrightarrow> runs p d Q) \<Longrightarrow> (\<not> b \<Longrightarrow> runs q d Q) \<Longrightarrow> runs (if b then p else q) d Q"
  by simp

lemma runs_sense: "(\<And>v d'. Q v d' [ev v]) \<Longrightarrow> runs (sense f ev) d Q"
  by (auto simp: runs_def course_def sense_def split: prod.split)

lemma runs_drive: "(\<And>d'. Q () d' [ev]) \<Longrightarrow> runs (drive f ev) d Q"
  by (auto simp: runs_def course_def drive_def)

lemma runs_load: "(\<And>v. Q v d [ev v]) \<Longrightarrow> runs (hw_load f ev) d Q"
  by (auto simp: runs_def course_def hw_load_def sense_def split: prod.split)

lemma runs_store: "Q () d [ev] \<Longrightarrow> runs (hw_store f ev) d Q"
  by (auto simp: runs_def course_def hw_store_def drive_def)

lemma runs_update: "Q () (f d) [] \<Longrightarrow> runs (update f) d Q"
  by (auto simp: runs_def update_def intro!: course_bind_self)

lemma runs_set_self: "Q () d' [] \<Longrightarrow> runs (set_self d') d Q"
  by (simp add: runs_def)

lemma runs_bind_self: "runs (f d) d Q \<Longrightarrow> runs (bind self f) d Q"
  unfolding runs_def by (rule course_bind_self)

lemma runs_bind_load:
  "(\<And>v. runs (f v) d (\<lambda>a d' n. Q a d' (ev v # n))) \<Longrightarrow> runs (bind (hw_load g ev) f) d Q"
  by (rule runs_bind [where P = "\<lambda>v d' n. d' = d \<and> n = [ev v]"]) (auto intro: runs_load)

lemma runs_bind_store:
  "runs (f ()) d (\<lambda>a d' n. Q a d' (ev # n)) \<Longrightarrow> runs (bind (hw_store g ev) f) d Q"
  by (rule runs_bind [where P = "\<lambda>v d' n. d' = d \<and> n = [ev]"]) (auto intro: runs_store)

lemma runs_bind_update: "runs (f ()) (g d) Q \<Longrightarrow> runs (bind (update g) f) d Q"
  by (rule runs_bind [where P = "\<lambda>v d' n. d' = g d \<and> n = []"]) (auto intro: runs_update)

lemma runs_bind_set_self: "runs (f ()) d' Q \<Longrightarrow> runs (bind (set_self d') f) d Q"
  by (rule runs_bind [where P = "\<lambda>v d'' n. d'' = d' \<and> n = []"]) (auto intro: runs_set_self)

lemmas runs_steps = runs_bind_load runs_bind_store runs_bind_update runs_bind_set_self runs_bind_self
  runs_store runs_load runs_update runs_if

lemma runs_run:
  assumes "runs p (fst (m_hw m)) Q"
  shows "\<exists>a m' new. p m = Some (Inr a, m') \<and> m_log m' = m_log m @ new \<and> Q a (fst (m_hw m')) new"
  using course_run [OF assms [unfolded runs_def]] by blast

section \<open>The lock\<close>

text \<open>Attempts that read back the tokens \<open>vs\<close> of somebody else, and one that succeeded.\<close>

definition missed :: "u16 \<Rightarrow> u16 list \<Rightarrow> shim_event list" where
  "missed t vs = concat (map (\<lambda>v. [Spin_Store t, Shim_Fence, Spin_Load v]) vs)"

definition won :: "u16 \<Rightarrow> shim_event list" where
  "won t = [Spin_Store t, Shim_Fence, Spin_Load t, Shim_Fence]"

lemma missed_simps [simp]:
  "missed t [] = []" "missed t (v # vs) = Spin_Store t # Shim_Fence # Spin_Load v # missed t vs"
  by (simp_all add: missed_def)

lemma runs_attempts:
  "runs (poll n (lock_attempt env t)) d (\<lambda>r d' log. d' = d \<and> (\<exists>vs. t \<notin> set vs \<and>
     (case r of None \<Rightarrow> length vs = n \<and> log = missed t vs
      | Some _ \<Rightarrow> length vs < n \<and> log = missed t vs @ won t)))"
proof (induction n)
  case (Suc n)
  have one: "runs (lock_attempt env t) d (\<lambda>r d' log. d' = d \<and>
      (case r of None \<Rightarrow> \<exists>v. v \<noteq> t \<and> log = missed t [v] | Some _ \<Rightarrow> log = won t))"
    unfolding lock_attempt_def shim_fence_def
    by (intro runs_steps) (auto simp: won_def)
  show ?case
    unfolding poll.simps
  proof (rule runs_bind [OF one], goal_cases)
    case (1 r d' log)
    show ?case
    proof (cases r)
      case None
      with 1 obtain v where v: "v \<noteq> t" "log = missed t [v]" "d' = d" by auto
      show ?thesis
        unfolding None option.case v(3)
      proof (rule runs_mono [OF Suc], elim conjE exE, goal_cases)
        case (1 a d'' n' vs)
        then show ?case
          using v by (intro conjI exI [of _ "v # vs"]) (auto split: option.splits)
      qed
    next
      case (Some u)
      with 1 show ?thesis by (auto intro!: exI [of _ "[]"])
    qed
  qed
qed simp

definition next_token :: "shim \<Rightarrow> shim" where
  "next_token d = (let n = mailbox_lock_counter d + 1
     in d\<lparr>mailbox_lock_counter := if n = 0 then 1 else n\<rparr>)"

definition token_of :: "mailbox_contract \<Rightarrow> shim \<Rightarrow> u16" where
  "token_of k d = push_bit (MAILBOX_HWSPIN_C906L_TOKEN_SHIFT k) (ucast (mailbox_lock_counter d))"

lemma runs_bind_next_token:
  "runs (f (token_of k (next_token d))) (next_token d) Q \<Longrightarrow> runs (bind (mailbox_lock_next_token k) f) d Q"
  unfolding mailbox_lock_next_token_def next_token_def token_of_def bind_assoc
  by (intro runs_bind_update runs_bind_self) simp

lemma runs_irq_save:
  "runs (c906l_local_irq_save env) d (\<lambda>b d' n. n = [Mie_Clear b] \<and> b = mie d \<and> \<not> mie d' \<and> (\<not> mie d \<longrightarrow> d' = d))"
  by (auto simp: runs_def course_def c906l_local_irq_save_def sense_def split: prod.split)

lemma runs_irq_restore:
  "runs (c906l_local_irq_restore env b) d (\<lambda>_ d' n.
     n = (if b then [Mie_Set] else []) \<and> mie d' = (b \<or> mie d) \<and> (\<not> b \<longrightarrow> d' = d))"
proof (cases b)
  case True
  show ?thesis
    using True by (auto simp: runs_def course_def c906l_local_irq_restore_def drive_def split: prod.split)
qed (simp add: c906l_local_irq_restore_def)

text \<open>The outcome of an acquisition from \<open>d\<close>. The interrupt enable bit is as before when the lock
  was not obtained, and cleared while it is held. With interrupts off nothing else touches the
  static variables.\<close>

definition acquire_spec ::
    "mailbox_contract \<Rightarrow> nat \<Rightarrow> bool \<Rightarrow> shim \<Rightarrow> mailbox_lock_guard option \<Rightarrow> shim \<Rightarrow> shim_event list \<Rightarrow> bool" where
  "acquire_spec k attempts terminal d r d' log \<longleftrightarrow> (\<exists>d0 vs. let t = token_of k (next_token d0) in
     \<not> mie d0 \<and> (\<not> mie d \<longrightarrow> d0 = d) \<and> t \<notin> set vs \<and>
     (case r of
        Some guard \<Rightarrow> length vs < attempts \<and> guard = \<lparr>token = t, restore_irqs = mie d\<rparr> \<and>
          d' = next_token d0 \<and> log = Mie_Clear (mie d) # missed t vs @ won t
      | None \<Rightarrow> length vs = attempts \<and> mie d' = mie d \<and>
          (\<not> mie d \<longrightarrow> d' = (if terminal then lock_failed (next_token d) else next_token d)) \<and>
          log = Mie_Clear (mie d) # missed t vs @ (if mie d then [Mie_Set] else [])))"

lemma next_token_mie [simp]: "mie (next_token d) = mie d"
  by (simp add: next_token_def Let_def)

lemma lock_failed_mie [simp]: "mie (lock_failed d) = mie d"
  by (simp add: lock_failed_def)

lemma runs_acquire:
  "runs (mailbox_lock_acquire k env attempts terminal) d (acquire_spec k attempts terminal d)"
  unfolding mailbox_lock_acquire_def
proof (rule runs_bind [OF runs_irq_save], elim conjE, goal_cases)
  case (1 b d0 n)
  let ?t = "token_of k (next_token d0)"
  have "runs (bind (poll attempts (lock_attempt env ?t)) (\<lambda>acquired. case acquired of
       Some _ \<Rightarrow> ok (Some \<lparr>token = ?t, restore_irqs = b\<rparr>)
     | None \<Rightarrow> bind (if terminal then update lock_failed else ok ()) (\<lambda>_.
         bind (c906l_local_irq_restore env b) (\<lambda>_. ok None))))
    (next_token d0) (\<lambda>r d' log. acquire_spec k attempts terminal d r d' (n @ log))"
  proof (rule runs_bind [OF runs_attempts], elim conjE exE, goal_cases)
    case (1 r d' log vs)
    note prems = \<open>n = [Mie_Clear b]\<close> \<open>b = mie d\<close> \<open>\<not> mie d0\<close> \<open>\<not> mie d \<longrightarrow> d0 = d\<close> 1
    show ?case
    proof (cases r)
      case (Some u)
      with prems show ?thesis
        by (auto simp: acquire_spec_def Let_def intro!: exI [of _ d0] exI [of _ vs])
    next
      case None
      have fin: "runs (c906l_local_irq_restore env b) e (\<lambda>a d'' x. acquire_spec k attempts terminal d None d'' (n @ log @ x))"
        if "e = (if terminal then lock_failed (next_token d0) else next_token d0)" for e
        by (rule runs_mono [OF runs_irq_restore])
          (use prems that None in \<open>auto simp: acquire_spec_def Let_def intro!: exI [of _ d0] exI [of _ vs]\<close>)
      have run: "runs (bind (c906l_local_irq_restore env b) (\<lambda>_. ok None)) e
          (\<lambda>r d'' x. acquire_spec k attempts terminal d r d'' (n @ log @ x))"
        if "e = (if terminal then lock_failed (next_token d0) else next_token d0)" for e
        by (rule runs_bind [OF fin [OF that]]) simp
      show ?thesis
        using None prems run by (auto intro!: runs_bind_update)
    qed
  qed
  then show ?case
    by (rule runs_bind_next_token)
qed

definition release_spec :: "mailbox_lock_guard \<Rightarrow> shim \<Rightarrow> bool \<Rightarrow> shim \<Rightarrow> shim_event list \<Rightarrow> bool" where
  "release_spec guard d r d' log \<longleftrightarrow> (\<exists>v. r = (v = token guard) \<and>
     mie d' = (restore_irqs guard \<or> mie d) \<and>
     (\<not> restore_irqs guard \<longrightarrow> d' = (if r then d else lock_failed d)) \<and>
     log = [Shim_Fence, Spin_Load v] @ (if r then [Spin_Store v, Shim_Fence] else []) @
       (if restore_irqs guard then [Mie_Set] else []))"

lemma runs_release: "runs (mailbox_lock_release env guard) d (release_spec guard d)"
proof -
  have fin: "runs (bind (c906l_local_irq_restore env (restore_irqs guard)) (\<lambda>_. ok r)) e
      (\<lambda>r d'' x. release_spec guard d r d'' (n @ x))"
    if "r = (v = token guard)" "e = (if r then d else lock_failed d)"
      "n = [Shim_Fence, Spin_Load v] @ (if r then [Spin_Store v, Shim_Fence] else [])" for r v e n
    by (rule runs_bind [OF runs_irq_restore]) (use that in \<open>auto simp: release_spec_def\<close>)
  show ?thesis
    unfolding mailbox_lock_release_def shim_fence_def
  proof (intro runs_bind_store runs_bind_load, goal_cases)
    case (1 v)
    have "runs (if v = token guard
           then bind (hw_store (fr_spin_store env (token guard)) (Spin_Store (token guard))) (\<lambda>_.
                bind (hw_store (\<lambda>h. h) Shim_Fence) (\<lambda>_. ok True))
           else bind (update lock_failed) (\<lambda>_. ok False)) d
      (\<lambda>r e n. r = (v = token guard) \<and> e = (if r then d else lock_failed d) \<and>
         n = (if r then [Spin_Store v, Shim_Fence] else []))"
      by (intro runs_steps) auto
    from runs_bind [OF this] fin [where v = v] show ?case by fastforce
  qed
qed

section \<open>The interrupt handler\<close>

definition taken :: "mailbox_contract \<Rightarrow> u8 \<Rightarrow> nat \<Rightarrow> u64 option \<Rightarrow> shim_event list \<Rightarrow> bool" where
  "taken k pending ch r log \<longleftrightarrow>
     (if pending AND channel_bit ch \<noteq> 0
      then \<exists>w v. r = Some w \<and> log =
        [Slot_Load ch w, Shim_Fence, Mbox_Store (Int_Clr (RTOS_CPU_ID k)) (channel_bit ch),
         Mbox_Load (En (RTOS_CPU_ID k)) v,
         Mbox_Store (En (RTOS_CPU_ID k)) (v AND NOT (channel_bit ch)), Shim_Fence]
      else r = None \<and> log = [])"

lemma runs_take_pending:
  "runs (take_pending k env pending ch) d (\<lambda>r d' n. d' = d \<and> taken k pending ch r n)"
  unfolding take_pending_def take_channel_def clear_interrupts_def and_assign_def shim_fence_def bind_assoc
  by (intro runs_steps) (auto simp: taken_def)

definition drained :: "mailbox_contract \<Rightarrow> u8 \<Rightarrow> shim_event list \<Rightarrow> bool" where
  "drained k u log \<longleftrightarrow>
     (if u \<noteq> 0
      then \<exists>v. log = [Mbox_Store (Int_Clr (RTOS_CPU_ID k)) u, Mbox_Load (En (RTOS_CPU_ID k)) v,
        Mbox_Store (En (RTOS_CPU_ID k)) (v AND NOT u), Shim_Fence]
      else log = [])"

definition counted :: "u8 \<Rightarrow> shim \<Rightarrow> shim" where
  "counted u d = d\<lparr>unexpected_mailbox_events := count_events u (unexpected_mailbox_events d)\<rparr>"

lemma runs_drain:
  "runs (drain_unexpected k env u) d (\<lambda>_ d' n. d' = counted u d \<and> drained k u n)"
  unfolding drain_unexpected_def clear_interrupts_def and_assign_def shim_fence_def bind_assoc
  by (intro runs_steps) (auto simp: drained_def counted_def count_events.simps [of 0])

definition handed_over :: "queue \<Rightarrow> (shim \<Rightarrow> shim) \<Rightarrow> u64 option \<Rightarrow> shim \<Rightarrow> shim \<Rightarrow> shim_event list \<Rightarrow> bool" where
  "handed_over q dropped word d d' log \<longleftrightarrow>
     (case word of
        None \<Rightarrow> d' = d \<and> log = []
      | Some w \<Rightarrow> \<exists>sent. d' = (if sent then d else dropped d) \<and> log = [Queue_Send q w sent])"

lemma runs_enqueue:
  "runs (enqueue env q dropped word) d (\<lambda>_ d' n. handed_over q dropped word d d' n)"
proof (cases word)
  case (Some w)
  show ?thesis
    unfolding enqueue_def Some option.case
  proof (intro runs_bind_load, goal_cases)
    case (1 v)
    show ?case
      by (cases v) (auto simp: handed_over_def intro!: runs_bind_update)
  qed
qed (simp add: enqueue_def handed_over_def)

text \<open>The deferral of an interrupt whose lock attempts all failed.\<close>

definition limit_reached :: "mailbox_contract \<Rightarrow> shim \<Rightarrow> bool" where
  "limit_reached k d \<longleftrightarrow> mailbox_irq_lock_streak d < MAILBOX_HWSPIN_IRQ_CONSECUTIVE_DEFERRAL_LIMIT k \<and>
     mailbox_irq_lock_streak d + 1 = MAILBOX_HWSPIN_IRQ_CONSECUTIVE_DEFERRAL_LIMIT k"

definition deferred :: "mailbox_contract \<Rightarrow> shim \<Rightarrow> shim" where
  "deferred k d = (let d1 = d\<lparr>mailbox_irq_lock_deferrals := mailbox_irq_lock_deferrals d + 1,
       mailbox_irq_lock_streak :=
         if mailbox_irq_lock_streak d < MAILBOX_HWSPIN_IRQ_CONSECUTIVE_DEFERRAL_LIMIT k
         then mailbox_irq_lock_streak d + 1 else mailbox_irq_lock_streak d\<rparr>
     in if limit_reached k d then lock_failed d1 else d1)"

lemma runs_deferred:
  "runs (lock_deferred k env) d (\<lambda>_ d' n. d' = deferred k d \<and>
     n = (if limit_reached k d then [Irq_Disable (MAILBOX_C906L_IRQ k)] else []))"
  unfolding lock_deferred_def
  by (intro runs_steps) (auto simp: deferred_def limit_reached_def Let_def)

abbreviation request_dropped :: "shim \<Rightarrow> shim" where
  "request_dropped d \<equiv> d\<lparr>request_drops := request_drops d + 1\<rparr>"

abbreviation kick_dropped :: "shim \<Rightarrow> shim" where
  "kick_dropped d \<equiv> d\<lparr>vq_kick_drops := vq_kick_drops d + 1\<rparr>"

abbreviation vq_id :: "u64 \<Rightarrow> u64" where
  "vq_id w \<equiv> ucast (ucast w :: u32)"

abbreviation unexpected_of :: "mailbox_contract \<Rightarrow> u8 \<Rightarrow> u8" where
  "unexpected_of k pending \<equiv>
     pending AND NOT (channel_bit (CHANNEL_CONTROL k) OR channel_bit (CHANNEL_VQ_KICK k))"

text \<open>What the handler does with the lock held, from the state \<open>d\<close> after the acquisition.\<close>

definition served_spec ::
    "mailbox_contract \<Rightarrow> mailbox_lock_guard \<Rightarrow> shim \<Rightarrow> int \<Rightarrow> shim \<Rightarrow> shim_event list \<Rightarrow> bool" where
  "served_spec k guard d r d' log \<longleftrightarrow> (\<exists>pending cw vw lc lv lu lr q1 q2 released d1 d2 wake.
     taken k pending (CHANNEL_CONTROL k) cw lc \<and> taken k pending (CHANNEL_VQ_KICK k) vw lv \<and>
     drained k (unexpected_of k pending) lu \<and>
     release_spec guard (counted (unexpected_of k pending) (d\<lparr>mailbox_irq_lock_streak := 0\<rparr>)) released d1 lr \<and>
     handed_over Requests request_dropped cw d1 d2 q1 \<and>
     handed_over Vq_Kicks kick_dropped (map_option vq_id vw) d2 d' q2 \<and>
     r = (if released then 0 else MAILBOX_LOCK_ERROR) \<and>
     log = Mbox_Load (Int_Int (RTOS_CPU_ID k)) pending # lc @ lv @ lu @ lr @ q1 @ q2 @ [Yield wake])"

lemma served_specI:
  assumes "taken k pending (CHANNEL_CONTROL k) cw lc" "taken k pending (CHANNEL_VQ_KICK k) vw lv"
    "drained k (unexpected_of k pending) lu"
    "release_spec guard (counted (unexpected_of k pending) (d\<lparr>mailbox_irq_lock_streak := 0\<rparr>)) released d1 lr"
    "handed_over Requests request_dropped cw d1 d2 q1"
    "handed_over Vq_Kicks kick_dropped (map_option vq_id vw) d2 d' q2"
    "r = (if released then 0 else MAILBOX_LOCK_ERROR)"
  shows "served_spec k guard d r d'
    (Mbox_Load (Int_Int (RTOS_CPU_ID k)) pending # lc @ lv @ lu @ lr @ q1 @ q2 @ [Yield wake])"
  unfolding served_spec_def using assms by blast

definition isr_spec :: "mailbox_contract \<Rightarrow> shim \<Rightarrow> int \<Rightarrow> shim \<Rightarrow> shim_event list \<Rightarrow> bool" where
  "isr_spec k d r d' log \<longleftrightarrow> (\<exists>lock d1 la lb. log = la @ lb \<and>
     acquire_spec k (MAILBOX_HWSPIN_IRQ_ACQUIRE_ATTEMPTS k) False d lock d1 la \<and>
     (case lock of
        None \<Rightarrow> r = MAILBOX_LOCK_ERROR \<and> d' = deferred k d1 \<and>
          lb = (if limit_reached k d1 then [Irq_Disable (MAILBOX_C906L_IRQ k)] else [])
      | Some guard \<Rightarrow> served_spec k guard d1 r d' lb))"

lemma isr_specI:
  assumes "acquire_spec k (MAILBOX_HWSPIN_IRQ_ACQUIRE_ATTEMPTS k) False d lock d1 la"
    "case lock of
        None \<Rightarrow> r = MAILBOX_LOCK_ERROR \<and> d' = deferred k d1 \<and>
          lb = (if limit_reached k d1 then [Irq_Disable (MAILBOX_C906L_IRQ k)] else [])
      | Some guard \<Rightarrow> served_spec k guard d1 r d' lb"
  shows "isr_spec k d r d' (la @ lb)"
  unfolding isr_spec_def using assms by blast

lemma runs_isr: "runs (mailbox_isr k env) d (isr_spec k d)"
  unfolding mailbox_isr_def
proof (rule runs_bind [OF runs_acquire], goal_cases)
  case (1 lock d1 la)
  show ?case
  proof (cases lock)
    case None
    show ?thesis
      unfolding None option.case
      by (rule runs_bind [OF runs_deferred]) (use 1 None in \<open>simp add: isr_specI\<close>)
  next
    case (Some guard)
    have fin: "runs (bind (enqueue env Requests request_dropped cw) (\<lambda>wake.
         bind (enqueue env Vq_Kicks kick_dropped (map_option vq_id vw)) (\<lambda>wake'.
         bind (hw_store (fr_yield env (wake \<or> wake')) (Yield (wake \<or> wake'))) (\<lambda>_.
         ok (if released then 0 else MAILBOX_LOCK_ERROR))))) d2
       (\<lambda>r d' n. \<exists>d3 q1 q2 wake. handed_over Requests request_dropped cw d2 d3 q1 \<and>
          handed_over Vq_Kicks kick_dropped (map_option vq_id vw) d3 d' q2 \<and>
          r = (if released then 0 else MAILBOX_LOCK_ERROR) \<and> n = q1 @ q2 @ [Yield wake])" for cw vw released d2
    proof (rule runs_bind [OF runs_enqueue], rule runs_bind [OF runs_enqueue], goal_cases)
      case (1 a d3 q1 b d4 q2)
      then show ?case
        by (intro runs_bind_store, unfold runs_ok)
          (rule exI [of _ d3], rule exI [of _ q1], rule exI [of _ q2], simp)
    qed
    have "runs (bind (update (\<lambda>d. d\<lparr>mailbox_irq_lock_streak := 0\<rparr>)) (\<lambda>_.
         bind (hw_load (fr_mbox_load env (Int_Int (RTOS_CPU_ID k))) (Mbox_Load (Int_Int (RTOS_CPU_ID k)))) (\<lambda>pending.
         bind (take_pending k env pending (CHANNEL_CONTROL k)) (\<lambda>cw.
         bind (take_pending k env pending (CHANNEL_VQ_KICK k)) (\<lambda>vw.
         bind (drain_unexpected k env (unexpected_of k pending)) (\<lambda>_.
         bind (mailbox_lock_release env guard) (\<lambda>released.
         bind (enqueue env Requests request_dropped cw) (\<lambda>wake.
         bind (enqueue env Vq_Kicks kick_dropped (map_option vq_id vw)) (\<lambda>wake'.
         bind (hw_store (fr_yield env (wake \<or> wake')) (Yield (wake \<or> wake'))) (\<lambda>_.
         ok (if released then 0 else MAILBOX_LOCK_ERROR))))))))))) d1 (served_spec k guard d1)"
    proof (intro runs_bind_update runs_bind_load, rule runs_bind [OF runs_take_pending],
        rule runs_bind [OF runs_take_pending], rule runs_bind [OF runs_drain],
        rule runs_bind [OF runs_release], rule runs_mono [OF fin], elim conjE exE, goal_cases)
      case (1 pending cw da lc vw db lv u dc lu released d2 lr r d' n d3 q1 q2 wake)
      then show ?case
        using served_specI [of k pending cw lc vw lv lu guard d1 released d2 lr d3 q1 d' q2 r wake] by simp
    qed
    then show ?thesis
      unfolding Some option.case
      by (rule runs_mono) (use 1 Some in \<open>simp add: isr_specI\<close>)
  qed
qed

section \<open>The sender\<close>

definition scanned :: "u8 \<Rightarrow> nat list \<Rightarrow> bool \<Rightarrow> shim_event list \<Rightarrow> bool" where
  "scanned bits ps busy log \<longleftrightarrow> (\<exists>vs. length vs \<le> length ps \<and>
     log = map2 (\<lambda>p v. Mbox_Load (En p) v) (take (length vs) ps) vs \<and>
     (if busy then vs \<noteq> [] \<and> last vs AND bits \<noteq> 0
      else length vs = length ps \<and> (\<forall>v\<in>set vs. v AND bits = 0)))"

lemma runs_channel_busy: "runs (channel_busy env bits ps) d (\<lambda>busy d' n. d' = d \<and> scanned bits ps busy n)"
proof (induction ps)
  case (Cons p ps)
  show ?case
    unfolding channel_busy.simps
  proof (intro runs_bind_load runs_if, goal_cases)
    case (1 v)
    then show ?case by (auto simp: scanned_def intro!: exI [of _ "[v]"])
  next
    case (2 v)
    show ?case
    proof (rule runs_mono [OF Cons], unfold scanned_def, elim conjE exE, goal_cases)
      case (1 busy d' n vs)
      with 2 show ?case
        by (intro conjI exI [of _ "v # vs"]) (auto split: if_splits)
    qed
  qed
qed (simp add: scanned_def)

definition posted :: "mailbox_contract \<Rightarrow> nat \<Rightarrow> u64 \<Rightarrow> shim_event list \<Rightarrow> bool" where
  "posted k ch word log \<longleftrightarrow> (\<exists>v. log =
     [Slot_Store ch word, Shim_Fence, Mbox_Store (Int_Clr (LINUX_CPU_ID k)) (channel_bit ch),
      Mbox_Load (En (LINUX_CPU_ID k)) v, Mbox_Store (En (LINUX_CPU_ID k)) (v OR channel_bit ch),
      Mbox_Store Mbox_Set (channel_bit ch), Shim_Fence])"

lemma runs_post: "runs (post k env ch word) d (\<lambda>_ d' n. d' = d \<and> posted k ch word n)"
  unfolding post_def clear_interrupts_def or_assign_def shim_fence_def bind_assoc
  by (intro runs_steps) (auto simp: posted_def)

text \<open>One round of the sender under the lock, and the whole loop.\<close>

definition send_round :: "mailbox_contract \<Rightarrow> nat \<Rightarrow> u64 \<Rightarrow> bool \<Rightarrow> bool \<Rightarrow> shim_event list \<Rightarrow> bool" where
  "send_round k ch word busy released log \<longleftrightarrow> (\<exists>d guard d1 d2 d3 la ls lp lr.
     log = la @ ls @ lp @ lr \<and>
     acquire_spec k (MAILBOX_HWSPIN_TASK_ACQUIRE_ATTEMPTS k) True d (Some guard) d1 la \<and>
     scanned (channel_bit ch) [0..<MAILBOX_PROCESSOR_COUNT k] busy ls \<and>
     (if busy then lp = [] else posted k ch word lp) \<and> release_spec guard d2 released d3 lr)"

primrec sender_spec :: "mailbox_contract \<Rightarrow> nat \<Rightarrow> u64 \<Rightarrow> nat \<Rightarrow> int \<Rightarrow> shim_event list \<Rightarrow> bool" where
  "sender_spec k ch word 0 r log \<longleftrightarrow> r = MAILBOX_BUSY \<and> log = []"
| "sender_spec k ch word (Suc n) r log \<longleftrightarrow>
     (\<exists>d d1. acquire_spec k (MAILBOX_HWSPIN_TASK_ACQUIRE_ATTEMPTS k) True d None d1 log \<and> r = MAILBOX_LOCK_ERROR) \<or>
     (\<exists>busy. send_round k ch word busy False log \<and> r = MAILBOX_LOCK_ERROR) \<or>
     (send_round k ch word False True log \<and> r = 0) \<or>
     (\<exists>l1 l2. send_round k ch word True True l1 \<and> sender_spec k ch word n r l2 \<and>
        log = l1 @ (if n > 0 then [Rtos_Delay 1] else []) @ l2)"

lemma runs_send: "runs (mailbox_send k env ch word n) d (\<lambda>r d' log. sender_spec k ch word n r log)"
proof (induction n arbitrary: d)
  case (Suc n)
  show ?case
    unfolding mailbox_send.simps(2)
  proof (rule runs_bind [OF runs_acquire], goal_cases)
    case (1 lock d1 la)
    show ?case
    proof (cases lock)
      case None
      with 1 show ?thesis by auto
    next
      case (Some guard)
      have again: "runs (bind (if n > 0 then c906l_delay env 1 else ok ()) (\<lambda>_. mailbox_send k env ch word n)) e
          (\<lambda>r d' x. sender_spec k ch word (Suc n) r (l @ x))" if "send_round k ch word True True l" for e l
      proof (rule runs_bind [where P = "\<lambda>_ d' x. x = (if n > 0 then [Rtos_Delay 1] else [])"], goal_cases)
        case 1
        show ?case by (auto simp: c906l_delay_def intro: runs_drive)
      next
        case (2 a d' x)
        show ?case by (rule runs_mono [OF Suc]) (use that 2 in auto)
      qed
      have lock: "send_round k ch word busy released (la @ ls @ lp @ lr)"
        if "scanned (channel_bit ch) [0..<MAILBOX_PROCESSOR_COUNT k] busy ls"
          "if busy then lp = [] else posted k ch word lp" "release_spec guard d2 released d3 lr"
        for busy released ls lp lr d2 d3
        unfolding send_round_def using 1 Some that by blast
      have post: "runs (if busy then ok () else post k env ch word) e
          (\<lambda>_ d' lp. if busy then lp = [] else posted k ch word lp)" for busy e
        by (auto intro: runs_mono [OF runs_post])
      show ?thesis
        unfolding Some option.case
      proof (rule runs_bind [OF runs_channel_busy], rule runs_bind [OF post],
          rule runs_bind [OF runs_release], elim conjE, goal_cases)
        case (1 busy d2 ls u d3 lp released d4 lr)
        note l = lock [OF 1(4) 1(1) 1(2)]
        show ?case
          using l again [of "la @ ls @ lp @ lr"] by (cases busy; cases released) auto
      qed
    qed
  qed
qed simp

section \<open>What the handler accounts for\<close>

definition slot_loads :: "shim_event list \<Rightarrow> (nat \<times> u64) list" where
  "slot_loads log = concat (map (\<lambda>e. case e of Slot_Load ch w \<Rightarrow> [(ch, w)] | _ \<Rightarrow> []) log)"

definition slot_stores :: "shim_event list \<Rightarrow> (nat \<times> u64) list" where
  "slot_stores log = concat (map (\<lambda>e. case e of Slot_Store ch w \<Rightarrow> [(ch, w)] | _ \<Rightarrow> []) log)"

definition mbox_stores :: "mbox_register \<Rightarrow> shim_event list \<Rightarrow> u8 list" where
  "mbox_stores reg log = concat (map (\<lambda>e. case e of Mbox_Store r v \<Rightarrow> if r = reg then [v] else [] | _ \<Rightarrow> []) log)"

definition queue_sends :: "shim_event list \<Rightarrow> (queue \<times> u64 \<times> bool) list" where
  "queue_sends log = concat (map (\<lambda>e. case e of Queue_Send q w s \<Rightarrow> [(q, w, s)] | _ \<Rightarrow> []) log)"

definition rtos_delays :: "shim_event list \<Rightarrow> u32 list" where
  "rtos_delays log = concat (map (\<lambda>e. case e of Rtos_Delay n \<Rightarrow> [n] | _ \<Rightarrow> []) log)"

lemmas projections = slot_loads_def slot_stores_def mbox_stores_def queue_sends_def rtos_delays_def

lemma projections_append [simp]:
  "slot_loads (xs @ ys) = slot_loads xs @ slot_loads ys"
  "slot_stores (xs @ ys) = slot_stores xs @ slot_stores ys"
  "mbox_stores reg (xs @ ys) = mbox_stores reg xs @ mbox_stores reg ys"
  "queue_sends (xs @ ys) = queue_sends xs @ queue_sends ys"
  "rtos_delays (xs @ ys) = rtos_delays xs @ rtos_delays ys"
  by (simp_all add: projections)

text \<open>Events of the lock itself appear in no projection.\<close>

definition silent :: "shim_event list \<Rightarrow> bool" where
  "silent log \<longleftrightarrow> slot_loads log = [] \<and> slot_stores log = [] \<and> (\<forall>reg. mbox_stores reg log = []) \<and>
     queue_sends log = [] \<and> rtos_delays log = [] \<and> (\<forall>n. Irq_Disable n \<notin> set log)"

lemma silent_append [simp]: "silent (xs @ ys) \<longleftrightarrow> silent xs \<and> silent ys"
  by (auto simp: silent_def)

lemma silent_simps [simp]:
  "silent []" "silent (Mie_Clear b # log) = silent log" "silent (Mie_Set # log) = silent log"
  "silent (Spin_Load v # log) = silent log" "silent (Spin_Store t # log) = silent log"
  "silent (Shim_Fence # log) = silent log" "silent (Mbox_Load reg x # log) = silent log"
  by (simp_all add: silent_def projections)

lemma silent_missed [simp]: "silent (missed t vs)"
  by (induction vs) simp_all

lemma silent_won [simp]: "silent (won t)"
  by (simp add: won_def)

lemma silent_acquire: "acquire_spec k n terminal d r d' log \<Longrightarrow> silent log"
  by (cases r) (auto simp: acquire_spec_def Let_def)

lemma silent_release: "release_spec guard d r d' log \<Longrightarrow> silent log"
  by (cases "restore_irqs guard") (auto simp: release_spec_def)

lemma silent_scanned: "scanned bits ps busy log \<Longrightarrow> silent log"
proof -
  have "silent (map2 (\<lambda>p v. Mbox_Load (En p) v) ps vs)" for ps vs
    by (induction ps vs rule: list_induct2') simp_all
  then show "scanned bits ps busy log \<Longrightarrow> silent log" by (auto simp: scanned_def)
qed

lemma channel_bit_iff: "(v AND channel_bit ch \<noteq> 0) = bit v ch"
  by (simp add: channel_bit_def bit_iff_and_push_bit_not_eq_0)

lemma bit_channel_bit: "bit (channel_bit ch) i \<longleftrightarrow> i = ch \<and> ch < 8"
  by (auto simp: channel_bit_def bit_simps)

lemma count_events_card: "count_events u n = n + of_nat (card {i. bit u i})"
proof (induction u n rule: count_events.induct)
  case (1 u n)
  show ?case
  proof (cases "u = 0")
    case True
    then show ?thesis by (simp add: count_events.simps)
  next
    case False
    have fin: "finite {i. bit (drop_bit 1 u) i}"
      by (rule finite_subset [of _ "{..<8}"]) (use bit_imp_le_length in fastforce)+
    have bits: "{i. bit u i} = (if bit u 0 then {0} else {}) \<union> Suc ` {i. bit (drop_bit 1 u) i}"
    proof (rule set_eqI)
      fix i show "i \<in> {i. bit u i} \<longleftrightarrow> i \<in> (if bit u 0 then {0} else {}) \<union> Suc ` {i. bit (drop_bit 1 u) i}"
        by (cases i) (auto simp: bit_simps bit_0)
    qed
    have one: "ucast (u AND 1) = (if bit u 0 then 1 else 0 :: u32)"
      by (simp add: and_one_eq bit_0 odd_iff_mod_2_eq_one even_iff_mod_2_eq_zero)
    have "card {i. bit u i} = (if bit u 0 then 1 else 0) + card {i. bit (drop_bit 1 u) i}"
      unfolding bits using fin by (auto simp: card_image card_insert_if)
    with 1 False show ?thesis
      by (subst count_events.simps) (simp add: one)
  qed
qed

lemma taken_projections:
  assumes "taken k pending ch r log"
  shows "slot_loads log = (if bit pending ch then [(ch, the r)] else [])" "slot_stores log = []"
    "queue_sends log = []" "mbox_stores (Int_Clr (RTOS_CPU_ID k)) log = (if bit pending ch then [channel_bit ch] else [])"
    "r = (if bit pending ch then Some (the r) else None)" "Irq_Disable n \<notin> set log"
  using assms by (auto simp: taken_def projections channel_bit_iff split: if_splits)

lemma drained_projections:
  assumes "drained k u log"
  shows "slot_loads log = []" "slot_stores log = []" "queue_sends log = []"
    "mbox_stores (Int_Clr (RTOS_CPU_ID k)) log = (if u \<noteq> 0 then [u] else [])" "Irq_Disable n \<notin> set log"
  using assms by (auto simp: drained_def projections split: if_splits)

lemma handed_over_projections:
  assumes "handed_over q f word d d' log"
  shows "slot_loads log = []" "slot_stores log = []" "mbox_stores reg log = []"
    "map (\<lambda>(q, w, s). (q, w)) (queue_sends log) = (case word of None \<Rightarrow> [] | Some w \<Rightarrow> [(q, w)])"
    "d' = (if \<exists>w. (q, w, False) \<in> set (queue_sends log) then f d else d)" "Irq_Disable n \<notin> set log"
  using assms by (auto simp: handed_over_def projections split: option.splits if_splits)

text \<open>
  The account of one interrupt from the static variables \<open>d\<close>, entered with interrupts off. Both
  accounts begin with the attempts on the lock under the next token: a deferral is the whole of its
  attempts, each reading back a foreign token, and touches nothing else except that the interrupt is
  masked when the limit is reached. A service begins when an attempt reads the token back, and loads
  the pending register of the own processor next. Every channel pending in that value is
  acknowledged; the words of the two known channels are read once and each is queued or counted as
  dropped; the other channels are counted and not read.
\<close>

definition failed_sends :: "queue \<Rightarrow> shim_event list \<Rightarrow> nat" where
  "failed_sends q log = length (filter (\<lambda>(q', w, s). q' = q \<and> \<not> s) (queue_sends log))"

definition deferral_account :: "mailbox_contract \<Rightarrow> shim \<Rightarrow> int \<Rightarrow> shim \<Rightarrow> shim_event list \<Rightarrow> bool" where
  "deferral_account k d r d' log \<longleftrightarrow> r = MAILBOX_LOCK_ERROR \<and> d' = deferred k (next_token d) \<and>
     (\<exists>vs. length vs = MAILBOX_HWSPIN_IRQ_ACQUIRE_ATTEMPTS k \<and> token_of k (next_token d) \<notin> set vs \<and>
        log = Mie_Clear False # missed (token_of k (next_token d)) vs @
          (if limit_reached k d then [Irq_Disable (MAILBOX_C906L_IRQ k)] else []))"

definition service_account :: "mailbox_contract \<Rightarrow> shim \<Rightarrow> int \<Rightarrow> shim \<Rightarrow> shim_event list \<Rightarrow> bool" where
  "service_account k d r d' log \<longleftrightarrow> (\<exists>pending vs rest.
     length vs < MAILBOX_HWSPIN_IRQ_ACQUIRE_ATTEMPTS k \<and> token_of k (next_token d) \<notin> set vs \<and>
     log = Mie_Clear False # missed (token_of k (next_token d)) vs @ won (token_of k (next_token d)) @
       Mbox_Load (Int_Int (RTOS_CPU_ID k)) pending # rest \<and>
     map fst (slot_loads log) = filter (bit pending) [CHANNEL_CONTROL k, CHANNEL_VQ_KICK k] \<and>
     slot_stores log = [] \<and>
     fold (OR) (mbox_stores (Int_Clr (RTOS_CPU_ID k)) log) 0 = pending \<and>
     map (\<lambda>(q, w, s). (q, w)) (queue_sends log) = map (\<lambda>(ch, w).
       if ch = CHANNEL_CONTROL k then (Requests, w) else (Vq_Kicks, vq_id w)) (slot_loads log) \<and>
     request_drops d' = request_drops d + of_nat (failed_sends Requests log) \<and>
     vq_kick_drops d' = vq_kick_drops d + of_nat (failed_sends Vq_Kicks log) \<and>
     unexpected_mailbox_events d' = unexpected_mailbox_events d +
       of_nat (card {i. bit pending i \<and> i \<noteq> CHANNEL_CONTROL k \<and> i \<noteq> CHANNEL_VQ_KICK k}) \<and>
     mailbox_irq_lock_streak d' = 0 \<and> r \<in> {0, MAILBOX_LOCK_ERROR} \<and>
     mailbox_lock_failures d' = mailbox_lock_failures d + (if r = 0 then 0 else 1) \<and>
     Irq_Disable (MAILBOX_C906L_IRQ k) \<notin> set log)"

lemma limit_reached_token [simp]: "limit_reached k (next_token d) = limit_reached k d"
  by (simp add: limit_reached_def next_token_def Let_def)

lemma isr_deferral:
  assumes "acquire_spec k (MAILBOX_HWSPIN_IRQ_ACQUIRE_ATTEMPTS k) False d None d1 la" "\<not> mie d"
    "r = MAILBOX_LOCK_ERROR" "d' = deferred k d1"
    "lb = (if limit_reached k d1 then [Irq_Disable (MAILBOX_C906L_IRQ k)] else [])"
  shows "deferral_account k d r d' (la @ lb)"
  using assms by (auto simp: deferral_account_def acquire_spec_def Let_def)

lemma fold_acks:
  assumes "c < 8" "v < 8" "c \<noteq> v" "u = (pending :: u8) AND NOT (channel_bit c OR channel_bit v)"
  shows "fold (OR) ((if bit pending c then [channel_bit c] else []) @
    (if bit pending v then [channel_bit v] else []) @ (if u \<noteq> 0 then [u] else [])) 0 = pending"
proof -
  have "fold (OR) ((if bit pending c then [channel_bit c] else []) @
    (if bit pending v then [channel_bit v] else []) @ (if u \<noteq> 0 then [u] else [])) 0 =
    u OR (if bit pending c then channel_bit c else 0) OR (if bit pending v then channel_bit v else 0)"
    by (auto simp: or.assoc or.commute or.left_commute)
  also have "\<dots> = pending"
    by (rule bit_eqI) (use assms in \<open>auto simp: bit_simps bit_channel_bit split: if_splits\<close>)
  finally show ?thesis .
qed

lemma handed_over_counts:
  assumes "handed_over q f word d d' log"
  shows "d' = (if failed_sends q log = 0 then d else f d)" "failed_sends q log \<le> 1"
    "q' \<noteq> q \<Longrightarrow> failed_sends q' log = 0"
  using assms by (auto simp: handed_over_def failed_sends_def projections split: option.splits if_splits)

lemma failed_sends_append [simp]: "failed_sends q (xs @ ys) = failed_sends q xs + failed_sends q ys"
  by (simp add: failed_sends_def)

lemma failed_sends_none: "queue_sends log = [] \<Longrightarrow> failed_sends q log = 0"
  by (simp add: failed_sends_def)

text \<open>The counters after a service, in the order in which the handler changes them.\<close>

lemma service_counters:
  assumes "release_spec guard (counted u (d\<lparr>mailbox_irq_lock_streak := 0\<rparr>)) released d1 lr"
    "handed_over Requests request_dropped cw d1 d2 q1"
    "handed_over Vq_Kicks kick_dropped vw d2 d' q2" "\<not> restore_irqs guard"
  shows "request_drops d' = request_drops d + of_nat (failed_sends Requests (q1 @ q2))"
    "vq_kick_drops d' = vq_kick_drops d + of_nat (failed_sends Vq_Kicks (q1 @ q2))"
    "unexpected_mailbox_events d' = unexpected_mailbox_events d + of_nat (card {i. bit u i})"
    "mailbox_irq_lock_streak d' = 0"
    "mailbox_lock_failures d' = mailbox_lock_failures d + (if released then 0 else 1)"
proof -
  have d1: "d1 = (let x = counted u (d\<lparr>mailbox_irq_lock_streak := 0\<rparr>) in if released then x else lock_failed x)"
    using assms(1,4) by (auto simp: release_spec_def)
  note a = handed_over_counts(1,2) [OF assms(2)] handed_over_counts(3) [OF assms(2), of Vq_Kicks, simplified]
  note b = handed_over_counts(1,2) [OF assms(3)] handed_over_counts(3) [OF assms(3), of Requests, simplified]
  from a b d1 show "request_drops d' = request_drops d + of_nat (failed_sends Requests (q1 @ q2))"
    by (auto simp: counted_def lock_failed_def Let_def le_Suc_eq)
  from a b d1 show "vq_kick_drops d' = vq_kick_drops d + of_nat (failed_sends Vq_Kicks (q1 @ q2))"
    by (auto simp: counted_def lock_failed_def Let_def le_Suc_eq)
  from a b d1 show "unexpected_mailbox_events d' = unexpected_mailbox_events d + of_nat (card {i. bit u i})"
    by (auto simp: counted_def lock_failed_def Let_def count_events_card)
  from a b d1 show "mailbox_irq_lock_streak d' = 0"
    by (auto simp: counted_def lock_failed_def Let_def)
  from a b d1 show "mailbox_lock_failures d' = mailbox_lock_failures d + (if released then 0 else 1)"
    by (auto simp: counted_def lock_failed_def Let_def)
qed

lemma service_projections:
  fixes wake :: bool
  assumes "taken k pending (CHANNEL_CONTROL k) cw lc" "taken k pending (CHANNEL_VQ_KICK k) vw lv"
    "drained k (unexpected_of k pending) lu" "silent lr"
    "handed_over Requests request_dropped cw d1 d2 q1"
    "handed_over Vq_Kicks kick_dropped (map_option vq_id vw) d2 d' q2" "mailbox_ok k"
  defines "log \<equiv> Mbox_Load (Int_Int (RTOS_CPU_ID k)) pending # lc @ lv @ lu @ lr @ q1 @ q2 @ [Yield wake]"
  shows "map fst (slot_loads log) = filter (bit pending) [CHANNEL_CONTROL k, CHANNEL_VQ_KICK k]"
    "slot_stores log = []" "queue_sends log = queue_sends (q1 @ q2)"
    "fold (OR) (mbox_stores (Int_Clr (RTOS_CPU_ID k)) log) 0 = pending"
    "map (\<lambda>(q, w, s). (q, w)) (queue_sends log) = map (\<lambda>(ch, w).
       if ch = CHANNEL_CONTROL k then (Requests, w) else (Vq_Kicks, vq_id w)) (slot_loads log)"
    "Irq_Disable (MAILBOX_C906L_IRQ k) \<notin> set log"
proof -
  note t = taken_projections [OF assms(1)] taken_projections [OF assms(2)]
  note p = drained_projections [OF assms(3)] handed_over_projections [OF assms(5)] handed_over_projections [OF assms(6)]
  have ends: "slot_loads (Mbox_Load reg v # l) = slot_loads l" "slot_stores (Mbox_Load reg v # l) = slot_stores l"
    "queue_sends (Mbox_Load reg v # l) = queue_sends l" "mbox_stores x (Mbox_Load reg v # l) = mbox_stores x l"
    "slot_loads [Yield wake] = []" "slot_stores [Yield wake] = []" "queue_sends [Yield wake] = []"
    "mbox_stores x [Yield wake] = []" for reg v l x
    by (simp_all add: projections)
  have lr: "slot_loads lr = []" "slot_stores lr = []" "queue_sends lr = []" "mbox_stores x lr = []"
    "Irq_Disable n \<notin> set lr" for x n
    using assms(4) by (simp_all add: silent_def)
  have ch: "CHANNEL_CONTROL k < 8" "CHANNEL_VQ_KICK k < 8" "CHANNEL_CONTROL k \<noteq> CHANNEL_VQ_KICK k"
    using assms(7) by (simp_all add: mailbox_ok_def)
  have loads: "slot_loads log = (if bit pending (CHANNEL_CONTROL k) then [(CHANNEL_CONTROL k, the cw)] else []) @
      (if bit pending (CHANNEL_VQ_KICK k) then [(CHANNEL_VQ_KICK k, the vw)] else [])"
    by (simp add: log_def ends lr t p)
  then show "map fst (slot_loads log) = filter (bit pending) [CHANNEL_CONTROL k, CHANNEL_VQ_KICK k]" by simp
  show "slot_stores log = []" by (simp add: log_def ends lr t p)
  show sends: "queue_sends log = queue_sends (q1 @ q2)" by (simp add: log_def ends lr t p)
  show "fold (OR) (mbox_stores (Int_Clr (RTOS_CPU_ID k)) log) 0 = pending"
    unfolding log_def using fold_acks [OF ch, of "unexpected_of k pending" pending] by (simp add: ends lr t p)
  show "map (\<lambda>(q, w, s). (q, w)) (queue_sends log) = map (\<lambda>(ch, w).
       if ch = CHANNEL_CONTROL k then (Requests, w) else (Vq_Kicks, vq_id w)) (slot_loads log)"
    unfolding sends loads using ch t(5) t(11) p(9) p(15)
    by (cases cw; cases vw) (auto split: if_splits)
  show "Irq_Disable (MAILBOX_C906L_IRQ k) \<notin> set log"
    using t(6) t(12) p lr by (auto simp: log_def)
qed

lemma isr_service:
  assumes "mailbox_ok k" "acquire_spec k (MAILBOX_HWSPIN_IRQ_ACQUIRE_ATTEMPTS k) False d (Some guard) d1 la"
    "\<not> mie d" "served_spec k guard d1 r d' lb"
  shows "service_account k d r d' (la @ lb)"
proof -
  obtain vs where vs: "length vs < MAILBOX_HWSPIN_IRQ_ACQUIRE_ATTEMPTS k"
    "token_of k (next_token d) \<notin> set vs"
    "la = Mie_Clear False # missed (token_of k (next_token d)) vs @ won (token_of k (next_token d))"
    using assms(2,3) by (auto simp: acquire_spec_def Let_def)
  have d1: "d1 = next_token d" "\<not> restore_irqs guard"
    using assms(2,3) by (auto simp: acquire_spec_def Let_def)
  from assms(4) obtain pending cw vw lc lv lu lr q1 q2 released e1 e2 wake where
    s: "taken k pending (CHANNEL_CONTROL k) cw lc" "taken k pending (CHANNEL_VQ_KICK k) vw lv"
      "drained k (unexpected_of k pending) lu"
      "release_spec guard (counted (unexpected_of k pending) (d1\<lparr>mailbox_irq_lock_streak := 0\<rparr>)) released e1 lr"
      "handed_over Requests request_dropped cw e1 e2 q1"
      "handed_over Vq_Kicks kick_dropped (map_option vq_id vw) e2 d' q2"
      "r = (if released then 0 else MAILBOX_LOCK_ERROR)"
      "lb = Mbox_Load (Int_Int (RTOS_CPU_ID k)) pending # lc @ lv @ lu @ lr @ q1 @ q2 @ [Yield wake]"
    unfolding served_spec_def by blast
  note c = service_counters [OF s(4,5,6) d1(2)]
  note p = service_projections [OF s(1,2,3) silent_release [OF s(4)] s(5,6) assms(1), of wake, folded s(8)]
  have la: "silent la" using assms(2) by (rule silent_acquire)
  have "bit (unexpected_of k pending) i \<longleftrightarrow> bit pending i \<and> i \<noteq> CHANNEL_CONTROL k \<and> i \<noteq> CHANNEL_VQ_KICK k" for i
    using assms(1) bit_imp_le_length [of pending i] by (auto simp: bit_simps bit_channel_bit mailbox_ok_def)
  then have u: "{i. bit (unexpected_of k pending) i} =
      {i. bit pending i \<and> i \<noteq> CHANNEL_CONTROL k \<and> i \<noteq> CHANNEL_VQ_KICK k}" by blast
  have nt: "request_drops d1 = request_drops d" "vq_kick_drops d1 = vq_kick_drops d"
    "unexpected_mailbox_events d1 = unexpected_mailbox_events d"
    "mailbox_lock_failures d1 = mailbox_lock_failures d"
    by (simp_all add: d1 next_token_def Let_def)
  have fs: "failed_sends q lb = failed_sends q (q1 @ q2)" for q
    unfolding failed_sends_def p(3) ..
  have app: "slot_loads (la @ lb) = slot_loads lb" "slot_stores (la @ lb) = slot_stores lb"
    "queue_sends (la @ lb) = queue_sends lb" "mbox_stores reg (la @ lb) = mbox_stores reg lb"
    "failed_sends q (la @ lb) = failed_sends q lb" "Irq_Disable i \<in> set (la @ lb) \<longleftrightarrow> Irq_Disable i \<in> set lb" for reg q i
    using la by (auto simp: silent_def failed_sends_def)
  have course: "la @ lb = Mie_Clear False # missed (token_of k (next_token d)) vs @
      won (token_of k (next_token d)) @ Mbox_Load (Int_Int (RTOS_CPU_ID k)) pending #
      lc @ lv @ lu @ lr @ q1 @ q2 @ [Yield wake]"
    by (simp add: vs(3) s(8))
  show ?thesis
    unfolding service_account_def app
    by (rule exI [of _ pending], rule exI [of _ vs], rule exI, intro conjI)
      (fact vs(1,2) course p c [unfolded u nt, folded fs] | simp add: c nt s(7) MAILBOX_LOCK_ERROR_def)+
qed

section \<open>What the sender posts\<close>

text \<open>The events \<open>xs\<close> end with a scan of all processors that found the channel free.\<close>

definition scanned_free :: "mailbox_contract \<Rightarrow> nat \<Rightarrow> shim_event list \<Rightarrow> bool" where
  "scanned_free k ch xs \<longleftrightarrow> (\<exists>zs vs. length vs = MAILBOX_PROCESSOR_COUNT k \<and> (\<forall>v\<in>set vs. \<not> bit v ch) \<and>
     xs = zs @ map2 (\<lambda>p v. Mbox_Load (En p) v) [0..<MAILBOX_PROCESSOR_COUNT k] vs)"

definition posted_once :: "mailbox_contract \<Rightarrow> nat \<Rightarrow> u64 \<Rightarrow> shim_event list \<Rightarrow> bool" where
  "posted_once k ch word log \<longleftrightarrow> slot_stores log = [(ch, word)] \<and> mbox_stores Mbox_Set log = [channel_bit ch] \<and>
     (\<exists>xs ys. log = xs @ Slot_Store ch word # ys \<and> scanned_free k ch xs)"

definition unposted :: "shim_event list \<Rightarrow> bool" where
  "unposted log \<longleftrightarrow> slot_stores log = [] \<and> mbox_stores Mbox_Set log = []"

lemma posted_projections:
  assumes "posted k ch word log"
  shows "slot_stores log = [(ch, word)]" "mbox_stores Mbox_Set log = [channel_bit ch]"
    "rtos_delays log = []" "log = Slot_Store ch word # tl log"
  using assms by (auto simp: posted_def projections)

lemma scanned_free_append:
  assumes "scanned (channel_bit ch) [0..<MAILBOX_PROCESSOR_COUNT k] False ls"
  shows "scanned_free k ch (la @ ls)"
proof -
  from assms obtain vs where "length vs = MAILBOX_PROCESSOR_COUNT k" "\<forall>v\<in>set vs. \<not> bit v ch"
    "ls = map2 (\<lambda>p v. Mbox_Load (En p) v) [0..<MAILBOX_PROCESSOR_COUNT k] vs"
    by (auto simp: scanned_def channel_bit_iff [symmetric])
  then show ?thesis unfolding scanned_free_def by blast
qed

lemma scanned_free_prepend: "scanned_free k ch xs \<Longrightarrow> scanned_free k ch (zs @ xs)"
  unfolding scanned_free_def by (metis append.assoc)

lemma round_outcome:
  assumes "send_round k ch word busy released log"
  shows "(if busy then unposted log else posted_once k ch word log) \<and> rtos_delays log = []"
proof -
  from assms obtain d guard d1 d2 d3 la ls lp lr where s: "log = la @ ls @ lp @ lr"
    "acquire_spec k (MAILBOX_HWSPIN_TASK_ACQUIRE_ATTEMPTS k) True d (Some guard) d1 la"
    "scanned (channel_bit ch) [0..<MAILBOX_PROCESSOR_COUNT k] busy ls"
    "if busy then lp = [] else posted k ch word lp" "release_spec guard d2 released d3 lr"
    unfolding send_round_def by blast
  note q = silent_acquire [OF s(2)] silent_scanned [OF s(3)] silent_release [OF s(5)]
  show ?thesis
  proof (cases busy)
    case True
    with s(1,4) q show ?thesis by (simp add: unposted_def silent_def)
  next
    case False
    then have p: "posted k ch word lp" using s(4) by simp
    have "log = (la @ ls) @ Slot_Store ch word # (tl lp @ lr)"
      unfolding s(1) by (subst posted_projections(4) [OF p]) simp
    moreover have "scanned_free k ch (la @ ls)"
      using s(3) False by (simp add: scanned_free_append)
    ultimately have "\<exists>xs ys. log = xs @ Slot_Store ch word # ys \<and> scanned_free k ch xs" by blast
    moreover have "slot_stores log = [(ch, word)]" "mbox_stores Mbox_Set log = [channel_bit ch]" "rtos_delays log = []"
      using q posted_projections(1-3) [OF p] by (simp_all add: s(1) silent_def)
    ultimately show ?thesis using False by (simp add: posted_once_def)
  qed
qed

lemma posted_once_prepend:
  "unposted xs \<Longrightarrow> posted_once k ch word log \<Longrightarrow> posted_once k ch word (xs @ log)"
  unfolding posted_once_def unposted_def by (auto intro: scanned_free_prepend) (metis append.assoc scanned_free_prepend)

text \<open>The outcome of \<open>n\<close> rounds.\<close>

definition send_account :: "mailbox_contract \<Rightarrow> nat \<Rightarrow> u64 \<Rightarrow> nat \<Rightarrow> int \<Rightarrow> shim_event list \<Rightarrow> bool" where
  "send_account k ch word n r log \<longleftrightarrow> length (rtos_delays log) \<le> n - 1 \<and>
     ((r = 0 \<and> posted_once k ch word log) \<or>
      (r = MAILBOX_BUSY \<and> unposted log \<and> rtos_delays log = replicate (n - 1) 1) \<or>
      (r = MAILBOX_LOCK_ERROR \<and> (unposted log \<or> posted_once k ch word log)))"

lemma send_outcome: "sender_spec k ch word n r log \<Longrightarrow> send_account k ch word n r log"
proof (induction n arbitrary: log)
  case 0
  then show ?case by (simp add: send_account_def unposted_def projections)
next
  case (Suc n)
  from Suc.prems consider
      (locked) d d1 where "acquire_spec k (MAILBOX_HWSPIN_TASK_ACQUIRE_ATTEMPTS k) True d None d1 log" "r = MAILBOX_LOCK_ERROR"
    | (broken) busy where "send_round k ch word busy False log" "r = MAILBOX_LOCK_ERROR"
    | (sent) "send_round k ch word False True log" "r = 0"
    | (again) l1 l2 where "send_round k ch word True True l1" "sender_spec k ch word n r l2"
      "log = l1 @ (if n > 0 then [Rtos_Delay 1] else []) @ l2"
    by auto
  then show ?case
  proof cases
    case locked
    from silent_acquire [OF locked(1)] locked(2) show ?thesis
      by (simp add: send_account_def unposted_def silent_def)
  next
    case broken
    from round_outcome [OF broken(1)] broken(2) show ?thesis
      by (auto simp: send_account_def split: if_splits)
  next
    case sent
    from round_outcome [OF sent(1)] sent(2) show ?thesis by (simp add: send_account_def)
  next
    case again
    let ?pre = "l1 @ (if n > 0 then [Rtos_Delay 1] else [])"
    have pre: "unposted ?pre" "rtos_delays ?pre = (if n > 0 then [1] else [])"
      using round_outcome [OF again(1)] by (auto simp: unposted_def projections)
    have log: "log = ?pre @ l2" using again(3) by simp
    have delays: "rtos_delays log = (if n > 0 then [1] else []) @ rtos_delays l2"
      unfolding log projections_append(5) [of ?pre] pre(2) ..
    have "unposted l2 \<Longrightarrow> unposted log" using pre(1) by (simp add: log unposted_def)
    moreover have "posted_once k ch word l2 \<Longrightarrow> posted_once k ch word log"
      unfolding log by (rule posted_once_prepend [OF pre(1)])
    ultimately show ?thesis
      using Suc.IH [OF again(2)] unfolding send_account_def delays
      by (cases n) (auto simp: replicate_append_same)
  qed
qed

section \<open>Timer glue and start\<close>

text \<open>The timer interrupt of a channel is installed, disabled and dispatched only when the channel is
  compiled in and the number is its own; otherwise nothing happens.\<close>

lemma timer_irq_install_exact:
  "runs (c906l_timer_irq_install k env ch irq) d (\<lambda>r d' n.
     if map_of (TIMER_IRQS k) ch = Some irq then n = [Irq_Request (unat irq) (Timer_Isr ch) r]
     else r = -1 \<and> d' = d \<and> n = [])"
  by (auto simp: c906l_timer_irq_install_def split: option.split intro!: runs_sense)

lemma timer_irq_disable_exact:
  "runs (c906l_timer_irq_disable k env ch irq) d (\<lambda>r d' n. d' = d \<and>
     n = (if map_of (TIMER_IRQS k) ch = Some irq then [Irq_Disable (unat irq)] else []))"
  by (auto simp: c906l_timer_irq_disable_def split: option.split intro!: runs_store)

lemma timer_isr_exact:
  "timer_isr k handler ch irqn priv_null =
     (if map_of (TIMER_IRQS k) ch = Some irqn \<and> priv_null then handler ch irqn else ok (-1))"
  by (auto simp: timer_isr_def split: option.split)

text \<open>The scheduler is started last, and only after both queues exist, the mailbox was reset under the
  lock, its interrupt was installed and every task was created.\<close>

definition started_log :: "mailbox_contract \<Rightarrow> bool \<Rightarrow> shim_event list \<Rightarrow> bool" where
  "started_log k lcd log \<longleftrightarrow> (\<exists>la lr v d guard d1 d2 d3. log =
     [Queue_Create Requests True, Queue_Create Vq_Kicks True] @ la @
     [Mbox_Store (Int_Clr (RTOS_CPU_ID k)) (of_nat (2 ^ MAILBOX_SLOT_COUNT k - 1)),
      Mbox_Load (En (RTOS_CPU_ID k)) v,
      Mbox_Store (En (RTOS_CPU_ID k)) (v AND NOT (of_nat (2 ^ MAILBOX_SLOT_COUNT k - 1))), Shim_Fence] @ lr @
     [Irq_Request (MAILBOX_C906L_IRQ k) Mailbox_Isr 0, Task_Create Control_Task 1024 2 True,
      Task_Create Rpmsg_Task 2048 2 True] @ (if lcd then [Task_Create Lcd_Task 2048 1 True] else []) @
     [Scheduler True] \<and>
     acquire_spec k (MAILBOX_HWSPIN_TASK_ACQUIRE_ATTEMPTS k) True d (Some guard) d1 la \<and>
     release_spec guard d2 True d3 lr)"

lemma runs_reset_mailbox:
  "runs (reset_mailbox k env) d (\<lambda>_ d' n. \<exists>v. n =
     [Mbox_Store (Int_Clr (RTOS_CPU_ID k)) (of_nat (2 ^ MAILBOX_SLOT_COUNT k - 1)),
      Mbox_Load (En (RTOS_CPU_ID k)) v,
      Mbox_Store (En (RTOS_CPU_ID k)) (v AND NOT (of_nat (2 ^ MAILBOX_SLOT_COUNT k - 1))), Shim_Fence])"
  unfolding reset_mailbox_def clear_interrupts_def and_assign_def shim_fence_def bind_assoc
  by (intro runs_steps) auto

lemma runs_bind_sense:
  "(\<And>v d'. runs (f v) d' (\<lambda>a d'' n. Q a d'' (ev v # n))) \<Longrightarrow> runs (bind (sense g ev) f) d Q"
  by (rule runs_bind [where P = "\<lambda>v d' n. n = [ev v]"]) (auto intro: runs_sense)

lemma runs_start_tasks:
  "runs (bind (create_task env Control_Task 1024 2) (\<lambda>created. if \<not> created then ok (Some (-4)) else
     bind (create_task env Rpmsg_Task 2048 2) (\<lambda>created. if \<not> created then ok (Some (-5)) else
     bind (if lcd then create_task env Lcd_Task 2048 1 else ok True) (\<lambda>created.
       if \<not> created then ok (Some (-9)) else
     bind (sense (fr_start_scheduler env) Scheduler) (\<lambda>started.
     ok (if started then None else Some (-6 :: int))))))) d (\<lambda>r d' n. r = None \<longrightarrow> n =
       [Task_Create Control_Task 1024 2 True, Task_Create Rpmsg_Task 2048 2 True] @
       (if lcd then [Task_Create Lcd_Task 2048 1 True] else []) @ [Scheduler True])"
proof -
  have fin: "runs (bind (sense (fr_start_scheduler env) Scheduler) (\<lambda>started.
      ok (if started then None else Some (-6 :: int)))) d (\<lambda>r d' n. r = None \<longrightarrow> n = [Scheduler True])" for d
    by (intro runs_bind_sense) auto
  have lcd: "runs (bind (if lcd then create_task env Lcd_Task 2048 1 else ok True) (\<lambda>created.
       if \<not> created then ok (Some (-9)) else
       bind (sense (fr_start_scheduler env) Scheduler) (\<lambda>started. ok (if started then None else Some (-6 :: int))))) d
     (\<lambda>r d' n. r = None \<longrightarrow> n = (if lcd then [Task_Create Lcd_Task 2048 1 True] else []) @ [Scheduler True])" for d
    by (cases lcd) (auto simp: create_task_def intro!: runs_bind_sense runs_mono [OF fin])
  show ?thesis
    unfolding create_task_def [of env Control_Task] create_task_def [of env Rpmsg_Task]
  proof (intro runs_bind_sense runs_if, goal_cases)
    case (3 a d1 b d2)
    then show ?case by (intro runs_mono [OF lcd]) simp
  qed simp_all
qed

lemma runs_start: "runs (c906l_platform_start k env lcd) d (\<lambda>r d' n. r = None \<longrightarrow> started_log k lcd n)"
  unfolding c906l_platform_start_def create_queue_def
proof (intro runs_bind_load runs_if runs_bind_update runs_bind [OF runs_acquire], goal_cases)
  case (3 q1 q2 lock d1 la)
  show ?case
  proof (cases lock)
    case (Some guard)
    show ?thesis
      unfolding Some option.case
    proof (rule runs_bind [OF runs_reset_mailbox], rule runs_bind [OF runs_release], elim exE, goal_cases)
      case (1 u d2 n released d3 lr v)
      show ?case
      proof (cases released)
        case True
        have "started_log k lcd ([Queue_Create Requests True, Queue_Create Vq_Kicks True] @ la @ n @ lr @
          [Irq_Request (MAILBOX_C906L_IRQ k) Mailbox_Isr 0] @ [Task_Create Control_Task 1024 2 True,
           Task_Create Rpmsg_Task 2048 2 True] @ (if lcd then [Task_Create Lcd_Task 2048 1 True] else []) @
          [Scheduler True])"
          unfolding started_log_def using 3 1 Some True by fastforce
        with True show ?thesis
        proof (intro runs_bind_sense runs_if, goal_cases)
          case (3 irq d4)
          then show ?case using \<open>\<not> \<not> q1\<close> \<open>\<not> \<not> q2\<close> by (intro runs_mono [OF runs_start_tasks]) simp
        qed simp_all
      qed simp
    qed
  qed simp
qed auto

section \<open>A mailbox\<close>

text \<open>The semaphore as the comment above \<open>mailbox_lock_next_token\<close> describes it: a non-zero token
  written to an idle field acquires it, the same token written again releases it.\<close>

definition semaphore :: "u16 \<Rightarrow> u16 \<Rightarrow> u16" where
  "semaphore holder t = (if t = 0 then holder else if holder = 0 then t else if holder = t then 0 else holder)"

text \<open>A mailbox that behaves: the spinlock is the semaphore above, registers and slots hold what
  was stored, pending interrupts are cleared by their acknowledgement, queues have room for one
  word. \<open>quiet_mailbox w\<close> has the control word \<open>w\<close> pending.\<close>

record bench =
  b_spin :: u16
  b_regs :: "mbox_register \<Rightarrow> u8"
  b_slots :: "nat \<Rightarrow> u64"
  b_queue :: "queue \<Rightarrow> u64 list"

definition bench_store :: "mbox_register \<Rightarrow> u8 \<Rightarrow> bench \<Rightarrow> bench" where
  "bench_store reg v b = (case reg of
     Int_Clr cpu \<Rightarrow> b\<lparr>b_regs := (b_regs b)(Int_Int cpu := b_regs b (Int_Int cpu) AND NOT v)\<rparr>
   | _ \<Rightarrow> b\<lparr>b_regs := (b_regs b)(reg := v)\<rparr>)"

definition bench_rtos :: "bench rtos" where
  "bench_rtos =
     \<lparr>fr_preempt = (\<lambda>s. s), fr_spin_load = (\<lambda>b. (b_spin b, b)),
      fr_spin_store = (\<lambda>t b. b\<lparr>b_spin := semaphore (b_spin b) t\<rparr>),
      fr_mbox_load = (\<lambda>reg b. (b_regs b reg, b)), fr_mbox_store = bench_store,
      fr_slot_load = (\<lambda>ch b. (b_slots b ch, b)),
      fr_slot_store = (\<lambda>ch w b. b\<lparr>b_slots := (b_slots b)(ch := w)\<rparr>),
      fr_queue_create = (\<lambda>q n b. (True, b\<lparr>b_queue := (b_queue b)(q := [])\<rparr>)),
      fr_queue_send = (\<lambda>q w b. if b_queue b q = [] then ((True, True), b\<lparr>b_queue := (b_queue b)(q := [w])\<rparr>)
        else ((False, False), b)),
      fr_yield = (\<lambda>w b. b), fr_disable_irq = (\<lambda>n b. b),
      fr_queue_receive = (\<lambda>q n (d, b). (case b_queue b q of
        [] \<Rightarrow> (None, (d, b)) | w # ws \<Rightarrow> (Some w, (d, b\<lparr>b_queue := (b_queue b)(q := ws)\<rparr>)))),
      fr_request_irq = (\<lambda>n h s. (0, s)), fr_task_create = (\<lambda>t n p s. (True, s)),
      fr_start_scheduler = (\<lambda>s. (True, s)), fr_ticks = (\<lambda>s. (0, s)), fr_clean = (\<lambda>a n s. s),
      fr_invalidate = (\<lambda>a n s. s), fr_delay = (\<lambda>n s. s)\<rparr>"

definition shim_boot :: "bool \<Rightarrow> shim" where
  "shim_boot irqs = \<lparr>mie = irqs, request_drops = 0, vq_kick_drops = 0, mailbox_lock_failures = 0,
     mailbox_irq_lock_deferrals = 0, mailbox_irq_lock_streak = 0, unexpected_mailbox_events = 0,
     mailbox_lock_counter = 0\<rparr>"

definition quiet_mailbox :: "u64 \<Rightarrow> bench" where
  "quiet_mailbox w = \<lparr>b_spin = 0, b_regs = (\<lambda>reg. if reg = Int_Int 2 then 1 else 0),
     b_slots = (\<lambda>ch. if ch = 0 then w else 0), b_queue = (\<lambda>q. [])\<rparr>"

definition bench_machine :: "bool \<Rightarrow> bench shim_machine" where
  "bench_machine irqs = \<lparr>m_hw = (shim_boot irqs, quiet_mailbox 7), m_log = []\<rparr>"

section \<open>Properties\<close>

text \<open>C10: the mailbox interrupt handler loses nothing silently. Entered with interrupts off, it always
  returns. When each of its attempts reads back a foreign token, the mailbox is untouched and the
  deferral is counted; the interrupt is masked and a lock failure recorded exactly when the limit
  of consecutive deferrals is reached. When an attempt reads its own token back, the next access
  loads the pending register of the own processor, and exactly the channels set in the value it
  returned are acknowledged, the control and kick words are read once each, and each is queued, or
  its loss is counted in \<open>request_drops\<close> or \<open>vq_kick_drops\<close>; pending channels outside the protocol
  are counted and their slots never read.\<close>

theorem mailbox_isr_accounts:
  assumes "mailbox_ok k" "\<not> mie (fst (m_hw m))"
  shows "\<exists>r m' new. mailbox_isr k env m = Some (Inr r, m') \<and> m_log m' = m_log m @ new \<and>
    (deferral_account k (fst (m_hw m)) r (fst (m_hw m')) new \<or>
     service_account k (fst (m_hw m)) r (fst (m_hw m')) new)"
proof -
  obtain r m' new where run: "mailbox_isr k env m = Some (Inr r, m')" "m_log m' = m_log m @ new"
    "isr_spec k (fst (m_hw m)) r (fst (m_hw m')) new"
    using runs_run [OF runs_isr] by blast
  from run(3) obtain lock d1 la lb where s: "new = la @ lb"
    "acquire_spec k (MAILBOX_HWSPIN_IRQ_ACQUIRE_ATTEMPTS k) False (fst (m_hw m)) lock d1 la"
    "case lock of None \<Rightarrow> r = MAILBOX_LOCK_ERROR \<and> fst (m_hw m') = deferred k d1 \<and>
          lb = (if limit_reached k d1 then [Irq_Disable (MAILBOX_C906L_IRQ k)] else [])
      | Some guard \<Rightarrow> served_spec k guard d1 r (fst (m_hw m')) lb"
    unfolding isr_spec_def by blast
  have "deferral_account k (fst (m_hw m)) r (fst (m_hw m')) new \<or>
     service_account k (fst (m_hw m)) r (fst (m_hw m')) new"
    using s isr_deferral [OF _ assms(2)] isr_service [OF assms(1) _ assms(2)] by (cases lock) auto
  with run show ?thesis by blast
qed

text \<open>The handler on a mailbox with a pending control word: the word is queued.\<close>

lemma bench_isr:
  "map_option (\<lambda>(r, m). (r, m_log m, request_drops (fst (m_hw m))))
     (mailbox_isr timer_mailbox bench_rtos (bench_machine False)) =
   Some (Inr 0, Mie_Clear False # won 0x100 @
     [Mbox_Load (Int_Int 2) 1, Slot_Load 0 7, Shim_Fence, Mbox_Store (Int_Clr 2) 1, Mbox_Load (En 2) 0,
      Mbox_Store (En 2) 0, Shim_Fence, Shim_Fence, Spin_Load 0x100, Spin_Store 0x100, Shim_Fence,
      Queue_Send Requests 7 True, Yield True], 0)"
  by code_simp

theorem mailbox_isr_accounts_witness:
  "mailbox_ok timer_mailbox \<and> \<not> mie (fst (m_hw (bench_machine False))) \<and>
   (\<exists>r m' new. mailbox_isr timer_mailbox bench_rtos (bench_machine False) = Some (Inr r, m') \<and>
     m_log m' = m_log (bench_machine False) @ new \<and>
     service_account timer_mailbox (fst (m_hw (bench_machine False))) r (fst (m_hw m')) new)"
proof -
  have off: "\<not> mie (fst (m_hw (bench_machine False)))" by (simp add: bench_machine_def shim_boot_def)
  from mailbox_isr_accounts [OF timer_mailbox_ok off, of bench_rtos] obtain r m' new where
    run: "mailbox_isr timer_mailbox bench_rtos (bench_machine False) = Some (Inr r, m')"
    "m_log m' = m_log (bench_machine False) @ new"
    "deferral_account timer_mailbox (fst (m_hw (bench_machine False))) r (fst (m_hw m')) new \<or>
     service_account timer_mailbox (fst (m_hw (bench_machine False))) r (fst (m_hw m')) new" by blast
  with bench_isr have "r = 0" by simp
  then have "\<not> deferral_account timer_mailbox (fst (m_hw (bench_machine False))) r (fst (m_hw m')) new"
    by (simp add: deferral_account_def MAILBOX_LOCK_ERROR_def)
  with run off timer_mailbox_ok show ?thesis by blast
qed

text \<open>C11: the sender never overwrites a message Linux has not taken. For every behaviour of the
  hardware it returns after at most \<open>retries\<close> rounds, one tick apart. It returns 0 only when the word
  was stored in the channel's slot once, after a scan in the same critical section that found the
  channel free for every processor, and the doorbell was rung once; \<open>MAILBOX_BUSY\<close> means that all
  rounds found the channel occupied and nothing was stored.\<close>

theorem mailbox_send_exact:
  "\<exists>r m' new. mailbox_send k env ch word retries m = Some (Inr r, m') \<and> m_log m' = m_log m @ new \<and>
     send_account k ch word retries r new"
  using runs_run [OF runs_send] send_outcome by blast

end
