(* ===== verification/Shim_Lock.thy ===== *)
theory Shim_Lock
  imports Shim
begin

text \<open>
  The cross-core lock of \<open>rtos-shim.c\<close>: the code keeps the locking discipline on every path,
  and with a spinlock that behaves as documented this excludes Linux.
\<close>

section \<open>The locking discipline\<close>

text \<open>
  An automaton over the events of the core. \<open>Idle\<close> and \<open>Masked\<close>: the lock is not held, and in
  \<open>Masked\<close> interrupts are off; \<open>Tried t\<close>: token \<open>t\<close> was written and not yet read back; \<open>Held t\<close>:
  it was read back; \<open>Lost\<close>: a release found somebody else's token. Mailbox registers and slots are
  accessible in \<open>Held\<close> only; FreeRTOS and the interrupt enable bit only outside.
\<close>

datatype lock_phase = Idle | Masked | Tried u16 | Held u16 | Lost

definition mine :: "u16 \<Rightarrow> bool" where
  "mine t \<longleftrightarrow> t \<noteq> 0 \<and> t AND 0xff = 0"

fun mailbox_access :: "shim_event \<Rightarrow> bool" where
  "mailbox_access (Mbox_Load reg v) = True"
| "mailbox_access (Mbox_Store reg v) = True"
| "mailbox_access (Slot_Load ch w) = True"
| "mailbox_access (Slot_Store ch w) = True"
| "mailbox_access e = False"

fun lock_step :: "lock_phase \<Rightarrow> shim_event \<Rightarrow> lock_phase option" where
  "lock_step ph Shim_Fence = Some ph"
| "lock_step ph (Spin_Store t) = (case ph of
     Masked \<Rightarrow> if mine t then Some (Tried t) else None
   | Held t' \<Rightarrow> if t = t' then Some Masked else None
   | _ \<Rightarrow> None)"
| "lock_step ph (Spin_Load v) = (case ph of
     Tried t \<Rightarrow> Some (if v = t then Held t else Masked)
   | Held t \<Rightarrow> Some (if v = t then Held t else Lost)
   | _ \<Rightarrow> None)"
| "lock_step ph (Mie_Clear b) = (if ph = Idle \<or> ph = Masked then Some Masked else None)"
| "lock_step ph e =
     (if mailbox_access e then (case ph of Held t \<Rightarrow> Some ph | _ \<Rightarrow> None)
      else case ph of Lost \<Rightarrow> Some Lost | Idle \<Rightarrow> Some Idle | Masked \<Rightarrow> Some Idle | _ \<Rightarrow> None)"

fun discipline :: "lock_phase \<Rightarrow> shim_event list \<Rightarrow> lock_phase option" where
  "discipline ph [] = Some ph"
| "discipline ph (e # es) = (case lock_step ph e of None \<Rightarrow> None | Some ph' \<Rightarrow> discipline ph' es)"

lemma discipline_append:
  "discipline ph (xs @ ys) = (case discipline ph xs of None \<Rightarrow> None | Some ph' \<Rightarrow> discipline ph' ys)"
  by (induction xs arbitrary: ph) (auto split: option.split)

text \<open>The fragments of the logs.\<close>

definition unlocked :: "lock_phase \<Rightarrow> bool" where
  "unlocked ph \<longleftrightarrow> ph = Idle \<or> ph = Masked"

lemma unlocked_simps [simp]: "unlocked Idle" "unlocked Masked" "\<not> unlocked (Held t)" "\<not> unlocked Lost"
  by (simp_all add: unlocked_def)

definition quiet :: "shim_event \<Rightarrow> bool" where
  "quiet e \<longleftrightarrow> mailbox_access e \<or> e = Shim_Fence"

lemma discipline_quiet: "list_all quiet log \<Longrightarrow> discipline (Held t) log = Some (Held t)"
proof (induction log)
  case (Cons e log)
  then have "lock_step (Held t) e = Some (Held t)" by (cases e) (auto simp: quiet_def)
  with Cons show ?case by simp
qed simp

lemma discipline_missed: "mine t \<Longrightarrow> t \<notin> set vs \<Longrightarrow> discipline Masked (missed t vs) = Some Masked"
  by (induction vs) auto

lemma discipline_won: "mine t \<Longrightarrow> discipline Masked (won t) = Some (Held t)"
  by (simp add: won_def)

lemma mine_token:
  assumes "mailbox_ok k"
  shows "mine (token_of k (next_token d))"
proof -
  have ff: "(0xff :: u16) = mask 8" by (simp add: mask_eq_exp_minus_1)
  have "push_bit 8 (ucast c :: u16) AND 0xff = 0" for c :: u8
    unfolding ff by (rule bit_eqI) (auto simp: bit_simps)
  moreover have "push_bit 8 (ucast c :: u16) \<noteq> 0" if "c \<noteq> 0" for c :: u8
  proof -
    from that obtain i where i: "bit c i" using bit_eq_iff [of c 0] by auto
    moreover from i have "i < 8" using bit_imp_le_length by fastforce
    ultimately have "bit (push_bit 8 (ucast c :: u16)) (i + 8)" by (auto simp: bit_simps)
    then show ?thesis by auto
  qed
  moreover have "mailbox_lock_counter (next_token d) \<noteq> 0"
    by (simp add: next_token_def Let_def)
  ultimately show ?thesis
    using assms by (simp add: mine_def token_of_def mailbox_ok_def)
qed

lemma discipline_acquire:
  assumes "mailbox_ok k" "acquire_spec k n terminal d r d' log" "unlocked ph"
  shows "case r of Some guard \<Rightarrow> mine (token guard) \<and> discipline ph log = Some (Held (token guard))
    | None \<Rightarrow> \<exists>ph'. unlocked ph' \<and> discipline ph log = Some ph'"
proof -
  from assms(2) obtain d0 vs where s: "let t = token_of k (next_token d0) in
     \<not> mie d0 \<and> (\<not> mie d \<longrightarrow> d0 = d) \<and> t \<notin> set vs \<and>
     (case r of
        Some guard \<Rightarrow> length vs < n \<and> guard = \<lparr>token = t, restore_irqs = mie d\<rparr> \<and>
          d' = next_token d0 \<and> log = Mie_Clear (mie d) # missed t vs @ won t
      | None \<Rightarrow> length vs = n \<and> mie d' = mie d \<and>
          (\<not> mie d \<longrightarrow> d' = (if terminal then lock_failed (next_token d) else next_token d)) \<and>
          log = Mie_Clear (mie d) # missed t vs @ (if mie d then [Mie_Set] else []))"
    unfolding acquire_spec_def by blast
  with mine_token [OF assms(1), of d0] assms(3) show ?thesis
    by (auto simp: Let_def discipline_append discipline_missed discipline_won unlocked_def split: option.splits)
qed

lemma discipline_release:
  assumes "release_spec guard d r d' log"
  shows "\<exists>ph'. discipline (Held (token guard)) log = Some ph' \<and> (if r then unlocked ph' else ph' = Lost)"
  using assms by (auto simp: release_spec_def split: if_splits)

lemma quiet_logs:
  "taken k pending ch r log \<Longrightarrow> list_all quiet log"
  "drained k u log \<Longrightarrow> list_all quiet log"
  "posted k ch word log \<Longrightarrow> list_all quiet log"
  by (auto simp: taken_def drained_def posted_def quiet_def split: if_splits)

lemma quiet_scanned: "scanned bits ps busy log \<Longrightarrow> list_all quiet log"
  by (auto simp: scanned_def quiet_def list_all_iff in_set_zip)

lemma discipline_handed_over:
  assumes "handed_over q f word d d' log" "unlocked ph \<or> ph = Lost"
  shows "\<exists>ph'. discipline ph log = Some ph' \<and> (unlocked ph' \<or> ph' = Lost)"
  using assms by (auto simp: handed_over_def unlocked_def split: option.splits)

text \<open>A function keeps the discipline when its events lead from any unlocked phase to an unlocked
  phase, or to \<open>Lost\<close>.\<close>

definition disciplined :: "shim_event list \<Rightarrow> bool" where
  "disciplined log \<longleftrightarrow> (\<forall>ph. unlocked ph \<longrightarrow> (\<exists>ph'. discipline ph log = Some ph' \<and> (unlocked ph' \<or> ph' = Lost)))"

lemma served_disciplined:
  assumes "served_spec k guard d r d' log"
  shows "\<exists>ph'. discipline (Held (token guard)) log = Some ph' \<and> (unlocked ph' \<or> ph' = Lost)"
proof -
  from assms obtain pending cw vw lc lv lu lr q1 q2 released d1 d2 wake where
    s: "taken k pending (CHANNEL_CONTROL k) cw lc" "taken k pending (CHANNEL_VQ_KICK k) vw lv"
      "drained k (unexpected_of k pending) lu"
      "release_spec guard (counted (unexpected_of k pending) (d\<lparr>mailbox_irq_lock_streak := 0\<rparr>)) released d1 lr"
      "handed_over Requests request_dropped cw d1 d2 q1"
      "handed_over Vq_Kicks kick_dropped (map_option vq_id vw) d2 d' q2"
      "log = Mbox_Load (Int_Int (RTOS_CPU_ID k)) pending # lc @ lv @ lu @ lr @ q1 @ q2 @ [Yield wake]"
    unfolding served_spec_def by blast
  from discipline_release [OF s(4)] obtain ph1 where
    1: "discipline (Held (token guard)) lr = Some ph1" "unlocked ph1 \<or> ph1 = Lost" by (auto split: if_splits)
  from discipline_handed_over [OF s(5) 1(2)] obtain ph2 where
    2: "discipline ph1 q1 = Some ph2" "unlocked ph2 \<or> ph2 = Lost" by blast
  from discipline_handed_over [OF s(6) 2(2)] obtain ph3 where
    3: "discipline ph2 q2 = Some ph3" "unlocked ph3 \<or> ph3 = Lost" by blast
  note q = discipline_quiet [OF quiet_logs(1) [OF s(1)]] discipline_quiet [OF quiet_logs(1) [OF s(2)]]
    discipline_quiet [OF quiet_logs(2) [OF s(3)]]
  show ?thesis
    using 1 2 3 by (auto simp: s(7) discipline_append q unlocked_def)
qed

lemma isr_disciplined:
  assumes "mailbox_ok k" "isr_spec k d r d' log"
  shows "disciplined log"
  unfolding disciplined_def
proof (intro allI impI)
  fix ph assume ph: "unlocked ph"
  from assms(2) obtain lock d1 la lb where s: "log = la @ lb"
    "acquire_spec k (MAILBOX_HWSPIN_IRQ_ACQUIRE_ATTEMPTS k) False d lock d1 la"
    "case lock of None \<Rightarrow> r = MAILBOX_LOCK_ERROR \<and> d' = deferred k d1 \<and>
          lb = (if limit_reached k d1 then [Irq_Disable (MAILBOX_C906L_IRQ k)] else [])
      | Some guard \<Rightarrow> served_spec k guard d1 r d' lb"
    unfolding isr_spec_def by blast
  from discipline_acquire [OF assms(1) s(2) ph] s(1,3) served_disciplined
  show "\<exists>ph'. discipline ph log = Some ph' \<and> (unlocked ph' \<or> ph' = Lost)"
    by (cases lock) (fastforce simp: discipline_append unlocked_def)+
qed

lemma round_discipline:
  assumes "mailbox_ok k" "send_round k ch word busy released log" "unlocked ph"
  shows "\<exists>ph'. discipline ph log = Some ph' \<and> (if released then unlocked ph' else ph' = Lost)"
proof -
  from assms(2) obtain d guard d1 d2 d3 la ls lp lr where s: "log = la @ ls @ lp @ lr"
    "acquire_spec k (MAILBOX_HWSPIN_TASK_ACQUIRE_ATTEMPTS k) True d (Some guard) d1 la"
    "scanned (channel_bit ch) [0..<MAILBOX_PROCESSOR_COUNT k] busy ls"
    "if busy then lp = [] else posted k ch word lp" "release_spec guard d2 released d3 lr"
    unfolding send_round_def by blast
  have "list_all quiet lp" using s(4) quiet_logs(3) by (auto split: if_splits)
  with discipline_acquire [OF assms(1) s(2) assms(3)] discipline_release [OF s(5)]
    discipline_quiet [OF quiet_scanned [OF s(3)]] show ?thesis
    by (auto simp: s(1) discipline_append discipline_quiet)
qed

lemma send_disciplined:
  assumes "mailbox_ok k" "sender_spec k ch word n r log"
  shows "disciplined log"
  using assms(2)
proof (induction n arbitrary: log)
  case (Suc n)
  show ?case
    unfolding disciplined_def
  proof (intro allI impI)
    fix ph assume ph: "unlocked ph"
    note d = round_discipline [OF assms(1) _ ph]
    from Suc.prems consider
        (locked) d d1 where "acquire_spec k (MAILBOX_HWSPIN_TASK_ACQUIRE_ATTEMPTS k) True d None d1 log"
      | (last) busy released where "send_round k ch word busy released log"
      | (again) l1 l2 where "send_round k ch word True True l1" "sender_spec k ch word n r l2"
        "log = l1 @ (if n > 0 then [Rtos_Delay 1] else []) @ l2"
      by auto
    then show "\<exists>ph'. discipline ph log = Some ph' \<and> (unlocked ph' \<or> ph' = Lost)"
    proof cases
      case locked
      from discipline_acquire [OF assms(1) this ph] show ?thesis by auto
    next
      case last
      from d [OF this] show ?thesis by (auto split: if_splits)
    next
      case again
      from d [OF again(1)] obtain ph1 where 1: "discipline ph l1 = Some ph1" "unlocked ph1" by auto
      then obtain ph2 where 2: "discipline ph1 (if n > 0 then [Rtos_Delay 1] else []) = Some ph2" "unlocked ph2"
        by (cases "n > 0") (auto simp: unlocked_def)
      from Suc.IH [OF again(2)] 2(2) show ?thesis
        unfolding again(3) discipline_append 1(1) 2(1) option.case disciplined_def by blast
    qed
  qed
qed (simp add: disciplined_def)

definition tracked :: "('h, 'a) shim_prog \<Rightarrow> shim \<Rightarrow> lock_phase \<Rightarrow> ('a \<Rightarrow> lock_phase \<Rightarrow> bool) \<Rightarrow> bool" where
  "tracked p d ph Q \<longleftrightarrow> runs p d (\<lambda>a d' n. \<exists>ph'. discipline ph n = Some ph' \<and> Q a ph')"

lemma tracked_bind:
  assumes "tracked p d ph P" "\<And>a d' ph'. P a ph' \<Longrightarrow> tracked (f a) d' ph' Q"
  shows "tracked (bind p f) d ph Q"
  unfolding tracked_def
proof (rule runs_bind [OF assms(1) [unfolded tracked_def]], elim exE conjE, goal_cases)
  case (1 a d' n ph')
  from assms(2) [OF 1(2), of d'] 1(1) show ?case
    unfolding tracked_def by (elim runs_mono) (auto simp: discipline_append)
qed

lemma tracked_ok [simp]: "tracked (ok a) d ph Q \<longleftrightarrow> Q a ph"
  by (simp add: tracked_def)

lemma tracked_if: "(b \<Longrightarrow> tracked p d ph Q) \<Longrightarrow> (\<not> b \<Longrightarrow> tracked q d ph Q) \<Longrightarrow> tracked (if b then p else q) d ph Q"
  by simp

text \<open>Calls of FreeRTOS outside the lock.\<close>

definition kernel_event :: "shim_event \<Rightarrow> bool" where
  "kernel_event e \<longleftrightarrow> lock_step Idle e = Some Idle \<and> lock_step Masked e = Some Idle"

lemma tracked_call:
  assumes "unlocked ph" "\<And>v. kernel_event (ev v)"
  shows "tracked (sense f ev) d ph (\<lambda>_. unlocked)" "tracked (hw_load g ev) d ph (\<lambda>_. unlocked)"
  using assms unfolding tracked_def
  by (auto simp: unlocked_def kernel_event_def intro!: runs_sense runs_load)

lemma start_tracked:
  assumes "mailbox_ok k" "unlocked ph"
  shows "tracked (c906l_platform_start k env lcd) d ph (\<lambda>_ ph'. unlocked ph' \<or> ph' = Lost)"
proof -
  have task: "tracked (create_task env t s p) d ph (\<lambda>_. unlocked)" if "unlocked ph" for t s p d ph
    unfolding create_task_def by (rule tracked_call [OF that]) (simp add: kernel_event_def)
  have queue: "tracked (create_queue env q n) d ph (\<lambda>_. unlocked)" if "unlocked ph" for q n d ph
    unfolding create_queue_def by (rule tracked_call [OF that]) (simp add: kernel_event_def)
  have reset: "tracked (update reset_counters) d ph (\<lambda>_. unlocked)" if "unlocked ph" for d ph
    using that by (auto simp: tracked_def intro: runs_update)
  have lock: "tracked (mailbox_lock_acquire k env n t) d ph (\<lambda>r ph'.
      case r of Some g \<Rightarrow> ph' = Held (token g) | None \<Rightarrow> unlocked ph')" if "unlocked ph" for n t d ph
    unfolding tracked_def
    by (rule runs_mono [OF runs_acquire]) (use discipline_acquire [OF assms(1) _ that] in \<open>fastforce split: option.splits\<close>)
  have clear: "tracked (reset_mailbox k env) d (Held t) (\<lambda>_ ph'. ph' = Held t)" for d t
    unfolding tracked_def reset_mailbox_def clear_interrupts_def and_assign_def shim_fence_def bind_assoc
    by (intro runs_steps) simp
  have unlock: "tracked (mailbox_lock_release env g) d (Held (token g)) (\<lambda>r ph'.
      if r then unlocked ph' else ph' = Lost)" for g d
    unfolding tracked_def
    by (rule runs_mono [OF runs_release]) (use discipline_release in blast)
  have irq: "tracked (sense f (Irq_Request n h)) d ph (\<lambda>_. unlocked)" if "unlocked ph" for f n h d ph
    by (rule tracked_call [OF that]) (simp add: kernel_event_def)
  have sched: "tracked (sense f Scheduler) d ph (\<lambda>_. unlocked)" if "unlocked ph" for f d ph
    by (rule tracked_call [OF that]) (simp add: kernel_event_def)
  have lcd: "tracked (if lcd then create_task env Lcd_Task s p else ok True) d ph (\<lambda>_. unlocked)"
    if "unlocked ph" for s p d ph
    using that by (auto intro: task)
  have rest: "tracked (bind (sense (fr_request_irq env n Mailbox_Isr)
       (Irq_Request n Mailbox_Isr)) (\<lambda>irq_result. if irq_result \<noteq> 0 then ok (Some (-3)) else
     bind (create_task env Control_Task 1024 2) (\<lambda>created. if \<not> created then ok (Some (-4)) else
     bind (create_task env Rpmsg_Task 2048 2) (\<lambda>created. if \<not> created then ok (Some (-5)) else
     bind (if lcd then create_task env Lcd_Task 2048 1 else ok True) (\<lambda>created.
       if \<not> created then ok (Some (-9)) else
     bind (sense (fr_start_scheduler env) Scheduler) (\<lambda>runs.
     ok (if runs then None else Some (-6 :: int)))))))) d ph (\<lambda>_ ph'. unlocked ph' \<or> ph' = Lost)"
    if "unlocked ph" for n d ph
    by (rule tracked_bind [OF irq [OF that]], rule tracked_if, simp,
        rule tracked_bind [OF task], assumption, rule tracked_if, simp,
        rule tracked_bind [OF task], assumption, rule tracked_if, simp,
        rule tracked_bind [OF lcd], assumption, rule tracked_if, simp,
        rule tracked_bind [OF sched], assumption, simp)
  show ?thesis
    unfolding c906l_platform_start_def
  proof (rule tracked_bind [OF queue [OF assms(2)]], rule tracked_if, simp,
      rule tracked_bind [OF queue], assumption, rule tracked_if, simp,
      rule tracked_bind [OF reset], assumption, rule tracked_bind [OF lock], assumption, goal_cases)
    case (1 a d1 ph1 b d2 ph2 c d3 ph3 lock d4 ph4)
    show ?case
    proof (cases lock)
      case None
      with 1 show ?thesis by simp
    next
      case (Some guard)
      with 1 have ph4: "ph4 = Held (token guard)" by simp
      show ?thesis
        unfolding Some option.case ph4
      proof (rule tracked_bind [OF clear], goal_cases)
        case (1 u d5 ph5)
        show ?case
          unfolding 1
        proof (rule tracked_bind [OF unlock], goal_cases)
          case (1 released d6 ph6)
          then show ?case using rest by (cases released) auto
        qed
      qed
    qed
  qed
qed

lemma start_disciplined:
  assumes "mailbox_ok k"
  shows "runs (c906l_platform_start k env lcd) d (\<lambda>a d' n. disciplined n)"
proof -
  have each: "runs (c906l_platform_start k env lcd) d
      (\<lambda>a d' n. \<exists>ph'. discipline ph n = Some ph' \<and> (unlocked ph' \<or> ph' = Lost))" if "unlocked ph" for ph
    using start_tracked [OF assms that] unfolding tracked_def .
  from runs_conj [OF each [of Idle] each [of Masked]] show ?thesis
    by (rule runs_mono) (auto simp: disciplined_def unlocked_def)
qed

section \<open>The spinlock and Linux\<close>

text \<open>
  A history is the events of the core interleaved with the tokens that Linux writes; it is \<open>faithful\<close> when every
  load of the core returns the owner and Linux keeps to its token namespace, the low byte.
\<close>

datatype history_event = Core shim_event | Linux_Token u16

fun holder_after :: "u16 \<Rightarrow> history_event list \<Rightarrow> u16" where
  "holder_after s [] = s"
| "holder_after s (Linux_Token t # es) = holder_after (semaphore s t) es"
| "holder_after s (Core (Spin_Store t) # es) = holder_after (semaphore s t) es"
| "holder_after s (Core e # es) = holder_after s es"

fun faithful :: "u16 \<Rightarrow> history_event list \<Rightarrow> bool" where
  "faithful s [] = True"
| "faithful s (Linux_Token t # es) \<longleftrightarrow> t AND 0xff00 = 0 \<and> faithful (semaphore s t) es"
| "faithful s (Core (Spin_Store t) # es) \<longleftrightarrow> faithful (semaphore s t) es"
| "faithful s (Core (Spin_Load v) # es) \<longleftrightarrow> v = s \<and> faithful s es"
| "faithful s (Core e # es) \<longleftrightarrow> faithful s es"

text \<open>Whenever the core accesses the mailbox, the owner of the spinlock is one of its own tokens.\<close>

fun exclusive :: "u16 \<Rightarrow> history_event list \<Rightarrow> bool" where
  "exclusive s [] = True"
| "exclusive s (Linux_Token t # es) \<longleftrightarrow> exclusive (semaphore s t) es"
| "exclusive s (Core (Spin_Store t) # es) \<longleftrightarrow> exclusive (semaphore s t) es"
| "exclusive s (Core e # es) \<longleftrightarrow> (mailbox_access e \<longrightarrow> mine s) \<and> exclusive s es"

fun core_events :: "history_event list \<Rightarrow> shim_event list" where
  "core_events [] = []"
| "core_events (Core e # es) = e # core_events es"
| "core_events (Linux_Token t # es) = core_events es"

fun holds :: "lock_phase \<Rightarrow> u16 \<Rightarrow> bool" where
  "holds Idle s \<longleftrightarrow> \<not> mine s"
| "holds Masked s \<longleftrightarrow> \<not> mine s"
| "holds (Tried t) s \<longleftrightarrow> mine t \<and> (s = t \<or> \<not> mine s)"
| "holds (Held t) s \<longleftrightarrow> mine t \<and> s = t"
| "holds Lost s \<longleftrightarrow> False"

lemma low_not_mine: "t AND 0xff00 = 0 \<Longrightarrow> \<not> mine t"
proof
  assume "t AND 0xff00 = 0" "mine t"
  then have t: "t AND 0xff = 0" "t AND 0xff00 = 0" "t \<noteq> 0" by (simp_all add: mine_def)
  have "(0xff OR 0xff00 :: u16) = - 1" by (simp add: word_eq_iff_unsigned)
  then have "t = t AND (0xff OR 0xff00)" by (simp only: and.right_neutral)
  also have "\<dots> = 0" unfolding bit.conj_disj_distrib using t by simp
  finally show False using t(3) by simp
qed

lemma holds_linux:
  assumes "t AND 0xff00 = 0" "holds ph s"
  shows "holds ph (semaphore s t)"
proof -
  have "\<not> mine (semaphore s t)" if "\<not> mine s"
    using that low_not_mine [OF assms(1)] by (auto simp: semaphore_def mine_def)
  moreover have "semaphore s t = s" if "mine s"
    using that low_not_mine [OF assms(1)] by (auto simp: semaphore_def mine_def)
  ultimately show ?thesis using assms(2) by (cases ph) auto
qed

lemma holds_store:
  assumes "lock_step ph (Spin_Store t) = Some ph'" "holds ph s"
  shows "holds ph' (semaphore s t)"
  using assms by (cases ph) (auto simp: semaphore_def mine_def split: if_splits)

lemma holds_load:
  assumes "lock_step ph (Spin_Load s) = Some ph'" "holds ph s"
  shows "holds ph' s"
  using assms by (cases ph) (auto split: if_splits)

lemma holds_other:
  assumes "lock_step ph e = Some ph'" "holds ph s" "\<And>t. e \<noteq> Spin_Store t" "\<And>v. e \<noteq> Spin_Load v"
  shows "holds ph' s \<and> (mailbox_access e \<longrightarrow> mine s)"
  using assms by (cases e; cases ph) (auto split: if_splits)

lemma discipline_exclusive:
  assumes "discipline ph (core_events tr) = Some ph'" "faithful s tr" "holds ph s"
  shows "exclusive s tr \<and> holds ph' (holder_after s tr)"
  using assms
proof (induction tr arbitrary: ph s)
  case (Cons h tr)
  show ?case
  proof (cases h)
    case (Linux_Token t)
    with Cons holds_linux [of t ph s] show ?thesis by auto
  next
    case (Core e)
    with Cons.prems(1) obtain ph1 where 1: "lock_step ph e = Some ph1" "discipline ph1 (core_events tr) = Some ph'"
      by (auto split: option.splits)
    note IH = Cons.IH [OF 1(2)]
    show ?thesis
    proof (cases "\<exists>t. e = Spin_Store t")
      case True
      with Core 1 Cons.prems IH show ?thesis by (auto dest: holds_store)
    next
      case store: False
      show ?thesis
      proof (cases "\<exists>v. e = Spin_Load v")
        case True
        with Core 1 Cons.prems IH show ?thesis by (auto dest: holds_load)
      next
        case False
        with store have o: "holds ph1 s" "mailbox_access e \<longrightarrow> mine s"
          using holds_other [OF 1(1) Cons.prems(3)] by auto
        from store False have "holder_after s (Core e # tr) = holder_after s tr"
          "faithful s (Core e # tr) = faithful s tr"
          "exclusive s (Core e # tr) \<longleftrightarrow> (mailbox_access e \<longrightarrow> mine s) \<and> exclusive s tr"
          by (cases e; simp)+
        with IH [of s] o Cons.prems(2) Core show ?thesis by simp
      qed
    qed
  qed
qed simp

text \<open>A function of the shim that shares the mailbox with Linux: it returns, and in every faithful
  history of its run that starts with the lock not owned by the core, it accesses the mailbox only
  while it owns the lock, and does not own it afterwards.\<close>

definition mutually_exclusive :: "('h, 'a) shim_prog \<Rightarrow> bool" where
  "mutually_exclusive p \<longleftrightarrow> (\<forall>m. \<exists>r m' new. p m = Some (Inr r, m') \<and> m_log m' = m_log m @ new \<and>
     (\<forall>s tr. core_events tr = new \<longrightarrow> faithful s tr \<longrightarrow> \<not> mine s \<longrightarrow>
        exclusive s tr \<and> \<not> mine (holder_after s tr)))"

lemma disciplined_exclusive:
  assumes "\<And>d. runs p d (\<lambda>a d' n. disciplined n)"
  shows "mutually_exclusive p"
  unfolding mutually_exclusive_def
proof
  fix m
  obtain r m' new where 1: "p m = Some (Inr r, m')" "m_log m' = m_log m @ new" "disciplined new"
    using runs_run [OF assms] by blast
  from 1(3) obtain ph' where ph: "discipline Idle new = Some ph'" "unlocked ph' \<or> ph' = Lost"
    unfolding disciplined_def using unlocked_simps(1) by blast
  have "exclusive s tr \<and> \<not> mine (holder_after s tr)"
    if "core_events tr = new" "faithful s tr" "\<not> mine s" for s tr
    using discipline_exclusive [of Idle tr ph' s] that ph by (auto simp: unlocked_def)
  with 1 show "\<exists>r m' new. p m = Some (Inr r, m') \<and> m_log m' = m_log m @ new \<and>
     (\<forall>s tr. core_events tr = new \<longrightarrow> faithful s tr \<longrightarrow> \<not> mine s \<longrightarrow>
        exclusive s tr \<and> \<not> mine (holder_after s tr))" by blast
qed

section \<open>Properties\<close>

text \<open>C9: the shim and Linux exclude each other from the mailbox. The interrupt handler, the sender and
  the platform start always return; in every interleaving with token writes of Linux in which the
  spinlock behaves as documented and Linux keeps to its own tokens, every access to a mailbox
  register or slot happens while the spinlock is owned by the core, and the core has given it up at
  the end.\<close>

theorem mailbox_exclusive:
  assumes "mailbox_ok k"
  shows "mutually_exclusive (mailbox_isr k env) \<and> mutually_exclusive (mailbox_send k env ch word retries) \<and>
    mutually_exclusive (c906l_platform_start k env lcd)"
proof (intro conjI disciplined_exclusive)
  fix d
  show "runs (mailbox_isr k env) d (\<lambda>a d' n. disciplined n)"
    by (rule runs_mono [OF runs_isr]) (rule isr_disciplined [OF assms])
  show "runs (mailbox_send k env ch word retries) d (\<lambda>a d' n. disciplined n)"
    by (rule runs_mono [OF runs_send]) (rule send_disciplined [OF assms])
  show "runs (c906l_platform_start k env lcd) d (\<lambda>a d' n. disciplined n)"
    using start_disciplined [OF assms] .
qed

lemma core_events_map [simp]: "core_events (map Core log) = log"
  by (induction log) simp_all

theorem mailbox_exclusive_witness:
  "\<exists>m'. mailbox_isr timer_mailbox bench_rtos (bench_machine False) = Some (Inr 0, m') \<and>
     faithful 0 (map Core (m_log m')) \<and> exclusive 0 (map Core (m_log m')) \<and> Slot_Load 0 7 \<in> set (m_log m')"
proof -
  from mailbox_exclusive [OF timer_mailbox_ok]
  have "mutually_exclusive (mailbox_isr timer_mailbox bench_rtos)" by blast
  then obtain r m' new where run: "mailbox_isr timer_mailbox bench_rtos (bench_machine False) = Some (Inr r, m')"
    "m_log m' = m_log (bench_machine False) @ new"
    "\<And>s tr. core_events tr = new \<Longrightarrow> faithful s tr \<Longrightarrow> \<not> mine s \<Longrightarrow> exclusive s tr"
    unfolding mutually_exclusive_def by blast
  have log: "r = 0" "m_log m' = new" "faithful 0 (map Core new)" "Slot_Load 0 7 \<in> set new"
    using run(1,2) bench_isr by (auto simp: bench_machine_def won_def semaphore_def)
  from run(3) [of "map Core new" 0] log(3) have "exclusive 0 (map Core new)" by (simp add: mine_def)
  with run(1) log show ?thesis by auto
qed

end
