(* ===== verification/Shim_Control.thy ===== *)
theory Shim_Control
  imports Shim
begin

text \<open>
  The control task of the firmware (\<open>lib.rs\<close>) on the C shim (\<open>rtos-shim.c\<close>).

  The locale \<open>control_port\<close> is what the task relies on: a received request comes from the queue, a
  response that was reported as sent went out, one that was not may or may not have gone out, and
  nothing else it calls sends or receives. Inside it, the requests taken and the responses given
  over any number of turns are related. \<open>on_shim\<close> puts the functions of the shim in place of the
  \<open>extern "C"\<close> calls, and the interpretation \<open>shim_port\<close> shows that they keep the contract.
\<close>

section \<open>The contract of the port\<close>

text \<open>A response word that belongs to a request word.\<close>

definition answers :: "contract \<Rightarrow> u64 \<Rightarrow> u64 \<Rightarrow> bool" where
  "answers c w rw \<longleftrightarrow>
     (if service (decode w) = SERVICE_CONTROL c \<and> opcode (decode w) = OP_ACTIVATE_LEASES c
      then \<exists>result. rw = encode (activation_response c (decode w) result)
      else \<exists>caps. rw = encode (ordinary_response c (decode w) caps))"

lemma answer_answers:
  assumes "answer c env w s = Some (rw, s')"
  shows "answers c w rw"
  using assms by (auto simp: answer_def answers_def Let_def split: if_splits option.splits)

definition timed_out :: "contract \<Rightarrow> 'h task \<Rightarrow> bool" where
  "timed_out c t \<longleftrightarrow> FLAG_RESPONSE_TIMEOUT c OR st_flags (ctl_status (tk_ctl t)) = st_flags (ctl_status (tk_ctl t))"

lemma timed_out_sticky:
  assumes "control_turn c env t = Some t'" "timed_out c t"
  shows "timed_out c t'"
proof -
  have "keeps_flags (tk_ctl t) (tk_ctl t')" using assms(1) by (rule control_turn_keeps_flags)
  then show ?thesis
    using assms(2) unfolding timed_out_def by (metis keeps_flag_set or.commute)
qed

text \<open>The requests served so far, each with its response and whether that was posted.\<close>

definition ledger :: "contract \<Rightarrow> (u64 \<times> u64 \<times> bool) list \<Rightarrow> bool \<Rightarrow> bool" where
  "ledger c ps flagged \<longleftrightarrow> (\<forall>(w, rw, p)\<in>set ps. answers c w rw \<and> (\<not> p \<longrightarrow> flagged))"

definition responses :: "(u64 \<times> u64 \<times> bool) list \<Rightarrow> u64 list" where
  "responses ps = map (\<lambda>(w, rw, p). rw) (filter (\<lambda>(w, rw, p). p) ps)"

lemma responses_simps [simp]:
  "responses [] = []" "responses ((w, rw, p) # ps) = (if p then rw # responses ps else responses ps)"
  "responses (ps @ qs) = responses ps @ responses qs"
  by (simp_all add: responses_def)

lemma responses_all: "(\<forall>(w, rw, p)\<in>set ps. p) \<Longrightarrow> responses ps = map (fst \<circ> snd) ps"
  by (induction ps) auto

locale control_port =
  fixes env :: "'h task_env" and inbox outbox :: "'h \<Rightarrow> u64 list"
  assumes receive: "te_request_receive env n h = (r, h') \<Longrightarrow>
      inbox h' = inbox h @ (case r of None \<Rightarrow> [] | Some w \<Rightarrow> [w]) \<and> outbox h' = outbox h"
    and send: "te_response_send env w h = (sent, h') \<Longrightarrow>
      inbox h' = inbox h \<and> (outbox h' = outbox h @ [w] \<or> \<not> sent \<and> outbox h' = outbox h)"
    and ticks: "te_ticks env h = (v, h') \<Longrightarrow> inbox h' = inbox h \<and> outbox h' = outbox h"
    and drops: "te_request_drops env h = (v, h') \<Longrightarrow> inbox h' = inbox h \<and> outbox h' = outbox h"
    and failures: "te_mailbox_lock_failures env h = (v, h') \<Longrightarrow> inbox h' = inbox h \<and> outbox h' = outbox h"
    and events: "te_unexpected_mailbox_events env h = (v, h') \<Longrightarrow> inbox h' = inbox h \<and> outbox h' = outbox h"
    and faulted: "te_lcd_faulted env = Some f \<Longrightarrow> f h = (b, h') \<Longrightarrow> inbox h' = inbox h \<and> outbox h' = outbox h"
    and pair: "read_pair (te_act env) h = (q, h') \<Longrightarrow> inbox h' = inbox h \<and> outbox h' = outbox h"
    and activation: "activate (te_act env) h = Some (x, h') \<Longrightarrow> inbox h' = inbox h \<and> outbox h' = outbox h"
    and publication: "inbox (publish_status (te_act env) st h) = inbox h \<and>
      outbox (publish_status (te_act env) st h) = outbox h"
begin

lemma publish_port [simp]:
  "inbox (ctl_hw (publish (te_act env) s)) = inbox (ctl_hw s)"
  "outbox (ctl_hw (publish (te_act env) s)) = outbox (ctl_hw s)"
  by (simp_all add: publish_def publication)

lemma snapshot_port:
  "snapshot_pair (te_act env) s = (q, s') \<Longrightarrow>
    inbox (ctl_hw s') = inbox (ctl_hw s) \<and> outbox (ctl_hw s') = outbox (ctl_hw s)"
  by (auto simp: snapshot_pair_def split: prod.splits dest: pair)

lemma reject_port:
  "reject c (te_act env) r s = (r', s') \<Longrightarrow>
    inbox (ctl_hw s') = inbox (ctl_hw s) \<and> outbox (ctl_hw s') = outbox (ctl_hw s)"
  by (auto simp: reject_def)

lemma activate_leases_port:
  "activate_leases c (te_act env) q s = Some (r, s') \<Longrightarrow>
    inbox (ctl_hw s') = inbox (ctl_hw s) \<and> outbox (ctl_hw s') = outbox (ctl_hw s)"
  by (auto simp: activate_leases_def Let_def split: option.splits sum.splits dest!: activation)

lemma handle_port:
  assumes "handle c (te_act env) m s = Some (r, s')"
  shows "inbox (ctl_hw s') = inbox (ctl_hw s) \<and> outbox (ctl_hw s') = outbox (ctl_hw s)"
  using assms
  by (auto simp: handle_def handle_active_def handle_dormant_def Let_def
      split: if_splits option.splits prod.splits sum.splits
      dest!: snapshot_port reject_port activate_leases_port)

lemma answer_port:
  assumes "answer c env w s = Some (rw, s')"
  shows "inbox (ctl_hw s') = inbox (ctl_hw s) \<and> outbox (ctl_hw s') = outbox (ctl_hw s)"
  using assms by (auto simp: answer_def Let_def split: if_splits option.splits dest!: handle_port)

lemma observe_port:
  assumes "observe f s = (v, s')" "\<And>h x h'. f h = (x, h') \<Longrightarrow> inbox h' = inbox h \<and> outbox h' = outbox h"
  shows "inbox (ctl_hw s') = inbox (ctl_hw s) \<and> outbox (ctl_hw s') = outbox (ctl_hw s)"
  using assms by (auto simp: observe_def split: prod.splits)

lemma diagnose_port:
  "inbox (ctl_hw (diagnose c env s)) = inbox (ctl_hw s) \<and> outbox (ctl_hw (diagnose c env s)) = outbox (ctl_hw s)"
proof -
  obtain a s1 where 1: "observe (te_request_drops env) s = (a, s1)" by force
  obtain b s2 where 2: "observe (te_mailbox_lock_failures env) s1 = (b, s2)" by force
  obtain d s3 where 3: "observe (te_unexpected_mailbox_events env) s2 = (d, s3)" by force
  note p = observe_port [OF 1 drops] observe_port [OF 2 failures] observe_port [OF 3 events]
  have lcd: "inbox (ctl_hw s5) = inbox (ctl_hw s4) \<and> outbox (ctl_hw s5) = outbox (ctl_hw s4)"
    if "te_lcd_faulted env = Some f" "observe f s4 = (e, s5)" for f s4 e s5
    by (rule observe_port [OF that(2) faulted [OF that(1)]])
  show ?thesis
    using p by (auto simp: diagnose_def 1 2 3 Let_def split: option.splits prod.splits dest!: lcd)
qed

lemma serve_port:
  assumes "serve c env n s = Some s'"
  shows "\<exists>ps. inbox (ctl_hw s') = inbox (ctl_hw s) @ map fst ps \<and>
    outbox (ctl_hw s') = outbox (ctl_hw s) @ responses ps \<and>
    ledger c ps (FLAG_RESPONSE_TIMEOUT c OR st_flags (ctl_status s') = st_flags (ctl_status s'))"
  using assms
proof (cases rule: serve_cases)
  case (idle s1)
  then have "inbox (ctl_hw s') = inbox (ctl_hw s)" "outbox (ctl_hw s') = outbox (ctl_hw s)"
    by (auto simp: observe_def split: prod.splits dest!: receive)
  then show ?thesis by (intro exI [of _ "[]"]) (simp add: ledger_def)
next
  case (answered word s1 rw s3 sent s4)
  have "inbox (ctl_hw s1) = inbox (ctl_hw s) @ [word]" "outbox (ctl_hw s1) = outbox (ctl_hw s)"
    using answered(1) by (auto simp: observe_def split: prod.splits dest!: receive)
  with answer_port [OF answered(2)]
  have 1: "inbox (ctl_hw s3) = inbox (ctl_hw s) @ [word]" "outbox (ctl_hw s3) = outbox (ctl_hw s)" by simp_all
  have 2: "inbox (ctl_hw s4) = inbox (ctl_hw s3)"
    "outbox (ctl_hw s4) = outbox (ctl_hw s3) @ [rw] \<or> \<not> sent \<and> outbox (ctl_hw s4) = outbox (ctl_hw s3)"
    using answered(3) by (auto simp: observe_def split: prod.splits dest!: send)
  have hw: "ctl_hw s' = ctl_hw s4" using answered(4) by simp
  have flag: "FLAG_RESPONSE_TIMEOUT c OR st_flags (ctl_status s') = st_flags (ctl_status s')" if "\<not> sent"
    using answered(4) that by (intro bit_eqI) (auto simp: bit_simps)
  let ?p = "outbox (ctl_hw s4) = outbox (ctl_hw s3) @ [rw]"
  have "ledger c [(word, rw, ?p)] (FLAG_RESPONSE_TIMEOUT c OR st_flags (ctl_status s') = st_flags (ctl_status s'))"
    using answer_answers [OF answered(2)] flag 2(2) by (auto simp: ledger_def)
  then show ?thesis
    using 1 2 hw by (intro exI [of _ "[(word, rw, ?p)]"]) auto
qed

lemma turn_port:
  assumes "control_turn c env t = Some t'"
  shows "\<exists>ps. inbox (ctl_hw (tk_ctl t')) = inbox (ctl_hw (tk_ctl t)) @ map fst ps \<and>
    outbox (ctl_hw (tk_ctl t')) = outbox (ctl_hw (tk_ctl t)) @ responses ps \<and>
    ledger c ps (timed_out c t')"
  using assms
proof (cases rule: control_turn_cases)
  case (1 now s1 s2 now' s3)
  let ?b = "tk_ctl (beat now' \<lparr>tk_ctl = s3, tk_next_heartbeat = tk_next_heartbeat t\<rparr>)"
  from serve_port [OF 1(2)] obtain ps where
    ps: "inbox (ctl_hw s2) = inbox (ctl_hw s1) @ map fst ps"
      "outbox (ctl_hw s2) = outbox (ctl_hw s1) @ responses ps"
      "ledger c ps (FLAG_RESPONSE_TIMEOUT c OR st_flags (ctl_status s2) = st_flags (ctl_status s2))" by blast
  have flags: "keeps_flags s2 (tk_ctl t')"
    using diagnose_keeps_flags [of ?b c env]
    by (simp add: keeps_flags_def observeD [OF 1(3)] beat_frame 1(4))
  have out: "timed_out c t'" if "FLAG_RESPONSE_TIMEOUT c OR st_flags (ctl_status s2) = st_flags (ctl_status s2)"
    unfolding timed_out_def using that keeps_flag_set [OF flags] by (metis or.commute)
  have "ledger c ps (timed_out c t')" using ps(3) out by (auto simp: ledger_def)
  moreover have "ctl_hw ?b = ctl_hw s3" by (simp add: beat_def)
  ultimately show ?thesis
    using ps(1,2) observe_port [OF 1(1) ticks] observe_port [OF 1(3) ticks] diagnose_port [of c ?b]
    by (intro exI [of _ ps]) (simp add: 1(4))
qed

lemma run_port:
  assumes "control_reaches c env t0 t"
  shows "\<exists>ps. inbox (ctl_hw (tk_ctl t)) = inbox (ctl_hw (tk_ctl t0)) @ map fst ps \<and>
    outbox (ctl_hw (tk_ctl t)) = outbox (ctl_hw (tk_ctl t0)) @ responses ps \<and>
    ledger c ps (timed_out c t)"
  using assms
proof induction
  case start
  show ?case by (intro exI [of _ "[]"]) (simp add: ledger_def)
next
  case (turn t t')
  from turn.IH obtain ps where
    ps: "inbox (ctl_hw (tk_ctl t)) = inbox (ctl_hw (tk_ctl t0)) @ map fst ps"
      "outbox (ctl_hw (tk_ctl t)) = outbox (ctl_hw (tk_ctl t0)) @ responses ps"
      "ledger c ps (timed_out c t)" by blast
  from turn_port [OF turn.hyps(2)] obtain qs where
    qs: "inbox (ctl_hw (tk_ctl t')) = inbox (ctl_hw (tk_ctl t)) @ map fst qs"
      "outbox (ctl_hw (tk_ctl t')) = outbox (ctl_hw (tk_ctl t)) @ responses qs"
      "ledger c qs (timed_out c t')" by blast
  have "ledger c (ps @ qs) (timed_out c t')"
    using ps(3) qs(3) timed_out_sticky [OF turn.hyps(2)] by (auto simp: ledger_def)
  with ps qs show ?case by (intro exI [of _ "ps @ qs"]) simp
qed

end

section \<open>The port on the shim\<close>

definition exec :: "('h, 'a) shim_prog \<Rightarrow> 'h shim_machine \<Rightarrow> 'a \<times> 'h shim_machine" where
  "exec p m = (case p m of Some (Inr a, m') \<Rightarrow> (a, m') | _ \<Rightarrow> undefined)"

text \<open>The rest of the environment acts on the hardware only.\<close>

definition beside :: "(shim \<times> 'h \<Rightarrow> 'v \<times> (shim \<times> 'h)) \<Rightarrow> 'h shim_machine \<Rightarrow> 'v \<times> 'h shim_machine" where
  "beside f m = (case f (m_hw m) of (v, x) \<Rightarrow> (v, m\<lparr>m_hw := x\<rparr>))"

definition beside_act :: "(shim \<times> 'h) activation_env \<Rightarrow> 'h shim_machine activation_env" where
  "beside_act act =
     \<lparr>read_pair = beside (read_pair act),
      activate = (\<lambda>m. map_option (\<lambda>(r, x). (r, m\<lparr>m_hw := x\<rparr>)) (activate act (m_hw m))),
      publish_status = (\<lambda>st m. m\<lparr>m_hw := publish_status act st (m_hw m)\<rparr>)\<rparr>"

definition on_shim ::
    "mailbox_contract \<Rightarrow> 'h rtos \<Rightarrow> (shim \<times> 'h) task_env \<Rightarrow> 'h shim_machine task_env" where
  "on_shim k env base =
     \<lparr>te_act = beside_act (te_act base),
      te_rpmsg_initialize = (\<lambda>m. m\<lparr>m_hw := te_rpmsg_initialize base (m_hw m)\<rparr>),
      te_read_status = beside (te_read_status base),
      te_publish_manifest = (\<lambda>g. beside (te_publish_manifest base g)),
      te_platform_start = (\<lambda>m.
        case exec (c906l_platform_start k env (te_lcd_faulted base \<noteq> None)) m of (r, m') \<Rightarrow> (r = None, m')),
      te_request_receive = (\<lambda>n. exec (c906l_request_receive env n)),
      te_response_send = (\<lambda>w m. case exec (c906l_response_send k env w) m of (r, m') \<Rightarrow> (r = 0, m')),
      te_request_drops = exec c906l_request_drops,
      te_mailbox_lock_failures = exec c906l_mailbox_lock_failures,
      te_unexpected_mailbox_events = exec c906l_unexpected_mailbox_events,
      te_ticks = exec (c906l_ticks env),
      te_lcd_initialize_generation = map_option
        (\<lambda>f g m. m\<lparr>m_hw := f g (m_hw m)\<rparr>) (te_lcd_initialize_generation base),
      te_lcd_faulted = map_option beside (te_lcd_faulted base)\<rparr>"

definition main_cvirtos ::
    "contract \<Rightarrow> mailbox_contract \<Rightarrow> 'h rtos \<Rightarrow> (shim \<times> 'h) task_env \<Rightarrow> 'h shim_machine
      \<Rightarrow> boot_end \<times> 'h shim_machine control" where
  "main_cvirtos c k env base = c906l_rust_main c (on_shim k env base)"

text \<open>The words the control task took from its queue and those it put into the mailbox.\<close>

definition received_words :: "'h shim_machine \<Rightarrow> u64 list" where
  "received_words m = concat (map (\<lambda>e. case e of Queue_Receive Requests (Some w) \<Rightarrow> [w] | _ \<Rightarrow> []) (m_log m))"

definition posted_words :: "nat \<Rightarrow> 'h shim_machine \<Rightarrow> u64 list" where
  "posted_words ch m = map snd (filter (\<lambda>(c, w). c = ch) (slot_stores (m_log m)))"

lemma exec_runs:
  assumes "exec p m = (a, m')" "runs p (fst (m_hw m)) Q"
  obtains new where "m_log m' = m_log m @ new" "Q a (fst (m_hw m')) new"
  using runs_run [OF assms(2)] assms(1) by (auto simp: exec_def)

lemma beside_log: "beside f m = (v, m') \<Longrightarrow> m_log m' = m_log m"
  by (auto simp: beside_def split: prod.splits)

text \<open>The sender receives nothing; it posts its word exactly once when it returns 0.\<close>

definition no_receipt :: "shim_event list \<Rightarrow> bool" where
  "no_receipt log \<longleftrightarrow> (\<forall>q r. Queue_Receive q r \<notin> set log)"

lemma no_receipt_logs:
  "acquire_spec k n terminal d r d' log \<Longrightarrow> no_receipt log"
  "release_spec guard d b d' log \<Longrightarrow> no_receipt log"
  "scanned bits ps b log \<Longrightarrow> no_receipt log"
  "posted k ch word log \<Longrightarrow> no_receipt log"
proof -
  have missed: "no_receipt (missed t vs)" for t vs by (induction vs) (auto simp: no_receipt_def)
  show "acquire_spec k n terminal d r d' log \<Longrightarrow> no_receipt log"
    using missed by (cases r) (fastforce simp: acquire_spec_def Let_def no_receipt_def won_def split: if_splits)+
  show "release_spec guard d b d' log \<Longrightarrow> no_receipt log"
    by (auto simp: release_spec_def no_receipt_def split: if_splits)
  show "scanned bits ps b log \<Longrightarrow> no_receipt log"
    by (auto simp: scanned_def no_receipt_def)
  show "posted k ch word log \<Longrightarrow> no_receipt log"
    by (auto simp: posted_def no_receipt_def)
qed

lemma round_no_receipt: "send_round k ch word busy released log \<Longrightarrow> no_receipt log"
  unfolding send_round_def
proof (elim exE conjE, goal_cases)
  case (1 d guard d1 d2 d3 la ls lp lr)
  then show ?case
    using no_receipt_logs(1) [OF 1(2)] no_receipt_logs(2) [OF 1(5)] no_receipt_logs(3) [OF 1(3)]
      no_receipt_logs(4) [of k ch word lp]
    by (auto simp: no_receipt_def split: if_splits)
qed

lemma send_no_receipt: "sender_spec k ch word n r log \<Longrightarrow> no_receipt log"
proof (induction n arbitrary: log)
  case (Suc n)
  then show ?case
    by (auto dest!: round_no_receipt no_receipt_logs(1) Suc.IH) (auto simp: no_receipt_def split: if_splits)
qed (simp add: no_receipt_def)

lemma no_receipt_words: "no_receipt log \<Longrightarrow> concat (map (\<lambda>e. case e of Queue_Receive Requests (Some w) \<Rightarrow> [w] | _ \<Rightarrow> []) log) = []"
  by (induction log) (auto simp: no_receipt_def split: shim_event.splits option.splits queue.splits)

lemma response_send_port:
  assumes "exec (c906l_response_send k env w) m = (r, m')"
  shows "received_words m' = received_words m \<and> (posted_words (CHANNEL_CONTROL k) m' =
      posted_words (CHANNEL_CONTROL k) m @ [w] \<or>
    r \<noteq> 0 \<and> posted_words (CHANNEL_CONTROL k) m' = posted_words (CHANNEL_CONTROL k) m)"
proof -
  from exec_runs [OF assms [unfolded c906l_response_send_def] runs_send] obtain new where
    new: "m_log m' = m_log m @ new" "sender_spec k (CHANNEL_CONTROL k) w RESPONSE_RETRIES r new" .
  have "received_words m' = received_words m"
    using no_receipt_words [OF send_no_receipt [OF new(2)]] by (simp add: received_words_def new(1))
  then show ?thesis
    using send_outcome [OF new(2)]
    by (auto simp: send_account_def posted_once_def unposted_def posted_words_def new(1)
        MAILBOX_BUSY_def MAILBOX_LOCK_ERROR_def)
qed

interpretation shim_port: control_port "on_shim k env base" received_words "posted_words (CHANNEL_CONTROL k)"
  for k env base
proof (unfold_locales, goal_cases)
  case (1 n h r h')
  then show ?case
    by (auto simp: on_shim_def exec_def c906l_request_receive_def sense_def received_words_def
        posted_words_def projections split: prod.splits option.splits)
next
  case (2 w h sent h')
  then show ?case
    using response_send_port by (fastforce simp: on_shim_def split: prod.splits)
next
  case (3 h v h')
  then show ?case
    by (auto simp: on_shim_def exec_def c906l_ticks_def sense_def received_words_def posted_words_def
        projections split: prod.splits)
next
  case (4 h v h')
  then show ?case by (auto simp: on_shim_def exec_def c906l_request_drops_def bind_def self_def ok_def)
next
  case (5 h v h')
  then show ?case by (auto simp: on_shim_def exec_def c906l_mailbox_lock_failures_def bind_def self_def ok_def)
next
  case (6 h v h')
  then show ?case by (auto simp: on_shim_def exec_def c906l_unexpected_mailbox_events_def bind_def self_def ok_def)
next
  case (7 f h b h')
  then show ?case by (auto simp: on_shim_def received_words_def posted_words_def dest!: beside_log)
next
  case (8 h q h')
  then show ?case by (auto simp: on_shim_def beside_act_def received_words_def posted_words_def dest!: beside_log)
next
  case (9 h x h')
  then show ?case by (auto simp: on_shim_def beside_act_def received_words_def posted_words_def)
next
  case (10 st h)
  then show ?case by (simp add: on_shim_def beside_act_def received_words_def posted_words_def)
qed

section \<open>Properties\<close>

text \<open>C12: the control task on the shim answers in order. After any number of turns, as long as the
  status does not show a response timeout, the words it took from the request queue and the words it
  stored in the control slot of the mailbox correspond one to one and in order, and each response
  belongs to its request: an activation request gets the activation response, every other request
  the ordinary response, with its service and sequence number.\<close>

theorem control_answers_in_order:
  assumes "control_reaches c (on_shim k env base) t0 t" "\<not> timed_out c t"
  shows "\<exists>ps. received_words (ctl_hw (tk_ctl t)) = received_words (ctl_hw (tk_ctl t0)) @ map fst ps \<and>
    posted_words (CHANNEL_CONTROL k) (ctl_hw (tk_ctl t)) =
      posted_words (CHANNEL_CONTROL k) (ctl_hw (tk_ctl t0)) @ map snd ps \<and>
    list_all (\<lambda>(w, rw). answers c w rw) ps"
proof -
  from shim_port.run_port [OF assms(1)] obtain qs where
    qs: "received_words (ctl_hw (tk_ctl t)) = received_words (ctl_hw (tk_ctl t0)) @ map fst qs"
      "posted_words (CHANNEL_CONTROL k) (ctl_hw (tk_ctl t)) =
        posted_words (CHANNEL_CONTROL k) (ctl_hw (tk_ctl t0)) @ responses qs"
      "ledger c qs (timed_out c t)" by blast
  have all: "\<forall>(w, rw, p)\<in>set qs. p" using qs(3) assms(2) by (auto simp: ledger_def)
  have "list_all (\<lambda>(w, rw). answers c w rw) (map (\<lambda>(w, rw, p). (w, rw)) qs)"
    using qs(3) by (auto simp: ledger_def list_all_iff)
  moreover have "map fst qs = map fst (map (\<lambda>(w, rw, p). (w, rw)) qs)"
    "map (fst \<circ> snd) qs = map snd (map (\<lambda>(w, rw, p). (w, rw)) qs)" by auto
  ultimately show ?thesis
    using qs(1,2) responses_all [OF all] by metis
qed

text \<open>A firmware on the mailbox above with one ping in its queue.\<close>

definition bench_base :: "(shim \<times> bench) task_env" where
  "bench_base =
     \<lparr>te_act = \<lparr>read_pair = (\<lambda>h. ((shipped_request, shipped_request), h)),
        activate = (\<lambda>h. Some (Inr (), h)), publish_status = (\<lambda>st h. h)\<rparr>,
      te_rpmsg_initialize = (\<lambda>h. h), te_read_status = (\<lambda>h. (dormant_status, h)),
      te_publish_manifest = (\<lambda>g h. (True, h)), te_platform_start = (\<lambda>h. (True, h)),
      te_request_receive = (\<lambda>n h. (None, h)), te_response_send = (\<lambda>w h. (True, h)),
      te_request_drops = (\<lambda>h. (0, h)), te_mailbox_lock_failures = (\<lambda>h. (0, h)),
      te_unexpected_mailbox_events = (\<lambda>h. (0, h)), te_ticks = (\<lambda>h. (0, h)),
      te_lcd_initialize_generation = None, te_lcd_faulted = None\<rparr>"


definition bench_mailbox :: mailbox_contract where
  "bench_mailbox = timer_mailbox\<lparr>MAILBOX_HWSPIN_TASK_ACQUIRE_ATTEMPTS := 1\<rparr>"

definition bench_queue :: "u64 list \<Rightarrow> bench" where
  "bench_queue ws = (quiet_mailbox 0)\<lparr>b_queue := (\<lambda>q. [])(Requests := ws)\<rparr>"

definition bench_task :: "bench shim_machine task" where
  "bench_task = control_start timer_contract (on_shim bench_mailbox bench_rtos bench_base)
     \<lparr>m_hw = (shim_boot True, bench_queue [0x500010101]), m_log = []\<rparr>"

text \<open>The state in which the control task sends its response.\<close>

definition bench_asked :: "bench shim_machine" where
  "bench_asked = \<lparr>m_hw = (shim_boot True, bench_queue []),
     m_log = [Rtos_Ticks 0, Rtos_Ticks 0, Queue_Receive Requests (Some 0x500010101)]\<rparr>"

lemma bench_response:
  "map_option (\<lambda>(r, m). (r, received_words m, posted_words 0 m, request_drops (fst (m_hw m)),
       mailbox_lock_failures (fst (m_hw m)), unexpected_mailbox_events (fst (m_hw m))))
     (c906l_response_send bench_mailbox bench_rtos 0x500018101 bench_asked) =
   Some (Inr 0, [0x500010101], [0x500018101], 0, 0, 0)"
  by code_simp

lemma on_shim_simps [simp]:
  "te_act (on_shim k env base) = beside_act (te_act base)"
  "te_read_status (on_shim k env base) = beside (te_read_status base)"
  "te_request_receive (on_shim k env base) n = exec (c906l_request_receive env n)"
  "te_response_send (on_shim k env base) w m = (case exec (c906l_response_send k env w) m of (r, m') \<Rightarrow> (r = 0, m'))"
  "te_request_drops (on_shim k env base) = exec c906l_request_drops"
  "te_mailbox_lock_failures (on_shim k env base) = exec c906l_mailbox_lock_failures"
  "te_unexpected_mailbox_events (on_shim k env base) = exec c906l_unexpected_mailbox_events"
  "te_ticks (on_shim k env base) = exec (c906l_ticks env)"
  "te_lcd_faulted (on_shim k env base) = map_option beside (te_lcd_faulted base)"
  by (simp_all add: on_shim_def)

lemma exec_simps [simp]:
  "exec c906l_request_drops m = (request_drops (fst (m_hw m)), m)"
  "exec c906l_mailbox_lock_failures m = (mailbox_lock_failures (fst (m_hw m)), m)"
  "exec c906l_unexpected_mailbox_events m = (unexpected_mailbox_events (fst (m_hw m)), m)"
  by (simp_all add: exec_def c906l_request_drops_def c906l_mailbox_lock_failures_def
      c906l_unexpected_mailbox_events_def bind_def self_def ok_def)

lemma bench_turn:
  "\<exists>t. control_turn timer_contract (on_shim bench_mailbox bench_rtos bench_base) bench_task = Some t \<and>
     received_words (ctl_hw (tk_ctl t)) = [0x500010101] \<and> st_flags (ctl_status (tk_ctl t)) = 0"
proof -
  let ?env = "on_shim bench_mailbox bench_rtos bench_base"
  obtain m where m: "exec (c906l_response_send bench_mailbox bench_rtos 0x500018101) bench_asked = (0, m)"
    "received_words m = [0x500010101]" "request_drops (fst (m_hw m)) = 0"
    "mailbox_lock_failures (fst (m_hw m)) = 0" "unexpected_mailbox_events (fst (m_hw m)) = 0"
    using bench_response by (auto simp: exec_def)
  have grown: "received_words (m\<lparr>m_log := m_log m @ [Rtos_Ticks 0]\<rparr>) = received_words m"
    by (simp add: received_words_def)
  have ticks: "exec (c906l_ticks bench_rtos) x = (0, x\<lparr>m_log := m_log x @ [Rtos_Ticks 0]\<rparr>)" for x
    by (simp add: exec_def c906l_ticks_def sense_def bench_rtos_def)
  have receive: "exec (c906l_request_receive bench_rtos n) \<lparr>m_hw = (shim_boot True, bench_queue [0x500010101]),
      m_log = [Rtos_Ticks 0, Rtos_Ticks 0]\<rparr> = (Some 0x500010101, bench_asked)" for n
    by (simp add: exec_def c906l_request_receive_def sense_def bench_rtos_def bench_queue_def bench_asked_def)
  have act: "publish_status (beside_act (te_act bench_base)) st x = x" for st x
    by (simp add: beside_act_def bench_base_def)
  have status: "beside (te_read_status bench_base) x = (dormant_status, x)" for x
    by (simp add: beside_def bench_base_def)
  have lcd: "te_lcd_faulted bench_base = None" by (simp add: bench_base_def)
  show ?thesis
    by (simp add: bench_task_def control_turn_def control_start_def serve_def answer_def start_status_def
        observe_def control_defs diagnose_def beat_def Let_def ticks receive act status lcd m shipped_defs
        decode_def encode_def ordinary_response_def mailbox_diagnostic_flags_def grown split: prod.split)
qed

theorem control_answers_in_order_witness:
  "\<exists>t ps. control_reaches timer_contract (on_shim bench_mailbox bench_rtos bench_base) bench_task t \<and>
     received_words (ctl_hw (tk_ctl t)) = received_words (ctl_hw (tk_ctl bench_task)) @ map fst ps \<and>
     posted_words (CHANNEL_CONTROL bench_mailbox) (ctl_hw (tk_ctl t)) =
       posted_words (CHANNEL_CONTROL bench_mailbox) (ctl_hw (tk_ctl bench_task)) @ map snd ps \<and>
     list_all (\<lambda>(w, rw). answers timer_contract w rw) ps \<and> received_words (ctl_hw (tk_ctl t)) = [0x500010101]"
proof -
  from bench_turn obtain t where run:
    "control_turn timer_contract (on_shim bench_mailbox bench_rtos bench_base) bench_task = Some t"
    "received_words (ctl_hw (tk_ctl t)) = [0x500010101]" "st_flags (ctl_status (tk_ctl t)) = 0" by blast
  have reach: "control_reaches timer_contract (on_shim bench_mailbox bench_rtos bench_base) bench_task t"
    by (rule control_reaches.turn [OF control_reaches.start run(1)])
  have "\<not> timed_out timer_contract t" using run(3) by (simp add: timed_out_def timer_contract_def)
  from control_answers_in_order [OF reach this] reach run(2) show ?thesis by blast
qed

end
