(* ===== verification/Uart.thy ===== *)
theory Uart
  imports Pac
begin

text \<open>
  The polled UART driver (firmware/sg2002-c906l/pac/src/uart.rs): the register block, the
  semantic I/O operations \<open>Io for Mmio\<close>, every method of \<open>Driver\<close> and the public \<open>Uart\<close>,
  whose methods only forward. The driver object has one field, \<open>configured\<close>.

  Shown: configuration is all or nothing and never touches the divisor latches unless the
  divisor latch access bit was read back; a data operation of an unconfigured driver has no
  effect; a byte is written at most once and a byte that is returned is the one read from the
  FIFO; every wait is bounded by its poll budget.
\<close>

section \<open>Registers\<close>

datatype uart_register = Data_Divisor | Interrupt_Divisor | Fifo_Control | Line | Modem | Line_Status | Status

fun uart_offset :: "uart_register \<Rightarrow> nat" where
  "uart_offset Data_Divisor = 0x00"
| "uart_offset Interrupt_Divisor = 0x04"
| "uart_offset Fifo_Control = 0x08"
| "uart_offset Line = 0x0c"
| "uart_offset Modem = 0x10"
| "uart_offset Line_Status = 0x14"
| "uart_offset Status = 0x7c"

datatype uart_error = Unconfigured | Timeout | ConfigurationRejected | Receive u8

record uart_driver =
  configured :: bool

type_synonym ('h, 'a) uart_prog = "(uart_driver, 'h, uart_register, uart_error, 'a) method_prog"

definition uart_status :: "'h pac_hw \<Rightarrow> ('h, u32) uart_prog" where
  "uart_status hw = ordered_read uart_offset hw Status"

definition line_status :: "'h pac_hw \<Rightarrow> ('h, u32) uart_prog" where
  "line_status hw = ordered_read uart_offset hw Line_Status"

definition line :: "'h pac_hw \<Rightarrow> ('h, u32) uart_prog" where
  "line hw = ordered_read uart_offset hw Line"

definition set_line :: "'h pac_hw \<Rightarrow> u32 \<Rightarrow> ('h, unit) uart_prog" where
  "set_line hw v = ordered_write uart_offset hw Line v"

definition set_interrupt_divisor :: "'h pac_hw \<Rightarrow> u32 \<Rightarrow> ('h, unit) uart_prog" where
  "set_interrupt_divisor hw v = ordered_write uart_offset hw Interrupt_Divisor v"

definition set_data_divisor :: "'h pac_hw \<Rightarrow> u32 \<Rightarrow> ('h, unit) uart_prog" where
  "set_data_divisor hw v = ordered_write uart_offset hw Data_Divisor v"

definition uart_data :: "'h pac_hw \<Rightarrow> ('h, u32) uart_prog" where
  "uart_data hw = ordered_read uart_offset hw Data_Divisor"

definition set_fifo :: "'h pac_hw \<Rightarrow> u32 \<Rightarrow> ('h, unit) uart_prog" where
  "set_fifo hw v = ordered_write uart_offset hw Fifo_Control v"

definition set_modem :: "'h pac_hw \<Rightarrow> u32 \<Rightarrow> ('h, unit) uart_prog" where
  "set_modem hw v = ordered_write uart_offset hw Modem v"

lemmas uart_io_defs = uart_status_def line_status_def line_def set_line_def set_interrupt_divisor_def
  set_data_divisor_def uart_data_def set_fifo_def set_modem_def

section \<open>The driver\<close>

definition uart_from_base :: uart_driver where
  "uart_from_base = \<lparr>configured = False\<rparr>"

definition program_line :: "'h pac_hw \<Rightarrow> u16 \<Rightarrow> ('h, unit) uart_prog" where
  "program_line hw divisor =
     bind (set_line hw 3) (\<lambda>_.
     bind (line hw) (\<lambda>l. if l \<noteq> 3 then fail ConfigurationRejected else
     bind (set_interrupt_divisor hw 0) (\<lambda>_.
     bind (set_line hw 0x83) (\<lambda>_.
     bind (line hw) (\<lambda>l. if l \<noteq> 0x83 then fail ConfigurationRejected else
     bind (set_data_divisor hw (ucast (divisor AND 0xff))) (\<lambda>_.
     bind (set_interrupt_divisor hw (ucast (drop_bit 8 divisor))) (\<lambda>_.
     bind (set_line hw 3) (\<lambda>_.
     bind (line hw) (\<lambda>l. if l \<noteq> 3 then fail ConfigurationRejected else
     bind (set_modem hw 0) (\<lambda>_.
     bind (set_fifo hw 7) (\<lambda>_.
     set_self \<lparr>configured = True\<rparr>)))))))))))"

text \<open>\<open>divisor\<close> is a \<open>NonZeroU16\<close>, \<open>polls\<close> a \<open>u32\<close>.\<close>

definition uart_configure :: "'h pac_hw \<Rightarrow> u16 \<Rightarrow> u32 \<Rightarrow> ('h, unit) uart_prog" where
  "uart_configure hw divisor polls =
     bind (set_self \<lparr>configured = False\<rparr>) (\<lambda>_.
     bind (poll (unat polls) (bind (uart_status hw) (\<lambda>s.
       ok (if s AND 1 = 0 then Some () else None)))) (\<lambda>idle.
     if idle = None then fail Timeout else program_line hw divisor))"

definition ready :: "('h, unit) uart_prog" where
  "ready = bind self (\<lambda>d. if configured d then ok () else fail Unconfigured)"

definition try_write :: "'h pac_hw \<Rightarrow> u8 \<Rightarrow> ('h, bool) uart_prog" where
  "try_write hw byte =
     bind ready (\<lambda>_.
     bind (uart_status hw) (\<lambda>s.
     if s AND 2 = 0 then ok False
     else bind (set_data_divisor hw (ucast byte)) (\<lambda>_. ok True)))"

definition try_read :: "'h pac_hw \<Rightarrow> ('h, u8 option) uart_prog" where
  "try_read hw =
     bind ready (\<lambda>_.
     bind (line_status hw) (\<lambda>s.
     bind (if s AND 1 \<noteq> 0 then bind (uart_data hw) (\<lambda>v. ok (Some (ucast v))) else ok None) (\<lambda>data.
     if s AND 0x1e \<noteq> 0 then fail (Receive (ucast (s AND 0x1e))) else ok data)))"

definition uart_write :: "'h pac_hw \<Rightarrow> u8 \<Rightarrow> u32 \<Rightarrow> ('h, unit) uart_prog" where
  "uart_write hw byte polls =
     bind ready (\<lambda>_.
     bind (poll (unat polls) (bind (try_write hw byte) (\<lambda>w. ok (if w then Some () else None)))) (\<lambda>written.
     if written = None then fail Timeout else ok ()))"

definition uart_read :: "'h pac_hw \<Rightarrow> u32 \<Rightarrow> ('h, u8) uart_prog" where
  "uart_read hw polls =
     bind ready (\<lambda>_.
     bind (poll (unat polls) (try_read hw)) (\<lambda>found.
     case found of None \<Rightarrow> fail Timeout | Some byte \<Rightarrow> ok byte))"

definition uart_flush :: "'h pac_hw \<Rightarrow> u32 \<Rightarrow> ('h, unit) uart_prog" where
  "uart_flush hw polls =
     bind ready (\<lambda>_.
     bind (poll (unat polls) (bind (uart_status hw) (\<lambda>s.
       ok (if s AND 5 = 4 then Some () else None)))) (\<lambda>empty.
     if empty = None then fail Timeout else ok ()))"

section \<open>Courses of the methods\<close>

lemma course_ready: "configured d \<Longrightarrow> course (f ()) d Q \<Longrightarrow> course (bind ready f) d Q"
  by (rule course_bind [where P = "\<lambda>r d' n. r = Inr () \<and> d' = d \<and> n = []"])
    (auto simp: ready_def intro!: course_steps)

lemma course_unready: "\<not> configured d \<Longrightarrow> Q (Inl Unconfigured) d [] \<Longrightarrow> course (bind ready f) d Q"
  by (rule course_bind [where P = "\<lambda>r d' n. r = Inl Unconfigured \<and> d' = d \<and> n = []"])
    (auto simp: ready_def intro!: course_steps)

text \<open>The accesses that program the line: the divisor latches are between the two read-backs.\<close>

definition line_program :: "u16 \<Rightarrow> uart_register pac_event list" where
  "line_program divisor =
     [Store Line 3, Load Line 3, Store Interrupt_Divisor 0,
      Store Line 0x83, Load Line 0x83,
      Store Data_Divisor (ucast (divisor AND 0xff)), Store Interrupt_Divisor (ucast (drop_bit 8 divisor)),
      Store Line 3, Load Line 3, Store Modem 0, Store Fifo_Control 7]"

text \<open>A rejected read-back: the program up to it, then a value that is not the expected one.\<close>

definition rejected_program :: "u16 \<Rightarrow> uart_register pac_event list \<Rightarrow> bool" where
  "rejected_program divisor log \<longleftrightarrow> (\<exists>i \<in> {1, 4, 8}. \<exists>v. Load Line v \<noteq> line_program divisor ! i \<and>
     log = take i (line_program divisor) @ [Load Line v])"

lemma rejected_programI:
  "i \<in> {1, 4, 8} \<Longrightarrow> Load Line v \<noteq> line_program divisor ! i \<Longrightarrow>
   log = take i (line_program divisor) @ [Load Line v] \<Longrightarrow> rejected_program divisor log"
  by (auto simp: rejected_program_def)

lemma course_program_line:
  "course (program_line hw divisor) \<lparr>configured = False\<rparr> (\<lambda>r d' log.
     (r = Inr () \<and> configured d' \<and> log = line_program divisor) \<or>
     (r = Inl ConfigurationRejected \<and> \<not> configured d' \<and> rejected_program divisor log))"
  unfolding program_line_def uart_io_defs
  by (intro course_steps)
    (auto simp: course_def set_self_def fail_def line_program_def
      intro: rejected_programI [of 1] rejected_programI [of 4] rejected_programI [of 8])


text \<open>Outcome of \<open>configure\<close>: a bounded wait for idle, then the line program.\<close>

definition configure_spec ::
    "u16 \<Rightarrow> nat \<Rightarrow> uart_error + unit \<Rightarrow> uart_driver \<Rightarrow> uart_register pac_event list \<Rightarrow> bool" where
  "configure_spec divisor polls r d log \<longleftrightarrow>
     (r = Inl Timeout \<and> \<not> configured d \<and> misses Status (\<lambda>v. v AND 1 = 0) polls log) \<or>
     (\<exists>n < polls. \<exists>busy v after. log = busy @ [Load Status v] @ after \<and>
        misses Status (\<lambda>v. v AND 1 = 0) n busy \<and> v AND 1 = 0 \<and>
        ((r = Inr () \<and> configured d \<and> after = line_program divisor) \<or>
         (r = Inl ConfigurationRejected \<and> \<not> configured d \<and> rejected_program divisor after)))"

text \<open>Sampling one register once for a condition, as the polling loops do.\<close>

lemma course_sample:
  "course (bind (ordered_read uart_offset hw s) (\<lambda>v. ok (if hit v then Some () else None))) d
     (\<lambda>r d' n. d' = d \<and> (\<exists>v. n = [Load s v] \<and> r = Inr (if hit v then Some () else None)))"
  by (intro course_steps) auto

lemma course_wait:
  "course (poll k (bind (ordered_read uart_offset hw s) (\<lambda>v. ok (if hit v then Some () else None)))) d
     (\<lambda>r d' log. d' = d \<and> ((r = Inr None \<and> misses s hit k log) \<or>
       (r = Inr (Some ()) \<and> (\<exists>n < k. \<exists>miss v. log = miss @ [Load s v] \<and> misses s hit n miss \<and> hit v))))"
proof (rule course_mono [OF course_poll [OF course_sample]], goal_cases)
  case (1 r d' log)
  from polled_misses [OF conjunct2 [OF 1], where s = s and hit = hit] 1 show ?case
    by (fastforce split: if_splits)
qed

lemma course_uart_configure:
  "course (uart_configure hw divisor polls) d (configure_spec divisor (unat polls))"
  unfolding uart_configure_def uart_status_def
proof (intro course_bind_set_self course_bind [OF course_wait], goal_cases)
  case (1 a d' n)
  then show ?case
    by (auto simp: configure_spec_def intro!: course_mono [OF course_program_line])
qed auto

text \<open>Outcome of \<open>write\<close>: the byte is stored once, at the end, exactly on success.\<close>

definition write_spec ::
    "u8 \<Rightarrow> nat \<Rightarrow> uart_error + unit \<Rightarrow> uart_register pac_event list \<Rightarrow> bool" where
  "write_spec byte polls r log \<longleftrightarrow>
     (r = Inl Timeout \<and> misses Status (\<lambda>v. v AND 2 \<noteq> 0) polls log) \<or>
     (r = Inr () \<and> (\<exists>n < polls. \<exists>full v. log = full @ [Load Status v, Store Data_Divisor (ucast byte)] \<and>
        misses Status (\<lambda>v. v AND 2 \<noteq> 0) n full \<and> v AND 2 \<noteq> 0))"

lemma course_try_write:
  assumes "configured d"
  shows "course (try_write hw byte) d (\<lambda>r d' n. d' = d \<and> (\<exists>v. r = Inr (v AND 2 \<noteq> 0) \<and>
    n = (if v AND 2 \<noteq> 0 then [Load Status v, Store Data_Divisor (ucast byte)] else [Load Status v])))"
  unfolding try_write_def uart_io_defs using assms
  by (intro course_ready course_steps) auto

text \<open>One attempt to write, as \<open>write\<close> repeats it.\<close>

definition attempt_spec :: "u8 \<Rightarrow> uart_error + unit option \<Rightarrow> uart_register pac_event list \<Rightarrow> bool" where
  "attempt_spec byte r log \<longleftrightarrow> (\<exists>v. if v AND 2 \<noteq> 0
     then r = Inr (Some ()) \<and> log = [Load Status v, Store Data_Divisor (ucast byte)]
     else r = Inr None \<and> log = [Load Status v])"

lemma attempt_misses: "attempt_spec byte (Inr None) l \<Longrightarrow> \<exists>v. l = [Load Status v] \<and> \<not> v AND 2 \<noteq> 0"
  by (auto simp: attempt_spec_def split: if_splits)

lemma course_uart_write:
  assumes "configured d"
  shows "course (uart_write hw byte polls) d (\<lambda>r d' n. d' = d \<and> write_spec byte (unat polls) r n)"
proof -
  have sampled: "course (bind (try_write hw byte) (\<lambda>w. ok (if w then Some () else None))) d
      (\<lambda>r d' n. d' = d \<and> attempt_spec byte r n)"
    by (rule course_bind [OF course_try_write [OF assms]]) (auto simp: attempt_spec_def split: if_splits)
  show ?thesis
    unfolding uart_write_def
  proof (intro course_ready [OF assms] course_bind [OF course_poll [OF sampled]], goal_cases)
    case (1 a d' n)
    from polled_misses [OF conjunct2 [OF 1] attempt_misses [where byte = byte]] 1 show ?case
      by (cases a) (auto simp: write_spec_def attempt_spec_def split: if_splits)
  next
    case (2 x d' n)
    from polled_misses [OF conjunct2 [OF 2] attempt_misses [where byte = byte]] 2 show ?case
      by (auto simp: attempt_spec_def split: if_splits)
  qed
qed

text \<open>What one sample of the line status \<open>s\<close> leads to, and the outcome of \<open>read\<close>.\<close>

definition head_spec :: "uart_error + u8 option \<Rightarrow> uart_register pac_event list \<Rightarrow> bool" where
  "head_spec r log \<longleftrightarrow> (\<exists>s v.
     log = (if s AND 1 \<noteq> 0 then [Load Line_Status s, Load Data_Divisor v] else [Load Line_Status s]) \<and>
     r = (if s AND 0x1e \<noteq> 0 then Inl (Receive (ucast (s AND 0x1e)))
          else if s AND 1 \<noteq> 0 then Inr (Some (ucast v)) else Inr None))"

abbreviation attention :: "u32 \<Rightarrow> bool" where
  "attention s \<equiv> s AND 1 \<noteq> 0 \<or> s AND 0x1e \<noteq> 0"

definition read_spec :: "nat \<Rightarrow> uart_error + u8 \<Rightarrow> uart_register pac_event list \<Rightarrow> bool" where
  "read_spec polls r log \<longleftrightarrow>
     (r = Inl Timeout \<and> misses Line_Status attention polls log) \<or>
     (\<exists>n < polls. \<exists>quiet head. log = quiet @ head \<and> misses Line_Status attention n quiet \<and>
        head_spec (map_sum (\<lambda>x. x) Some r) head)"

lemma course_try_read:
  assumes "configured d"
  shows "course (try_read hw) d (\<lambda>r d' n. d' = d \<and> head_spec r n)"
  unfolding try_read_def uart_io_defs
proof (intro course_ready [OF assms] course_bind_read, goal_cases)
  case (1 s)
  let ?L = "\<lambda>r d' n. d' = d \<and> (if s AND 1 \<noteq> 0 then \<exists>v. r = Inr (Some (ucast v)) \<and> n = [Load Data_Divisor v]
    else r = Inr None \<and> n = [])"
  have "course (if s AND 1 \<noteq> 0 then bind (ordered_read uart_offset hw Data_Divisor) (\<lambda>v. ok (Some (ucast v)))
      else ok None) d ?L"
    by (intro course_steps) auto
  then show ?case
    by (rule course_bind) (auto simp: head_spec_def split: if_splits)
qed

lemma head_misses: "head_spec (Inr None) l \<Longrightarrow> \<exists>v. l = [Load Line_Status v] \<and> \<not> attention v"
  by (auto simp: head_spec_def split: if_splits)

lemma course_uart_read:
  assumes "configured d"
  shows "course (uart_read hw polls) d (\<lambda>r d' n. d' = d \<and> read_spec (unat polls) r n)"
  unfolding uart_read_def
proof (intro course_ready [OF assms] course_bind [OF course_poll [OF course_try_read [OF assms]]], goal_cases)
  case (1 a d' n)
  from polled_misses [OF conjunct2 [OF 1] head_misses] 1 show ?case
    by (cases a) (auto simp: read_spec_def)
next
  case (2 x d' n)
  from polled_misses [OF conjunct2 [OF 2] head_misses] 2 show ?case
    by (auto simp: read_spec_def)
qed

text \<open>Outcome of \<open>flush\<close>: only the status register is read, never the receive side.\<close>

definition flush_spec :: "nat \<Rightarrow> uart_error + unit \<Rightarrow> uart_register pac_event list \<Rightarrow> bool" where
  "flush_spec polls r log \<longleftrightarrow>
     (r = Inl Timeout \<and> misses Status (\<lambda>v. v AND 5 = 4) polls log) \<or>
     (r = Inr () \<and> (\<exists>n < polls. \<exists>busy v. log = busy @ [Load Status v] \<and>
        misses Status (\<lambda>v. v AND 5 = 4) n busy \<and> v AND 5 = 4))"

lemma course_uart_flush:
  assumes "configured d"
  shows "course (uart_flush hw polls) d (\<lambda>r d' n. d' = d \<and> flush_spec (unat polls) r n)"
  unfolding uart_flush_def uart_status_def
  by (intro course_ready [OF assms] course_bind [OF course_wait]) (auto simp: flush_spec_def)

section \<open>Properties\<close>

text \<open>The configuration of the UART is all or nothing. It always returns, after at most \<open>polls\<close>
  reads of the status register; the driver is configured afterwards exactly when the whole line
  program ran with all three read-backs right. On a timeout no register was written; on a
  rejected read-back the program stopped there, so the divisor latches were written only after
  the divisor latch access bit was read back as set.\<close>

theorem uart_configure_all_or_nothing:
  "\<exists>r m' new. uart_configure hw divisor polls m = Some (r, m') \<and> m_log m' = m_log m @ new \<and>
     configure_spec divisor (unat polls) r (fst (m_hw m')) new \<and> (configured (fst (m_hw m')) = (r = Inr ()))"
proof -
  have "configure_spec divisor n r d log \<Longrightarrow> configured d = (r = Inr ())" for n r d log
    by (auto simp: configure_spec_def)
  moreover obtain r m' new where "uart_configure hw divisor polls m = Some (r, m')" "m_log m' = m_log m @ new"
    "configure_spec divisor (unat polls) r (fst (m_hw m')) new"
    using course_run [OF course_uart_configure] by blast
  ultimately show ?thesis by simp
qed

text \<open>C32: the data operations of the UART are exact. An unconfigured driver refuses them without any
  register access. Otherwise \<open>write\<close> stores the byte exactly once, after a sample that shows
  room, or times out having stored nothing; \<open>read\<close> returns the byte it took from the FIFO at
  the first sample that shows one without an error, reports exactly the error bits of the first
  sample that has any (having drained the affected byte), or times out having consumed nothing;
  \<open>flush\<close> never touches the receive side. Each takes at most \<open>polls\<close> samples.\<close>

theorem uart_data_exact:
  "\<exists>w m1 n1 r m2 n2 f m3 n3. uart_write hw byte polls m = Some (w, m1) \<and> m_log m1 = m_log m @ n1 \<and>
     uart_read hw polls m = Some (r, m2) \<and> m_log m2 = m_log m @ n2 \<and>
     uart_flush hw polls m = Some (f, m3) \<and> m_log m3 = m_log m @ n3 \<and>
     (if configured (fst (m_hw m))
      then write_spec byte (unat polls) w n1 \<and> read_spec (unat polls) r n2 \<and> flush_spec (unat polls) f n3
      else (w, n1) = (Inl Unconfigured, []) \<and> (r, n2) = (Inl Unconfigured, []) \<and>
        (f, n3) = (Inl Unconfigured, []))"
proof (cases "configured (fst (m_hw m))")
  case True
  obtain w m1 n1 where "uart_write hw byte polls m = Some (w, m1)" "m_log m1 = m_log m @ n1"
    "write_spec byte (unat polls) w n1"
    using course_run [OF course_uart_write [OF True]] by blast
  moreover obtain r m2 n2 where "uart_read hw polls m = Some (r, m2)" "m_log m2 = m_log m @ n2"
    "read_spec (unat polls) r n2"
    using course_run [OF course_uart_read [OF True]] by blast
  moreover obtain f m3 n3 where "uart_flush hw polls m = Some (f, m3)" "m_log m3 = m_log m @ n3"
    "flush_spec (unat polls) f n3"
    using course_run [OF course_uart_flush [OF True]] by blast
  ultimately show ?thesis using True by simp
next
  case False
  let ?Q = "\<lambda>r d' n. r = Inl Unconfigured \<and> n = []"
  have "course (uart_write hw byte polls) (fst (m_hw m)) ?Q"
    "course (uart_read hw polls) (fst (m_hw m)) ?Q" "course (uart_flush hw polls) (fst (m_hw m)) ?Q"
    using False by (auto simp: uart_write_def uart_read_def uart_flush_def intro!: course_unready)
  from this [THEN course_run] False show ?thesis by auto
qed

end
