(* ===== verification/I2c.thy ===== *)
theory I2c
  imports Pac "HOL-Library.Sublist"
begin

text \<open>
  The polled I2C master driver (firmware/sg2002-c906l/pac/src/i2c.rs): the register block,
  addresses and timings, the semantic I/O operations \<open>Io for Mmio\<close>, every method of \<open>Driver\<close>
  and the public \<open>I2c\<close>, whose methods only forward. A read works in place, so \<open>transfer\<close> and
  \<open>exchange\<close> return the buffer together with the result. The shared poll budget of a transfer is
  passed along as a number; every waiting loop gives up one unit per iteration (\<open>spin\<close>), which
  is the recursion of the loops.

  Shown: the commands a transfer issues are the ones of the requested write/read sequence (start,
  repeated start and stop included), a prefix of them on a failure; at most one read command is
  outstanding; the poll budgets are kept; the controller is disabled afterwards or the driver is
  unusable until it is configured again.
\<close>

section \<open>Registers\<close>

datatype i2c_register = Control | Target | Slave | Data | High | Low | Fast_High | Fast_Low
  | Interrupt | Mask | Raw_Interrupt | Rx_Threshold | Tx_Threshold | Clear_All | Clear_Rx_Under
  | Clear_Rx_Over | Clear_Tx_Over | Clear_Request | Clear_Abort | Clear_Rx_Done | Clear_Activity
  | Clear_Stop | Clear_Start | Clear_General | Enable | Status | Tx_Level | Rx_Level | Hold
  | Abort_Source | Nack | Dma | Dma_Tx | Dma_Rx | Setup | General | Enable_Status

fun i2c_offset :: "i2c_register \<Rightarrow> nat" where
  "i2c_offset Control = 0x00"
| "i2c_offset Target = 0x04"
| "i2c_offset Slave = 0x08"
| "i2c_offset Data = 0x10"
| "i2c_offset High = 0x14"
| "i2c_offset Low = 0x18"
| "i2c_offset Fast_High = 0x1c"
| "i2c_offset Fast_Low = 0x20"
| "i2c_offset Interrupt = 0x2c"
| "i2c_offset Mask = 0x30"
| "i2c_offset Raw_Interrupt = 0x34"
| "i2c_offset Rx_Threshold = 0x38"
| "i2c_offset Tx_Threshold = 0x3c"
| "i2c_offset Clear_All = 0x40"
| "i2c_offset Clear_Rx_Under = 0x44"
| "i2c_offset Clear_Rx_Over = 0x48"
| "i2c_offset Clear_Tx_Over = 0x4c"
| "i2c_offset Clear_Request = 0x50"
| "i2c_offset Clear_Abort = 0x54"
| "i2c_offset Clear_Rx_Done = 0x58"
| "i2c_offset Clear_Activity = 0x5c"
| "i2c_offset Clear_Stop = 0x60"
| "i2c_offset Clear_Start = 0x64"
| "i2c_offset Clear_General = 0x68"
| "i2c_offset Enable = 0x6c"
| "i2c_offset Status = 0x70"
| "i2c_offset Tx_Level = 0x74"
| "i2c_offset Rx_Level = 0x78"
| "i2c_offset Hold = 0x7c"
| "i2c_offset Abort_Source = 0x80"
| "i2c_offset Nack = 0x84"
| "i2c_offset Dma = 0x88"
| "i2c_offset Dma_Tx = 0x8c"
| "i2c_offset Dma_Rx = 0x90"
| "i2c_offset Setup = 0x94"
| "i2c_offset General = 0x98"
| "i2c_offset Enable_Status = 0x9c"

datatype address = Address u8

definition address_new :: "u8 \<Rightarrow> address option" where
  "address_new value = (if 8 \<le> value \<and> value \<le> 0x77 then Some (Address value) else None)"

text \<open>\<open>high\<close> and \<open>low\<close> are \<open>NonZeroU16\<close>.\<close>

record timing =
  high :: u16
  low :: u16
  hold :: u16

datatype i2c_error = Unconfigured | TooLong | Timeout | DisableTimeout | NotIdle | Abort u32 | Fifo u32

record i2c_driver =
  configured :: bool

type_synonym ('h, 'a) i2c_prog = "(i2c_driver, 'h, i2c_register, i2c_error, 'a) method_prog"

definition io_enable :: "'h pac_hw \<Rightarrow> u32 \<Rightarrow> ('h, unit) i2c_prog" where
  "io_enable hw v = ordered_write i2c_offset hw Enable v"

definition io_enabled :: "'h pac_hw \<Rightarrow> ('h, bool) i2c_prog" where
  "io_enabled hw = bind (ordered_read i2c_offset hw Enable_Status) (\<lambda>v. ok (v AND 1 \<noteq> 0))"

definition io_configure :: "'h pac_hw \<Rightarrow> timing \<Rightarrow> ('h, unit) i2c_prog" where
  "io_configure hw timing =
     bind (ordered_write i2c_offset hw Mask 0) (\<lambda>_.
     bind (ordered_write i2c_offset hw Dma 0) (\<lambda>_.
     bind (ordered_write i2c_offset hw Control 0x63) (\<lambda>_.
     bind (ordered_write i2c_offset hw High (ucast (high timing))) (\<lambda>_.
     bind (ordered_write i2c_offset hw Low (ucast (low timing))) (\<lambda>_.
     bind (ordered_write i2c_offset hw Hold (ucast (hold timing))) (\<lambda>_.
     bind (ordered_write i2c_offset hw Rx_Threshold 0) (\<lambda>_.
     ordered_write i2c_offset hw Tx_Threshold 0)))))))"

fun io_target :: "'h pac_hw \<Rightarrow> address \<Rightarrow> ('h, unit) i2c_prog" where
  "io_target hw (Address a) = ordered_write i2c_offset hw Target (ucast a)"

definition io_clear :: "'h pac_hw \<Rightarrow> ('h, unit) i2c_prog" where
  "io_clear hw = bind (ordered_read i2c_offset hw Clear_All) (\<lambda>_. ok ())"

definition io_interrupt :: "'h pac_hw \<Rightarrow> ('h, u32) i2c_prog" where
  "io_interrupt hw = ordered_read i2c_offset hw Raw_Interrupt"

definition io_abort_source :: "'h pac_hw \<Rightarrow> ('h, u32) i2c_prog" where
  "io_abort_source hw = ordered_read i2c_offset hw Abort_Source"

definition io_status :: "'h pac_hw \<Rightarrow> ('h, u32) i2c_prog" where
  "io_status hw = ordered_read i2c_offset hw Status"

definition io_command :: "'h pac_hw \<Rightarrow> u32 \<Rightarrow> ('h, unit) i2c_prog" where
  "io_command hw v = ordered_write i2c_offset hw Data v"

definition io_read :: "'h pac_hw \<Rightarrow> ('h, u8) i2c_prog" where
  "io_read hw = bind (ordered_read i2c_offset hw Data) (\<lambda>v. ok (ucast v))"

lemmas i2c_io_defs = io_enable_def io_enabled_def io_clear_def io_interrupt_def io_abort_source_def
  io_status_def io_command_def io_read_def

section \<open>The driver\<close>

definition i2c_from_base :: i2c_driver where
  "i2c_from_base = \<lparr>configured = False\<rparr>"

definition disable :: "'h pac_hw \<Rightarrow> u32 \<Rightarrow> ('h, unit) i2c_prog" where
  "disable hw polls =
     bind (io_enable hw 0) (\<lambda>_.
     bind (poll (unat polls) (bind (io_enabled hw) (\<lambda>e. ok (if \<not> e then Some () else None)))) (\<lambda>r.
     if r = None then fail DisableTimeout else ok ()))"

definition i2c_configure :: "'h pac_hw \<Rightarrow> timing \<Rightarrow> u32 \<Rightarrow> ('h, unit) i2c_prog" where
  "i2c_configure hw timing polls =
     bind (set_self \<lparr>configured = False\<rparr>) (\<lambda>_.
     if polls = 0 then fail Timeout else
     bind (disable hw polls) (\<lambda>_.
     bind (io_status hw) (\<lambda>s. if s AND 1 \<noteq> 0 then fail NotIdle else
     bind (io_configure hw timing) (\<lambda>_.
     bind (io_clear hw) (\<lambda>_.
     set_self \<lparr>configured = True\<rparr>)))))"

text \<open>A waiting loop that takes one unit of the shared budget per iteration.\<close>

primrec spin :: "nat \<Rightarrow> ('e, i2c_error, 'a option) prog \<Rightarrow> ('e, i2c_error, 'a \<times> nat) prog" where
  "spin 0 p = fail Timeout"
| "spin (Suc budget) p = bind p (\<lambda>r. case r of Some a \<Rightarrow> ok (a, budget) | None \<Rightarrow> spin budget p)"

text \<open>\<open>sample\<close> after it has taken its unit of the budget.\<close>

definition observe :: "'h pac_hw \<Rightarrow> ('h, u32 \<times> u32) i2c_prog" where
  "observe hw =
     bind (io_interrupt hw) (\<lambda>interrupt.
     if interrupt AND 0x40 \<noteq> 0 then bind (io_abort_source hw) (\<lambda>a. fail (Abort a))
     else if interrupt AND 0x0b \<noteq> 0 then fail (Fifo (interrupt AND 0x0b))
     else bind (io_status hw) (\<lambda>s. ok (s, interrupt)))"

definition sample :: "'h pac_hw \<Rightarrow> nat \<Rightarrow> ('h, (u32 \<times> u32) \<times> nat) i2c_prog" where
  "sample hw budget = (if budget = 0 then fail Timeout
     else bind (observe hw) (\<lambda>x. ok (x, budget - 1)))"

definition wait_status :: "'h pac_hw \<Rightarrow> u32 \<Rightarrow> nat \<Rightarrow> ('h, unit \<times> nat) i2c_prog" where
  "wait_status hw m budget =
     spin budget (bind (observe hw) (\<lambda>(s, i). ok (if s AND m = m then Some () else None)))"

lemma wait_status_loop:
  "wait_status hw m budget =
     bind (sample hw budget) (\<lambda>((s, i), budget). if s AND m = m then ok ((), budget) else wait_status hw m budget)"
  by (cases budget) (auto simp: wait_status_def sample_def bind_assoc bind_def ok_def fail_def fun_eq_iff
      split: option.split sum.split prod.split)

section \<open>Transfers\<close>

definition wait_enabled :: "'h pac_hw \<Rightarrow> nat \<Rightarrow> ('h, unit \<times> nat) i2c_prog" where
  "wait_enabled hw budget = spin budget (bind (io_enabled hw) (\<lambda>e. ok (if e then Some () else None)))"

definition wait_stopped :: "'h pac_hw \<Rightarrow> nat \<Rightarrow> ('h, unit \<times> nat) i2c_prog" where
  "wait_stopped hw budget = spin budget (bind (observe hw) (\<lambda>(s, i).
     ok (if i AND push_bit 9 1 \<noteq> 0 \<and> s AND 5 = 4 then Some () else None)))"

primrec send_bytes :: "'h pac_hw \<Rightarrow> bool \<Rightarrow> nat \<Rightarrow> u8 list \<Rightarrow> ('h, nat) i2c_prog" where
  "send_bytes hw no_read budget [] = ok budget"
| "send_bytes hw no_read budget (byte # bytes) =
     bind (wait_status hw 2 budget) (\<lambda>(_, budget).
     bind (io_command hw (ucast byte OR (if bytes = [] \<and> no_read then push_bit 9 1 else 0))) (\<lambda>_.
     send_bytes hw no_read budget bytes))"

definition read_command :: "bool \<Rightarrow> nat \<Rightarrow> nat \<Rightarrow> u32" where
  "read_command wrote index len =
     (push_bit 8 1 OR (if index = 0 \<and> wrote then push_bit 10 1 else 0)) OR
     (if index + 1 = len then push_bit 9 1 else 0)"

text \<open>The read loop, with the part of the buffer from \<open>index\<close> on; an error leaves the rest as it was.\<close>

primrec recv_bytes :: "'h pac_hw \<Rightarrow> bool \<Rightarrow> nat \<Rightarrow> nat \<Rightarrow> nat \<Rightarrow> u8 list \<Rightarrow>
    ('h, (i2c_error + nat) \<times> u8 list) i2c_prog" where
  "recv_bytes hw wrote len index budget [] = ok (Inr budget, [])"
| "recv_bytes hw wrote len index budget (byte # bytes) =
     bind (attempt (bind (wait_status hw 2 budget) (\<lambda>(_, budget).
       bind (io_command hw (read_command wrote index len)) (\<lambda>_.
       bind (wait_status hw 8 budget) (\<lambda>(_, budget).
       bind (io_read hw) (\<lambda>v. ok (v, budget))))))) (\<lambda>r.
     case r of Inl e \<Rightarrow> ok (Inl e, byte # bytes)
     | Inr (v, budget) \<Rightarrow> bind (recv_bytes hw wrote len (index + 1) budget bytes) (\<lambda>(r, bs). ok (r, v # bs)))"

definition exchange :: "'h pac_hw \<Rightarrow> u8 list \<Rightarrow> u8 list \<Rightarrow> nat \<Rightarrow> ('h, (i2c_error + unit) \<times> u8 list) i2c_prog" where
  "exchange hw ws rs budget =
     bind (attempt (bind (wait_enabled hw budget) (\<lambda>(_, budget). send_bytes hw (rs = []) budget ws))) (\<lambda>r.
     case r of Inl e \<Rightarrow> ok (Inl e, rs)
     | Inr budget \<Rightarrow> bind (recv_bytes hw (ws \<noteq> []) (length rs) 0 budget rs) (\<lambda>(r, bytes).
         case r of Inl e \<Rightarrow> ok (Inl e, bytes)
         | Inr budget \<Rightarrow> bind (attempt (wait_stopped hw budget)) (\<lambda>r.
             ok (map_sum (\<lambda>x. x) (\<lambda>_. ()) r, bytes))))"

definition transfer ::
    "'h pac_hw \<Rightarrow> address \<Rightarrow> u8 list \<Rightarrow> u8 list \<Rightarrow> u32 \<Rightarrow> ('h, (i2c_error + unit) \<times> u8 list) i2c_prog" where
  "transfer hw address ws rs polls =
     bind self (\<lambda>d.
     if \<not> configured d then ok (Inl Unconfigured, rs)
     else if 256 < length ws \<or> 256 < length rs then ok (Inl TooLong, rs)
     else if ws = [] \<and> rs = [] then ok (Inr (), rs)
     else if polls = 0 then ok (Inl Timeout, rs)
     else bind (bind (io_enabled hw) (\<lambda>e. if e then ok True
         else bind (io_status hw) (\<lambda>s. ok (s AND 9 \<noteq> 0)))) (\<lambda>busy.
       if busy then bind (set_self \<lparr>configured = False\<rparr>) (\<lambda>_. ok (Inl NotIdle, rs))
       else bind (io_clear hw) (\<lambda>_.
         bind (io_target hw address) (\<lambda>_.
         bind (io_enable hw 1) (\<lambda>_.
         bind (exchange hw ws rs (unat polls)) (\<lambda>(result, bytes).
         bind (attempt (disable hw polls)) (\<lambda>cleanup.
         bind (if result \<noteq> Inr () \<or> cleanup \<noteq> Inr () then set_self \<lparr>configured = False\<rparr> else ok ()) (\<lambda>_.
         case cleanup of Inl e \<Rightarrow> ok (Inl e, bytes)
         | Inr _ \<Rightarrow> bind (io_clear hw) (\<lambda>_. ok (result, bytes))))))))))"


section \<open>What a log says\<close>

abbreviation stored :: "i2c_register pac_event list \<Rightarrow> u32 list" where
  "stored \<equiv> stores_to Data"

abbreviation loaded :: "i2c_register pac_event list \<Rightarrow> u32 list" where
  "loaded \<equiv> loads_from Data"

abbreviation polls_used :: "i2c_register pac_event list \<Rightarrow> nat" where
  "polls_used \<equiv> samples {Enable_Status, Raw_Interrupt}"

text \<open>Waiting only reads status registers; an exchange also uses the data register and nothing else.\<close>

definition waiting :: "i2c_register pac_event list \<Rightarrow> bool" where
  "waiting log \<longleftrightarrow> list_all (\<lambda>e. case e of
     Load r v \<Rightarrow> r \<in> {Enable_Status, Raw_Interrupt, Status, Abort_Source} | _ \<Rightarrow> False) log"

definition exchanging :: "i2c_register pac_event list \<Rightarrow> bool" where
  "exchanging log \<longleftrightarrow> list_all (\<lambda>e. case e of
     Load r v \<Rightarrow> r \<in> {Enable_Status, Raw_Interrupt, Status, Abort_Source, Data}
   | Store r v \<Rightarrow> r = Data | _ \<Rightarrow> False) log"

text \<open>The number of outstanding read commands, undefined when a second one is issued.\<close>

fun outstanding_step :: "i2c_register pac_event \<Rightarrow> nat \<Rightarrow> nat option" where
  "outstanding_step (Store r v) n =
     (if r = Data \<and> bit v 8 then if n = 0 then Some 1 else None else Some n)"
| "outstanding_step (Load r v) n = (if r = Data then if n = 1 then Some 0 else None else Some n)"
| "outstanding_step _ n = Some n"

primrec outstanding :: "i2c_register pac_event list \<Rightarrow> nat \<Rightarrow> nat option" where
  "outstanding [] n = Some n"
| "outstanding (e # log) n = (case outstanding_step e n of None \<Rightarrow> None | Some n' \<Rightarrow> outstanding log n')"

lemma outstanding_append [simp]:
  "outstanding (l @ l') n = (case outstanding l n of None \<Rightarrow> None | Some n' \<Rightarrow> outstanding l' n')"
  by (induction l arbitrary: n) (auto split: option.split)

lemma log_preds [simp]:
  "waiting []" "waiting (e # log) \<longleftrightarrow> (case e of
     Load r v \<Rightarrow> r \<in> {Enable_Status, Raw_Interrupt, Status, Abort_Source} | _ \<Rightarrow> False) \<and> waiting log"
  "waiting (l @ l') \<longleftrightarrow> waiting l \<and> waiting l'"
  "exchanging []" "exchanging (e # log) \<longleftrightarrow> (case e of
     Load r v \<Rightarrow> r \<in> {Enable_Status, Raw_Interrupt, Status, Abort_Source, Data}
   | Store r v \<Rightarrow> r = Data | _ \<Rightarrow> False) \<and> exchanging log"
  "exchanging (l @ l') \<longleftrightarrow> exchanging l \<and> exchanging l'"
  by (simp_all add: waiting_def exchanging_def)

lemma waitingD:
  "waiting log \<Longrightarrow> exchanging log \<and> stored log = [] \<and> loaded log = [] \<and> outstanding log n = Some n"
  by (induction log) (auto split: pac_event.splits)

section \<open>Parts of an exchange\<close>

definition bus_error :: "i2c_error \<Rightarrow> bool" where
  "bus_error e \<longleftrightarrow> e = Timeout \<or> (\<exists>a. e = Abort a) \<or> (\<exists>b. b \<noteq> 0 \<and> e = Fifo b)"

text \<open>
  \<open>part_spec cmds bytes b r bytes' log\<close>: a part of an exchange that is to issue the commands
  \<open>cmds\<close> and to receive into \<open>bytes\<close> with a budget of \<open>b\<close> ended with \<open>r\<close> (the budget left, or
  an error) and \<open>bytes'\<close> in the buffer.
\<close>

definition part_spec :: "u32 list \<Rightarrow> u8 list \<Rightarrow> nat \<Rightarrow> i2c_error + nat \<Rightarrow> u8 list \<Rightarrow>
    i2c_register pac_event list \<Rightarrow> bool" where
  "part_spec cmds bytes b r bytes' log \<longleftrightarrow>
     exchanging log \<and> prefix (stored log) cmds \<and> length (loaded log) \<le> length bytes \<and>
     bytes' = map ucast (loaded log) @ drop (length (loaded log)) bytes \<and>
     (case r of
       Inr b' \<Rightarrow> stored log = cmds \<and> length (loaded log) = length bytes \<and>
         outstanding log 0 = Some 0 \<and> polls_used log + b' \<le> b
     | Inl e \<Rightarrow> outstanding log 0 \<noteq> None \<and> polls_used log \<le> b \<and> bus_error e)"

lemma part_append:
  "part_spec cmds bytes b (Inr b') bs l \<Longrightarrow> part_spec cmds' bytes' b' r bs' l' \<Longrightarrow>
   part_spec (cmds @ cmds') (bytes @ bytes') b r (bs @ bs') (l @ l')"
  by (auto simp: part_spec_def split: sum.splits)

lemma part_fail:
  "part_spec cmds bytes b (Inl e) bs l \<Longrightarrow> part_spec (cmds @ cmds') (bytes @ bytes') b (Inl e) (bs @ bytes') l"
  by (auto simp: part_spec_def)

lemma part_nothing [simp]: "part_spec [] [] b (Inr b) [] []"
  by (simp add: part_spec_def)

lemma part_waited:
  "waiting log \<Longrightarrow> polls_used log + b' \<le> b \<Longrightarrow> part_spec [] [] b (Inr b') [] log"
  "waiting log \<Longrightarrow> polls_used log \<le> b \<Longrightarrow> bus_error e \<Longrightarrow> part_spec [] [] b (Inl e) [] log"
  using waitingD [of log 0] by (auto simp: part_spec_def)

lemma part_command: "\<not> bit c 8 \<Longrightarrow> part_spec [c] [] b (Inr b) [] [Store Data c]"
  by (simp add: part_spec_def)

lemma part_read:
  assumes "bit c 8" "waiting log"
  shows "polls_used log + b' \<le> b \<Longrightarrow>
      part_spec [c] [byte] b (Inr b') [ucast v] (Store Data c # log @ [Load Data v])"
    "polls_used log \<le> b \<Longrightarrow> bus_error e \<Longrightarrow> part_spec [c] [byte] b (Inl e) [byte] (Store Data c # log)"
  using assms waitingD [OF assms(2), of 1] by (auto simp: part_spec_def)

section \<open>Courses of the loops\<close>

abbreviation left :: "i2c_error + 'a \<times> nat \<Rightarrow> i2c_error + nat" where
  "left \<equiv> map_sum (\<lambda>x. x) snd"

definition waited :: "nat \<Rightarrow> i2c_error + 'a \<times> nat \<Rightarrow> i2c_register pac_event list \<Rightarrow> bool" where
  "waited b r log \<longleftrightarrow> waiting log \<and> (case r of Inr (a, b') \<Rightarrow> polls_used log + b' \<le> b
     | Inl e \<Rightarrow> polls_used log \<le> b \<and> bus_error e)"

lemma course_spin:
  assumes "course p d (\<lambda>r d' log. d' = d \<and> waiting log \<and> polls_used log \<le> 1 \<and> (\<forall>e. r = Inl e \<longrightarrow> bus_error e))"
  shows "course (spin b p) d (\<lambda>r d' log. d' = d \<and> waited b r log)"
proof (induction b)
  case 0
  show ?case by (simp add: waited_def bus_error_def)
next
  case (Suc b)
  show ?case
    unfolding spin.simps
  proof (rule course_bind [OF assms], goal_cases)
    case (1 a d' n)
    then show ?case
      by (cases a) (auto intro!: course_mono [OF Suc] simp: waited_def split: sum.splits)
  qed (auto simp: waited_def)
qed

lemma course_observe:
  "course (observe hw) d (\<lambda>r d' log. d' = d \<and> waiting log \<and> polls_used log \<le> 1 \<and> (\<forall>e. r = Inl e \<longrightarrow> bus_error e))"
  unfolding observe_def i2c_io_defs by (intro course_steps) (auto simp: bus_error_def)

lemma course_waits:
  "course (wait_status hw m b) d (\<lambda>r d' log. d' = d \<and> waited b r log)"
  "course (wait_stopped hw b) d (\<lambda>r d' log. d' = d \<and> waited b r log)"
  "course (wait_enabled hw b) d (\<lambda>r d' log. d' = d \<and> waited b r log)"
  unfolding wait_status_def wait_stopped_def wait_enabled_def io_enabled_def bind_assoc bind_ok
  by (intro course_spin course_bind [OF course_observe] course_bind_read; auto)+


lemma waited_part:
  "waited b (Inl e) log \<Longrightarrow> part_spec [] [] b (Inl e) [] log"
  "waited b (Inr (a, b')) log \<Longrightarrow> part_spec [] [] b (Inr b') [] log"
  by (auto simp: waited_def intro: part_waited)

text \<open>The commands of a write: the stop condition goes with the last byte unless a read follows.\<close>

definition write_commands :: "bool \<Rightarrow> u8 list \<Rightarrow> u32 list" where
  "write_commands stop bytes = (if bytes = [] then []
     else map ucast (butlast bytes) @ [ucast (last bytes) OR (if stop then push_bit 9 1 else 0)])"

lemma write_commands_simps [simp]:
  "write_commands stop [] = []"
  "write_commands stop (b # bs) = (ucast b OR (if bs = [] \<and> stop then push_bit 9 1 else 0)) # write_commands stop bs"
  by (simp_all add: write_commands_def)

lemma write_command_bit: "\<not> bit (ucast (b :: u8) OR (if c then push_bit 9 1 else 0) :: u32) 8"
  by (auto simp: bit_simps dest: bit_imp_le_length)

lemma course_send_bytes:
  "course (send_bytes hw no_read b bytes) d (\<lambda>r d' log. d' = d \<and> part_spec (write_commands no_read bytes) [] b r [] log)"
proof (induction bytes arbitrary: b)
  case (Cons x bytes)
  let ?c = "ucast x OR (if bytes = [] \<and> no_read then push_bit 9 1 else 0) :: u32"
  show ?case
    unfolding send_bytes.simps io_command_def
  proof (rule course_bind [OF course_waits(1)], goal_cases)
    case (1 a d' n)
    then obtain b' where a: "a = ((), b')" "d' = d" and w: "part_spec [] [] b (Inr b') [] n"
      by (cases a) (auto dest: waited_part)
    have "part_spec (write_commands no_read (x # bytes)) [] b r [] (n @ Store Data ?c # log)"
      if "part_spec (write_commands no_read bytes) [] b' r [] log" for r log
      using part_append [OF w part_append [OF part_command [OF write_command_bit] that]] by simp
    then show ?case
      unfolding a prod.case by (intro course_bind_write course_mono [OF Cons]) auto
  next
    case (2 e d' n)
    then show ?case
      using part_fail [of "[]" "[]" b e "[]" n "write_commands no_read (x # bytes)" "[]"]
      by (auto dest: waited_part)
  qed
qed simp

lemma read_command_bit: "bit (read_command wrote index len) 8"
  by (simp add: read_command_def bit_simps)

abbreviation read_commands :: "bool \<Rightarrow> nat \<Rightarrow> nat \<Rightarrow> nat \<Rightarrow> u32 list" where
  "read_commands wrote len index n \<equiv> map (\<lambda>i. read_command wrote i len) [index..<index + n]"

lemma course_recv_byte:
  "course (bind (wait_status hw 2 b) (\<lambda>(_, b). bind (io_command hw (read_command wrote index len)) (\<lambda>_.
     bind (wait_status hw 8 b) (\<lambda>(_, b). bind (io_read hw) (\<lambda>v. ok (v, b)))))) d
     (\<lambda>r d' log. d' = d \<and> part_spec [read_command wrote index len] [byte] b (left r)
        (case r of Inl _ \<Rightarrow> [byte] | Inr (v, _) \<Rightarrow> [v]) log)"
  (is "course _ d (\<lambda>r d' log. d' = d \<and> ?P r log)")
  unfolding io_command_def io_read_def bind_assoc bind_ok
proof (rule course_bind [OF course_waits(1)], goal_cases)
  case (1 a d' n)
  then obtain b' where a: "a = ((), b')" "d' = d" and w: "part_spec [] [] b (Inr b') [] n"
    by (cases a) (auto dest: waited_part)
  have completed: "?P (Inr (ucast v, b'')) (n @ Store Data (read_command wrote index len) # log @ [Load Data v])"
    if "waited b' (Inr ((), b'')) log" for b'' log v
    using part_append [OF w part_read(1) [OF read_command_bit]] that by (simp add: waited_def)
  have failed: "?P (Inl e) (n @ Store Data (read_command wrote index len) # log)"
    if "waited b' (Inl e :: i2c_error + unit \<times> nat) log" for e log
    using part_append [OF w part_read(2) [OF read_command_bit]] that by (simp add: waited_def)
  show ?case
    unfolding a prod.case
    by (intro course_bind_write course_bind [OF course_waits(1)])
      (auto intro!: course_bind_read dest: completed failed)
next
  case (2 e d' n)
  then show ?case
    using part_fail [of "[]" "[]" b e "[]" n "[read_command wrote index len]" "[byte]"]
    by (auto dest: waited_part)
qed

lemma course_recv_bytes:
  "course (recv_bytes hw wrote len index b bytes) d (\<lambda>x d' log. d' = d \<and> (\<exists>r bs. x = Inr (r, bs) \<and>
     part_spec (read_commands wrote len index (length bytes)) bytes b r bs log))"
proof (induction bytes arbitrary: index b)
  case (Cons x bytes)
  have cmds: "read_commands wrote len index (length (x # bytes)) =
      [read_command wrote index len] @ read_commands wrote len (index + 1) (length bytes)"
    by (simp add: upt_rec [of index]) (simp add: Suc_le_eq)
  show ?case
    unfolding recv_bytes.simps cmds
  proof (rule course_bind_attempt [OF course_recv_byte [where byte = x]], goal_cases)
    case (1 r d' n)
    show ?case
    proof (cases r)
      case (Inl e)
      with 1 part_fail [of "[read_command wrote index len]" "[x]" b e "[x]" n _ bytes] show ?thesis by simp
    next
      case (Inr a)
      then obtain v b' where a: "r = Inr (v, b')" by (cases a) auto
      with 1 have w: "part_spec [read_command wrote index len] [x] b (Inr b') [v] n" "d' = d" by auto
      show ?thesis
        unfolding a sum.case prod.case w(2)
      proof (rule course_bind [OF Cons], goal_cases)
        case (1 a d'' n')
        then show ?case using part_append [OF w(1)] by (cases a) fastforce
      qed auto
    qed
  qed
qed simp


text \<open>The command sequence of a whole transfer.\<close>

definition transfer_commands :: "u8 list \<Rightarrow> nat \<Rightarrow> u32 list" where
  "transfer_commands ws n = write_commands (n = 0) ws @ read_commands (ws \<noteq> []) n 0 n"

abbreviation drop_budget :: "i2c_error + 'a \<Rightarrow> i2c_error + unit" where
  "drop_budget \<equiv> map_sum (\<lambda>x. x) (\<lambda>_. ())"

lemma course_i2c_exchange:
  "course (exchange hw ws rs b) d (\<lambda>x d' log. d' = d \<and> (\<exists>r bs. x = Inr (drop_budget r, bs) \<and>
     part_spec (transfer_commands ws (length rs)) rs b r bs log))"
  (is "course _ d (\<lambda>x d' log. d' = d \<and> ?Q x log)")
proof -
  have start: "course (bind (wait_enabled hw b) (\<lambda>(_, b). send_bytes hw (rs = []) b ws)) d
      (\<lambda>r d' log. d' = d \<and> part_spec (write_commands (rs = []) ws) [] b r [] log)"
  proof (rule course_bind [OF course_waits(3)], goal_cases)
    case (1 a d' n)
    then obtain b' where a: "a = ((), b')" "d' = d" and w: "part_spec [] [] b (Inr b') [] n"
      by (cases a) (auto dest: waited_part)
    show ?case
      unfolding a prod.case using part_append [OF w, of _ "[]"]
      by (intro course_mono [OF course_send_bytes]) auto
  next
    case (2 e d' n)
    then show ?case
      using part_fail [of "[]" "[]" b e "[]" n _ "[]"] by (auto dest: waited_part)
  qed
  have stop: "course (bind (attempt (wait_stopped hw b')) (\<lambda>r. ok (drop_budget r, bs))) d
      (\<lambda>x d' log. d' = d \<and> ?Q x (n @ log))"
    if "part_spec (transfer_commands ws (length rs)) rs b (Inr b') bs n" for b' bs n
  proof (rule course_bind_attempt [OF course_waits(2)], goal_cases)
    case (1 r d' l)
    then have "part_spec [] [] b' (left r) [] l"
      by (cases r) (auto dest: waited_part)
    from part_append [OF that this] 1 show ?case by (auto intro!: exI [of _ "left r"] simp: sum.map_comp comp_def)
  qed
  show ?thesis
    unfolding exchange_def
  proof (rule course_bind_attempt [OF start], goal_cases)
    case (1 r d' n)
    show ?case
    proof (cases r)
      case (Inl e)
      with 1 part_fail [of _ "[]" b e "[]" n "read_commands (ws \<noteq> []) (length rs) 0 (length rs)" rs] show ?thesis
        by (auto simp: transfer_commands_def intro!: exI [of _ "Inl e"])
    next
      case (Inr b1)
      with 1 have w: "part_spec (write_commands (rs = []) ws) [] b (Inr b1) [] n" "d' = d" by auto
      show ?thesis
        unfolding Inr sum.case w(2)
      proof (rule course_bind [OF course_recv_bytes], goal_cases)
        case (1 a d'' n')
        then obtain r' bs where a: "a = (r', bs)" "d'' = d"
          and p: "part_spec (read_commands (ws \<noteq> []) (length rs) 0 (length rs)) rs b1 r' bs n'" by auto
        from part_append [OF w(1) p] have q: "part_spec (transfer_commands ws (length rs)) rs b r' bs (n @ n')"
          by (simp add: transfer_commands_def)
        show ?case
        proof (cases r')
          case (Inl e)
          with q a show ?thesis by (auto intro!: exI [of _ "Inl e"])
        next
          case (Inr b2)
          with q stop [of b2 bs "n @ n'"] a show ?thesis by simp
        qed
      qed auto
    qed
  qed
qed

text \<open>Disabling: the store, then at most \<open>polls\<close> samples of the enable status.\<close>

definition disable_spec :: "nat \<Rightarrow> i2c_error + unit \<Rightarrow> i2c_register pac_event list \<Rightarrow> bool" where
  "disable_spec polls r log \<longleftrightarrow> (\<exists>n l. log = Store Enable 0 # l \<and>
     (if r = Inr () then \<exists>still v. n < polls \<and> l = still @ [Load Enable_Status v] \<and>
        misses Enable_Status (\<lambda>v. v AND 1 = 0) n still \<and> v AND 1 = 0
      else r = Inl DisableTimeout \<and> misses Enable_Status (\<lambda>v. v AND 1 = 0) polls l))"

definition enable_sample :: "i2c_error + unit option \<Rightarrow> i2c_register pac_event list \<Rightarrow> bool" where
  "enable_sample r log \<longleftrightarrow> (\<exists>v. log = [Load Enable_Status v] \<and> r = Inr (if v AND 1 = 0 then Some () else None))"

lemma enable_misses: "enable_sample (Inr None) l \<Longrightarrow> \<exists>v. l = [Load Enable_Status v] \<and> \<not> v AND 1 = 0"
  by (auto simp: enable_sample_def split: if_splits)

lemma course_disable: "course (disable hw polls) d (\<lambda>r d' log. d' = d \<and> disable_spec (unat polls) r log)"
proof -
  have "course (bind (io_enabled hw) (\<lambda>e. ok (if \<not> e then Some () else None))) d
      (\<lambda>r d' log. d' = d \<and> enable_sample r log)"
    unfolding io_enabled_def bind_assoc bind_ok enable_sample_def by (intro course_bind_read) auto
  note once = course_poll [OF this, of "unat polls"]
  show ?thesis
    unfolding disable_def io_enable_def
  proof (rule course_bind_write, rule course_bind [OF once], goal_cases)
    case (1 a d' l)
    from polled_misses [OF conjunct2 [OF 1] enable_misses] 1 show ?case
      by (cases a) (auto simp: disable_spec_def enable_sample_def split: if_splits)
  next
    case (2 e d' l)
    from polled_misses [OF conjunct2 [OF 2] enable_misses] show ?case
      by (auto simp: enable_sample_def)
  qed
qed


section \<open>Whole operations\<close>

fun target_of :: "address \<Rightarrow> u32" where
  "target_of (Address a) = ucast a"

lemma io_target_eq: "io_target hw a = ordered_write i2c_offset hw Target (target_of a)"
  by (cases a) simp

text \<open>The controller is found busy.\<close>

definition busy_log :: "i2c_register pac_event list \<Rightarrow> bool" where
  "busy_log log \<longleftrightarrow> (\<exists>v. log = [Load Enable_Status v] \<and> v AND 1 \<noteq> 0) \<or>
     (\<exists>v s. log = [Load Enable_Status v, Load Status s] \<and> v AND 1 = 0 \<and> s AND 9 \<noteq> 0)"

text \<open>A transfer that started: the exchange is followed by the disable sequence in every case.\<close>

definition started_spec :: "address \<Rightarrow> u8 list \<Rightarrow> u8 list \<Rightarrow> nat \<Rightarrow> i2c_error + unit \<Rightarrow> u8 list \<Rightarrow>
    i2c_register pac_event list \<Rightarrow> bool" where
  "started_spec a ws rs polls r bs log \<longleftrightarrow> (\<exists>v s w mid out tail x c.
     log = [Load Enable_Status v, Load Status s, Load Clear_All w, Store Target (target_of a), Store Enable 1] @
       mid @ out @ tail \<and> v AND 1 = 0 \<and> s AND 9 = 0 \<and>
     part_spec (transfer_commands ws (length rs)) rs polls x bs mid \<and> disable_spec polls c out \<and>
     (if c = Inr () then (\<exists>w. tail = [Load Clear_All w]) \<and> r = drop_budget x
      else tail = [] \<and> r = c))"

definition transfer_spec :: "i2c_driver \<Rightarrow> address \<Rightarrow> u8 list \<Rightarrow> u8 list \<Rightarrow> u32 \<Rightarrow> i2c_error + unit \<Rightarrow> u8 list \<Rightarrow>
    i2c_driver \<Rightarrow> i2c_register pac_event list \<Rightarrow> bool" where
  "transfer_spec d a ws rs polls r bs d' log \<longleftrightarrow>
     (if \<not> configured d then (r, bs, d', log) = (Inl Unconfigured, rs, d, [])
      else if 256 < length ws \<or> 256 < length rs then (r, bs, d', log) = (Inl TooLong, rs, d, [])
      else if ws = [] \<and> rs = [] then (r, bs, d', log) = (Inr (), [], d, [])
      else if polls = 0 then (r, bs, d', log) = (Inl Timeout, rs, d, [])
      else configured d' = (r = Inr ()) \<and>
        ((r = Inl NotIdle \<and> bs = rs \<and> busy_log log) \<or> started_spec a ws rs (unat polls) r bs log))"

lemma course_idle_check:
  "course (bind (io_enabled hw) (\<lambda>e. if e then ok True else bind (io_status hw) (\<lambda>s. ok (s AND 9 \<noteq> 0)))) d
     (\<lambda>r d' log. d' = d \<and> ((r = Inr True \<and> busy_log log) \<or> (r = Inr False \<and>
        (\<exists>v s. log = [Load Enable_Status v, Load Status s] \<and> v AND 1 = 0 \<and> s AND 9 = 0))))"
  unfolding io_enabled_def io_status_def bind_assoc bind_ok
  by (intro course_steps) (auto simp: busy_log_def)

lemma disable_spec_cases: "disable_spec polls c out \<Longrightarrow> c = Inr () \<or> c = Inl DisableTimeout"
  by (auto simp: disable_spec_def split: if_splits)

lemma course_cleanup:
  assumes "part_spec (transfer_commands ws (length rs)) rs (unat polls) x bs mid" "configured d"
    "v AND 1 = 0" "s AND 9 = 0"
  shows "course (bind (attempt (disable hw polls)) (\<lambda>cleanup.
      bind (if drop_budget x \<noteq> Inr () \<or> cleanup \<noteq> Inr () then set_self \<lparr>configured = False\<rparr> else ok ()) (\<lambda>_.
      case cleanup of Inl e \<Rightarrow> ok (Inl e, bs) | Inr _ \<Rightarrow> bind (io_clear hw) (\<lambda>_. ok (drop_budget x, bs))))) d
    (\<lambda>y d' log. \<exists>r. y = Inr (r, bs) \<and> configured d' = (r = Inr ()) \<and>
       started_spec a ws rs (unat polls) r bs
         ([Load Enable_Status v, Load Status s, Load Clear_All w, Store Target (target_of a), Store Enable 1] @ mid @ log))"
proof (rule course_bind_attempt [OF course_disable], goal_cases)
  case (1 c d' out)
  have fin: "started_spec a ws rs (unat polls) r bs
      ([Load Enable_Status v, Load Status s, Load Clear_All w, Store Target (target_of a), Store Enable 1] @ mid @ out @ tail)"
    if "if c = Inr () then (\<exists>w. tail = [Load Clear_All w]) \<and> r = drop_budget x else tail = [] \<and> r = c" for r tail
    unfolding started_spec_def using assms 1 that by blast
  from 1 disable_spec_cases have "c = Inr () \<or> c = Inl DisableTimeout" by blast
  then show ?case
  proof
    assume "c = Inl DisableTimeout"
    with 1 fin [of "[]"] show ?thesis by (auto intro!: course_bind_set_self)
  next
    assume c: "c = Inr ()"
    with fin 1 assms(2) show ?thesis
      unfolding io_clear_def bind_assoc bind_ok c sum.case
      by (auto intro!: course_bind_set_self course_bind_read)
  qed
qed

lemma course_i2c_transfer:
  "course (transfer hw a ws rs polls) d (\<lambda>x d' log. \<exists>r bs. x = Inr (r, bs) \<and>
     transfer_spec d a ws rs polls r bs d' log)"
  unfolding transfer_def
proof (intro course_bind_self course_if, goal_cases)
  case 5
  then have spec: "transfer_spec d a ws rs polls r bs d' log \<longleftrightarrow> configured d' = (r = Inr ()) \<and>
      ((r = Inl NotIdle \<and> bs = rs \<and> busy_log log) \<or> started_spec a ws rs (unat polls) r bs log)" for r bs d' log
    by (auto simp: transfer_spec_def)
  show ?case
  proof (rule course_bind [OF course_idle_check], goal_cases)
    case (1 busy d' n)
    show ?case
    proof (cases busy)
      case True
      with 1 show ?thesis by (auto simp: spec intro!: course_bind_set_self)
    next
      case False
      with 1 obtain v s where n: "n = [Load Enable_Status v, Load Status s]" "v AND 1 = 0" "s AND 9 = 0" "d' = d"
        by auto
      show ?thesis
        unfolding n(1,4) if_not_P [OF False] io_clear_def [of hw] io_target_eq io_enable_def bind_assoc bind_ok
      proof (intro course_bind_read course_bind_write course_bind [OF course_i2c_exchange], goal_cases)
        case (1 w y d' mid)
        then obtain x bs where y: "y = (drop_budget x, bs)" "d' = d"
          and p: "part_spec (transfer_commands ws (length rs)) rs (unat polls) x bs mid" by auto
        have "configured d" using 5 by simp
        from course_cleanup [OF p this n(2,3), where hw = hw and w = w and a = a] show ?case
          unfolding y prod.case io_clear_def bind_assoc bind_ok by (rule course_mono) (auto simp: spec)
      qed auto
    qed
  qed auto
qed (auto simp: transfer_spec_def)


text \<open>Configuration: the registers are programmed only when the disabled controller was found idle.\<close>

definition timing_program :: "timing \<Rightarrow> i2c_register pac_event list" where
  "timing_program t = [Store Mask 0, Store Dma 0, Store Control 0x63, Store High (ucast (high t)),
     Store Low (ucast (low t)), Store Hold (ucast (hold t)), Store Rx_Threshold 0, Store Tx_Threshold 0]"

definition program_spec :: "timing \<Rightarrow> i2c_error + unit \<Rightarrow> i2c_register pac_event list \<Rightarrow> bool" where
  "program_spec t r log \<longleftrightarrow> (\<exists>s rest. log = Load Status s # rest \<and>
     (if s AND 1 \<noteq> 0 then (r, rest) = (Inl NotIdle, [])
      else r = Inr () \<and> (\<exists>w. rest = timing_program t @ [Load Clear_All w])))"

definition configure_spec :: "timing \<Rightarrow> u32 \<Rightarrow> i2c_error + unit \<Rightarrow> i2c_register pac_event list \<Rightarrow> bool" where
  "configure_spec t polls r log \<longleftrightarrow>
     (if polls = 0 then (r, log) = (Inl Timeout, [])
      else (r = Inl DisableTimeout \<and> disable_spec (unat polls) r log) \<or>
        (\<exists>out rest. log = out @ rest \<and> disable_spec (unat polls) (Inr ()) out \<and> program_spec t r rest))"

lemma course_i2c_configure:
  "course (i2c_configure hw t polls) d (\<lambda>r d' log. configured d' = (r = Inr ()) \<and> configure_spec t polls r log)"
proof -
  have prog: "course (bind (io_status hw) (\<lambda>s. if s AND 1 \<noteq> 0 then fail NotIdle else
      bind (io_configure hw t) (\<lambda>_. bind (io_clear hw) (\<lambda>_. set_self \<lparr>configured = True\<rparr>)))) \<lparr>configured = False\<rparr>
      (\<lambda>r d' log. configured d' = (r = Inr ()) \<and> program_spec t r log)"
    unfolding io_status_def io_configure_def io_clear_def bind_assoc bind_ok
    by (intro course_steps) (auto simp: course_def set_self_def fail_def timing_program_def program_spec_def)
  show ?thesis
    unfolding i2c_configure_def
  proof (intro course_bind_set_self course_if course_bind [OF course_disable], goal_cases)
    case (2 u d' out)
    then have "d' = \<lparr>configured = False\<rparr>" "disable_spec (unat polls) (Inr ()) out" by auto
    with 2 show ?case by (auto simp: configure_spec_def intro: course_mono [OF prog])
  next
    case (3 e d' out)
    then show ?case using disable_spec_cases [of _ "Inl e" out] by (auto simp: configure_spec_def)
  qed (simp add: configure_spec_def)
qed

section \<open>Properties\<close>

text \<open>C29: an I2C transfer is exact and bounded. Whatever the bus does, \<open>transfer\<close> returns. A transfer that
  is refused (unconfigured driver, more than 256 bytes in a direction, no bytes at all, no polls)
  accesses nothing and leaves the driver as it was. A controller that is enabled or active is not
  written to, and the driver is unconfigured. Otherwise the transfer starts, and the commands
  written to the controller are those of the requested write, repeated start and read (all of
  them on success, a prefix on failure), at most one read command is ever outstanding, the
  buffer holds the received bytes followed by its untouched rest, the exchange stays within
  \<open>polls\<close> samples, and the controller is told to disable afterwards, after success and after every
  failure, within another \<open>polls\<close> samples; a failed disable is reported before any other error.
  The driver is usable afterwards exactly when it was and the transfer succeeded or was refused
  for its length or its poll budget.\<close>

theorem i2c_transfer_exact:
  "\<exists>r bs m' new. transfer hw a ws rs polls m = Some (Inr (r, bs), m') \<and> m_log m' = m_log m @ new \<and>
     transfer_spec (fst (m_hw m)) a ws rs polls r bs (fst (m_hw m')) new \<and>
     (configured (fst (m_hw m')) \<longleftrightarrow> configured (fst (m_hw m)) \<and>
        (r = Inr () \<or> 256 < length ws \<or> 256 < length rs \<or> polls = 0))"
proof (rule course_runE [OF course_i2c_transfer [where hw = hw and a = a and ws = ws and rs = rs and polls = polls],
      of m], goal_cases)
  case (1 x m' new)
  then obtain r bs where "x = Inr (r, bs)" "transfer_spec (fst (m_hw m)) a ws rs polls r bs (fst (m_hw m')) new"
    by auto
  with 1 show ?case by (auto simp: transfer_spec_def split: if_splits)
qed

text \<open>Configuration programs the I2C controller only when it is quiescent. It always returns; the
  driver is usable afterwards exactly when it succeeded; the timing registers are written only
  after the controller was seen disabled, within \<open>polls\<close> samples, and idle, and then all of
  them; a zero poll budget is refused without any access.\<close>

theorem i2c_configure_quiescent:
  "\<exists>r m' new. i2c_configure hw t polls m = Some (r, m') \<and> m_log m' = m_log m @ new \<and>
     configured (fst (m_hw m')) = (r = Inr ()) \<and> configure_spec t polls r new"
  by (rule course_runE [OF course_i2c_configure [where hw = hw and t = t and polls = polls], of m]) auto

end
