(* ===== verification/Spi.thy ===== *)
theory Spi
  imports Pac "HOL-Library.Sublist"
begin

text \<open>
  The polled SPI master driver (firmware/sg2002-c906l/pac/src/spi.rs): the register block, the
  semantic I/O operations \<open>Io for Mmio\<close>, every method of \<open>Driver\<close> and the public \<open>Spi\<close>,
  whose methods only forward. A byte transfer works in place, so \<open>transfer\<close> and \<open>exchange\<close>
  return the buffer together with the result. The word iterator of \<open>stream\<close> is a list; \<open>pump\<close>
  recurses on it (each round either ends the loop or consumes at least one word).

  Shown: after every transaction, failed or not, the controller is disabled and deselected; a
  successful transfer clocked out exactly the given bytes and returns exactly the received ones,
  a failed one a prefix; a stream sends the words in order, all of them on success, in bursts that
  never exceed the room the FIFO reported and that end with a fence before any other access.
\<close>

section \<open>Registers\<close>

datatype spi_register = Control | Count | Enable | Microwire | Select | Baud | Tx_Threshold
  | Rx_Threshold | Tx_Level | Rx_Level | Status | Mask | Interrupt | Raw_Interrupt | Clear_Tx
  | Clear_Rx_Over | Clear_Rx_Under | Clear_Master | Clear_All | Dma | Dma_Tx | Dma_Rx | Data

fun spi_offset :: "spi_register \<Rightarrow> nat" where
  "spi_offset Control = 0x00"
| "spi_offset Count = 0x04"
| "spi_offset Enable = 0x08"
| "spi_offset Microwire = 0x0c"
| "spi_offset Select = 0x10"
| "spi_offset Baud = 0x14"
| "spi_offset Tx_Threshold = 0x18"
| "spi_offset Rx_Threshold = 0x1c"
| "spi_offset Tx_Level = 0x20"
| "spi_offset Rx_Level = 0x24"
| "spi_offset Status = 0x28"
| "spi_offset Mask = 0x2c"
| "spi_offset Interrupt = 0x30"
| "spi_offset Raw_Interrupt = 0x34"
| "spi_offset Clear_Tx = 0x38"
| "spi_offset Clear_Rx_Over = 0x3c"
| "spi_offset Clear_Rx_Under = 0x40"
| "spi_offset Clear_Master = 0x44"
| "spi_offset Clear_All = 0x48"
| "spi_offset Dma = 0x4c"
| "spi_offset Dma_Tx = 0x50"
| "spi_offset Dma_Rx = 0x54"
| "spi_offset Data = 0x60"

datatype divider = Divider u16

definition divider_new :: "u16 \<Rightarrow> divider option" where
  "divider_new value = (if 2 \<le> value \<and> value AND 1 = 0 then Some (Divider value) else None)"

datatype spi_error = Unconfigured | TooLong | Timeout | FifoNotEmpty | FifoFull | Hardware u32

definition FIFO_DEPTH :: u32 where
  "FIFO_DEPTH = 8"

definition CONTROL_8BIT_DUPLEX :: u32 where
  "CONTROL_8BIT_DUPLEX = 7"

definition CONTROL_16BIT_TX_ONLY :: u32 where
  "CONTROL_16BIT_TX_ONLY = 0xf OR push_bit 8 1"

record spi_driver =
  configured :: bool
  mode_bits :: u32

type_synonym ('h, 'a) spi_prog = "(spi_driver, 'h, spi_register, spi_error, 'a) method_prog"

section \<open>Register operations\<close>

definition set_enable :: "'h pac_hw \<Rightarrow> u32 \<Rightarrow> ('h, unit) spi_prog" where
  "set_enable hw v = ordered_write spi_offset hw Enable v"

definition set_select :: "'h pac_hw \<Rightarrow> u32 \<Rightarrow> ('h, unit) spi_prog" where
  "set_select hw v = ordered_write spi_offset hw Select v"

definition set_control :: "'h pac_hw \<Rightarrow> u32 \<Rightarrow> ('h, unit) spi_prog" where
  "set_control hw v = ordered_write spi_offset hw Control v"

definition set_baud :: "'h pac_hw \<Rightarrow> u32 \<Rightarrow> ('h, unit) spi_prog" where
  "set_baud hw v = ordered_write spi_offset hw Baud v"

definition set_mask :: "'h pac_hw \<Rightarrow> u32 \<Rightarrow> ('h, unit) spi_prog" where
  "set_mask hw v = ordered_write spi_offset hw Mask v"

definition set_dma :: "'h pac_hw \<Rightarrow> u32 \<Rightarrow> ('h, unit) spi_prog" where
  "set_dma hw v = ordered_write spi_offset hw Dma v"

definition spi_clear :: "'h pac_hw \<Rightarrow> ('h, unit) spi_prog" where
  "spi_clear hw = bind (ordered_read spi_offset hw Clear_All) (\<lambda>_. ok ())"

definition spi_status :: "'h pac_hw \<Rightarrow> ('h, u32) spi_prog" where
  "spi_status hw = ordered_read spi_offset hw Status"

definition spi_errors :: "'h pac_hw \<Rightarrow> ('h, u32) spi_prog" where
  "spi_errors hw = bind (ordered_read spi_offset hw Raw_Interrupt) (\<lambda>v. ok (v AND 0x2e))"

definition write_byte :: "'h pac_hw \<Rightarrow> u8 \<Rightarrow> ('h, unit) spi_prog" where
  "write_byte hw byte = ordered_write spi_offset hw Data (ucast byte)"

definition read_byte :: "'h pac_hw \<Rightarrow> ('h, u8) spi_prog" where
  "read_byte hw = bind (ordered_read spi_offset hw Data) (\<lambda>v. ok (ucast v))"

definition tx_level :: "'h pac_hw \<Rightarrow> ('h, u32) spi_prog" where
  "tx_level hw = ordered_read spi_offset hw Tx_Level"

definition write_word :: "'h pac_hw \<Rightarrow> u16 \<Rightarrow> ('h, unit) spi_prog" where
  "write_word hw word = plain_write spi_offset hw Data (ucast word)"

lemmas spi_io_defs = set_enable_def set_select_def set_control_def set_baud_def set_mask_def
  set_dma_def spi_clear_def spi_status_def spi_errors_def write_byte_def read_byte_def tx_level_def
  write_word_def

section \<open>The driver\<close>

definition spi_from_base :: spi_driver where
  "spi_from_base = \<lparr>configured = False, mode_bits = 0\<rparr>"

text \<open>\<open>idle_high\<close> is \<open>Polarity::IdleHigh\<close>, \<open>second\<close> is \<open>Phase::CaptureOnSecondTransition\<close>.\<close>

fun spi_configure :: "'h pac_hw \<Rightarrow> divider \<Rightarrow> bool \<Rightarrow> bool \<Rightarrow> ('h, unit) spi_prog" where
  "spi_configure hw (Divider divider) idle_high second =
     bind (set_enable hw 0) (\<lambda>_.
     bind (set_select hw 0) (\<lambda>_.
     bind (set_mask hw 0) (\<lambda>_.
     bind (set_dma hw 0) (\<lambda>_.
     bind (set_baud hw (ucast divider)) (\<lambda>_.
     let cpol = (if idle_high then push_bit 7 1 else 0);
         cpha = (if second then push_bit 6 1 else 0);
         bits = cpol OR cpha in
     bind self (\<lambda>d.
     bind (set_self (d\<lparr>mode_bits := bits\<rparr>)) (\<lambda>_.
     bind (set_control hw (CONTROL_8BIT_DUPLEX OR bits)) (\<lambda>_.
     bind (spi_clear hw) (\<lambda>_.
     set_self (d\<lparr>mode_bits := bits, configured := True\<rparr>))))))))))"

text \<open>The loops of \<open>exchange\<close>: preloading the FIFO and receiving. \<open>received\<close> counts the bytes
  already replaced in \<open>bytes\<close>.\<close>

primrec preload :: "'h pac_hw \<Rightarrow> u8 list \<Rightarrow> ('h, unit) spi_prog" where
  "preload hw [] = ok ()"
| "preload hw (byte # bytes) =
     bind (spi_status hw) (\<lambda>s. if s AND 2 = 0 then fail FifoFull
       else bind (write_byte hw byte) (\<lambda>_. preload hw bytes))"

primrec receive :: "'h pac_hw \<Rightarrow> nat \<Rightarrow> nat \<Rightarrow> u8 list \<Rightarrow> ('h, (spi_error + unit) \<times> u8 list) spi_prog" where
  "receive hw 0 received bytes = ok (Inl Timeout, bytes)"
| "receive hw (Suc n) received bytes =
     bind (spi_errors hw) (\<lambda>errors.
     if errors \<noteq> 0 then ok (Inl (Hardware errors), bytes) else
     bind (spi_status hw) (\<lambda>s.
     bind (if received < length bytes \<and> s AND 8 \<noteq> 0
           then bind (read_byte hw) (\<lambda>b. ok (received + 1, bytes[received := b]))
           else ok (received, bytes)) (\<lambda>(received, bytes).
     if received = length bytes \<and> s AND 5 = 4 then ok (Inr (), bytes)
     else receive hw n received bytes)))"

definition exchange :: "'h pac_hw \<Rightarrow> u8 list \<Rightarrow> u32 \<Rightarrow> ('h, (spi_error + unit) \<times> u8 list) spi_prog" where
  "exchange hw bytes polls =
     bind (spi_status hw) (\<lambda>s.
     if s AND 0x0d \<noteq> 4 then ok (Inl FifoNotEmpty, bytes) else
     bind (attempt (preload hw bytes)) (\<lambda>r.
     case r of Inl e \<Rightarrow> ok (Inl e, bytes)
     | Inr _ \<Rightarrow> bind (set_select hw 1) (\<lambda>_. receive hw (unat polls) 0 bytes)))"

definition transfer :: "'h pac_hw \<Rightarrow> u8 list \<Rightarrow> u32 \<Rightarrow> ('h, (spi_error + unit) \<times> u8 list) spi_prog" where
  "transfer hw bytes polls =
     bind self (\<lambda>d.
     if \<not> configured d then ok (Inl Unconfigured, bytes)
     else if 8 < length bytes then ok (Inl TooLong, bytes)
     else if bytes = [] then ok (Inr (), bytes)
     else if polls = 0 then ok (Inl Timeout, bytes)
     else bind (set_enable hw 1) (\<lambda>_.
       bind (exchange hw bytes polls) (\<lambda>result.
       bind (set_enable hw 0) (\<lambda>_.
       bind (set_select hw 0) (\<lambda>_.
       bind (spi_clear hw) (\<lambda>_.
       ok result))))))"

text \<open>The loops of \<open>pump\<close>. Waiting for room samples the level at most \<open>polls\<close> times (\<open>polls\<close> is
  not zero there).\<close>

definition wait_room :: "'h pac_hw \<Rightarrow> nat \<Rightarrow> ('h, u32) spi_prog" where
  "wait_room hw polls =
     bind (poll polls (bind (tx_level hw) (\<lambda>level.
       let room = saturating_sub FIFO_DEPTH level in ok (if room \<noteq> 0 then Some room else None)))) (\<lambda>r.
     case r of None \<Rightarrow> fail Timeout | Some room \<Rightarrow> ok room)"

primrec fill :: "'h pac_hw \<Rightarrow> u16 list \<Rightarrow> ('h, unit) spi_prog" where
  "fill hw [] = ok ()"
| "fill hw (word # words) = bind (write_word hw word) (\<lambda>_. fill hw words)"

text \<open>One burst writes \<open>min room (words left)\<close> words; \<open>written < room\<close> says that the words ran out.\<close>

function pump_words :: "'h pac_hw \<Rightarrow> nat \<Rightarrow> bool \<Rightarrow> u16 list \<Rightarrow> ('h, unit) spi_prog" where
  "pump_words hw polls selected words =
     bind (wait_room hw polls) (\<lambda>room.
     let written = min (unat room) (length words) in
     bind (fill hw (take written words)) (\<lambda>_.
     bind io_fence (\<lambda>_.
     bind (if selected then ok () else set_select hw 1) (\<lambda>_.
     if written < unat room \<or> written = 0 then ok ()
     else pump_words hw polls True (drop written words)))))"
  by pat_completeness auto
termination
  by (relation "measure (\<lambda>(hw, polls, selected, words). length words)") auto

declare pump_words.simps [simp del]

definition drain :: "'h pac_hw \<Rightarrow> nat \<Rightarrow> ('h, unit) spi_prog" where
  "drain hw polls =
     bind (poll polls (bind (spi_errors hw) (\<lambda>errors.
       if errors \<noteq> 0 then fail (Hardware errors)
       else bind (spi_status hw) (\<lambda>s. ok (if s AND 5 = 4 then Some () else None))))) (\<lambda>r.
     if r = None then fail Timeout else ok ())"

definition pump :: "'h pac_hw \<Rightarrow> u16 list \<Rightarrow> u32 \<Rightarrow> ('h, unit) spi_prog" where
  "pump hw words polls =
     bind (pump_words hw (unat polls) False words) (\<lambda>_. drain hw (unat polls))"

definition stream :: "'h pac_hw \<Rightarrow> u16 list \<Rightarrow> u32 \<Rightarrow> ('h, unit) spi_prog" where
  "stream hw words polls =
     bind self (\<lambda>d.
     if \<not> configured d then fail Unconfigured
     else if polls = 0 then fail Timeout
     else bind (set_control hw (CONTROL_16BIT_TX_ONLY OR mode_bits d)) (\<lambda>_.
       bind (spi_clear hw) (\<lambda>_.
       bind (set_enable hw 1) (\<lambda>_.
       bind (attempt (pump hw words polls)) (\<lambda>result.
       bind (set_enable hw 0) (\<lambda>_.
       bind (set_select hw 0) (\<lambda>_.
       bind (set_control hw (CONTROL_8BIT_DUPLEX OR mode_bits d)) (\<lambda>_.
       bind (spi_clear hw) (\<lambda>_.
       give result)))))))))"


section \<open>What a log says\<close>

text \<open>The values written to and read from the data register, and the error samples taken.\<close>

abbreviation stored :: "spi_register pac_event list \<Rightarrow> u32 list" where
  "stored \<equiv> stores_to Data"

abbreviation loaded :: "spi_register pac_event list \<Rightarrow> u32 list" where
  "loaded \<equiv> loads_from Data"

abbreviation error_samples :: "spi_register pac_event list \<Rightarrow> nat" where
  "error_samples \<equiv> samples {Raw_Interrupt}"

text \<open>The accesses of a running transaction: the controller stays enabled and is only ever selected.\<close>

definition running :: "spi_register pac_event list \<Rightarrow> bool" where
  "running log \<longleftrightarrow> list_all (\<lambda>e. case e of
     Store r v \<Rightarrow> r = Data \<or> (r = Select \<and> v = 1)
   | Load r v \<Rightarrow> r \<in> {Status, Raw_Interrupt, Data, Tx_Level}
   | Burst r v \<Rightarrow> r = Data | Fence \<Rightarrow> True) log"

lemma running_simps [simp]:
  "running []"
  "running (e # log) \<longleftrightarrow> (case e of
     Store r v \<Rightarrow> r = Data \<or> (r = Select \<and> v = 1)
   | Load r v \<Rightarrow> r \<in> {Status, Raw_Interrupt, Data, Tx_Level}
   | Burst r v \<Rightarrow> r = Data | Fence \<Rightarrow> True) \<and> running log"
  "running (l @ l') \<longleftrightarrow> running l \<and> running l'"
  by (simp_all add: running_def)

section \<open>Byte transfers\<close>

definition receive_spec ::
    "nat \<Rightarrow> nat \<Rightarrow> u8 list \<Rightarrow> spi_error + unit \<Rightarrow> u8 list \<Rightarrow> spi_register pac_event list \<Rightarrow> bool" where
  "receive_spec n received bytes r bytes' log \<longleftrightarrow>
     running log \<and> stored log = [] \<and> error_samples log \<le> n \<and>
     received + length (loaded log) \<le> length bytes \<and>
     bytes' = take received bytes @ map ucast (loaded log) @ drop (received + length (loaded log)) bytes \<and>
     (case r of Inr _ \<Rightarrow> received + length (loaded log) = length bytes
      | Inl e \<Rightarrow> e = Timeout \<or> (\<exists>bits. e = Hardware bits \<and> bits \<noteq> 0))"

lemma receive_spec_skip:
  "receive_spec n received bytes r bytes' log \<Longrightarrow>
   receive_spec (Suc n) received bytes r bytes' (Load Raw_Interrupt v # Load Status s # log)"
  by (auto simp: receive_spec_def split: sum.splits)

lemma receive_spec_done: "receive_spec n (length bytes) bytes (Inr ()) bytes []"
  by (simp add: receive_spec_def)

lemma receive_spec_take:
  assumes "receive_spec n (Suc received) (bytes[received := ucast w]) r bytes' log" "received < length bytes"
  shows "receive_spec (Suc n) received bytes r bytes'
    (Load Raw_Interrupt v # Load Status s # Load Data w # log)"
proof -
  have "take (Suc received) (bytes[received := ucast w]) = take received bytes @ [ucast w]"
    using assms(2) by (simp add: take_Suc_conv_app_nth)
  with assms show ?thesis
    by (auto simp: receive_spec_def drop_update_cancel split: sum.splits)
qed

lemma course_receive:
  "received \<le> length bytes \<Longrightarrow> course (receive hw n received bytes) d
     (\<lambda>x d' log. d' = d \<and> (\<exists>r bytes'. x = Inr (r, bytes') \<and> receive_spec n received bytes r bytes' log))"
proof (induction n arbitrary: received bytes)
  case 0
  then show ?case by (simp add: receive_spec_def)
next
  case (Suc n)
  have turn: "course (if received' = length bytes' \<and> c then ok (Inr (), bytes') else receive hw n received' bytes') d
      (\<lambda>x d' log. d' = d \<and> (\<exists>r bs. x = Inr (r, bs) \<and> receive_spec n received' bytes' r bs log))"
    if "received' \<le> length bytes'" for received' bytes' c
    using Suc.IH [OF that] by (simp add: receive_spec_done)
  show ?case
    unfolding receive.simps spi_io_defs bind_assoc bind_ok
  proof (intro course_steps, goal_cases)
    case (1 v)
    with Suc.prems show ?case by (auto simp: receive_spec_def)
  next
    case (2 v s)
    show ?case
    proof (cases "received < length bytes \<and> s AND 8 \<noteq> 0")
      case True
      show ?thesis
        unfolding if_P [OF True] bind_assoc bind_ok prod.case
      proof (intro course_bind_read, goal_cases)
        case (1 w)
        show ?case
          using True by (intro course_mono [OF turn]) (auto intro: receive_spec_take)
      qed
    next
      case False
      show ?thesis
        unfolding if_not_P [OF False] bind_ok prod.case
        using Suc.prems by (intro course_mono [OF turn]) (auto intro: receive_spec_skip)
    qed
  qed
qed


text \<open>Chip select is asserted only after all bytes were preloaded and before any was received.\<close>

definition preloaded :: "u8 list \<Rightarrow> spi_register pac_event list \<Rightarrow> bool" where
  "preloaded bytes log \<longleftrightarrow> (Store Select 1 \<in> set log \<longrightarrow>
     (\<exists>before after. log = before @ Store Select 1 # after \<and> stored before = map ucast bytes \<and>
        loaded before = [] \<and> stored after = []))"

lemma preloadedI:
  "stored before = map ucast bytes \<Longrightarrow> loaded before = [] \<Longrightarrow> stored after = [] \<Longrightarrow>
   preloaded bytes (before @ Store Select 1 # after)"
  unfolding preloaded_def by blast

definition exchange_spec ::
    "u8 list \<Rightarrow> nat \<Rightarrow> spi_error + unit \<Rightarrow> u8 list \<Rightarrow> spi_register pac_event list \<Rightarrow> bool" where
  "exchange_spec bytes polls r bytes' log \<longleftrightarrow>
     running log \<and> error_samples log \<le> polls \<and>
     prefix (stored log) (map ucast bytes) \<and> length (loaded log) \<le> length bytes \<and>
     bytes' = map ucast (loaded log) @ drop (length (loaded log)) bytes \<and>
     preloaded bytes log \<and>
     (case r of Inr _ \<Rightarrow> stored log = map ucast bytes \<and> length (loaded log) = length bytes
      | Inl e \<Rightarrow> e \<in> {FifoNotEmpty, FifoFull, Timeout} \<or> (\<exists>bits. e = Hardware bits \<and> bits \<noteq> 0))"

lemma course_preload:
  "course (preload hw bytes) d (\<lambda>r d' log. d' = d \<and> running log \<and> loaded log = [] \<and> error_samples log = 0 \<and>
     Store Select 1 \<notin> set log \<and> prefix (stored log) (map ucast bytes) \<and>
     (r = Inl FifoFull \<or> (r = Inr () \<and> stored log = map ucast bytes)))"
proof (induction bytes)
  case (Cons b bytes)
  show ?case
    unfolding preload.simps spi_io_defs
    by (intro course_steps course_mono [OF Cons]) auto
qed simp

lemma course_spi_exchange:
  "course (exchange hw bytes polls) d (\<lambda>x d' log. d' = d \<and>
     (\<exists>r bytes'. x = Inr (r, bytes') \<and> exchange_spec bytes (unat polls) r bytes' log))"
  unfolding exchange_def spi_status_def set_select_def
proof (intro course_bind_read course_if, goal_cases)
  case (1 s)
  then show ?case by (simp add: exchange_spec_def preloaded_def)
next
  case (2 s)
  show ?case
  proof (rule course_bind_attempt [OF course_preload], goal_cases)
    case (1 r d' log)
    show ?case
    proof (cases r)
      case (Inl e)
      with 1 show ?thesis by (auto simp: exchange_spec_def preloaded_def)
    next
      case (Inr u)
      with 1 have log: "running log" "loaded log = []" "error_samples log = 0" "stored log = map ucast bytes" "d' = d"
        by auto
      have "exchange_spec bytes (unat polls) r' bytes' (Load Status s # log @ Store Select 1 # log')"
        if "receive_spec (unat polls) 0 bytes r' bytes' log'" for r' bytes' log'
        using that log preloadedI [of "Load Status s # log" bytes log']
        by (auto simp: exchange_spec_def receive_spec_def split: sum.splits)
      with Inr log show ?thesis
        by (auto intro!: course_bind_write course_mono [OF course_receive])
    qed
  qed
qed


section \<open>Word streams\<close>

text \<open>
  The discipline of unfenced bursts: \<open>(room, unfenced)\<close> are the entries the FIFO reported free and
  not used since, and whether a burst awaits its fence. A burst store needs room; no other access
  happens while a burst is open.
\<close>

fun burst_step :: "spi_register pac_event \<Rightarrow> nat \<times> bool \<Rightarrow> (nat \<times> bool) option" where
  "burst_step (Load r v) (room, unfenced) =
     (if unfenced then None else Some (if r = Tx_Level then 8 - unat v else room, False))"
| "burst_step (Store r v) (room, unfenced) = (if unfenced then None else Some (room, False))"
| "burst_step (Burst r v) (room, unfenced) = (if room = 0 then None else Some (room - 1, True))"
| "burst_step Fence (room, unfenced) = Some (room, False)"

primrec burst_run :: "spi_register pac_event list \<Rightarrow> nat \<times> bool \<Rightarrow> (nat \<times> bool) option" where
  "burst_run [] s = Some s"
| "burst_run (e # log) s = (case burst_step e s of None \<Rightarrow> None | Some s' \<Rightarrow> burst_run log s')"

definition bursts_ok :: "spi_register pac_event list \<Rightarrow> bool" where
  "bursts_ok log \<longleftrightarrow> (\<forall>room. \<exists>room'. burst_run log (room, False) = Some (room', False))"

lemma burst_run_append:
  "burst_run (l @ l') s = (case burst_run l s of None \<Rightarrow> None | Some s' \<Rightarrow> burst_run l' s')"
  by (induction l arbitrary: s) (auto split: option.split)

lemma bursts_ok_append:
  assumes "bursts_ok l" "bursts_ok l'"
  shows "bursts_ok (l @ l')"
  unfolding bursts_ok_def
proof
  fix room
  obtain room1 where 1: "burst_run l (room, False) = Some (room1, False)"
    using assms(1) unfolding bursts_ok_def by blast
  obtain room2 where "burst_run l' (room1, False) = Some (room2, False)"
    using assms(2) unfolding bursts_ok_def by blast
  with 1 show "\<exists>room'. burst_run (l @ l') (room, False) = Some (room', False)"
    by (simp add: burst_run_append)
qed

lemma bursts_ok_simps [simp]:
  "bursts_ok []" "bursts_ok log \<Longrightarrow> bursts_ok (Load r v # log)"
  "bursts_ok log \<Longrightarrow> bursts_ok (Store r v # log)" "bursts_ok log \<Longrightarrow> bursts_ok (Fence # log)"
  by (auto simp: bursts_ok_def)

lemma burst_run_levels:
  "burst_run (map (Load Tx_Level) vs) (room, False) =
     Some (if vs = [] then room else 8 - unat (last vs), False)"
  by (induction vs arbitrary: room) auto

definition burst :: "u16 list \<Rightarrow> spi_register pac_event list" where
  "burst ws = map (\<lambda>w. Burst Data (ucast w)) ws"

lemma burst_run_burst:
  "length ws \<le> room \<Longrightarrow> burst_run (burst ws) (room, b) = Some (room - length ws, ws \<noteq> [] \<or> b)"
  unfolding burst_def by (induction ws arbitrary: room b) auto

abbreviation room_of :: "u32 \<Rightarrow> u32" where
  "room_of \<equiv> saturating_sub FIFO_DEPTH"

definition level_spec :: "spi_error + u32 option \<Rightarrow> spi_register pac_event list \<Rightarrow> bool" where
  "level_spec r log \<longleftrightarrow> (\<exists>v. log = [Load Tx_Level v] \<and>
     r = Inr (if room_of v \<noteq> 0 then Some (room_of v) else None))"

lemma level_misses: "level_spec (Inr None) l \<Longrightarrow> \<exists>v. l = [Load Tx_Level v] \<and> \<not> room_of v \<noteq> 0"
  by (auto simp: level_spec_def split: if_splits)

lemma course_wait_room:
  "course (wait_room hw polls) d (\<lambda>x d' log. d' = d \<and> (\<exists>vs. log = map (Load Tx_Level) vs \<and>
     (x = Inl Timeout \<or> (vs \<noteq> [] \<and> x = Inr (room_of (last vs)) \<and> room_of (last vs) \<noteq> 0))))"
proof -
  have "course (bind (tx_level hw) (\<lambda>level. let room = room_of level in
      ok (if room \<noteq> 0 then Some room else None))) d (\<lambda>r d' n. d' = d \<and> level_spec r n)"
    unfolding tx_level_def Let_def level_spec_def by (intro course_bind_read) auto
  from course_poll [OF this, of polls] show ?thesis
    unfolding wait_room_def
  proof (rule course_bind, goal_cases)
    case (1 a d' n)
    from polled_misses [OF conjunct2 [OF 1] level_misses]
    have "(a = None \<and> (\<exists>vs. n = map (Load Tx_Level) vs)) \<or>
      (\<exists>vs v. n = map (Load Tx_Level) (vs @ [v]) \<and> room_of v \<noteq> 0 \<and> a = Some (room_of v))"
      by (fastforce simp: misses_def level_spec_def split: if_splits)
    then show ?case
    proof
      assume "\<exists>vs v. n = map (Load Tx_Level) (vs @ [v]) \<and> room_of v \<noteq> 0 \<and> a = Some (room_of v)"
      then obtain vs v where "n = map (Load Tx_Level) (vs @ [v])" "room_of v \<noteq> 0" "a = Some (room_of v)"
        by blast
      with 1 show ?thesis by (auto intro: exI [of _ "vs @ [v]"])
    qed (use 1 in auto)
  next
    case (2 x d' n)
    from polled_misses [OF conjunct2 [OF 2] level_misses] show ?case
      by (auto simp: level_spec_def)
  qed
qed

lemma course_fill: "course (fill hw ws) d (\<lambda>x d' log. d' = d \<and> x = Inr () \<and> log = burst ws)"
proof (induction ws)
  case (Cons w ws)
  show ?case
    unfolding fill.simps write_word_def
    by (intro course_bind_plain course_mono [OF Cons]) (simp add: burst_def)
qed (simp add: burst_def)


text \<open>What sending the words leaves: \<open>select\<close> is the number of times chip select is asserted.\<close>

definition pump_spec ::
    "nat \<Rightarrow> u16 list \<Rightarrow> spi_error + unit \<Rightarrow> spi_register pac_event list \<Rightarrow> bool" where
  "pump_spec selects words r log \<longleftrightarrow>
     running log \<and> loaded log = [] \<and> bursts_ok log \<and> error_samples log = 0 \<and>
     count_list log (Store Select 1) \<le> selects \<and> prefix (stored log) (map ucast words) \<and>
     (r = Inl Timeout \<or> (r = Inr () \<and> stored log = map ucast words))"

text \<open>A round of the loop: level samples, a burst into the reported room, the fence, the select.\<close>

definition round_log :: "u32 list \<Rightarrow> u16 list \<Rightarrow> bool \<Rightarrow> spi_register pac_event list" where
  "round_log vs ws selected = map (Load Tx_Level) vs @ burst ws @
     Fence # (if selected then [] else [Store Select 1])"

lemma level_log [simp]:
  "stored (map (Load Tx_Level) vs) = []" "loaded (map (Load Tx_Level) vs) = []"
  "error_samples (map (Load Tx_Level) vs) = 0" "running (map (Load Tx_Level) vs)"
  "count_list (map (Load Tx_Level) vs) (Store r v) = 0"
  by (induction vs) simp_all

lemma burst_log [simp]:
  "stored (burst ws) = map ucast ws" "loaded (burst ws) = []"
  "error_samples (burst ws) = 0" "running (burst ws)" "count_list (burst ws) (Store r v) = 0"
  unfolding burst_def by (induction ws) simp_all

lemma round_log [simp]:
  "stored (round_log vs ws selected) = map ucast ws" "loaded (round_log vs ws selected) = []"
  "error_samples (round_log vs ws selected) = 0" "running (round_log vs ws selected)"
  "count_list (round_log vs ws selected) (Store Select 1) = (if selected then 0 else 1)"
  by (simp_all add: round_log_def)

lemma round_log_ok:
  assumes "vs \<noteq> []" "length ws \<le> unat (room_of (last vs))"
  shows "bursts_ok (round_log vs ws selected)"
proof -
  have "length ws \<le> 8 - unat (last vs)"
    using assms(2) by (simp add: unat_saturating_sub FIFO_DEPTH_def)
  from burst_run_burst [OF this] assms(1) show ?thesis
    by (auto simp: bursts_ok_def round_log_def burst_run_append burst_run_levels)
qed

lemma pump_round:
  assumes "pump_spec 0 ws' r log'" "vs \<noteq> []" "length ws \<le> unat (room_of (last vs))"
  shows "pump_spec (if selected then 0 else 1) (ws @ ws') r (round_log vs ws selected @ log')"
  using assms(1) bursts_ok_append [OF round_log_ok [OF assms(2,3), of selected], of log']
  by (auto simp: pump_spec_def)

lemma pump_last:
  assumes "vs \<noteq> []" "length ws \<le> unat (room_of (last vs))"
  shows "pump_spec (if selected then 0 else 1) ws (Inr ()) (round_log vs ws selected)"
  using round_log_ok [OF assms, of selected] by (simp add: pump_spec_def)

lemma bursts_ok_levels: "bursts_ok (map (Load Tx_Level) vs)"
  by (simp add: bursts_ok_def burst_run_levels)

lemma course_pump_words:
  "course (pump_words hw polls selected words) d
     (\<lambda>x d' log. d' = d \<and> pump_spec (if selected then 0 else 1) words x log)"
proof (induction hw polls selected words rule: pump_words.induct)
  case (1 hw polls selected words)
  show ?case
    unfolding pump_words.simps [of hw polls selected words] Let_def
  proof (rule course_bind [OF course_wait_room], goal_cases)
    case (1 room d' log)
    then obtain vs where vs: "log = map (Load Tx_Level) vs" "vs \<noteq> []" "room = room_of (last vs)" "room \<noteq> 0" "d' = d"
      by auto
    let ?n = "min (unat room) (length words)"
    have len: "length (take ?n words) \<le> unat (room_of (last vs))" using vs(3) by simp
    have sel: "course (bind (if selected then ok () else set_select hw 1) f) d Q"
      if "course (f ()) d (\<lambda>x d' n. Q x d' ((if selected then [] else [Store Select 1]) @ n))" for f and Q :: "spi_error + unit \<Rightarrow> _"
      using that unfolding set_select_def by (cases selected) (auto intro: course_bind_write)
    have tail: "course (if ?n < unat room \<or> ?n = 0 then ok () else pump_words hw polls True (drop ?n words)) d
      (\<lambda>x d' n. d' = d \<and> pump_spec (if selected then 0 else 1) words x
         (round_log vs (take ?n words) selected @ n))"
    proof (cases "?n < unat room \<or> ?n = 0")
      case True
      moreover have "0 < unat room" using vs(4) by (simp add: unat_gt_0)
      ultimately have "take ?n words = words" by (auto simp: min_def split: if_splits)
      with True pump_last [OF vs(2) len, of selected] show ?thesis by simp
    next
      case False
      have "course (pump_words hw polls True (drop ?n words)) d
          (\<lambda>x d' log. d' = d \<and> pump_spec 0 (drop ?n words) x log)"
        using "1.IH" [OF refl False] by simp
      then show ?thesis
        unfolding if_not_P [OF False]
        by (rule course_mono)
          (use pump_round [OF _ vs(2) len, of "drop ?n words" _ _ selected] in simp)
    qed
    show ?case
      unfolding vs(1,5)
    proof (rule course_bind [OF course_fill], goal_cases)
      case (1 u d2 n)
      then have n: "d2 = d" "n = burst (take ?n words)" by auto
      show ?case
        unfolding n
        by (intro course_bind_fence sel) (use tail in \<open>simp only: round_log_def append_assoc append_Cons\<close>)
    qed simp
  next
    case (2 e d' log)
    then show ?case by (auto simp: pump_spec_def bursts_ok_levels)
  qed
qed

definition drain_spec :: "nat \<Rightarrow> spi_register pac_event list \<Rightarrow> bool" where
  "drain_spec polls log \<longleftrightarrow> running log \<and> loaded log = [] \<and> stored log = [] \<and> bursts_ok log \<and>
     count_list log (Store Select 1) = 0 \<and> error_samples log \<le> polls"

definition drain_error :: "spi_error + 'a \<Rightarrow> bool" where
  "drain_error r \<longleftrightarrow> (case r of Inl e \<Rightarrow> \<exists>bits. bits \<noteq> 0 \<and> e = Hardware bits | Inr _ \<Rightarrow> True)"

lemma drain_spec_append: "drain_spec j l \<Longrightarrow> drain_spec k l' \<Longrightarrow> drain_spec (j + k) (l @ l')"
  by (auto simp: drain_spec_def intro: bursts_ok_append)

lemma drain_spec_mono: "drain_spec j l \<Longrightarrow> j \<le> k \<Longrightarrow> drain_spec k l"
  by (auto simp: drain_spec_def)

lemma polled_drain:
  "polled (\<lambda>r log. drain_spec 1 log \<and> drain_error r) k r log \<Longrightarrow> drain_spec k log \<and> drain_error r"
proof (induction k arbitrary: log)
  case 0
  then show ?case by (simp add: drain_spec_def drain_error_def)
next
  case (Suc k)
  from Suc.prems [unfolded polled.simps] show ?case
  proof
    assume "r \<noteq> Inr None \<and> drain_spec 1 log \<and> drain_error r"
    then show ?thesis using drain_spec_mono by auto
  next
    assume "\<exists>l1 l2. log = l1 @ l2 \<and> (drain_spec 1 l1 \<and> drain_error (Inr None :: spi_error + 'a option)) \<and>
      polled (\<lambda>r log. drain_spec 1 log \<and> drain_error r) k r l2"
    then show ?thesis using Suc.IH drain_spec_append [of 1 _ k] by force
  qed
qed

lemma course_drain:
  "course (drain hw polls) d (\<lambda>r d' log. d' = d \<and> drain_spec polls log \<and> (r = Inl Timeout \<or> drain_error r))"
proof -
  have "course (bind (spi_errors hw) (\<lambda>errors. if errors \<noteq> 0 then fail (Hardware errors)
      else bind (spi_status hw) (\<lambda>s. ok (if s AND 5 = 4 then Some () else None)))) d
      (\<lambda>r d' n. d' = d \<and> drain_spec 1 n \<and> drain_error r)"
    unfolding spi_io_defs bind_assoc bind_ok
    by (intro course_steps) (auto simp: drain_spec_def drain_error_def)
  note once = course_poll [OF this, of polls]
  show ?thesis
    unfolding drain_def
  proof (rule course_bind [OF once], goal_cases)
    case (1 a d' n)
    with polled_drain [of polls "Inr a" n] show ?case by (auto simp: drain_error_def)
  next
    case (2 x d' n)
    with polled_drain [of polls "Inl x" n] show ?case by (auto simp: drain_error_def)
  qed
qed

text \<open>The whole transmission, between enabling and disabling the controller.\<close>

definition stream_spec ::
    "u16 list \<Rightarrow> nat \<Rightarrow> spi_error + unit \<Rightarrow> spi_register pac_event list \<Rightarrow> bool" where
  "stream_spec words polls r log \<longleftrightarrow>
     running log \<and> loaded log = [] \<and> bursts_ok log \<and> error_samples log \<le> polls \<and>
     count_list log (Store Select 1) \<le> 1 \<and> prefix (stored log) (map ucast words) \<and>
     (case r of Inr _ \<Rightarrow> stored log = map ucast words
      | Inl e \<Rightarrow> e = Timeout \<or> (\<exists>bits. bits \<noteq> 0 \<and> e = Hardware bits))"

lemma course_pump:
  "course (pump hw words polls) d (\<lambda>r d' log. d' = d \<and> stream_spec words (unat polls) r log)"
  unfolding pump_def
proof (rule course_bind [OF course_pump_words], goal_cases)
  case (1 u d' log)
  then show ?case
    by (auto intro!: course_mono [OF course_drain] bursts_ok_append split: sum.splits
        simp: stream_spec_def pump_spec_def drain_spec_def drain_error_def)
next
  case (2 e d' log)
  then show ?case by (auto simp: stream_spec_def pump_spec_def)
qed


section \<open>Whole transactions\<close>

text \<open>A transfer that is refused makes no access and leaves the buffer alone.\<close>

definition transfer_spec ::
    "spi_driver \<Rightarrow> u8 list \<Rightarrow> u32 \<Rightarrow> spi_error + unit \<Rightarrow> u8 list \<Rightarrow> spi_register pac_event list \<Rightarrow> bool" where
  "transfer_spec d bytes polls r bytes' log \<longleftrightarrow>
     (if \<not> configured d then (r, bytes', log) = (Inl Unconfigured, bytes, [])
      else if 8 < length bytes then (r, bytes', log) = (Inl TooLong, bytes, [])
      else if bytes = [] then (r, bytes', log) = (Inr (), [], [])
      else if polls = 0 then (r, bytes', log) = (Inl Timeout, bytes, [])
      else \<exists>mid v. log = Store Enable 1 # mid @ [Store Enable 0, Store Select 0, Load Clear_All v] \<and>
        exchange_spec bytes (unat polls) r bytes' mid)"

lemma course_spi_transfer:
  "course (transfer hw bytes polls) d (\<lambda>x d' log. d' = d \<and>
     (\<exists>r bytes'. x = Inr (r, bytes') \<and> transfer_spec d bytes polls r bytes' log))"
  unfolding transfer_def set_enable_def set_select_def spi_clear_def bind_assoc bind_ok
proof (intro course_bind_self course_if course_bind_write, goal_cases)
  case 5
  then show ?case
    by (intro course_bind [OF course_spi_exchange])
      (auto intro!: course_bind_write course_bind_read simp: transfer_spec_def)
qed (auto simp: transfer_spec_def)

lemma course_stream:
  assumes "configured d" "polls \<noteq> 0"
  shows "course (stream hw words polls) d (\<lambda>r d' log. d' = d \<and> (\<exists>mid v w.
     log = [Store Control (CONTROL_16BIT_TX_ONLY OR mode_bits d), Load Clear_All v, Store Enable 1] @ mid @
       [Store Enable 0, Store Select 0, Store Control (CONTROL_8BIT_DUPLEX OR mode_bits d), Load Clear_All w] \<and>
     stream_spec words (unat polls) r mid))"
  unfolding stream_def set_enable_def set_select_def set_control_def spi_clear_def bind_assoc bind_ok
  using assms
  by (intro course_bind_self course_if course_bind_write course_bind_read course_bind_attempt [OF course_pump])
    (auto intro!: course_bind_write course_bind_read)

section \<open>Properties\<close>

text \<open>C30: a byte transfer is exact and always ends halted. Whatever the controller does, \<open>transfer\<close>
  returns; a refused transfer touches nothing. Otherwise it enables the controller, and after
  the exchange, failed or not, disables and deselects it and clears its interrupts. During the
  exchange the controller is not reconfigured; at most \<open>polls\<close> error samples are taken; chip
  select is asserted only after every byte is preloaded; what was written to the data register
  is a prefix of the bytes, all of them on success; and the buffer holds exactly the received
  bytes followed by the untouched rest, with nothing left untouched on success.\<close>

theorem spi_transfer_exact:
  "\<exists>r bytes' m' new. transfer hw bytes polls m = Some (Inr (r, bytes'), m') \<and> m_log m' = m_log m @ new \<and>
     fst (m_hw m') = fst (m_hw m) \<and> transfer_spec (fst (m_hw m)) bytes polls r bytes' new"
  by (rule course_runE [OF course_spi_transfer [where hw = hw and bytes = bytes and polls = polls], of m]) auto

text \<open>A word stream is exact, respects the FIFO and always ends halted. A configured driver with a
  non-zero poll budget sends the words in order, a prefix of them on a failure and all of them on
  success; every burst fits into the room the FIFO last reported and is fenced before the next
  access; chip select is asserted at most once; and the transaction ends with the controller
  disabled, deselected and back in the byte configuration.\<close>

theorem spi_stream_exact:
  assumes "configured (fst (m_hw m))" "polls \<noteq> 0"
  shows "\<exists>r m' mid v w. stream hw words polls m = Some (r, m') \<and>
     m_log m' = m_log m @
       [Store Control (CONTROL_16BIT_TX_ONLY OR mode_bits (fst (m_hw m))), Load Clear_All v, Store Enable 1] @ mid @
       [Store Enable 0, Store Select 0, Store Control (CONTROL_8BIT_DUPLEX OR mode_bits (fst (m_hw m))),
        Load Clear_All w] \<and>
     stream_spec words (unat polls) r mid"
proof -
  let ?d = "fst (m_hw m)"
  show ?thesis
  proof (rule course_runE [OF course_stream [OF assms, where hw = hw and words = words]], goal_cases)
    case (1 r m' new)
    then obtain mid v w where "m_log m' = m_log m @
       [Store Control (CONTROL_16BIT_TX_ONLY OR mode_bits ?d), Load Clear_All v, Store Enable 1] @ mid @
       [Store Enable 0, Store Select 0, Store Control (CONTROL_8BIT_DUPLEX OR mode_bits ?d), Load Clear_All w]"
      "stream_spec words (unat polls) r mid"
      by (elim conjE exE) simp
    with 1(1) show ?case by (intro exI conjI)
  qed
qed

text \<open>A controller whose FIFO is always empty and idle.\<close>

definition idle_spi :: "unit pac_hw" where
  "idle_spi = \<lparr>ph_load = (\<lambda>a h. (if a = spi_offset Status then 6 else 0, h)), ph_store = (\<lambda>a v h. h)\<rparr>"

theorem spi_stream_exact_witness:
  "\<exists>r m' mid v w. stream idle_spi [0xf800, 0x07e0] 4
       \<lparr>m_hw = (\<lparr>configured = True, mode_bits = 0\<rparr>, ()), m_log = []\<rparr> = Some (r, m') \<and>
     m_log m' = [] @
       [Store Control (CONTROL_16BIT_TX_ONLY OR 0), Load Clear_All v, Store Enable 1] @ mid @
       [Store Enable 0, Store Select 0, Store Control (CONTROL_8BIT_DUPLEX OR 0), Load Clear_All w] \<and>
     stream_spec [0xf800, 0x07e0] (unat (4 :: u32)) r mid"
  using spi_stream_exact [of "\<lparr>m_hw = (\<lparr>configured = True, mode_bits = 0\<rparr>, ()), m_log = []\<rparr>" 4
      idle_spi "[0xf800, 0x07e0]"]
  by (simp only: fst_conv spi_driver.select_convs machine.select_convs) simp

end
