(* ===== verification/Lcd_Engine.thy ===== *)
theory Lcd_Engine
  imports Spi
begin

text \<open>
  The display engine of the LCD service (firmware/sg2002-c906l/src/lcd.rs): jobs, rendering, the
  initialization table, and the \<open>Engine\<close> that advances in bounded steps. The engine is generic
  over the trait \<open>Io\<close>; here it is a record of four functions on an arbitrary bus state, each
  of which returns a result or panics (\<open>None\<close>). The engine object is the driver half of the
  machine state; the log records the bus calls with their results.

  Shown: every bus call of the engine is legal whatever the bus answers, the state and the phase
  agree, and a job transmits exactly its reference byte sequence, a prefix of it when the bus
  fails, within a bounded number of steps.
\<close>

section \<open>Jobs and errors\<close>

definition WIDTH :: u16 where "WIDTH = 240"
definition HEIGHT :: u16 where "HEIGHT = 240"
definition Y_OFFSET :: u16 where "Y_OFFSET = 80"
definition MAX_CHUNKS :: nat where "MAX_CHUNKS = 32"
definition FRAME_BYTES :: nat where "FRAME_BYTES = unat WIDTH * unat HEIGHT * 2"

datatype job = Clear u16 | FillRect u16 u16 u16 u16 u16 | DemoJob u32 | FrameJob u8 u16 u16 u16 u16

datatype lcd_state = Initializing | Ready | Busy | Fault

datatype lcd_error = Config | BusyError | NotReady | InvalidSequence | Bounds | GpioError | SpiError spi_error

fun error_code :: "lcd_error \<Rightarrow> u32" where
  "error_code Config = 1"
| "error_code BusyError = 2"
| "error_code NotReady = 3"
| "error_code InvalidSequence = 4"
| "error_code Bounds = 5"
| "error_code GpioError = 6"
| "error_code (SpiError Unconfigured) = 0x101"
| "error_code (SpiError TooLong) = 0x102"
| "error_code (SpiError Timeout) = 0x103"
| "error_code (SpiError FifoNotEmpty) = 0x104"
| "error_code (SpiError FifoFull) = 0x105"
| "error_code (SpiError (Hardware bits)) = 0x10000 OR (bits AND 0xffff)"

record lcd_status =
  ls_state :: lcd_state
  accepted_sequence :: u32
  completed_sequence :: u32
  ls_error :: "lcd_error option"

section \<open>The initialization table\<close>

definition INIT :: "(u8 \<times> u8 list) list" where
  "INIT =
     [(0xb2, [0x1f, 0x1f, 0, 0x33, 0x33]),
      (0x36, [0xc0]),
      (0x3a, [0x05]),
      (0xb7, [0]),
      (0xbb, [0x36]),
      (0xc0, [0x2c]),
      (0xc2, [1]),
      (0xc3, [0x13]),
      (0xc4, [0x20]),
      (0xc6, [0x13]),
      (0xd6, [0xa1]),
      (0xd0, [0xa4, 0xa1]),
      (0xe0, [0xf0, 0x08, 0x0e, 0x09, 0x08, 0x04, 0x2f, 0x33, 0x45, 0x36, 0x13, 0x12, 0x2a, 0x2d]),
      (0xe1, [0xf0, 0x0e, 0x12, 0x0c, 0x0a, 0x15, 0x2e, 0x32, 0x44, 0x39, 0x17, 0x18, 0x2b, 0x2f]),
      (0xe4, [0x1d, 0, 0]),
      (0x21, []),
      (0x11, []),
      (0x29, [])]"

section \<open>Rendering\<close>

datatype pixels = Solid u16 | Demo u32 | Frame u8

record render =
  r_x :: u16
  r_y :: u16
  r_width :: u16
  r_height :: u16
  r_source :: pixels
  r_stage :: u8
  r_pixel :: u32

definition render_area :: "job \<Rightarrow> (u16 \<times> u16 \<times> u16 \<times> u16 \<times> pixels) option" where
  "render_area j = (case j of
     Clear color \<Rightarrow> Some (0, 0, WIDTH, HEIGHT, Solid color)
   | FillRect x y width height color \<Rightarrow> Some (x, y, width, height, Solid color)
   | DemoJob seed \<Rightarrow> Some (0, 0, WIDTH, HEIGHT, Demo seed)
   | FrameJob slot x y width height \<Rightarrow>
       if slot < 2 then Some (x, y, width, height, Frame slot) else None)"

definition render_new :: "job \<Rightarrow> lcd_error + render" where
  "render_new j = (case render_area j of None \<Rightarrow> Inl Bounds
     | Some (x, y, width, height, source) \<Rightarrow>
         if width = 0 \<or> height = 0 \<or> unat x + unat width > unat WIDTH \<or> unat y + unat height > unat HEIGHT
         then Inl Bounds
         else Inr \<lparr>r_x = x, r_y = y, r_width = width, r_height = height, r_source = source,
                r_stage = 0, r_pixel = 0\<rparr>)"

definition GLYPHS :: "u8 list list" where
  "GLYPHS =
     [[14, 17, 16, 16, 16, 17, 14],
      [14, 17, 17, 15, 1, 1, 14],
      [14, 17, 19, 21, 25, 17, 14],
      [6, 8, 16, 30, 17, 17, 14],
      [16, 16, 16, 16, 16, 16, 31]]"

text \<open>\<open>x\<close> and \<open>y\<close> are the values of the \<open>u16\<close> coordinates.\<close>

definition demo_pixel :: "nat \<Rightarrow> nat \<Rightarrow> u32 \<Rightarrow> u16" where
  "demo_pixel x y seed =
     (let bars = (if x div 80 = 0 then 0xf800 else if x div 80 = 1 then 0x07e0 else 0x001f);
          board = (if 192 \<le> y
            then if ((of_nat (x div 12 + y div 12) XOR seed) AND 1) = 0 then 0xffff else 0
            else bars);
          box = (if 20 \<le> x \<and> x < 220 \<and> 64 \<le> y \<and> y < 160
            then if x = 20 \<or> x = 219 \<or> y = 64 \<or> y = 159 then 0xffff else 0
            else board)
      in if 60 \<le> x \<and> x < 180 \<and> 96 \<le> y \<and> y < 124
         then let cell = (x - 60) div 24; column = (x - 60) mod 24 div 4
              in if column < 5 \<and> (GLYPHS ! cell ! ((y - 96) div 4)) AND push_bit (4 - column) 1 \<noteq> 0
                 then 0xffff else box
         else box)"

lemma glyph_in_range:
  assumes "60 \<le> x" "x < 180" "96 \<le> y" "y < (124 :: nat)"
  shows "(x - 60) div 24 < length GLYPHS \<and> (y - 96) div 4 < length (GLYPHS ! ((x - 60) div 24))"
proof -
  have c: "(x - 60) div 24 < 5" "(y - 96) div 4 < 7" using assms by auto
  have "length GLYPHS = 5" "\<forall>rows \<in> set GLYPHS. length rows = 7" by (simp_all add: GLYPHS_def)
  with c show ?thesis by simp
qed

text \<open>\<open>to_be_bytes\<close> of a \<open>u16\<close>.\<close>

definition to_be :: "u16 \<Rightarrow> u8 list" where
  "to_be w = [ucast (drop_bit 8 w), ucast w]"

definition pixel_color :: "pixels \<Rightarrow> nat \<Rightarrow> u16" where
  "pixel_color source position = (case source of
     Demo seed \<Rightarrow> demo_pixel (position mod unat WIDTH) (position div unat WIDTH) seed
   | Solid color \<Rightarrow> color
   | Frame _ \<Rightarrow> 0)"

section \<open>The engine\<close>

datatype after_delay = ResetLow | ResetHigh | SleepOut | InitNext | ReadyNext

datatype phase = Delay "u32 option" u32 after_delay | Init nat nat | ReadyPhase | Draw render | FaultPhase

record engine =
  en_phase :: phase
  en_status :: lcd_status
  last_job :: "job option"

record 'h lcd_io =
  li_dc :: "bool \<Rightarrow> 'h \<Rightarrow> ((lcd_error + unit) \<times> 'h) option"
  li_reset :: "bool \<Rightarrow> 'h \<Rightarrow> ((lcd_error + unit) \<times> 'h) option"
  li_write :: "u8 list \<Rightarrow> 'h \<Rightarrow> ((lcd_error + unit) \<times> 'h) option"
  li_frame_stream :: "u8 \<Rightarrow> u32 \<Rightarrow> u32 \<Rightarrow> 'h \<Rightarrow> ((lcd_error + unit) \<times> 'h) option"

datatype lcd_call = Dc bool | Reset bool | Write "u8 list" | FrameStream u8 u32 u32

datatype lcd_event = Call lcd_call "lcd_error + unit"

type_synonym ('h, 'a) lcd_prog = "((engine \<times> 'h, lcd_event) machine, lcd_error, 'a) prog"

fun io_do :: "'h lcd_io \<Rightarrow> lcd_call \<Rightarrow> 'h \<Rightarrow> ((lcd_error + unit) \<times> 'h) option" where
  "io_do io (Dc high) = li_dc io high"
| "io_do io (Reset high) = li_reset io high"
| "io_do io (Write bytes) = li_write io bytes"
| "io_do io (FrameStream slot first count) = li_frame_stream io slot first count"

definition call :: "'h lcd_io \<Rightarrow> lcd_call \<Rightarrow> ('h, unit) lcd_prog" where
  "call io c = (\<lambda>m. case io_do io c (snd (m_hw m)) of None \<Rightarrow> None
     | Some (r, h) \<Rightarrow> Some (r, \<lparr>m_hw = (fst (m_hw m), h), m_log = m_log m @ [Call c r]\<rparr>))"

definition delay :: "u32 \<Rightarrow> after_delay \<Rightarrow> phase" where
  "delay ticks nxt = Delay None ticks nxt"

definition engine_new :: engine where
  "engine_new = \<lparr>en_phase = delay 10 ResetLow,
     en_status = \<lparr>ls_state = Initializing, accepted_sequence = 0, completed_sequence = 0, ls_error = None\<rparr>,
     last_job = None\<rparr>"

definition submit :: "u32 \<Rightarrow> job \<Rightarrow> engine \<Rightarrow> (lcd_error + unit) \<times> engine" where
  "submit sequence j e =
     (let st = en_status e in
      if ls_state st = Fault then (Inl (case ls_error st of None \<Rightarrow> NotReady | Some x \<Rightarrow> x), e)
      else if sequence = 0 then (Inl InvalidSequence, e)
      else if sequence = accepted_sequence st
      then (if last_job e = Some j then Inr () else Inl InvalidSequence, e)
      else if ls_state st = Initializing then (Inl NotReady, e)
      else if ls_state st = Busy then (Inl BusyError, e)
      else case render_new j of Inl x \<Rightarrow> (Inl x, e)
        | Inr r \<Rightarrow> (Inr (), e\<lparr>last_job := Some j, en_phase := Draw r,
            en_status := st\<lparr>ls_state := Busy, accepted_sequence := sequence\<rparr>\<rparr>))"

definition engine_write :: "'h lcd_io \<Rightarrow> bool \<Rightarrow> u8 list \<Rightarrow> ('h, unit) lcd_prog" where
  "engine_write io data bytes = bind (call io (Dc data)) (\<lambda>_. call io (Write bytes))"

definition complete :: "engine \<Rightarrow> engine" where
  "complete e = e\<lparr>en_phase := ReadyPhase,
     en_status := (en_status e)\<lparr>ls_state := Ready, completed_sequence := accepted_sequence (en_status e)\<rparr>\<rparr>"

definition set_phase :: "phase \<Rightarrow> ('h, unit) lcd_prog" where
  "set_phase p = bind self (\<lambda>e. set_self (e\<lparr>en_phase := p\<rparr>))"

text \<open>The actions at the end of a delay and the phase that follows.\<close>

fun after :: "'h lcd_io \<Rightarrow> after_delay \<Rightarrow> ('h, phase) lcd_prog" where
  "after io ResetLow = bind (call io (Reset False)) (\<lambda>_. ok (delay 10 ResetHigh))"
| "after io ResetHigh = bind (call io (Reset True)) (\<lambda>_. ok (delay 24 SleepOut))"
| "after io SleepOut = bind (engine_write io False [0x11]) (\<lambda>_. ok (delay 24 InitNext))"
| "after io InitNext = ok (Init 0 0)"
| "after io ReadyNext = bind self (\<lambda>e.
     bind (set_self (e\<lparr>en_status := (en_status e)\<lparr>ls_state := Ready\<rparr>\<rparr>)) (\<lambda>_. ok ReadyPhase))"

text \<open>One command of the initialization table; \<open>True\<close> means that \<open>advance\<close> returns.\<close>

definition init_once :: "'h lcd_io \<Rightarrow> nat \<Rightarrow> nat \<Rightarrow> ('h, bool) lcd_prog" where
  "init_once io index offset =
     (if index = length INIT then bind (set_phase (delay 20 ReadyNext)) (\<lambda>_. ok True)
      else case INIT ! index of (command, data) \<Rightarrow>
        if offset = 0
        then bind (engine_write io False [command]) (\<lambda>_.
          bind (set_phase (if data = [] then Init (index + 1) 0 else Init index 1)) (\<lambda>_. ok False))
        else let start = offset - 1; upto = min (start + 8) (length data) in
          bind (engine_write io True (slice start (upto - start) data)) (\<lambda>_.
          bind (set_phase (if upto = length data then Init (index + 1) 0 else Init index (upto + 1))) (\<lambda>_.
          ok False)))"

definition next_stage :: "render \<Rightarrow> render" where
  "next_stage r = r\<lparr>r_stage := min (saturating_add (r_stage r) 1) 5\<rparr>"

definition remaining :: "render \<Rightarrow> u32" where
  "remaining r = ucast (r_width r) * ucast (r_height r) - r_pixel r"

definition chunk_bytes :: "render \<Rightarrow> nat \<Rightarrow> u8 list" where
  "chunk_bytes r n = concat (map (\<lambda>i. to_be (pixel_color (r_source r) (unat (r_pixel r) + i))) [0..<n])"

definition go_on :: "render \<Rightarrow> ('h, bool) lcd_prog" where
  "go_on r = bind (set_phase (Draw (next_stage r))) (\<lambda>_. ok False)"

definition finish :: "('h, bool) lcd_prog" where
  "finish = bind self (\<lambda>e. bind (set_self (complete e)) (\<lambda>_. ok True))"

definition draw_pixels :: "'h lcd_io \<Rightarrow> render \<Rightarrow> ('h, bool) lcd_prog" where
  "draw_pixels io r =
     (case r_source r of
        Frame slot \<Rightarrow> bind (call io (Dc True)) (\<lambda>_.
          bind (call io (FrameStream slot (r_pixel r) (remaining r))) (\<lambda>_. finish))
      | _ \<Rightarrow>
          let n = min (remaining r) 4 in
          bind (engine_write io True (chunk_bytes r (unat n))) (\<lambda>_.
          let r' = r\<lparr>r_pixel := r_pixel r + n\<rparr> in
          if n = remaining r then finish else go_on r'))"

definition draw_once :: "'h lcd_io \<Rightarrow> render \<Rightarrow> ('h, bool) lcd_prog" where
  "draw_once io r =
     (if r_stage r = 0 then bind (engine_write io False [0x2a]) (\<lambda>_. go_on r)
      else if r_stage r = 1
      then bind (engine_write io True (to_be (r_x r) @ to_be (r_x r + r_width r - 1))) (\<lambda>_. go_on r)
      else if r_stage r = 2 then bind (engine_write io False [0x2b]) (\<lambda>_. go_on r)
      else if r_stage r = 3
      then bind (engine_write io True
        (to_be (r_y r + Y_OFFSET) @ to_be (r_y r + Y_OFFSET + r_height r - 1))) (\<lambda>_. go_on r)
      else if r_stage r = 4 then bind (engine_write io False [0x2c]) (\<lambda>_. go_on r)
      else draw_pixels io r)"

definition advance_once :: "'h lcd_io \<Rightarrow> u32 \<Rightarrow> ('h, bool) lcd_prog" where
  "advance_once io now = bind self (\<lambda>e. case en_phase e of
     ReadyPhase \<Rightarrow> ok True
   | FaultPhase \<Rightarrow> ok True
   | Delay None ticks nxt \<Rightarrow> bind (set_phase (Delay (Some (now + ticks)) ticks nxt)) (\<lambda>_. ok True)
   | Delay (Some deadline) ticks nxt \<Rightarrow>
       if sint (now - deadline) < 0 then ok True
       else bind (after io nxt) (\<lambda>p. bind (set_phase p) (\<lambda>_. ok True))
   | Init index offset \<Rightarrow> init_once io index offset
   | Draw r \<Rightarrow> draw_once io r)"

primrec advance :: "'h lcd_io \<Rightarrow> u32 \<Rightarrow> nat \<Rightarrow> ('h, unit) lcd_prog" where
  "advance io now 0 = ok ()"
| "advance io now (Suc n) = bind (advance_once io now) (\<lambda>stop. if stop then ok () else advance io now n)"

definition engine_step :: "'h lcd_io \<Rightarrow> u32 \<Rightarrow> ('h, unit) lcd_prog" where
  "engine_step io now =
     bind (attempt (advance io now MAX_CHUNKS)) (\<lambda>r. case r of
       Inr _ \<Rightarrow> ok ()
     | Inl error \<Rightarrow> bind self (\<lambda>e. set_self (e\<lparr>en_phase := FaultPhase,
         en_status := (en_status e)\<lparr>ls_state := Fault, ls_error := Some error\<rparr>\<rparr>)))"


section \<open>The invariant\<close>

definition area :: "render \<Rightarrow> nat" where
  "area r = unat (r_width r) * unat (r_height r)"

definition render_ok :: "render \<Rightarrow> bool" where
  "render_ok r \<longleftrightarrow> unat (r_x r) + unat (r_width r) \<le> 240 \<and> unat (r_y r) + unat (r_height r) \<le> 240 \<and>
     unat (r_stage r) \<le> 5 \<and> unat (r_pixel r) < area r \<and> (unat (r_stage r) < 5 \<longrightarrow> r_pixel r = 0) \<and>
     (case r_source r of Frame slot \<Rightarrow> slot < 2 \<and> r_pixel r = 0 | _ \<Rightarrow> True)"

fun phase_ok :: "phase \<Rightarrow> lcd_status \<Rightarrow> bool" where
  "phase_ok (Delay d t nxt) st \<longleftrightarrow> ls_state st = Initializing"
| "phase_ok (Init index offset) st \<longleftrightarrow> ls_state st = Initializing \<and>
     (if index = length INIT then offset = 0 else index < length INIT \<and> offset \<le> length (snd (INIT ! index)))"
| "phase_ok ReadyPhase st \<longleftrightarrow> ls_state st = Ready"
| "phase_ok (Draw r) st \<longleftrightarrow> ls_state st = Busy \<and> render_ok r"
| "phase_ok FaultPhase st \<longleftrightarrow> ls_state st = Fault"

definition engine_ok :: "engine \<Rightarrow> bool" where
  "engine_ok e \<longleftrightarrow> phase_ok (en_phase e) (en_status e) \<and>
     (ls_error (en_status e) \<noteq> None) = (ls_state (en_status e) = Fault) \<and>
     (ls_state (en_status e) \<in> {Initializing, Ready} \<longrightarrow>
        completed_sequence (en_status e) = accepted_sequence (en_status e))"

lemma engine_new_ok: "engine_ok engine_new"
  by (simp add: engine_ok_def engine_new_def delay_def)

lemma render_new_ok: "render_new j = Inr r \<Longrightarrow> render_ok r \<and> r_stage r = 0 \<and> r_pixel r = 0"
  by (cases j) (auto simp: render_new_def render_area_def render_ok_def area_def WIDTH_def HEIGHT_def
      unat_eq_0 unat_gt_0 split: if_splits)

lemma submit_ok: "engine_ok e \<Longrightarrow> engine_ok (snd (submit sequence j e))"
  using render_new_ok [of j]
  by (auto simp: engine_ok_def submit_def Let_def split: sum.split)

section \<open>What goes over the wires\<close>

datatype wire = Command u8 | Parameter u8 | Pixels bool u8 u32 u32 | ResetLine bool

text \<open>What the calls hand to the bus, a call that fails included; \<open>dc\<close> is the level of the
  data/command line.\<close>

fun transmit :: "bool \<Rightarrow> lcd_event list \<Rightarrow> wire list" where
  "transmit dc [] = []"
| "transmit dc (Call (Dc high) r # log) = transmit high log"
| "transmit dc (Call (Reset high) r # log) = ResetLine high # transmit dc log"
| "transmit dc (Call (Write bytes) r # log) = map (if dc then Parameter else Command) bytes @ transmit dc log"
| "transmit dc (Call (FrameStream slot first count) r # log) = Pixels dc slot first count # transmit dc log"

fun dc_level :: "bool \<Rightarrow> lcd_event list \<Rightarrow> bool" where
  "dc_level dc [] = dc"
| "dc_level dc (Call c r # log) = dc_level (case c of Dc high \<Rightarrow> high | _ \<Rightarrow> dc) log"

lemma dc_level_append: "dc_level dc (l @ l') = dc_level (dc_level dc l) l'"
  by (induction dc l rule: dc_level.induct) auto

lemma transmit_append: "transmit dc (l @ l') = transmit dc l @ transmit (dc_level dc l) l'"
  by (induction dc l rule: transmit.induct) auto

text \<open>Calls the bus accepts: at most eight bytes, and pixels inside one frame slot.\<close>

fun legal :: "lcd_call \<Rightarrow> bool" where
  "legal (Write bytes) \<longleftrightarrow> 1 \<le> length bytes \<and> length bytes \<le> 8"
| "legal (FrameStream slot first count) \<longleftrightarrow> slot < 2 \<and> count \<noteq> 0 \<and> 2 * (unat first + unat count) \<le> FRAME_BYTES"
| "legal _ \<longleftrightarrow> True"

fun legal_event :: "lcd_event \<Rightarrow> bool" where
  "legal_event (Call c r) \<longleftrightarrow> legal c"

fun ok_event :: "lcd_event \<Rightarrow> bool" where
  "ok_event (Call c r) \<longleftrightarrow> r = Inr ()"

text \<open>Legal calls that all succeeded, or of which only the last may have failed.\<close>

definition flawless :: "lcd_event list \<Rightarrow> bool" where
  "flawless log \<longleftrightarrow> list_all (\<lambda>ev. legal_event ev \<and> ok_event ev) log"

definition faulty :: "lcd_event list \<Rightarrow> bool" where
  "faulty log \<longleftrightarrow> list_all legal_event log \<and> list_all ok_event (butlast log)"

lemma flawless_simps [simp]:
  "flawless []" "flawless (ev # log) \<longleftrightarrow> legal_event ev \<and> ok_event ev \<and> flawless log"
  "flawless (log @ log') \<longleftrightarrow> flawless log \<and> flawless log'"
  by (simp_all add: flawless_def)

lemma faulty_simps [simp]:
  "faulty []" "faulty (ev # log) \<longleftrightarrow> legal_event ev \<and> (log = [] \<or> ok_event ev) \<and> faulty log"
  by (auto simp: faulty_def)

lemma flawless_faulty: "flawless log \<Longrightarrow> faulty log"
  by (induction log) auto

lemma faulty_append: "flawless log \<Longrightarrow> faulty log' \<Longrightarrow> faulty (log @ log')"
  by (induction log) auto

text \<open>What a phase has still to transmit.\<close>

definition window_parts :: "render \<Rightarrow> wire list list" where
  "window_parts r =
     [[Command 0x2a], map Parameter (to_be (r_x r) @ to_be (r_x r + r_width r - 1)),
      [Command 0x2b], map Parameter (to_be (r_y r + Y_OFFSET) @ to_be (r_y r + Y_OFFSET + r_height r - 1)),
      [Command 0x2c]]"

definition pixel_part :: "render \<Rightarrow> wire list" where
  "pixel_part r = (case r_source r of
     Frame slot \<Rightarrow> [Pixels True slot (r_pixel r) (remaining r)]
   | source \<Rightarrow> concat (map (\<lambda>i. map Parameter (to_be (pixel_color source i))) [unat (r_pixel r)..<area r]))"

definition draw_rest :: "render \<Rightarrow> wire list" where
  "draw_rest r = concat (drop (unat (r_stage r)) (window_parts r)) @ pixel_part r"

definition table_part :: "u8 \<times> u8 list \<Rightarrow> wire list" where
  "table_part x = Command (fst x) # map Parameter (snd x)"

definition init_rest :: "nat \<Rightarrow> nat \<Rightarrow> wire list" where
  "init_rest index offset = (if offset = 0 then concat (map table_part (drop index INIT))
     else map Parameter (drop (offset - 1) (snd (INIT ! index))) @ concat (map table_part (drop (index + 1) INIT)))"

definition init_wire :: "wire list" where
  "init_wire = concat (map table_part INIT)"

primrec delay_rest :: "after_delay \<Rightarrow> wire list" where
  "delay_rest ReadyNext = []"
| "delay_rest InitNext = init_wire"
| "delay_rest SleepOut = Command 0x11 # init_wire"
| "delay_rest ResetHigh = [ResetLine True, Command 0x11] @ init_wire"
| "delay_rest ResetLow = [ResetLine False, ResetLine True, Command 0x11] @ init_wire"

fun pending :: "phase \<Rightarrow> wire list" where
  "pending (Delay d t nxt) = delay_rest nxt"
| "pending (Init index offset) = init_rest index offset"
| "pending (Draw r) = draw_rest r"
| "pending _ = []"


section \<open>The bus interface\<close>

text \<open>What the engine needs of a bus: a legal call does not panic.\<close>

locale lcd_bus =
  fixes io :: "'h lcd_io"
  assumes total: "legal c \<Longrightarrow> io_do io c h \<noteq> None"
begin

lemma course_call:
  assumes "legal c" "\<And>r. Q r e [Call c r]"
  shows "course (call io c) e Q"
  using assms(2) total [OF assms(1)] by (fastforce simp: course_def call_def split: option.split)

lemma course_bind_call:
  assumes "legal c" "\<And>x. Q (Inl x) e [Call c (Inl x)]"
    "course (f ()) e (\<lambda>r e' n. Q r e' (Call c (Inr ()) # n))"
  shows "course (bind (call io c) f) e Q"
  by (rule course_bind [OF course_call [OF assms(1),
        where Q = "\<lambda>r e' n. e' = e \<and> n = [Call c r]"]]) (use assms in auto)

lemma course_bind_engine_write:
  assumes "1 \<le> length bytes" "length bytes \<le> 8"
    "\<And>x n. \<forall>dc. prefix (transmit dc n) (map (if data then Parameter else Command) bytes) \<Longrightarrow> faulty n \<Longrightarrow> Q (Inl x) e n"
    "\<And>n. \<forall>dc. transmit dc n = map (if data then Parameter else Command) bytes \<Longrightarrow> flawless n \<Longrightarrow>
       course (f ()) e (\<lambda>r e' n'. Q r e' (n @ n'))"
  shows "course (bind (engine_write io data bytes) f) e Q"
proof -
  have "course (engine_write io data bytes) e (\<lambda>r e' n. e' = e \<and> (case r of
      Inl _ \<Rightarrow> faulty n \<and> (\<forall>dc. prefix (transmit dc n) (map (if data then Parameter else Command) bytes))
    | Inr _ \<Rightarrow> flawless n \<and> (\<forall>dc. transmit dc n = map (if data then Parameter else Command) bytes)))"
    unfolding engine_write_def using assms(1,2)
    by (intro course_bind_call course_call) (auto split: sum.split)
  then show ?thesis
    by (rule course_bind) (use assms(3,4) in auto)
qed

end

section \<open>Steps of the engine\<close>

text \<open>The outcome of one iteration of \<open>advance\<close>.\<close>

definition iteration :: "engine \<Rightarrow> lcd_error + 'a \<Rightarrow> engine \<Rightarrow> lcd_event list \<Rightarrow> bool" where
  "iteration e r e' log \<longleftrightarrow> (case r of Inl _ \<Rightarrow> faulty log | Inr _ \<Rightarrow> flawless log) \<and> engine_ok e' \<and>
     (\<forall>dc. case r of Inl x \<Rightarrow> prefix (transmit dc log) (pending (en_phase e)) \<and> en_phase e' \<noteq> FaultPhase
       | Inr _ \<Rightarrow> pending (en_phase e) = transmit dc log @ pending (en_phase e'))"

lemma transmit_head:
  "\<forall>dc. prefix (transmit dc n) [a] \<Longrightarrow> \<forall>l dc. prefix (transmit dc n) (a # l)"
  by (auto simp: prefix_Cons)

lemma iteration_err:
  assumes "engine_ok e" "en_phase e \<noteq> FaultPhase" "pending (en_phase e) = w @ rest"
    "\<forall>dc. prefix (transmit dc n) w" "faulty n"
  shows "iteration e (Inl x) e n"
  using assms by (simp add: iteration_def)

lemma init_split:
  assumes "index < length INIT"
  shows "init_rest index 0 = Command (fst (INIT ! index)) # map Parameter (snd (INIT ! index)) @ init_rest (index + 1) 0"
    "0 < offset \<Longrightarrow> init_rest index offset =
       map Parameter (drop (offset - 1) (snd (INIT ! index))) @ init_rest (index + 1) 0"
  using assms by (simp_all add: init_rest_def Cons_nth_drop_Suc [symmetric] table_part_def)

context lcd_bus
begin

lemma course_init_once:
  assumes "en_phase e = Init index offset" "engine_ok e"
  shows "course (init_once io index offset) e (iteration e)"
proof (cases "index = length INIT")
  case True
  with assms show ?thesis
    by (auto simp: init_once_def set_phase_def bind_assoc delay_def iteration_def engine_ok_def init_rest_def
        intro!: course_bind_self course_bind_set_self)
next
  case False
  obtain command data where row: "INIT ! index = (command, data)" by force
  from assms False have i: "index < length INIT" "offset \<le> length data"
    by (auto simp: engine_ok_def row split: if_splits)
  show ?thesis
  proof (cases "offset = 0")
    case zero: True
    show ?thesis
    proof (cases data)
      case Nil
      then show ?thesis
        using assms False zero row i init_split(1) [OF i(1)]
        by (auto simp: init_once_def set_phase_def bind_assoc iteration_def engine_ok_def
            dest!: transmit_head intro!: course_bind_engine_write course_bind_self course_bind_set_self)
    next
      case (Cons x xs)
      have split: "pending (en_phase e) = [Command command] @ pending (Init index (Suc 0))"
        using init_split(1) [OF i(1)] init_split(2) [OF i(1), of 1] assms(1) row zero by simp
      have "engine_ok (e\<lparr>en_phase := Init index (Suc 0)\<rparr>)"
        using assms i row False Cons by (auto simp: engine_ok_def)
      then have fin: "iteration e (Inr False) (e\<lparr>en_phase := Init index (Suc 0)\<rparr>) n"
        if "\<forall>dc. transmit dc n = [Command command]" "flawless n" for n
        unfolding iteration_def split using that by simp
      have err: "iteration e (Inl x) e n" if "\<forall>dc. prefix (transmit dc n) [Command command]" "faulty n" for n x
        using iteration_err [OF assms(2) _ split that] assms(1) by simp
      show ?thesis
        unfolding init_once_def if_not_P [OF False] row prod.case if_P [OF zero] set_phase_def bind_assoc
        using Cons by (intro course_bind_engine_write course_bind_self course_bind_set_self) (simp_all add: fin err)
    qed
  next
    case data: False
    define s where "s = offset - 1"
    define u where "u = min (s + 8) (length data)"
    have u: "offset = s + 1" "s < u" "u - s \<le> 8" "u \<le> length data" using data i by (auto simp: s_def u_def)
    have len: "length (slice s (u - s) data) = u - s" using u by simp
    have cut: "drop s data = slice s (u - s) data @ drop u data"
      using u(2) append_take_drop_id [of "u - s" "drop s data"] by (simp add: slice_def)
    let ?p = "if u = length data then Init (index + 1) 0 else Init index (u + 1)"
    have split: "pending (en_phase e) = map Parameter (slice s (u - s) data) @ pending ?p"
      using init_split(2) [OF i(1), of offset] init_split(2) [OF i(1), of "u + 1"] assms(1) row u cut by simp
    have "engine_ok (e\<lparr>en_phase := ?p\<rparr>)"
      using assms i row False u by (auto simp: engine_ok_def)
    then have fin: "iteration e (Inr False) (e\<lparr>en_phase := ?p\<rparr>) n"
      if "\<forall>dc. transmit dc n = map Parameter (slice s (u - s) data)" "flawless n" for n
      unfolding iteration_def split using that by simp
    have err: "iteration e (Inl x) e n"
      if "\<forall>dc. prefix (transmit dc n) (map Parameter (slice s (u - s) data))" "faulty n" for n x
      using iteration_err [OF assms(2) _ split that] assms(1) by simp
    show ?thesis
      unfolding init_once_def if_not_P [OF False] row prod.case if_not_P [OF data] set_phase_def bind_assoc Let_def
        s_def [symmetric] u_def [symmetric]
    proof (intro course_bind_engine_write course_bind_self course_bind_set_self, goal_cases)
      case (4 n)
      then show ?case using fin [of n] by simp
    qed (use len u err in auto)
  qed
qed

lemma course_after:
  assumes "en_phase e = Delay (Some deadline) ticks nxt" "engine_ok e"
  shows "course (bind (after io nxt) (\<lambda>p. bind (set_phase p) (\<lambda>_. ok True))) e (iteration e)"
  using assms by (cases nxt)
    (auto simp: set_phase_def bind_assoc iteration_def engine_ok_def delay_def init_rest_def init_wire_def
      dest!: transmit_head intro!: course_bind_engine_write course_bind_call course_bind_self course_bind_set_self)

end

section \<open>Drawing\<close>

lemma unat_u16_u32: "unat (ucast w :: u32) = unat w" for w :: u16
  using unat_lt [of w] by (simp add: unsigned_ucast_eq take_bit_nat_eq_self)

lemma area_bound:
  assumes "render_ok r"
  shows "area r \<le> 57600" "unat (remaining r) = area r - unat (r_pixel r)"
    "unat (ucast (r_width r) * ucast (r_height r) :: u32) = area r"
proof -
  have "unat (r_width r) \<le> 240" "unat (r_height r) \<le> 240" using assms by (auto simp: render_ok_def)
  then have "unat (r_width r) * unat (r_height r) \<le> 240 * 240" by (rule mult_le_mono)
  then show a: "area r \<le> 57600" by (simp add: area_def)
  then show w: "unat (ucast (r_width r) * ucast (r_height r) :: u32) = area r"
    by (simp add: area_def unat_word_ariths unat_u16_u32)
  show "unat (remaining r) = area r - unat (r_pixel r)"
    using assms w by (auto simp: remaining_def render_ok_def unat_sub word_le_nat_alt)
qed

text \<open>The iterations a drawing needs: the window commands left, then chunks of four pixels.\<close>

definition todo :: "render \<Rightarrow> nat" where
  "todo r = 5 - unat (r_stage r) +
     (case r_source r of Frame _ \<Rightarrow> 1 | _ \<Rightarrow> (area r - unat (r_pixel r) + 3) div 4)"

lemma todo_pos: "render_ok r \<Longrightarrow> 0 < todo r"
  by (auto simp: todo_def render_ok_def split: pixels.split)

text \<open>An iteration of a drawing: it fails, completes the job, or leaves less to do.\<close>

definition drawing :: "render \<Rightarrow> nat \<Rightarrow> engine \<Rightarrow> lcd_error + bool \<Rightarrow> engine \<Rightarrow> bool" where
  "drawing r n e x e' \<longleftrightarrow> (case x of
     Inl _ \<Rightarrow> \<exists>r'. e' = e\<lparr>en_phase := Draw r'\<rparr>
   | Inr True \<Rightarrow> e' = complete e
   | Inr False \<Rightarrow> \<exists>r'. e' = e\<lparr>en_phase := Draw r'\<rparr> \<and> render_ok r' \<and> todo r' + n \<le> todo r)"

lemma length_window_parts: "length (window_parts r) = 5"
  by (simp add: window_parts_def)

lemma next_stage_window:
  assumes "render_ok r" "unat (r_stage r) < 5"
  shows "render_ok (next_stage r)" "todo (next_stage r) + 1 = todo r"
    "draw_rest r = window_parts r ! unat (r_stage r) @ draw_rest (next_stage r)"
proof -
  have st: "unat (r_stage (next_stage r)) = unat (r_stage r) + 1"
    using assms(2) by (simp add: next_stage_def unat_saturating_add min_def word_le_nat_alt)
  show "render_ok (next_stage r)"
    using assms st by (auto simp: render_ok_def area_def next_stage_def split: pixels.splits)
  show "todo (next_stage r) + 1 = todo r"
    using assms(2) st by (cases "r_source r") (auto simp: todo_def area_def next_stage_def)
  have parts: "window_parts (next_stage r) = window_parts r" "pixel_part (next_stage r) = pixel_part r"
    by (simp_all add: window_parts_def pixel_part_def next_stage_def area_def remaining_def split: pixels.split)
  have "drop (unat (r_stage r)) (window_parts r) =
      window_parts r ! unat (r_stage r) # drop (unat (r_stage r) + 1) (window_parts r)"
    using assms(2) by (simp add: Cons_nth_drop_Suc length_window_parts)
  then show "draw_rest r = window_parts r ! unat (r_stage r) @ draw_rest (next_stage r)"
    by (simp add: draw_rest_def st parts)
qed


lemma chunk_wire:
  "map Parameter (chunk_bytes r n) =
     concat (map (\<lambda>i. map Parameter (to_be (pixel_color (r_source r) i))) [unat (r_pixel r)..<unat (r_pixel r) + n])"
proof -
  have "[unat (r_pixel r)..<unat (r_pixel r) + n] = map (\<lambda>i. unat (r_pixel r) + i) [0..<n]"
    by (simp add: map_add_upt add.commute)
  then show ?thesis by (simp add: chunk_bytes_def map_concat comp_def)
qed

lemma length_chunk_bytes: "length (chunk_bytes r n) = 2 * n"
  by (simp add: chunk_bytes_def length_concat comp_def to_be_def sum_list_triv)

text \<open>A chunk of \<open>n\<close> pixels of a drawing whose source is not a frame slot.\<close>

lemma chunk_step:
  assumes "render_ok r" "\<not> unat (r_stage r) < 5" "\<And>slot. r_source r \<noteq> Frame slot" "n = min (remaining r) 4"
  shows "0 < unat n" "unat n \<le> 4"
    "n = remaining r \<Longrightarrow> draw_rest r = map Parameter (chunk_bytes r (unat n))"
    "n \<noteq> remaining r \<Longrightarrow> render_ok (next_stage (r\<lparr>r_pixel := r_pixel r + n\<rparr>)) \<and>
       todo (next_stage (r\<lparr>r_pixel := r_pixel r + n\<rparr>)) + 1 = todo r \<and>
       draw_rest r = map Parameter (chunk_bytes r (unat n)) @ draw_rest (next_stage (r\<lparr>r_pixel := r_pixel r + n\<rparr>))"
proof -
  note b = area_bound [OF assms(1)]
  have st: "r_stage r = 5" using assms(1,2) by (auto simp: render_ok_def word_unat_eq_iff)
  have p: "unat (r_pixel r) < area r" using assms(1) by (simp add: render_ok_def)
  have n: "unat n = min (area r - unat (r_pixel r)) 4"
    using assms(4) b(2) by (simp add: min_def word_le_nat_alt)
  with p show "0 < unat n" "unat n \<le> 4" by auto
  have rest: "draw_rest r = concat (map (\<lambda>i. map Parameter (to_be (pixel_color (r_source r) i)))
      [unat (r_pixel r)..<area r])"
    using st assms(3) by (auto simp: draw_rest_def window_parts_def pixel_part_def split: pixels.split)
  show "draw_rest r = map Parameter (chunk_bytes r (unat n))" if "n = remaining r"
    using that b(2) p by (simp add: rest chunk_wire)
  show "render_ok (next_stage (r\<lparr>r_pixel := r_pixel r + n\<rparr>)) \<and>
       todo (next_stage (r\<lparr>r_pixel := r_pixel r + n\<rparr>)) + 1 = todo r \<and>
       draw_rest r = map Parameter (chunk_bytes r (unat n)) @ draw_rest (next_stage (r\<lparr>r_pixel := r_pixel r + n\<rparr>))"
    if "n \<noteq> remaining r"
  proof -
    let ?r = "next_stage (r\<lparr>r_pixel := r_pixel r + n\<rparr>)"
    from that have "unat n \<noteq> area r - unat (r_pixel r)" using b(2) by (simp add: word_unat_eq_iff)
    with n have n4: "unat n = 4" "unat (r_pixel r) + 4 < area r" by auto
    then have px: "unat (r_pixel r + n) = unat (r_pixel r) + 4"
      using b(1) by (simp add: unat_word_ariths)
    have st': "r_stage ?r = 5" using st by (simp add: next_stage_def saturating_add_def)
    have ar: "area ?r = area r" by (simp add: area_def next_stage_def)
    have ok: "render_ok ?r"
      using assms(1,3) px n4 st' by (auto simp: render_ok_def ar) (auto simp: next_stage_def area_def split: pixels.splits)
    moreover have "todo ?r + 1 = todo r"
    proof -
      have "(area r - unat (r_pixel r) + 3) div 4 = (area r - (unat (r_pixel r) + 4) + 3) div 4 + 1"
        using n4 by simp
      then show ?thesis
        using assms(3) px st st' ar by (cases "r_source r") (auto simp: todo_def next_stage_def)
    qed
    moreover have "draw_rest r = map Parameter (chunk_bytes r (unat n)) @ draw_rest ?r"
    proof -
      have "[unat (r_pixel r)..<area r] = [unat (r_pixel r)..<unat (r_pixel r) + 4] @ [unat (r_pixel r) + 4..<area r]"
        using n4(2) by (metis less_imp_le le_add1 upt_add_eq_append le_add_diff_inverse)
      moreover have "draw_rest ?r = concat (map (\<lambda>i. map Parameter (to_be (pixel_color (r_source r) i)))
          [unat (r_pixel r) + 4..<area r])"
        using st' assms(3) px ar
        by (auto simp: draw_rest_def window_parts_def pixel_part_def next_stage_def split: pixels.split)
      ultimately show ?thesis unfolding rest chunk_wire n4(1) by simp
    qed
    ultimately show ?thesis by blast
  qed
qed


lemma engine_ok_draw: "engine_ok e \<Longrightarrow> en_phase e = Draw r \<Longrightarrow> render_ok r' \<Longrightarrow> engine_ok (e\<lparr>en_phase := Draw r'\<rparr>)"
  by (simp add: engine_ok_def)

lemma engine_ok_complete: "engine_ok e \<Longrightarrow> en_phase e = Draw r \<Longrightarrow> engine_ok (complete e)"
  by (simp add: engine_ok_def complete_def)

text \<open>The three ways an iteration of a drawing ends.\<close>

lemma drawing_err [simp]:
  assumes "en_phase e = Draw r"
  shows "drawing r k e (Inl x) e"
proof -
  have "e = e\<lparr>en_phase := Draw r\<rparr>" using assms by simp
  then show ?thesis unfolding drawing_def sum.case by (rule exI)
qed

lemma drawing_fails:
  assumes "engine_ok e" "en_phase e = Draw r" "draw_rest r = w @ rest"
    "\<forall>dc. prefix (transmit dc n) w" "faulty n"
  shows "iteration e (Inl x) e n \<and> drawing r k e (Inl x) e"
proof -
  have "iteration e (Inl x) e n"
    by (rule iteration_err [where w = w and rest = rest]) (use assms in simp_all)
  with assms(2) show ?thesis by simp
qed

lemma drawing_goes_on:
  assumes "engine_ok e" "en_phase e = Draw r" "flawless n"
    "render_ok r'" "todo r' + 1 \<le> todo r" "\<forall>dc. draw_rest r = transmit dc n @ draw_rest r'"
  shows "iteration e (Inr False) (e\<lparr>en_phase := Draw r'\<rparr>) n \<and> drawing r (Suc 0) e (Inr False) (e\<lparr>en_phase := Draw r'\<rparr>)"
  using assms engine_ok_draw [OF assms(1,2,4)] by (auto simp: iteration_def drawing_def)

lemma drawing_completes:
  assumes "engine_ok e" "en_phase e = Draw r" "flawless n" "\<forall>dc. transmit dc n = draw_rest r"
  shows "iteration e (Inr True) (complete e) n \<and> drawing r (Suc 0) e (Inr True) (complete e)"
  using assms engine_ok_complete [OF assms(1,2)] by (auto simp: iteration_def drawing_def complete_def)

lemma course_go_on:
  assumes "engine_ok e" "en_phase e = Draw r" "flawless n"
    "render_ok (next_stage r')" "todo (next_stage r') + 1 \<le> todo r"
    "\<forall>dc. draw_rest r = transmit dc n @ draw_rest (next_stage r')"
  shows "course (go_on r') e (\<lambda>x e' n'. iteration e x e' (n @ n') \<and> drawing r (Suc 0) e x e')"
  unfolding go_on_def set_phase_def bind_assoc
  using drawing_goes_on [OF assms] by (intro course_bind_self course_bind_set_self) simp

lemma course_finish:
  assumes "engine_ok e" "en_phase e = Draw r" "flawless n" "\<forall>dc. transmit dc n = draw_rest r"
  shows "course finish e (\<lambda>x e' n'. iteration e x e' (n @ n') \<and> drawing r (Suc 0) e x e')"
  unfolding finish_def using drawing_completes [OF assms] by (intro course_bind_self course_bind_set_self) simp

lemma iteration_trans:
  assumes "iteration e (Inr a) e' l" "iteration e' r e'' l'"
  shows "iteration e r e'' (l @ l')"
proof -
  have "case r of Inl x \<Rightarrow> prefix (transmit dc (l @ l')) (pending (en_phase e)) \<and> en_phase e'' \<noteq> FaultPhase
      | Inr _ \<Rightarrow> pending (en_phase e) = transmit dc (l @ l') @ pending (en_phase e'')" for dc
  proof -
    have "pending (en_phase e) = transmit dc l @ pending (en_phase e')"
      using assms(1) unfolding iteration_def sum.case by blast
    with assms(2) show ?thesis by (cases r) (auto simp: iteration_def transmit_append)
  qed
  with assms show ?thesis
    by (cases r) (auto simp: iteration_def intro: faulty_append)
qed

text \<open>A drawing that has not failed within \<open>k\<close> iterations is complete or has that much less to do.\<close>

definition continues :: "render \<Rightarrow> nat \<Rightarrow> engine \<Rightarrow> engine \<Rightarrow> bool" where
  "continues r k e e' \<longleftrightarrow> e' = complete e \<or>
     (\<exists>r'. e' = e\<lparr>en_phase := Draw r'\<rparr> \<and> render_ok r' \<and> todo r' + k \<le> todo r)"

lemma continues_0: "engine_ok e \<Longrightarrow> en_phase e = Draw r \<Longrightarrow> continues r 0 e e"
proof -
  assume "engine_ok e" "en_phase e = Draw r"
  then have "e = e\<lparr>en_phase := Draw r\<rparr>" "render_ok r" by (simp_all add: engine_ok_def)
  then show ?thesis unfolding continues_def by (intro disjI2 exI [of _ r]) simp
qed

lemma continues_trans:
  assumes "continues r' k (e\<lparr>en_phase := Draw r'\<rparr>) e''" "todo r' + j \<le> todo r"
  shows "continues r (j + k) e e''"
proof -
  from assms(1) consider "e'' = complete (e\<lparr>en_phase := Draw r'\<rparr>)"
    | r'' where "e'' = e\<lparr>en_phase := Draw r''\<rparr>" "render_ok r''" "todo r'' + k \<le> todo r'"
    by (auto simp: continues_def)
  then show ?thesis
  proof cases
    case 1
    then show ?thesis by (simp add: continues_def complete_def)
  next
    case 2
    then show ?thesis unfolding continues_def using assms(2) by (intro disjI2 exI [of _ r'']) simp
  qed
qed

context lcd_bus
begin

lemma course_window:
  assumes "engine_ok e" "en_phase e = Draw r" "unat (r_stage r) < 5"
    "window_parts r ! unat (r_stage r) = map (if data then Parameter else Command) bytes"
    "1 \<le> length bytes" "length bytes \<le> 8"
  shows "course (bind (engine_write io data bytes) (\<lambda>_. go_on r)) e
    (\<lambda>x e' n. iteration e x e' n \<and> drawing r (Suc 0) e x e')"
proof -
  have "render_ok r" using assms(1,2) by (simp add: engine_ok_def)
  note w = next_stage_window [OF this assms(3)]
  show ?thesis
    using assms w drawing_fails [OF assms(1,2) w(3)]
    by (intro course_bind_engine_write course_go_on) simp_all
qed

lemma course_draw_pixels:
  assumes "engine_ok e" "en_phase e = Draw r" "\<not> unat (r_stage r) < 5"
  shows "course (draw_pixels io r) e (\<lambda>x e' n. iteration e x e' n \<and> drawing r (Suc 0) e x e')"
proof (cases "\<exists>slot. r_source r = Frame slot")
  case True
  then obtain slot where src: "r_source r = Frame slot" by blast
  have ok: "render_ok r" using assms(1,2) by (simp add: engine_ok_def)
  note b = area_bound [OF ok]
  have st: "r_stage r = 5" and px: "r_pixel r = 0" "slot < 2" "0 < area r"
    using ok assms(3) src by (auto simp: render_ok_def word_unat_eq_iff)
  have legal: "legal (FrameStream slot (r_pixel r) (remaining r))"
    using px b(1,2) by (auto simp: FRAME_BYTES_def WIDTH_def HEIGHT_def unat_gt_0 [symmetric])
  have rest: "draw_rest r = [Pixels True slot (r_pixel r) (remaining r)]"
    using st src by (simp add: draw_rest_def window_parts_def pixel_part_def)
  have fail: "iteration e (Inl x) e n \<and> drawing r k e (Inl x) e"
    if "\<forall>dc. prefix (transmit dc n) [Pixels True slot (r_pixel r) (remaining r)]" "faulty n" for x n k
    using drawing_fails [OF assms(1,2) _ that, of "[]"] rest by simp
  show ?thesis
    unfolding draw_pixels_def src pixels.case
    using assms legal rest
    by (intro course_bind_call course_mono [OF course_finish [where n = "[Call (Dc True) (Inr ()),
          Call (FrameStream slot (r_pixel r) (remaining r)) (Inr ())]"]])
      (simp_all add: fail)
next
  case False
  have ok: "render_ok r" using assms(1,2) by (simp add: engine_ok_def)
  define n where "n = min (remaining r) 4"
  note c = chunk_step [OF ok assms(3) _ n_def] length_chunk_bytes [of r "unat n"]
  have src: "\<And>slot. r_source r \<noteq> Frame slot" using False by blast
  have same: "draw_pixels io r = bind (engine_write io True (chunk_bytes r (unat n))) (\<lambda>_.
      if n = remaining r then finish else go_on (r\<lparr>r_pixel := r_pixel r + n\<rparr>))"
    using src by (cases "r_source r") (auto simp: draw_pixels_def n_def Let_def)
  show ?thesis
    unfolding same
  proof (rule course_bind_engine_write, goal_cases)
    case (3 x l)
    obtain rest where "draw_rest r = map Parameter (chunk_bytes r (unat n)) @ rest"
      using c(3,4) [OF src] by (cases "n = remaining r") auto
    from drawing_fails [OF assms(1,2) this] 3 show ?case by simp
  qed (use assms c src in \<open>auto intro!: course_finish course_go_on\<close>)
qed

lemma course_draw_once:
  assumes "engine_ok e" "en_phase e = Draw r"
  shows "course (draw_once io r) e (\<lambda>x e' n. iteration e x e' n \<and> drawing r (Suc 0) e x e')"
proof -
  have stages: "r_stage r = 0 \<or> r_stage r = 1 \<or> r_stage r = 2 \<or> r_stage r = 3 \<or> r_stage r = 4 \<or>
      \<not> unat (r_stage r) < 5"
    by (auto simp: word_unat_eq_iff)
  then show ?thesis
    by (elim disjE) (auto simp: draw_once_def window_parts_def to_be_def
        intro!: course_window [OF assms] course_draw_pixels [OF assms])
qed

lemma course_advance_once:
  assumes "engine_ok e"
  shows "course (advance_once io now) e (iteration e)"
proof (cases "en_phase e")
  case (Delay deadline ticks nxt)
  show ?thesis
  proof (cases deadline)
    case None
    with Delay assms show ?thesis
      by (auto simp: advance_once_def set_phase_def bind_assoc iteration_def engine_ok_def
          intro!: course_bind_self course_bind_set_self)
  next
    case (Some t)
    with Delay assms course_after [of e t ticks nxt] show ?thesis
      by (auto simp: advance_once_def iteration_def intro!: course_bind_self)
  qed
next
  case (Init index offset)
  with assms show ?thesis by (auto simp: advance_once_def intro!: course_bind_self course_init_once)
next
  case (Draw r)
  with assms show ?thesis
    by (auto simp: advance_once_def intro!: course_bind_self course_mono [OF course_draw_once])
qed (use assms in \<open>auto simp: advance_once_def iteration_def intro!: course_bind_self\<close>)

text \<open>The loop of \<open>advance\<close>: the engine keeps its invariant and transmits what is pending.\<close>

lemma course_advance:
  assumes "engine_ok e"
  shows "course (advance io now n) e (iteration e)"
  using assms
proof (induction n arbitrary: e)
  case 0
  then show ?case by (simp add: iteration_def)
next
  case (Suc n)
  show ?case
    unfolding advance.simps
  proof (rule course_bind [OF course_advance_once [OF Suc.prems]], goal_cases)
    case (1 stop e' l)
    then have "engine_ok e'" by (simp add: iteration_def)
    moreover have "iteration e (Inr ()) e' (l @ [])" using 1 by (simp add: iteration_def)
    ultimately show ?case
      using iteration_trans [OF 1] by (auto intro!: course_mono [OF Suc.IH])
  qed (auto simp: iteration_def)
qed

lemma course_draw_advance:
  assumes "engine_ok e" "en_phase e = Draw r"
  shows "course (advance io now n) e (\<lambda>x e' l. case x of Inl _ \<Rightarrow> True | Inr _ \<Rightarrow> continues r n e e')"
  using assms
proof (induction n arbitrary: e r)
  case 0
  then show ?case by (simp add: continues_0)
next
  case (Suc n)
  have "course (advance_once io now) e (\<lambda>x e' l. iteration e x e' l \<and> drawing r (Suc 0) e x e')"
    using Suc.prems by (auto simp: advance_once_def intro!: course_bind_self course_draw_once)
  then show ?case
    unfolding advance.simps
  proof (rule course_bind, goal_cases)
    case (1 stop e' l)
    show ?case
    proof (cases stop)
      case True
      with 1 show ?thesis by (simp add: drawing_def continues_def)
    next
      case False
      with 1 obtain r' where r': "e' = e\<lparr>en_phase := Draw r'\<rparr>" "todo r' + 1 \<le> todo r" "engine_ok e'"
        by (auto simp: drawing_def iteration_def)
      then have "course (advance io now n) e' (\<lambda>x e'' l. case x of Inl _ \<Rightarrow> True | Inr _ \<Rightarrow> continues r' n e' e'')"
        by (intro Suc.IH) auto
      then have "course (advance io now n) e' (\<lambda>x e'' l. case x of Inl _ \<Rightarrow> True | Inr _ \<Rightarrow> continues r (Suc n) e e'')"
        by (rule course_mono) (use continues_trans [of r' n e _ 1 r] r' in \<open>auto split: sum.splits\<close>)
      with False show ?thesis by simp
    qed
  qed auto
qed

end

section \<open>Task steps\<close>

datatype lcd_op = Submit u32 job | Step u32

text \<open>A submission that starts a drawing; a repetition of the last accepted one does not.\<close>

definition started :: "u32 \<Rightarrow> job \<Rightarrow> engine \<Rightarrow> bool" where
  "started sequence j e \<longleftrightarrow>
     fst (submit sequence j e) = Inr () \<and> sequence \<noteq> accepted_sequence (en_status e)"

definition job_wire :: "job \<Rightarrow> wire list" where
  "job_wire j = (case render_new j of Inl _ \<Rightarrow> [] | Inr r \<Rightarrow> draw_rest r)"

text \<open>
  A task that submits and steps; it returns the jobs whose drawing was started. \<open>served\<close> is what it
  achieves: what was pending and those jobs, in order and once each, are transmitted except for
  what is pending at the end, and after a fault a prefix of them has been transmitted.
\<close>

primrec engine_op :: "'h lcd_io \<Rightarrow> lcd_op \<Rightarrow> ('h, job list) lcd_prog" where
  "engine_op io (Submit sequence j) = bind self (\<lambda>e. bind (set_self (snd (submit sequence j e))) (\<lambda>_.
     ok (if started sequence j e then [j] else [])))"
| "engine_op io (Step now) = bind (engine_step io now) (\<lambda>_. ok [])"

primrec engine_ops :: "'h lcd_io \<Rightarrow> lcd_op list \<Rightarrow> ('h, job list) lcd_prog" where
  "engine_ops io [] = ok []"
| "engine_ops io (op # ops) = bind (engine_op io op) (\<lambda>js. bind (engine_ops io ops) (\<lambda>js'. ok (js @ js')))"

definition served :: "engine \<Rightarrow> job list \<Rightarrow> engine \<Rightarrow> lcd_event list \<Rightarrow> bool" where
  "served e js e' log \<longleftrightarrow> engine_ok e' \<and>
     (if en_phase e' = FaultPhase then faulty log else flawless log) \<and>
     (en_phase e = FaultPhase \<longrightarrow> e' = e \<and> js = [] \<and> log = []) \<and>
     (\<forall>dc. if en_phase e' = FaultPhase
       then prefix (transmit dc log) (pending (en_phase e) @ concat (map job_wire js))
       else pending (en_phase e) @ concat (map job_wire js) = transmit dc log @ pending (en_phase e'))"

lemma served_trans:
  assumes "served e js e' l" "served e' js' e'' l'"
  shows "served e (js @ js') e'' (l @ l')"
proof -
  let ?w = "\<lambda>js. concat (map job_wire js)"
  have "if en_phase e'' = FaultPhase then prefix (transmit dc (l @ l')) (pending (en_phase e) @ ?w (js @ js'))
      else pending (en_phase e) @ ?w (js @ js') = transmit dc (l @ l') @ pending (en_phase e'')" for dc
  proof -
    have 1: "if en_phase e' = FaultPhase then prefix (transmit dc l) (pending (en_phase e) @ ?w js)
        else pending (en_phase e) @ ?w js = transmit dc l @ pending (en_phase e')"
      using assms(1) unfolding served_def by blast
    have 2: "if en_phase e'' = FaultPhase
        then prefix (transmit (dc_level dc l) l') (pending (en_phase e') @ ?w js')
        else pending (en_phase e') @ ?w js' = transmit (dc_level dc l) l' @ pending (en_phase e'')"
      using assms(2) unfolding served_def by blast
    show ?thesis
    proof (cases "en_phase e' = FaultPhase")
      case True
      then have "e'' = e'" "js' = []" using assms(2) by (simp_all add: served_def)
      with 1 2 True show ?thesis by (simp add: transmit_append)
    next
      case False
      with 1 have 3: "pending (en_phase e) @ ?w (js @ js') = transmit dc l @ pending (en_phase e') @ ?w js'"
        by (metis append_assoc concat_append map_append)
      show ?thesis unfolding 3 using 2 by (simp add: transmit_append)
    qed
  qed
  moreover have "if en_phase e'' = FaultPhase then faulty (l @ l') else flawless (l @ l')"
    using assms by (cases "en_phase e' = FaultPhase") (auto simp: served_def intro: faulty_append)
  ultimately show ?thesis using assms unfolding served_def by auto
qed

text \<open>The guards of \<open>submit\<close> past which it starts a drawing.\<close>

definition admits :: "u32 \<Rightarrow> engine \<Rightarrow> bool" where
  "admits sequence e \<longleftrightarrow> sequence \<noteq> 0 \<and> sequence \<noteq> accepted_sequence (en_status e) \<and>
     ls_state (en_status e) = Ready"

lemma submit_admitted:
  assumes "admits sequence e"
  shows "submit sequence j e = (case render_new j of Inl x \<Rightarrow> (Inl x, e)
    | Inr r \<Rightarrow> (Inr (), e\<lparr>last_job := Some j, en_phase := Draw r,
        en_status := (en_status e)\<lparr>ls_state := Busy, accepted_sequence := sequence\<rparr>\<rparr>))"
  using assms by (simp add: admits_def submit_def Let_def)

lemma submit_refused:
  assumes "\<not> admits sequence e"
  shows "snd (submit sequence j e) = e" "\<not> started sequence j e"
proof -
  from assms consider "ls_state (en_status e) = Fault" | "sequence = 0" | "sequence = accepted_sequence (en_status e)"
    | "ls_state (en_status e) = Initializing" | "ls_state (en_status e) = Busy"
    using lcd_state.exhaust unfolding admits_def by blast
  then show "snd (submit sequence j e) = e" "\<not> started sequence j e"
    by (cases, simp_all add: submit_def started_def Let_def)+
qed

lemma submit_started:
  assumes "engine_ok e" "started sequence j e"
  obtains r where "en_phase e = ReadyPhase" "render_new j = Inr r" "en_phase (snd (submit sequence j e)) = Draw r"
    "accepted_sequence (en_status (snd (submit sequence j e))) = sequence"
proof -
  have a: "admits sequence e" using submit_refused(2) assms(2) by blast
  then obtain r where r: "render_new j = Inr r"
    using assms(2) by (cases "render_new j") (simp_all add: started_def submit_admitted)
  have "en_phase e = ReadyPhase"
    using assms(1) a by (cases "en_phase e") (simp_all add: engine_ok_def admits_def)
  with a r show thesis by (intro that [of r]) (simp_all add: submit_admitted)
qed

lemma submit_ignored:
  assumes "\<not> started sequence j e"
  shows "snd (submit sequence j e) = e"
proof (cases "admits sequence e \<and> (\<exists>r. render_new j = Inr r)")
  case True
  then have "fst (submit sequence j e) = Inr ()" "sequence \<noteq> accepted_sequence (en_status e)"
    by (auto simp: submit_admitted admits_def)
  with assms show ?thesis by (simp add: started_def)
next
  case False
  then show ?thesis
    by (cases "admits sequence e"; cases "render_new j") (auto simp: submit_refused submit_admitted)
qed

lemma submit_served:
  assumes "engine_ok e"
  shows "served e (if started sequence j e then [j] else []) (snd (submit sequence j e)) []"
proof (cases "started sequence j e")
  case True
  then obtain r where "en_phase e = ReadyPhase" "render_new j = Inr r" "en_phase (snd (submit sequence j e)) = Draw r"
    by (rule submit_started [OF assms])
  with submit_ok [OF assms, of sequence j] True show ?thesis by (simp add: served_def job_wire_def)
next
  case False
  with assms submit_ignored [OF False] show ?thesis by (simp add: served_def)
qed

primrec engine_steps :: "'h lcd_io \<Rightarrow> u32 list \<Rightarrow> ('h, unit) lcd_prog" where
  "engine_steps io [] = ok ()"
| "engine_steps io (now # nows) = bind (engine_step io now) (\<lambda>_. engine_steps io nows)"

text \<open>How far a drawing \<open>r\<close> of engine \<open>e\<close> got with a budget of \<open>k\<close> iterations.\<close>

definition drawn :: "render \<Rightarrow> nat \<Rightarrow> engine \<Rightarrow> engine \<Rightarrow> bool" where
  "drawn r k e e' \<longleftrightarrow> en_phase e' = FaultPhase \<or> continues r k e e'"

lemma advance_idle: "en_phase e \<in> {ReadyPhase, FaultPhase} \<Longrightarrow>
    advance io now n \<lparr>m_hw = (e, h), m_log = log\<rparr> = Some (Inr (), \<lparr>m_hw = (e, h), m_log = log\<rparr>)"
  by (cases n) (auto simp: advance_once_def bind_def self_def ok_def)

lemma step_idle: "en_phase e \<in> {ReadyPhase, FaultPhase} \<Longrightarrow>
    engine_step io now \<lparr>m_hw = (e, h), m_log = log\<rparr> = Some (Inr (), \<lparr>m_hw = (e, h), m_log = log\<rparr>)"
  by (simp add: engine_step_def attempt_def bind_def ok_def advance_idle)

lemma steps_idle: "en_phase e \<in> {ReadyPhase, FaultPhase} \<Longrightarrow>
    engine_steps io nows \<lparr>m_hw = (e, h), m_log = log\<rparr> = Some (Inr (), \<lparr>m_hw = (e, h), m_log = log\<rparr>)"
  by (induction nows) (simp_all add: bind_def ok_def step_idle)

lemma course_steps_idle:
  "en_phase e \<in> {ReadyPhase, FaultPhase} \<Longrightarrow> course (engine_steps io nows) e (\<lambda>x e' l. x = Inr () \<and> e' = e \<and> l = [])"
  by (simp add: course_def steps_idle)

context lcd_bus
begin

lemma course_engine_step:
  assumes "engine_ok e"
  shows "course (engine_step io now) e (\<lambda>x e' l. x = Inr () \<and> served e [] e' l)"
proof (cases "en_phase e = FaultPhase")
  case True
  with assms show ?thesis by (auto simp: course_def step_idle served_def)
next
  case False
  show ?thesis
    unfolding engine_step_def
  proof (rule course_bind_attempt [OF course_advance [OF assms]], goal_cases)
    case (1 r e1 l)
    show ?case
    proof (cases r)
      case (Inl x)
      with 1 False show ?thesis
        by (auto simp: served_def iteration_def engine_ok_def course_def bind_def self_def set_self_def)
    next
      case (Inr u)
      with 1 have it: "flawless l" "engine_ok e1"
        "\<forall>dc. pending (en_phase e) = transmit dc l @ pending (en_phase e1)"
        by (auto simp: iteration_def)
      have "if en_phase e1 = FaultPhase then prefix (transmit dc l) (pending (en_phase e))
          else pending (en_phase e) = transmit dc l @ pending (en_phase e1)" for dc
        using it(3) [rule_format, of dc] by simp
      with it False Inr show ?thesis by (simp add: served_def flawless_faulty)
    qed
  qed
qed

lemma course_engine_steps:
  assumes "engine_ok e"
  shows "course (engine_steps io nows) e (\<lambda>x e' l. x = Inr () \<and> served e [] e' l)"
  using assms
proof (induction nows arbitrary: e)
  case Nil
  then show ?case by (simp add: served_def)
next
  case (Cons now nows)
  show ?case
    unfolding engine_steps.simps
  proof (rule course_bind [OF course_engine_step [OF Cons.prems]], goal_cases)
    case (1 u e' l)
    then have st: "served e [] e' l" "engine_ok e'" by (auto simp: served_def)
    from served_trans [OF st(1)] show ?case by (intro course_mono [OF Cons.IH [OF st(2)]]) auto
  qed auto
qed

lemma course_draw_step:
  assumes "engine_ok e" "en_phase e = Draw r"
  shows "course (engine_step io now) e (\<lambda>x e' l. x = Inr () \<and> drawn r MAX_CHUNKS e e')"
  unfolding engine_step_def
proof (rule course_bind_attempt [OF course_draw_advance [OF assms]], goal_cases)
  case (1 x e' l)
  then show ?case by (cases x) (auto simp: drawn_def intro!: course_bind_self)
qed

lemma course_draw_steps:
  assumes "engine_ok e" "en_phase e = Draw r"
  shows "course (engine_steps io nows) e (\<lambda>x e' l. x = Inr () \<and> drawn r (MAX_CHUNKS * length nows) e e')"
  using assms
proof (induction nows arbitrary: e r)
  case Nil
  then show ?case by (simp add: drawn_def continues_0)
next
  case (Cons now nows)
  show ?case
    unfolding engine_steps.simps
  proof (rule course_bind [OF course_conj [OF course_engine_step [OF Cons.prems(1)] course_draw_step [OF Cons.prems]]],
      goal_cases)
    case (1 u e' l)
    then have ok: "engine_ok e'" by (simp add: served_def)
    from 1 have "drawn r MAX_CHUNKS e e'" by simp
    then consider "en_phase e' = FaultPhase" | "e' = complete e"
      | r' where "e' = e\<lparr>en_phase := Draw r'\<rparr>" "todo r' + MAX_CHUNKS \<le> todo r"
      by (auto simp: drawn_def continues_def)
    then show ?case
    proof cases
      case 3
      then have "en_phase e' = Draw r'" by simp
      from Cons.IH [OF ok this] show ?thesis
        by (rule course_mono) (use continues_trans [of r' _ e _ MAX_CHUNKS r] 3 in \<open>auto simp: drawn_def\<close>)
    qed (auto simp: drawn_def continues_def complete_def intro!: course_mono [OF course_steps_idle])
  qed auto
qed

lemma course_engine_op:
  assumes "engine_ok e"
  shows "course (engine_op io op) e (\<lambda>x e' l. \<exists>js. x = Inr js \<and> served e js e' l)"
proof (cases op)
  case (Submit sequence j)
  with submit_served [OF assms, of sequence j] show ?thesis
    by (auto intro!: course_bind_self course_bind_set_self)
next
  case (Step now)
  show ?thesis
    unfolding Step engine_op.simps
    by (rule course_bind [OF course_engine_step [OF assms]]) auto
qed

lemma course_engine_ops:
  assumes "engine_ok e"
  shows "course (engine_ops io ops) e (\<lambda>x e' l. \<exists>js. x = Inr js \<and> served e js e' l)"
  using assms
proof (induction ops arbitrary: e)
  case Nil
  then show ?case by (simp add: served_def)
next
  case (Cons op ops)
  show ?case
    unfolding engine_ops.simps
  proof (rule course_bind [OF course_engine_op [OF Cons.prems]], goal_cases)
    case (1 js e' l)
    then have st: "served e js e' l" "engine_ok e'" by (auto simp: served_def)
    show ?case
    proof (rule course_bind [OF Cons.IH [OF st(2)]], goal_cases)
      case (1 js' e'' l')
      then show ?case using served_trans [OF st(1)] by auto
    qed auto
  qed auto
qed

end

lemma todo_bound:
  assumes "render_ok r"
  shows "todo r \<le> MAX_CHUNKS * (case r_source r of Frame _ \<Rightarrow> 1 | _ \<Rightarrow> 451)"
  using area_bound(1) [OF assms] by (auto simp: todo_def MAX_CHUNKS_def split: pixels.split)

lemma drawn_all:
  assumes "drawn r k e e'" "todo r \<le> k"
  shows "en_phase e' = FaultPhase \<or> e' = complete e"
proof -
  have False if "render_ok r'" "todo r' + k \<le> todo r" for r'
    using that assms(2) todo_pos [of r'] by simp
  with assms(1) show ?thesis by (auto simp: drawn_def continues_def)
qed

section \<open>Properties\<close>

text \<open>C18: for every bus that answers legal calls, with whatever results, and every sequence of submissions
  and task steps, the engine never panics and never makes an illegal bus call, keeps its invariant,
  and transmits exactly what was pending followed by the reference bytes of each job it started, in
  order and once each, less what is still pending; after a fault it has transmitted a prefix of
  them and transmits nothing more.\<close>

theorem lcd_engine_exact:
  assumes "\<And>c h. legal c \<Longrightarrow> io_do io c h \<noteq> None" "engine_ok (fst (m_hw m))"
  shows "\<exists>js m' new. engine_ops io ops m = Some (Inr js, m') \<and> m_log m' = m_log m @ new \<and>
    served (fst (m_hw m)) js (fst (m_hw m')) new"
proof -
  from assms(1) have "lcd_bus io" by unfold_locales
  from lcd_bus.course_engine_ops [OF this assms(2), of ops] show ?thesis
    by (rule course_runE) auto
qed

definition quiet_io :: "unit lcd_io" where
  "quiet_io = \<lparr>li_dc = (\<lambda>_ h. Some (Inr (), h)), li_reset = (\<lambda>_ h. Some (Inr (), h)),
     li_write = (\<lambda>_ h. Some (Inr (), h)), li_frame_stream = (\<lambda>_ _ _ h. Some (Inr (), h))\<rparr>"

lemma quiet_io_total: "io_do quiet_io c h \<noteq> None"
  by (cases c) (simp_all add: quiet_io_def)

theorem lcd_engine_exact_witness:
  "\<exists>js m' new. engine_ops quiet_io [Step 7, Submit 1 (Clear 0), Step 17] \<lparr>m_hw = (engine_new, ()), m_log = []\<rparr> =
     Some (Inr js, m') \<and> m_log m' = new \<and> served engine_new js (fst (m_hw m')) new"
  using lcd_engine_exact [of quiet_io "\<lparr>m_hw = (engine_new, ()), m_log = []\<rparr>"
      "[Step 7, Submit 1 (Clear 0), Step 17]"] quiet_io_total engine_new_ok by simp

text \<open>C19: a job that is started is finished within a fixed number of task steps, one for a frame and 451
  for any other: the engine is then ready with the job's sequence completed and exactly the
  reference bytes of the job transmitted, or the bus has failed and it is in the fault state.\<close>

theorem lcd_job_completes:
  assumes "\<And>c h. legal c \<Longrightarrow> io_do io c h \<noteq> None" "engine_ok e" "started sequence j e"
    "(case j of FrameJob _ _ _ _ _ \<Rightarrow> 1 | _ \<Rightarrow> 451) \<le> length nows"
  shows "\<exists>e' h' log. bind (engine_op io (Submit sequence j)) (\<lambda>_. engine_steps io nows) \<lparr>m_hw = (e, h), m_log = []\<rparr> =
      Some (Inr (), \<lparr>m_hw = (e', h'), m_log = log\<rparr>) \<and>
    (ls_state (en_status e') = Fault \<and> ls_error (en_status e') \<noteq> None \<or>
     ls_state (en_status e') = Ready \<and> ls_error (en_status e') = None \<and>
     completed_sequence (en_status e') = sequence \<and> (\<forall>dc. transmit dc log = job_wire j))"
proof -
  from assms(1) have bus: "lcd_bus io" by unfold_locales
  define e1 where "e1 = snd (submit sequence j e)"
  obtain r where r: "render_new j = Inr r" and e1: "en_phase e1 = Draw r" "engine_ok e1"
    "accepted_sequence (en_status e1) = sequence"
    using submit_started [OF assms(2,3)] submit_ok [OF assms(2), of sequence j] unfolding e1_def by metis
  have "todo r \<le> MAX_CHUNKS * length nows"
  proof -
    have "render_ok r" using e1 by (simp add: engine_ok_def)
    moreover have "(case r_source r of Frame _ \<Rightarrow> 1 | _ \<Rightarrow> 451) \<le> length nows"
      using assms(4) r by (cases j) (auto simp: render_new_def render_area_def split: if_splits)
    ultimately show ?thesis using todo_bound [of r] by (meson le_trans mult_le_mono2)
  qed
  then have ended: "en_phase e' = FaultPhase \<or> e' = complete e1"
    if "drawn r (MAX_CHUNKS * length nows) e1 e'" for e'
    using drawn_all [OF that] by simp
  have "course (engine_steps io nows) e1 (\<lambda>x e' l. x = Inr () \<and> served e1 [] e' l \<and>
      (en_phase e' = FaultPhase \<or> e' = complete e1))"
    by (rule course_mono [OF course_conj [OF lcd_bus.course_engine_steps [OF bus e1(2), of nows]
          lcd_bus.course_draw_steps [OF bus e1(2,1), of nows]]]) (use ended in auto)
  then obtain x e' h' log where run: "engine_steps io nows \<lparr>m_hw = (e1, h), m_log = []\<rparr> =
      Some (Inr (), \<lparr>m_hw = (e', h'), m_log = log\<rparr>)" and sv: "served e1 [] e' log"
      and fin: "en_phase e' = FaultPhase \<or> e' = complete e1"
    unfolding course_def by fastforce
  from run have "bind (engine_op io (Submit sequence j)) (\<lambda>_. engine_steps io nows) \<lparr>m_hw = (e, h), m_log = []\<rparr> =
      Some (Inr (), \<lparr>m_hw = (e', h'), m_log = log\<rparr>)"
    by (simp add: bind_def self_def set_self_def ok_def e1_def)
  moreover have "engine_ok e'" using sv by (simp add: served_def)
  ultimately show ?thesis
    using fin sv r e1 by (auto simp: engine_ok_def complete_def served_def job_wire_def)
qed

definition ready_engine :: engine where
  "ready_engine = \<lparr>en_phase = ReadyPhase,
     en_status = \<lparr>ls_state = Ready, accepted_sequence = 0, completed_sequence = 0, ls_error = None\<rparr>, last_job = None\<rparr>"

lemma ready_engine_ok: "engine_ok ready_engine"
  by (simp add: engine_ok_def ready_engine_def)

lemma ready_engine_starts: "started 5 (FrameJob 1 10 20 30 40) ready_engine"
  by (simp add: started_def submit_def ready_engine_def render_new_def render_area_def WIDTH_def HEIGHT_def)

theorem lcd_job_completes_witness:
  "\<exists>e' h' log. bind (engine_op quiet_io (Submit 5 (FrameJob 1 10 20 30 40))) (\<lambda>_. engine_steps quiet_io [3])
      \<lparr>m_hw = (ready_engine, ()), m_log = []\<rparr> = Some (Inr (), \<lparr>m_hw = (e', h'), m_log = log\<rparr>) \<and>
    (ls_state (en_status e') = Fault \<and> ls_error (en_status e') \<noteq> None \<or>
     ls_state (en_status e') = Ready \<and> ls_error (en_status e') = None \<and>
     completed_sequence (en_status e') = 5 \<and> (\<forall>dc. transmit dc log = job_wire (FrameJob 1 10 20 30 40)))"
  using quiet_io_total ready_engine_ok ready_engine_starts by (intro lcd_job_completes) simp_all

end
