(* ===== verification/Gpio.thy ===== *)
theory Gpio
  imports Pac
begin

text \<open>
  The whole-bank GPIO driver (firmware/sg2002-c906l/pac/src/gpio.rs): the register block, pins,
  every operation of \<open>Bank\<close>, \<open>OutputGroup\<close>, \<open>Input\<close> and \<open>Output\<close>. A pin handle borrows
  the bank, so its methods are operations of the bank with the pin as an argument; an output
  group owns the bank together with its \<open>mask\<close>, which is an argument here.

  Shown: every operation of a pin changes only that pin's bit of the registers it writes, and an
  interrupt is configured while masked; a group of outputs on registers that hold what they were
  given implements independent output lines (a refinement), refuses foreign lines without any
  access and never disturbs them.
\<close>

section \<open>Registers\<close>

datatype gpio_register = Data | Direction | Enable | Mask | Edge | Polarity | Status | Raw_Status
  | Debounce | Eoi | Input | Sync

fun gpio_offset :: "gpio_register \<Rightarrow> nat" where
  "gpio_offset Data = 0x00"
| "gpio_offset Direction = 0x04"
| "gpio_offset Enable = 0x30"
| "gpio_offset Mask = 0x34"
| "gpio_offset Edge = 0x38"
| "gpio_offset Polarity = 0x3c"
| "gpio_offset Status = 0x40"
| "gpio_offset Raw_Status = 0x44"
| "gpio_offset Debounce = 0x48"
| "gpio_offset Eoi = 0x4c"
| "gpio_offset Input = 0x50"
| "gpio_offset Sync = 0x60"

lemma gpio_offset_inject [simp]: "gpio_offset r = gpio_offset s \<longleftrightarrow> r = s"
  by (cases r; cases s) simp_all

type_synonym ('h, 'x, 'a) gpio_prog = "(unit, 'h, gpio_register, 'x, 'a) method_prog"

definition gpio_read :: "'h pac_hw \<Rightarrow> gpio_register \<Rightarrow> ('h, 'x, u32) gpio_prog" where
  "gpio_read hw r = ordered_read gpio_offset hw r"

definition gpio_write :: "'h pac_hw \<Rightarrow> gpio_register \<Rightarrow> u32 \<Rightarrow> ('h, 'x, unit) gpio_prog" where
  "gpio_write hw r v = ordered_write gpio_offset hw r v"

datatype pin = Pin u8

definition pin_new :: "u8 \<Rightarrow> pin option" where
  "pin_new index = (if index < 32 then Some (Pin index) else None)"

fun pin_mask :: "pin \<Rightarrow> u32" where
  "pin_mask (Pin index) = push_bit (unat index) 1"

datatype trigger = Low | High | Falling | Rising

section \<open>The bank\<close>

definition outputs :: "'h pac_hw \<Rightarrow> u32 \<Rightarrow> u32 \<Rightarrow> ('h, 'x, unit) gpio_prog" where
  "outputs hw m initial =
     bind (gpio_read hw Enable) (\<lambda>v. let enabled = v AND NOT m in
     bind (gpio_write hw Enable enabled) (\<lambda>_.
     bind (gpio_read hw Data) (\<lambda>data.
     bind (gpio_write hw Data ((data AND NOT m) OR (initial AND m))) (\<lambda>_.
     bind (gpio_read hw Direction) (\<lambda>v. let direction = v OR m in
     gpio_write hw Direction direction)))))"

definition mask_interrupts :: "'h pac_hw \<Rightarrow> ('h, 'x, unit) gpio_prog" where
  "mask_interrupts hw = bind (gpio_write hw Mask (- 1)) (\<lambda>_. gpio_write hw Enable 0)"

definition bank_input :: "'h pac_hw \<Rightarrow> pin \<Rightarrow> ('h, 'x, unit) gpio_prog" where
  "bank_input hw pin =
     bind (gpio_read hw Direction) (\<lambda>v. gpio_write hw Direction (v AND NOT (pin_mask pin)))"

definition bank_set :: "'h pac_hw \<Rightarrow> pin \<Rightarrow> bool \<Rightarrow> ('h, 'x, unit) gpio_prog" where
  "bank_set hw pin high =
     bind (gpio_read hw Data) (\<lambda>old.
     gpio_write hw Data (if high then old OR pin_mask pin else old AND NOT (pin_mask pin)))"

definition bank_output :: "'h pac_hw \<Rightarrow> pin \<Rightarrow> bool \<Rightarrow> ('h, 'x, unit) gpio_prog" where
  "bank_output hw pin high =
     bind (gpio_read hw Enable) (\<lambda>v. let enabled = v AND NOT (pin_mask pin) in
     bind (gpio_write hw Enable enabled) (\<lambda>_.
     bind (bank_set hw pin high) (\<lambda>_.
     bind (gpio_read hw Direction) (\<lambda>v. let direction = v OR pin_mask pin in
     gpio_write hw Direction direction))))"

definition pending :: "'h pac_hw \<Rightarrow> ('h, 'x, u32) gpio_prog" where
  "pending hw = gpio_read hw Status"

definition acknowledge :: "'h pac_hw \<Rightarrow> u32 \<Rightarrow> ('h, 'x, unit) gpio_prog" where
  "acknowledge hw pins = gpio_write hw Eoi pins"

section \<open>Output groups\<close>

datatype outside_output_group = OutsideOutputGroup

definition group_get :: "'h pac_hw \<Rightarrow> u32 \<Rightarrow> u32 \<Rightarrow> ('h, outside_output_group, u32) gpio_prog" where
  "group_get hw self_mask m =
     (if m AND NOT self_mask \<noteq> 0 then fail OutsideOutputGroup
      else bind (gpio_read hw Data) (\<lambda>v. ok (v AND m)))"

definition group_set :: "'h pac_hw \<Rightarrow> u32 \<Rightarrow> u32 \<Rightarrow> u32 \<Rightarrow> ('h, outside_output_group, unit) gpio_prog" where
  "group_set hw self_mask m values =
     (if m AND NOT self_mask \<noteq> 0 then fail OutsideOutputGroup
      else if m = 0 then ok ()
      else bind (gpio_read hw Data) (\<lambda>old.
        gpio_write hw Data ((old AND NOT m) OR (values AND m))))"

section \<open>Pins\<close>

definition enable_interrupt :: "'h pac_hw \<Rightarrow> pin \<Rightarrow> trigger \<Rightarrow> bool \<Rightarrow> ('h, 'x, unit) gpio_prog" where
  "enable_interrupt hw pin trigger debounce =
     (let bit = pin_mask pin in
      bind (gpio_read hw Mask) (\<lambda>m.
      bind (gpio_write hw Mask (m OR bit)) (\<lambda>_.
      bind (gpio_read hw Edge) (\<lambda>v. let edge = v AND NOT bit in
      bind (gpio_write hw Edge (edge OR (if trigger \<in> {Rising, Falling} then bit else 0))) (\<lambda>_.
      bind (gpio_read hw Polarity) (\<lambda>v. let polarity = v AND NOT bit in
      bind (gpio_write hw Polarity (polarity OR (if trigger \<in> {High, Rising} then bit else 0))) (\<lambda>_.
      bind (gpio_read hw Debounce) (\<lambda>v. let old = v AND NOT bit in
      bind (gpio_write hw Debounce (old OR (if debounce then bit else 0))) (\<lambda>_.
      bind (gpio_write hw Eoi bit) (\<lambda>_.
      bind (gpio_read hw Enable) (\<lambda>v. let enabled = v OR bit in
      bind (gpio_write hw Enable enabled) (\<lambda>_.
      gpio_write hw Mask (m AND NOT bit)))))))))))))"

definition disable_interrupt :: "'h pac_hw \<Rightarrow> pin \<Rightarrow> ('h, 'x, unit) gpio_prog" where
  "disable_interrupt hw pin =
     bind (gpio_read hw Enable) (\<lambda>v. gpio_write hw Enable (v AND NOT (pin_mask pin)))"

definition is_high :: "'h pac_hw \<Rightarrow> pin \<Rightarrow> ('h, 'x, bool) gpio_prog" where
  "is_high hw pin = bind (gpio_read hw Input) (\<lambda>v. ok (v AND pin_mask pin \<noteq> 0))"

definition is_low :: "'h pac_hw \<Rightarrow> pin \<Rightarrow> ('h, 'x, bool) gpio_prog" where
  "is_low hw pin = bind (is_high hw pin) (\<lambda>high. ok (\<not> high))"

definition set_low :: "'h pac_hw \<Rightarrow> pin \<Rightarrow> ('h, 'x, unit) gpio_prog" where
  "set_low hw pin = bank_set hw pin False"

definition set_high :: "'h pac_hw \<Rightarrow> pin \<Rightarrow> ('h, 'x, unit) gpio_prog" where
  "set_high hw pin = bank_set hw pin True"

definition is_set_high :: "'h pac_hw \<Rightarrow> pin \<Rightarrow> ('h, 'x, bool) gpio_prog" where
  "is_set_high hw pin = bind (gpio_read hw Data) (\<lambda>v. ok (v AND pin_mask pin \<noteq> 0))"

definition is_set_low :: "'h pac_hw \<Rightarrow> pin \<Rightarrow> ('h, 'x, bool) gpio_prog" where
  "is_set_low hw pin = bind (is_set_high hw pin) (\<lambda>high. ok (\<not> high))"

lemmas gpio_defs = gpio_read_def gpio_write_def bank_input_def bank_set_def bank_output_def
  enable_interrupt_def disable_interrupt_def set_low_def set_high_def Let_def


section \<open>Pins are independent\<close>

text \<open>\<open>within b old new\<close>: the two register values differ at most in the bits of \<open>b\<close>.\<close>

definition within :: "u32 \<Rightarrow> u32 \<Rightarrow> u32 \<Rightarrow> bool" where
  "within b old new \<longleftrightarrow> new AND NOT b = old AND NOT b"

lemma within_simps [simp]:
  "within b v (v AND NOT b)" "within b v (v OR b)"
  "within b v ((v AND NOT b) OR (w AND b))" "within b v ((v AND NOT b) OR b)" "within b v v"
  by (auto simp: within_def bit_eq_iff bit_simps)

text \<open>
  A log that confines its writes to the bits \<open>b\<close>: a store to the end-of-interrupt register
  acknowledges only \<open>b\<close>; any other store gives a register a value within \<open>b\<close> of one that was
  loaded from it before in this log. The end-of-interrupt register is never read.
\<close>

fun confined :: "u32 \<Rightarrow> (gpio_register \<times> u32) list \<Rightarrow> gpio_register pac_event list \<Rightarrow> bool" where
  "confined b seen [] = True"
| "confined b seen (Load r v # log) = (r \<noteq> Eoi \<and> confined b ((r, v) # seen) log)"
| "confined b seen (Store r v # log) =
     ((if r = Eoi then v = b else \<exists>w. (r, w) \<in> set seen \<and> within b w v) \<and> confined b seen log)"
| "confined b seen (_ # log) = False"

text \<open>The operations of a pin handle that write registers.\<close>

datatype pin_op = ToInput | ToOutput bool | Drive bool | EnableInterrupt trigger bool | DisableInterrupt

fun pin_do :: "'h pac_hw \<Rightarrow> pin \<Rightarrow> pin_op \<Rightarrow> ('h, 'x, unit) gpio_prog" where
  "pin_do hw pin ToInput = bank_input hw pin"
| "pin_do hw pin (ToOutput high) = bank_output hw pin high"
| "pin_do hw pin (Drive high) = (if high then set_high hw pin else set_low hw pin)"
| "pin_do hw pin (EnableInterrupt t debounce) = enable_interrupt hw pin t debounce"
| "pin_do hw pin DisableInterrupt = disable_interrupt hw pin"

text \<open>The interrupt is masked before its registers change; its stale event is acknowledged before it
  is enabled, and unmasking comes last.\<close>

definition masked_setup :: "u32 \<Rightarrow> gpio_register pac_event list \<Rightarrow> bool" where
  "masked_setup b log \<longleftrightarrow> (\<exists>old setup enabled.
     log = [Load Mask old, Store Mask (old OR b)] @ setup @
       [Store Eoi b, Load Enable enabled, Store Enable (enabled OR b), Store Mask (old AND NOT b)] \<and>
     (\<forall>v. Store Mask v \<notin> set setup \<and> Store Enable v \<notin> set setup))"

lemma masked_setupI:
  "log = [Load Mask old, Store Mask (old OR b), e1, e2, e3, e4, e5, e6,
      Store Eoi b, Load Enable enabled, Store Enable (enabled OR b), Store Mask (old AND NOT b)] \<Longrightarrow>
   (\<And>v. Store Mask v \<notin> {e1, e2, e3, e4, e5, e6} \<and> Store Enable v \<notin> {e1, e2, e3, e4, e5, e6}) \<Longrightarrow>
   masked_setup b log"
  unfolding masked_setup_def
  by (intro exI [of _ old] exI [of _ "[e1, e2, e3, e4, e5, e6]"] exI [of _ enabled]) simp

text \<open>What each operation does in order: an output's latch is written before its direction.\<close>

fun op_spec :: "pin_op \<Rightarrow> u32 \<Rightarrow> gpio_register pac_event list \<Rightarrow> bool" where
  "op_spec (EnableInterrupt t debounce) b log = masked_setup b log"
| "op_spec (ToOutput high) b log = (\<exists>e d v. log =
     [Load Enable e, Store Enable (e AND NOT b), Load Data d,
      Store Data (if high then d OR b else d AND NOT b), Load Direction v, Store Direction (v OR b)])"
| "op_spec _ b log = (length log = 2)"

lemma confined_pin:
  "course (pin_do hw pin op) d (\<lambda>r d' log. r = Inr () \<and> confined (pin_mask pin) [] log \<and>
     op_spec op (pin_mask pin) log)"
proof (cases op)
  case (EnableInterrupt t debounce)
  show ?thesis
    unfolding EnableInterrupt pin_do.simps gpio_defs op_spec.simps
    by (intro course_steps course_write conjI) (simp_all add: masked_setupI)
next
  case (ToOutput high)
  show ?thesis
    unfolding ToOutput pin_do.simps gpio_defs bind_assoc op_spec.simps
    by (intro course_steps course_write conjI) auto
qed (auto simp: gpio_defs intro!: course_steps course_write)

section \<open>Output groups refine sets of lines\<close>

text \<open>The lines a register value or a mask names.\<close>

definition bits :: "u32 \<Rightarrow> nat set" where
  "bits w = {i. bit w i}"

lemma bits_lt: "i \<in> bits w \<Longrightarrow> i < 32"
  using bit_imp_le_length [of w i] by (simp add: bits_def)

lemma bits_and [simp]: "bits (v AND w) = bits v \<inter> bits w"
  by (auto simp: bits_def bit_simps)

lemma bits_merge [simp]: "bits ((v AND NOT m) OR (w AND m)) = (bits v - bits m) \<union> (bits w \<inter> bits m)"
  using bits_lt [of _ v] by (auto simp: bits_def bit_simps)

lemma bits_subset: "v AND NOT w = 0 \<longleftrightarrow> bits v \<subseteq> bits w"
  using bits_lt [of _ v] by (auto simp: bits_def bit_eq_iff bit_simps)

datatype 'm group_op = Get 'm | Set 'm 'm

fun group_do :: "'h pac_hw \<Rightarrow> u32 \<Rightarrow> u32 group_op \<Rightarrow> ('h, outside_output_group, u32 option) gpio_prog" where
  "group_do hw self_mask (Get m) = bind (group_get hw self_mask m) (\<lambda>v. ok (Some v))"
| "group_do hw self_mask (Set m vs) = bind (group_set hw self_mask m vs) (\<lambda>_. ok None)"

primrec group_run :: "'h pac_hw \<Rightarrow> u32 \<Rightarrow> u32 group_op list \<Rightarrow>
    ('h, 'x, (outside_output_group + u32 option) list) gpio_prog" where
  "group_run hw self_mask [] = ok []"
| "group_run hw self_mask (op # ops) =
     bind (attempt (group_do hw self_mask op)) (\<lambda>r.
     bind (group_run hw self_mask ops) (\<lambda>rs. ok (r # rs)))"

text \<open>The abstract group: \<open>lines\<close> are the lines that are high, \<open>G\<close> the lines of the group.\<close>

fun lines_do :: "nat set \<Rightarrow> nat set group_op \<Rightarrow> nat set \<Rightarrow>
    (outside_output_group + nat set option) \<times> nat set" where
  "lines_do G (Get M) lines =
     (if M \<subseteq> G then (Inr (Some (lines \<inter> M)), lines) else (Inl OutsideOutputGroup, lines))"
| "lines_do G (Set M V) lines =
     (if M \<subseteq> G then (Inr None, (lines - M) \<union> (V \<inter> M)) else (Inl OutsideOutputGroup, lines))"

primrec lines_run :: "nat set \<Rightarrow> nat set group_op list \<Rightarrow> nat set \<Rightarrow>
    (outside_output_group + nat set option) list \<times> nat set" where
  "lines_run G [] lines = ([], lines)"
| "lines_run G (op # ops) lines =
     (let (r, lines') = lines_do G op lines; (rs, lines'') = lines_run G ops lines' in (r # rs, lines''))"

abbreviation result_lines :: "outside_output_group + u32 option \<Rightarrow> outside_output_group + nat set option" where
  "result_lines \<equiv> map_sum (\<lambda>x. x) (map_option bits)"

lemmas latch_defs = gpio_read_def gpio_write_def ordered_read_def ordered_write_def sense_def drive_def
  latch_hw_def bind_def ok_def fail_def

lemma group_do_refines:
  "\<exists>r v log'. group_do latch_hw self_mask op \<lparr>m_hw = ((), h), m_log = log\<rparr> =
     Some (r, \<lparr>m_hw = ((), h(0 := v)), m_log = log'\<rparr>) \<and>
     (result_lines r, bits v) = lines_do (bits self_mask) (map_group_op bits op) (bits (h 0))"
proof (cases op)
  case (Get m)
  show ?thesis
    unfolding Get
    by (cases "bits m \<subseteq> bits self_mask")
      (auto simp: group_get_def bits_subset latch_defs intro: fun_upd_triv [symmetric])
next
  case (Set m vs)
  show ?thesis
  proof (cases "bits m \<subseteq> bits self_mask \<and> m \<noteq> 0")
    case True
    then show ?thesis
      by (intro exI [of _ "Inr None"] exI [of _ "(h 0 AND NOT m) OR (vs AND m)"])
        (simp add: Set group_set_def bits_subset latch_defs)
  next
    case False
    then show ?thesis
      by (intro exI [of _ "if bits m \<subseteq> bits self_mask then Inr None else Inl OutsideOutputGroup"]
            exI [of _ "h 0"])
        (auto simp: Set group_set_def bits_subset latch_defs bits_def)
  qed
qed

lemma group_run_refines:
  "\<exists>rs v log'. (group_run latch_hw self_mask ops :: (nat \<Rightarrow> u32, 'x, _) gpio_prog) \<lparr>m_hw = ((), h), m_log = log\<rparr> =
     Some (Inr rs, \<lparr>m_hw = ((), h(0 := v)), m_log = log'\<rparr>) \<and>
     (map result_lines rs, bits v) = lines_run (bits self_mask) (map (map_group_op bits) ops) (bits (h 0))"
proof (induction ops arbitrary: h log)
  case Nil
  show ?case by (rule exI [of _ "[]"], rule exI [of _ "h 0"]) (simp add: ok_def)
next
  case (Cons op ops)
  obtain r v log1 where 1: "group_do latch_hw self_mask op \<lparr>m_hw = ((), h), m_log = log\<rparr> =
      Some (r, \<lparr>m_hw = ((), h(0 := v)), m_log = log1\<rparr>)"
    "(result_lines r, bits v) = lines_do (bits self_mask) (map_group_op bits op) (bits (h 0))"
    using group_do_refines by blast
  from Cons [of "h(0 := v)" log1] obtain rs w log2 where 2:
    "group_run latch_hw self_mask ops \<lparr>m_hw = ((), h(0 := v)), m_log = log1\<rparr> =
      Some (Inr rs :: 'x + _, \<lparr>m_hw = ((), h(0 := v, 0 := w)), m_log = log2\<rparr>)"
    "(map result_lines rs, bits w) = lines_run (bits self_mask) (map (map_group_op bits) ops) (bits v)"
    by (metis fun_upd_same)
  have "(group_run latch_hw self_mask (op # ops) :: (nat \<Rightarrow> u32, 'x, _) gpio_prog)
      \<lparr>m_hw = ((), h), m_log = log\<rparr> = Some (Inr (r # rs), \<lparr>m_hw = ((), h(0 := w)), m_log = log2\<rparr>)"
    using 1(1) 2(1) by (simp add: bind_def attempt_def ok_def)
  moreover have "(map result_lines (r # rs), bits w) =
      lines_run (bits self_mask) (map (map_group_op bits) (op # ops)) (bits (h 0))"
    using 1(2) 2(2) by (simp add: Let_def split: prod.split) (metis prod.inject)
  ultimately show ?case by metis
qed

lemma lines_do_outside: "snd (lines_do G op lines) - G = lines - G"
  by (cases op) auto

lemma lines_run_outside: "snd (lines_run G ops lines) - G = lines - G"
proof (induction ops arbitrary: lines)
  case (Cons op ops)
  then show ?case
    using lines_do_outside [of G op lines] by (simp add: Let_def split: prod.split) (metis snd_conv)
qed simp

section \<open>Properties\<close>

text \<open>C31: a group of outputs refines a set of independent lines. Bring up a group on registers that
  hold what was stored: its lines are disabled as interrupts, take their initial levels and
  become outputs. Then every sequence of \<open>get\<close> and \<open>set\<close> calls gives exactly the results and the
  final levels of the abstract group of lines, an operation that names a foreign line being
  refused without effect; the levels of all other lines and all other registers stay as they
  were.\<close>

theorem gpio_group_refines:
  "\<exists>rs data log'.
     (bind (outputs latch_hw self_mask initial) (\<lambda>_. group_run latch_hw self_mask ops)
         :: (nat \<Rightarrow> u32, 'x, _) gpio_prog)
       \<lparr>m_hw = ((), h), m_log = []\<rparr> =
     Some (Inr rs, \<lparr>m_hw = ((), h(gpio_offset Enable := h (gpio_offset Enable) AND NOT self_mask,
         gpio_offset Direction := h (gpio_offset Direction) OR self_mask,
         gpio_offset Data := data)), m_log = log'\<rparr>) \<and>
     (map result_lines rs, bits data) =
       lines_run (bits self_mask) (map (map_group_op bits) ops)
         ((bits (h (gpio_offset Data)) - bits self_mask) \<union> (bits initial \<inter> bits self_mask)) \<and>
     bits data - bits self_mask = bits (h (gpio_offset Data)) - bits self_mask"
proof -
  let ?h = "h(48 := h 48 AND NOT self_mask, 0 := h 0 AND NOT self_mask OR initial AND self_mask,
    4 := h 4 OR self_mask)"
  obtain log1 where 1: "outputs latch_hw self_mask initial \<lparr>m_hw = ((), h), m_log = []\<rparr> =
      Some (Inr () :: 'x + unit, \<lparr>m_hw = ((), ?h), m_log = log1\<rparr>)"
    by (simp add: outputs_def latch_defs Let_def)
  from group_run_refines [of self_mask ops ?h log1] obtain rs v log2 where 2:
    "group_run latch_hw self_mask ops \<lparr>m_hw = ((), ?h), m_log = log1\<rparr> =
      Some (Inr rs :: 'x + _, \<lparr>m_hw = ((), ?h(0 := v)), m_log = log2\<rparr>)"
    "(map result_lines rs, bits v) = lines_run (bits self_mask) (map (map_group_op bits) ops) (bits (?h 0))"
    by blast
  have "snd (map result_lines rs, bits v) - bits self_mask = bits (?h 0) - bits self_mask"
    unfolding 2(2) by (rule lines_run_outside)
  then have "bits v - bits self_mask = bits (h 0) - bits self_mask"
    by (simp add: Un_Diff Int_Diff)
  with 1 2 show ?thesis
    by (intro exI [of _ rs] exI [of _ v] exI [of _ log2]) (simp add: bind_def fun_upd_twist)
qed

text \<open>Pins of a bank are independent. Every operation of a pin handle returns and, whatever the
  registers hold, acknowledges at most this pin's event, never reads the end-of-interrupt
  register, and stores into any other register only a value that differs in this pin's bit at
  most from one it loaded from that register. An output's latch is written before its direction
  and after its interrupt is disabled; an interrupt is configured and its stale event
  acknowledged while it is masked.\<close>

theorem gpio_pins_independent:
  "\<exists>m' new. (pin_do hw pin op :: ('h, 'x, unit) gpio_prog) m = Some (Inr (), m') \<and> m_log m' = m_log m @ new \<and>
     confined (pin_mask pin) [] new \<and> op_spec op (pin_mask pin) new"
proof -
  obtain r :: "'x + unit" and m' new where "pin_do hw pin op m = Some (r, m')" "m_log m' = m_log m @ new"
    "r = Inr ()" "confined (pin_mask pin) [] new" "op_spec op (pin_mask pin) new"
    using course_run [OF confined_pin] by metis
  then show ?thesis by auto
qed

end
