(* ===== verification/Lcd_Panel.thy ===== *)
theory Lcd_Panel
  imports Lcd_Engine Gpio
begin

text \<open>
  The panel of the LCD service (firmware/sg2002-c906l/src/lcd.rs): \<open>Hardware\<close>, which implements
  the engine's bus on the SPI controller and one GPIO output group, and \<open>Panel\<close>, the engine on
  that bus. The two controllers are arbitrary devices; the memory behind the frame slots is a
  function from addresses to bytes. \<open>hd_log\<close> records the register accesses to both controllers
  in the order they happen.

  Shown: the hardware is a bus for every pair of controllers; with a GPIO data register that reads
  back what was stored, the values written to the SPI data register, each with the level of the
  data/command line at that moment, are exactly the bytes and pixels the engine transmits; and
  switching the Wi-Fi line leaves the display lines alone.
\<close>

section \<open>The hardware\<close>

definition DC :: u32 where "DC = push_bit 28 1"
definition RESET :: u32 where "RESET = push_bit 27 1"
definition WIFI_POWER :: u32 where "WIFI_POWER = push_bit 26 1"
definition CONTROL_LINES :: u32 where "CONTROL_LINES = DC OR RESET OR WIFI_POWER"

record lcd_config =
  spi_base :: nat
  gpio_base :: nat
  cfg_divider :: u16
  poll_budget :: u32
  framebuffer_base :: nat
  framebuffer_stride :: nat

datatype board_event = OnSpi "spi_register pac_event" | OnGpio "gpio_register pac_event"

text \<open>\<open>hd_outputs\<close> is the mask of the output group; the last four fields are the world.\<close>

record ('s, 'g) hardware =
  hd_spi :: spi_driver
  hd_outputs :: u32
  hd_poll_budget :: u32
  hd_framebuffer_base :: nat
  hd_framebuffer_stride :: nat
  hd_spi_device :: 's
  hd_gpio_device :: 'g
  hd_memory :: "nat \<Rightarrow> u8"
  hd_log :: "board_event list"

type_synonym ('s, 'g, 'x, 'a) hw_method = "('s, 'g) hardware \<Rightarrow> (('x + 'a) \<times> ('s, 'g) hardware) option"

text \<open>A method of the SPI driver or of the output group run on the hardware.\<close>

definition spi_access :: "('s, 'a) spi_prog \<Rightarrow> ('s, 'g, spi_error, 'a) hw_method" where
  "spi_access p h = (case p \<lparr>m_hw = (hd_spi h, hd_spi_device h), m_log = []\<rparr> of None \<Rightarrow> None
     | Some (r, m) \<Rightarrow> Some (r, h\<lparr>hd_spi := fst (m_hw m), hd_spi_device := snd (m_hw m),
         hd_log := hd_log h @ map OnSpi (m_log m)\<rparr>))"

definition gpio_access :: "('g, 'x, 'a) gpio_prog \<Rightarrow> ('s, 'g, 'x, 'a) hw_method" where
  "gpio_access p h = (case p \<lparr>m_hw = ((), hd_gpio_device h), m_log = []\<rparr> of None \<Rightarrow> None
     | Some (r, m) \<Rightarrow> Some (r, h\<lparr>hd_gpio_device := snd (m_hw m),
         hd_log := hd_log h @ map OnGpio (m_log m)\<rparr>))"

definition slot_pixel :: "(nat \<Rightarrow> u8) \<Rightarrow> nat \<Rightarrow> u16" where
  "slot_pixel memory address = ucast (memory address) OR push_bit 8 (ucast (memory (address + 1)))"

definition hardware_line :: "'g pac_hw \<Rightarrow> u32 \<Rightarrow> bool \<Rightarrow> ('s, 'g, lcd_error, unit) hw_method" where
  "hardware_line gpio lines high h =
     map_option (map_prod (map_sum (\<lambda>_. GpioError) id) id)
       (gpio_access (group_set gpio (hd_outputs h) lines (if high then lines else 0)) h)"

definition hardware_write :: "'s pac_hw \<Rightarrow> u8 list \<Rightarrow> ('s, 'g, lcd_error, unit) hw_method" where
  "hardware_write spi bytes h =
     (if 8 < length bytes then Some (Inl (SpiError TooLong), h)
      else map_option (map_prod (\<lambda>x. case x of Inl e \<Rightarrow> Inl (SpiError e)
             | Inr (r, scratch) \<Rightarrow> map_sum SpiError id r) id)
           (spi_access (transfer spi bytes (hd_poll_budget h)) h))"

definition frame_words :: "('s, 'g) hardware \<Rightarrow> u8 \<Rightarrow> u32 \<Rightarrow> u32 \<Rightarrow> u16 list" where
  "frame_words h slot first count =
     (let base = hd_framebuffer_base h + unat slot * hd_framebuffer_stride h in
      map (\<lambda>pixel. slot_pixel (hd_memory h) (base + pixel * 2)) [unat first..<unat (first + count)])"

definition hardware_frame_stream ::
    "'s pac_hw \<Rightarrow> u8 \<Rightarrow> u32 \<Rightarrow> u32 \<Rightarrow> ('s, 'g, lcd_error, unit) hw_method" where
  "hardware_frame_stream spi slot first count h =
     (let pixels = of_nat (FRAME_BYTES div 2) in
      if slot > 1 \<or> first > pixels \<or> count > pixels - first then Some (Inl Bounds, h)
      else map_option (map_prod (map_sum SpiError id) id)
             (spi_access (stream spi (frame_words h slot first count) (hd_poll_budget h)) h))"

definition hardware_io :: "'s pac_hw \<Rightarrow> 'g pac_hw \<Rightarrow> ('s, 'g) hardware lcd_io" where
  "hardware_io spi gpio = \<lparr>li_dc = hardware_line gpio DC, li_reset = hardware_line gpio RESET,
     li_write = hardware_write spi, li_frame_stream = hardware_frame_stream spi\<rparr>"

section \<open>The panel\<close>

type_synonym ('s, 'g) panel = "(engine \<times> ('s, 'g) hardware, lcd_event) machine"

text \<open>\<open>Panel::new\<close>: \<open>None\<close> is a panic; a refused configuration touches no register.\<close>

definition panel_new ::
    "'s pac_hw \<Rightarrow> 'g pac_hw \<Rightarrow> lcd_config \<Rightarrow> 's \<Rightarrow> 'g \<Rightarrow> (nat \<Rightarrow> u8) \<Rightarrow> (lcd_error + ('s, 'g) panel) option" where
  "panel_new spi gpio cfg s g memory =
     (if spi_base cfg \<noteq> 0x04190000 \<or> gpio_base cfg \<noteq> 0x03020000 \<or> poll_budget cfg = 0 \<or>
         poll_budget cfg > 100000 \<or> framebuffer_base cfg \<noteq> 0x8ff51000 \<or> framebuffer_stride cfg \<noteq> 0x1d000
      then Some (Inl Config)
      else case divider_new (cfg_divider cfg) of None \<Rightarrow> Some (Inl Config)
      | Some d \<Rightarrow>
        if spi_base cfg = 0 \<or> gpio_base cfg = 0 then Some (Inl Config)
        else let h = \<lparr>hd_spi = spi_from_base, hd_outputs = CONTROL_LINES, hd_poll_budget = poll_budget cfg,
               hd_framebuffer_base = framebuffer_base cfg, hd_framebuffer_stride = framebuffer_stride cfg,
               hd_spi_device = s, hd_gpio_device = g, hd_memory = memory, hd_log = []\<rparr> in
          case gpio_access (bind (mask_interrupts gpio :: ('g, unit, unit) gpio_prog)
              (\<lambda>_. outputs gpio CONTROL_LINES RESET)) h of None \<Rightarrow> None
          | Some (_, h) \<Rightarrow> (case spi_access (spi_configure spi d False False) h of None \<Rightarrow> None
            | Some (_, h) \<Rightarrow> Some (Inr \<lparr>m_hw = (engine_new, h), m_log = []\<rparr>)))"

definition panel_submit :: "u32 \<Rightarrow> job \<Rightarrow> (('s, 'g) panel, lcd_error, unit) prog" where
  "panel_submit sequence j = bind self (\<lambda>e. case submit sequence j e of (r, e') \<Rightarrow>
     bind (set_self e') (\<lambda>_. give r))"

definition panel_step :: "'s pac_hw \<Rightarrow> 'g pac_hw \<Rightarrow> u32 \<Rightarrow> (('s, 'g) panel, lcd_error, unit) prog" where
  "panel_step spi gpio now_ticks = engine_step (hardware_io spi gpio) now_ticks"

definition panel_status :: "('s, 'g) panel \<Rightarrow> lcd_status" where
  "panel_status p = en_status (fst (m_hw p))"

definition wifi_power :: "'g pac_hw \<Rightarrow> bool \<Rightarrow> ('s, 'g, lcd_error, unit) hw_method" where
  "wifi_power gpio enabled h =
     (case hardware_line gpio WIFI_POWER enabled h of None \<Rightarrow> None
      | Some (Inl x, h) \<Rightarrow> Some (Inl x, h)
      | Some (Inr _, h) \<Rightarrow> (case gpio_access (group_get gpio (hd_outputs h) WIFI_POWER) h of None \<Rightarrow> None
        | Some (Inl _, h) \<Rightarrow> Some (Inl GpioError, h)
        | Some (Inr actual, h) \<Rightarrow>
            Some (if actual \<noteq> (if enabled then WIFI_POWER else 0) then Inl GpioError else Inr (), h)))"

definition panel_wifi_power :: "'g pac_hw \<Rightarrow> bool \<Rightarrow> (('s, 'g) panel, lcd_error, unit) prog" where
  "panel_wifi_power gpio enabled p = (case wifi_power gpio enabled (snd (m_hw p)) of None \<Rightarrow> None
     | Some (r, h) \<Rightarrow> Some (r, p\<lparr>m_hw := (fst (m_hw p), h)\<rparr>))"

section \<open>The hardware is a bus\<close>

lemma spi_access_total:
  assumes "\<And>d. course p d (Q d)"
  shows "\<exists>r h'. spi_access p h = Some (r, h')"
proof -
  from assms [of "hd_spi h"] have "\<exists>r m. p \<lparr>m_hw = (hd_spi h, hd_spi_device h), m_log = []\<rparr> = Some (r, m)"
    unfolding course_def by blast
  then show ?thesis by (auto simp: spi_access_def)
qed

lemma course_stream_any: "course (stream spi words polls) d (\<lambda>_ _ _. True)"
proof (cases "configured d \<and> polls \<noteq> 0")
  case True
  then show ?thesis using course_stream [of d polls spi words] by (auto intro: course_mono)
next
  case False
  then show ?thesis by (auto simp: stream_def intro!: course_bind_self)
qed

text \<open>An output group operation reads and rewrites the data register.\<close>

lemma group_set_run:
  "group_set gpio owned lines values \<lparr>m_hw = ((), g), m_log = log\<rparr> =
    (if lines AND NOT owned \<noteq> 0 then Some (Inl OutsideOutputGroup, \<lparr>m_hw = ((), g), m_log = log\<rparr>)
     else if lines = 0 then Some (Inr (), \<lparr>m_hw = ((), g), m_log = log\<rparr>)
     else case ph_load gpio (gpio_offset gpio_register.Data) g of (old, g') \<Rightarrow>
       let v = (old AND NOT lines) OR (values AND lines) in
       Some (Inr (), \<lparr>m_hw = ((), ph_store gpio (gpio_offset gpio_register.Data) v g'),
         m_log = log @ [Load gpio_register.Data old, Store gpio_register.Data v]\<rparr>))"
  by (auto simp: group_set_def gpio_read_def gpio_write_def ordered_read_def ordered_write_def sense_def drive_def
      bind_def fail_def ok_def Let_def split: prod.split)

lemma hardware_line_total: "\<exists>r h'. hardware_line gpio lines high h = Some (r, h')"
  by (auto simp: hardware_line_def gpio_access_def group_set_run Let_def split: prod.split)

lemma hardware_write_total: "\<exists>r h'. hardware_write spi bytes h = Some (r, h')"
  using spi_access_total [OF course_spi_transfer [where hw = spi and bytes = bytes and polls = "hd_poll_budget h"], of h]
  by (auto simp: hardware_write_def)

lemma hardware_frame_stream_total: "\<exists>r h'. hardware_frame_stream spi slot first count h = Some (r, h')"
  using spi_access_total [OF course_stream_any [of spi "frame_words h slot first count" "hd_poll_budget h"], of h]
  by (auto simp: hardware_frame_stream_def Let_def)

lemmas hardware_total = hardware_line_total hardware_write_total hardware_frame_stream_total

interpretation hw: lcd_bus "hardware_io spi gpio" for spi gpio
proof
  fix c and h :: "('a, 'b) hardware"
  have "\<exists>r h'. io_do (hardware_io spi gpio) c h = Some (r, h')"
    by (cases c) (simp_all add: hardware_io_def hardware_total)
  then show "io_do (hardware_io spi gpio) c h \<noteq> None" by auto
qed

section \<open>On the wires\<close>

text \<open>
  The values written to the SPI data register, each with the level of the data/command line, and
  that level at the end: a store to the GPIO data register sets it.
\<close>

fun wired :: "bool \<Rightarrow> board_event list \<Rightarrow> (bool \<times> u32) list" where
  "wired dc [] = []"
| "wired dc (OnGpio (Store gpio_register.Data v) # log) = wired (bit v 28) log"
| "wired dc (OnSpi (Store spi_register.Data v) # log) = (dc, v) # wired dc log"
| "wired dc (OnSpi (Burst spi_register.Data v) # log) = (dc, v) # wired dc log"
| "wired dc (ev # log) = wired dc log"

fun dc_pin :: "bool \<Rightarrow> board_event list \<Rightarrow> bool" where
  "dc_pin dc [] = dc"
| "dc_pin dc (OnGpio (Store gpio_register.Data v) # log) = dc_pin (bit v 28) log"
| "dc_pin dc (ev # log) = dc_pin dc log"

lemma wired_append: "wired dc (l @ l') = wired dc l @ wired (dc_pin dc l) l'"
  by (induction dc l rule: wired.induct) simp_all

lemma dc_pin_append: "dc_pin dc (l @ l') = dc_pin (dc_pin dc l) l'"
  by (induction dc l rule: dc_pin.induct) simp_all

lemma wired_spi: "wired dc (map OnSpi l) = map (Pair dc) (stored l) \<and> dc_pin dc (map OnSpi l) = dc"
proof (induction l)
  case (Cons ev l)
  then show ?case
  proof (cases ev)
    case (Store r v)
    with Cons show ?thesis by (cases r) simp_all
  next
    case (Burst r v)
    with Cons show ?thesis by (cases r) simp_all
  qed simp_all
qed simp

text \<open>The values that stand for what the engine transmits.\<close>

fun expand :: "('s, 'g) hardware \<Rightarrow> wire \<Rightarrow> (bool \<times> u32) list" where
  "expand h (Command b) = [(False, ucast b)]"
| "expand h (Parameter b) = [(True, ucast b)]"
| "expand h (Pixels dc slot first count) = map (\<lambda>w. (dc, ucast w)) (frame_words h slot first count)"
| "expand h (ResetLine high) = []"

abbreviation expanded :: "('s, 'g) hardware \<Rightarrow> wire list \<Rightarrow> (bool \<times> u32) list" where
  "expanded h ws \<equiv> concat (map (expand h) ws)"

text \<open>The hardware after \<open>Panel::new\<close>, on GPIO registers that read back what was stored.\<close>

definition board_ok :: "('s, nat \<Rightarrow> u32) hardware \<Rightarrow> bool" where
  "board_ok h \<longleftrightarrow> configured (hd_spi h) \<and> hd_poll_budget h \<noteq> 0 \<and> hd_outputs h = CONTROL_LINES \<and>
     dc_pin False (hd_log h) = bit (hd_gpio_device h (gpio_offset gpio_register.Data)) 28"

definition same_frames :: "('s, 'g) hardware \<Rightarrow> ('s, 'g) hardware \<Rightarrow> bool" where
  "same_frames h h' \<longleftrightarrow> hd_memory h' = hd_memory h \<and> hd_framebuffer_base h' = hd_framebuffer_base h \<and>
     hd_framebuffer_stride h' = hd_framebuffer_stride h"

lemma same_frames_expand: "same_frames h h' \<Longrightarrow> expand h' = expand h"
proof
  fix w
  show "same_frames h h' \<Longrightarrow> expand h' w = expand h w"
    by (cases w) (simp_all add: same_frames_def frame_words_def)
qed

text \<open>A call hands over what it stands for, all of it when it succeeds.\<close>

definition delivered :: "('s, nat \<Rightarrow> u32) hardware \<Rightarrow> lcd_event \<Rightarrow> ('s, nat \<Rightarrow> u32) hardware \<Rightarrow> bool" where
  "delivered h ev h' \<longleftrightarrow> board_ok h' \<and> same_frames h h' \<and> (\<exists>new. hd_log h' = hd_log h @ new \<and>
     (let dc = dc_pin False (hd_log h) in
      prefix (wired dc new) (expanded h (transmit dc [ev])) \<and>
      (ok_event ev \<longrightarrow> wired dc new = expanded h (transmit dc [ev]) \<and> dc_pin dc new = dc_level dc [ev])))"

lemma lines_owned [simp]:
  "DC AND NOT CONTROL_LINES = 0" "RESET AND NOT CONTROL_LINES = 0" "WIFI_POWER AND NOT CONTROL_LINES = 0"
  "DC \<noteq> 0" "RESET \<noteq> 0" "WIFI_POWER \<noteq> 0"
  by (simp_all add: DC_def RESET_def WIFI_POWER_def CONTROL_LINES_def)

text \<open>Driving an owned line on registers that read back.\<close>

abbreviation data_level :: "('s, nat \<Rightarrow> u32) hardware \<Rightarrow> u32" where
  "data_level h \<equiv> hd_gpio_device h (gpio_offset gpio_register.Data)"

definition driven :: "u32 \<Rightarrow> bool \<Rightarrow> u32 \<Rightarrow> u32" where
  "driven lines high v = (v AND NOT lines) OR ((if high then lines else 0) AND lines)"

lemma dc_driven: "bit (driven DC high v) 28 = high" "bit (driven RESET high v) 28 = bit v 28"
    "bit (driven WIFI_POWER high v) 28 = bit v 28"
  by (auto simp: driven_def DC_def RESET_def WIFI_POWER_def bit_simps)

lemma hardware_line_latch:
  assumes "board_ok h" "lines AND NOT CONTROL_LINES = 0" "lines \<noteq> 0"
    "hardware_line latch_hw lines high h = Some (r, h')"
  shows "r = Inr ()" "board_ok h'" "same_frames h h'" "data_level h' = driven lines high (data_level h)"
    "hd_log h' = hd_log h @ [OnGpio (Load gpio_register.Data (data_level h)),
       OnGpio (Store gpio_register.Data (driven lines high (data_level h)))]"
proof -
  have "r = Inr () \<and> h' = h\<lparr>
      hd_gpio_device := (hd_gpio_device h)(gpio_offset gpio_register.Data := driven lines high (data_level h)),
      hd_log := hd_log h @ [OnGpio (Load gpio_register.Data (data_level h)),
        OnGpio (Store gpio_register.Data (driven lines high (data_level h)))]\<rparr>"
    using assms by (auto simp: board_ok_def hardware_line_def gpio_access_def group_set_run latch_hw_def Let_def driven_def)
  with assms(1) show "r = Inr ()" "board_ok h'" "same_frames h h'" "data_level h' = driven lines high (data_level h)"
    "hd_log h' = hd_log h @ [OnGpio (Load gpio_register.Data (data_level h)),
       OnGpio (Store gpio_register.Data (driven lines high (data_level h)))]"
    by (simp_all add: board_ok_def same_frames_def dc_pin_append)
qed

lemma board_ok_pin: "board_ok h \<Longrightarrow> dc_pin False (hd_log h) = bit (data_level h) 28"
  by (simp add: board_ok_def)

lemma delivered_line:
  assumes "board_ok h"
  shows "hardware_line latch_hw DC high h = Some (r, h') \<Longrightarrow> delivered h (Call (Dc high) r) h'"
    "hardware_line latch_hw RESET high h = Some (r, h') \<Longrightarrow> delivered h (Call (Reset high) r) h'"
proof -
  show "delivered h (Call (Dc high) r) h'" if "hardware_line latch_hw DC high h = Some (r, h')"
    using hardware_line_latch [OF assms _ _ that] board_ok_pin [OF assms] by (simp add: delivered_def dc_driven)
  show "delivered h (Call (Reset high) r) h'" if "hardware_line latch_hw RESET high h = Some (r, h')"
    using hardware_line_latch [OF assms _ _ that] board_ok_pin [OF assms] by (simp add: delivered_def dc_driven)
qed

text \<open>The SPI methods.\<close>

lemma spi_accessE:
  assumes "course p (hd_spi h) Q" "spi_access p h = Some (r, h')"
  obtains new where "Q r (hd_spi h') new" "hd_log h' = hd_log h @ map OnSpi new"
    "hd_outputs h' = hd_outputs h" "hd_poll_budget h' = hd_poll_budget h" "same_frames h h'"
    "hd_gpio_device h' = hd_gpio_device h"
proof -
  obtain r1 d s new where "p \<lparr>m_hw = (hd_spi h, hd_spi_device h), m_log = []\<rparr> =
      Some (r1, \<lparr>m_hw = (d, s), m_log = [] @ new\<rparr>)" "Q r1 d new"
    using assms(1) unfolding course_def by blast
  with assms(2) that [of new] show thesis by (auto simp: spi_access_def same_frames_def)
qed

lemma delivered_spi:
  assumes "board_ok h" "hd_log h' = hd_log h @ map OnSpi new" "hd_spi h' = hd_spi h"
    "hd_outputs h' = hd_outputs h" "hd_poll_budget h' = hd_poll_budget h" "same_frames h h'"
    "hd_gpio_device h' = hd_gpio_device h"
    "prefix (stored new) vs" "r = Inr () \<Longrightarrow> stored new = vs"
    "dc_level (dc_pin False (hd_log h)) [Call c r] = dc_pin False (hd_log h)"
    "expanded h (transmit (dc_pin False (hd_log h)) [Call c r]) = map (Pair (dc_pin False (hd_log h))) vs"
  shows "delivered h (Call c r) h'"
proof -
  have "board_ok h'" using assms(1-7) by (simp add: board_ok_def dc_pin_append wired_spi)
  moreover have "prefix (wired dc (map OnSpi new)) (map (Pair dc) vs)" for dc
    using assms(8) by (auto simp: wired_spi prefix_def)
  ultimately show ?thesis
    unfolding delivered_def using assms(2,6,9-11) by (auto simp: wired_spi Let_def)
qed

lemma delivered_none:
  assumes "board_ok h" "r \<noteq> Inr ()"
  shows "delivered h (Call c r) h"
  using assms by (auto simp: delivered_def same_frames_def)

lemma expanded_bytes:
  "concat (map (expand h \<circ> Parameter) bytes) = map (Pair True \<circ> ucast) bytes"
  "concat (map (expand h \<circ> Command) bytes) = map (Pair False \<circ> ucast) bytes"
  by (induction bytes) auto

lemma transfer_spec_stored:
  assumes "transfer_spec d bytes polls r bytes' log"
  shows "prefix (stored log) (map ucast bytes)" "r = Inr () \<Longrightarrow> stored log = map ucast bytes"
proof -
  have "prefix (stored log) (map ucast bytes) \<and> (r = Inr () \<longrightarrow> stored log = map ucast bytes)"
  proof (cases "configured d \<and> \<not> 8 < length bytes \<and> bytes \<noteq> [] \<and> polls \<noteq> 0")
    case True
    with assms obtain mid v where
      "log = Store spi_register.Enable 1 # mid @ [Store spi_register.Enable 0, Store Select 0, Load Clear_All v]"
      "exchange_spec bytes (unat polls) r bytes' mid"
      by (auto simp: transfer_spec_def)
    then show ?thesis by (cases r) (auto simp: exchange_spec_def)
  next
    case False
    with assms show ?thesis by (auto simp: transfer_spec_def split: if_splits)
  qed
  then show "prefix (stored log) (map ucast bytes)" "r = Inr () \<Longrightarrow> stored log = map ucast bytes" by simp_all
qed

lemma delivered_write:
  assumes "board_ok h" "hardware_write spi bytes h = Some (r, h')"
  shows "delivered h (Call (Write bytes) r) h'"
proof (cases "8 < length bytes")
  case True
  with assms show ?thesis by (auto simp: hardware_write_def intro: delivered_none)
next
  case False
  with assms(2) obtain x where x: "spi_access (transfer spi bytes (hd_poll_budget h)) h = Some (x, h')"
    and r: "r = (case x of Inl e \<Rightarrow> Inl (SpiError e) | Inr (r, scratch) \<Rightarrow> map_sum SpiError id r)"
    by (auto simp: hardware_write_def)
  from course_spi_transfer x show ?thesis
  proof (rule spi_accessE, goal_cases)
    case (1 new)
    then obtain q bytes' where q: "x = Inr (q, bytes')" "hd_spi h' = hd_spi h"
      "transfer_spec (hd_spi h) bytes (hd_poll_budget h) q bytes' new" by blast
    from q r have "r = Inr () \<Longrightarrow> q = Inr ()" by (cases q) auto
    with 1 q transfer_spec_stored [OF q(3)] show ?case
      by (intro delivered_spi [OF assms(1), where vs = "map ucast bytes"]) (auto simp: expanded_bytes)
  qed
qed

lemma delivered_frame:
  assumes "board_ok h" "hardware_frame_stream spi slot first count h = Some (r, h')"
  shows "delivered h (Call (FrameStream slot first count) r) h'"
proof (cases "slot > 1 \<or> first > of_nat (FRAME_BYTES div 2) \<or> count > of_nat (FRAME_BYTES div 2) - first")
  case True
  with assms show ?thesis by (auto simp: hardware_frame_stream_def Let_def intro: delivered_none)
next
  case False
  let ?words = "frame_words h slot first count"
  from False assms(2) obtain x where x: "spi_access (stream spi ?words (hd_poll_budget h)) h = Some (x, h')"
    and r: "r = map_sum SpiError id x"
    by (auto simp: hardware_frame_stream_def Let_def)
  have "configured (hd_spi h)" "hd_poll_budget h \<noteq> 0" using assms(1) by (simp_all add: board_ok_def)
  from course_stream [OF this] x show ?thesis
  proof (rule spi_accessE, goal_cases)
    case (1 new)
    then have s: "hd_spi h' = hd_spi h" "prefix (stored new) (map ucast ?words)"
      "x = Inr () \<Longrightarrow> stored new = map ucast ?words"
      by (auto simp: stream_spec_def)
    from r have "r = Inr () \<Longrightarrow> x = Inr ()" by (cases x) auto
    with 1 s show ?case
      by (intro delivered_spi [OF assms(1), where vs = "map ucast ?words"]) auto
  qed
qed

lemma delivered_call:
  "board_ok h \<Longrightarrow> io_do (hardware_io spi latch_hw) c h = Some (r, h') \<Longrightarrow> delivered h (Call c r) h'"
  by (cases c) (simp_all add: hardware_io_def delivered_line delivered_write delivered_frame)

section \<open>The panel on the wires\<close>

text \<open>A relation every program over the bus keeps.\<close>

definition keeps :: "('m \<Rightarrow> bool) \<Rightarrow> ('m, 'x, 'a) prog \<Rightarrow> bool" where
  "keeps R p \<longleftrightarrow> (\<forall>m r m'. R m \<longrightarrow> p m = Some (r, m') \<longrightarrow> R m')"

lemma keepsD: "keeps R p \<Longrightarrow> R m \<Longrightarrow> p m = Some (r, m') \<Longrightarrow> R m'"
  unfolding keeps_def by blast

lemma keeps_bind:
  assumes "keeps R p" "\<And>a. keeps R (f a)"
  shows "keeps R (bind p f)"
  unfolding keeps_def
proof (intro allI impI)
  fix m r m'
  assume "R m" "bind p f m = Some (r, m')"
  moreover from this obtain q m1 where q: "p m = Some (q, m1)" by (auto simp: bind_def split: option.splits)
  ultimately show "R m'"
    using keepsD [OF assms(1) _ q] keepsD [OF assms(2), of m1 _ r m'] by (cases q) (auto simp: bind_def)
qed

lemma keeps_pure [simp]: "keeps R (ok a)" "keeps R (fail x)" "keeps R (give r)" "keeps R self"
  by (auto simp: keeps_def ok_def fail_def give_def self_def)

lemma keeps_attempt: "keeps R p \<Longrightarrow> keeps R (attempt p)"
  unfolding keeps_def attempt_def by (auto split: option.splits)

text \<open>The accesses to the controllers mirror the calls of the engine.\<close>

definition mirrored :: "('s, nat \<Rightarrow> u32) hardware \<Rightarrow> ('s, nat \<Rightarrow> u32) panel \<Rightarrow> bool" where
  "mirrored h0 p \<longleftrightarrow> (let h = snd (m_hw p); log = m_log p in board_ok h \<and> same_frames h0 h \<and>
     (list_all ok_event log \<longrightarrow> wired False (hd_log h) = expanded h0 (transmit False log) \<and>
        dc_pin False (hd_log h) = dc_level False log) \<and>
     (list_all ok_event (butlast log) \<longrightarrow> prefix (wired False (hd_log h)) (expanded h0 (transmit False log))))"

lemma mirrored_call:
  assumes "mirrored h0 p" "delivered (snd (m_hw p)) ev h"
  shows "mirrored h0 \<lparr>m_hw = (e, h), m_log = m_log p @ [ev]\<rparr>"
proof (cases "list_all ok_event (m_log p)")
  case True
  define dc where "dc = dc_level False (m_log p)"
  define h1 where "h1 = snd (m_hw p)"
  from assms(1) True have p: "same_frames h0 h1" "wired False (hd_log h1) = expanded h0 (transmit False (m_log p))"
    "dc_pin False (hd_log h1) = dc"
    by (simp_all add: mirrored_def Let_def dc_def h1_def)
  from assms(2) obtain new where n: "board_ok h" "same_frames h1 h" "hd_log h = hd_log h1 @ new"
    "prefix (wired dc new) (expanded h0 (transmit dc [ev]))"
    "ok_event ev \<longrightarrow> wired dc new = expanded h0 (transmit dc [ev]) \<and> dc_pin dc new = dc_level dc [ev]"
    unfolding delivered_def Let_def h1_def [symmetric] p(3) same_frames_expand [OF p(1)] by blast
  have "same_frames h0 h" using p(1) n(2) by (simp add: same_frames_def)
  moreover have "wired False (hd_log h) = expanded h0 (transmit False (m_log p)) @ wired dc new"
    "dc_pin False (hd_log h) = dc_pin dc new" "dc_level False (m_log p @ [ev]) = dc_level dc [ev]"
    "expanded h0 (transmit False (m_log p @ [ev])) =
       expanded h0 (transmit False (m_log p)) @ expanded h0 (transmit dc [ev])"
    by (simp_all add: n(3) p wired_append dc_pin_append transmit_append dc_level_append dc_def [symmetric])
  ultimately show ?thesis
    unfolding mirrored_def Let_def machine.select_convs snd_conv using n(1,4,5) True by simp
next
  case False
  with assms show ?thesis by (auto simp: mirrored_def delivered_def same_frames_def Let_def)
qed

lemma keeps_call: "keeps (mirrored h0) (call (hardware_io spi latch_hw) c)"
  unfolding keeps_def
proof (intro allI impI)
  fix p r p'
  assume m: "mirrored h0 p" and run: "call (hardware_io spi latch_hw) c p = Some (r, p')"
  from run obtain h where h: "io_do (hardware_io spi latch_hw) c (snd (m_hw p)) = Some (r, h)"
    and p': "p' = \<lparr>m_hw = (fst (m_hw p), h), m_log = m_log p @ [Call c r]\<rparr>"
    by (auto simp: call_def split: option.splits)
  from m have "board_ok (snd (m_hw p))" by (simp add: mirrored_def Let_def)
  from mirrored_call [OF m delivered_call [OF this h]] p' show "mirrored h0 p'" by simp
qed

lemma keeps_set_self: "keeps (mirrored h0) (set_self e)"
  by (auto simp: keeps_def set_self_def mirrored_def)

lemmas keeps_intros = keeps_bind keeps_attempt keeps_call keeps_set_self

lemma keeps_after: "keeps (mirrored h0) (after (hardware_io spi latch_hw) nxt)"
  by (cases nxt) (auto simp: engine_write_def intro!: keeps_intros)

lemma keeps_init: "keeps (mirrored h0) (init_once (hardware_io spi latch_hw) index offset)"
  by (auto simp: init_once_def engine_write_def set_phase_def Let_def intro!: keeps_intros split: prod.split)

lemma keeps_draw: "keeps (mirrored h0) (draw_once (hardware_io spi latch_hw) r)"
  by (auto simp: draw_once_def draw_pixels_def go_on_def finish_def engine_write_def set_phase_def Let_def
      intro!: keeps_intros split: pixels.split)

lemma keeps_advance: "keeps (mirrored h0) (advance (hardware_io spi latch_hw) now n)"
  by (induction n) (auto simp: advance_once_def set_phase_def intro!: keeps_intros keeps_after keeps_init keeps_draw
      split: phase.split option.split)

lemma keeps_step: "keeps (mirrored h0) (panel_step spi latch_hw now)"
  by (auto simp: panel_step_def engine_step_def intro!: keeps_intros keeps_advance split: sum.split)

section \<open>The Wi-Fi line\<close>

lemma group_get_run:
  "group_get gpio owned lines \<lparr>m_hw = ((), g), m_log = log\<rparr> =
    (if lines AND NOT owned \<noteq> 0 then Some (Inl OutsideOutputGroup, \<lparr>m_hw = ((), g), m_log = log\<rparr>)
     else case ph_load gpio (gpio_offset gpio_register.Data) g of (v, g') \<Rightarrow>
       Some (Inr (v AND lines), \<lparr>m_hw = ((), g'), m_log = log @ [Load gpio_register.Data v]\<rparr>))"
  by (auto simp: group_get_def gpio_read_def ordered_read_def sense_def bind_def fail_def ok_def split: prod.split)

lemma bit_WIFI_POWER: "bit WIFI_POWER n \<longleftrightarrow> n = 26"
  unfolding WIFI_POWER_def bit_push_bit_iff by (auto simp: bit_1_iff)

lemma wifi_bit:
  "v AND WIFI_POWER = (if enabled then WIFI_POWER else 0) \<longleftrightarrow> bit v 26 = enabled"
  by (auto simp: bit_eq_iff [of "v AND WIFI_POWER"] bit_and_iff bit_WIFI_POWER dest: spec [of _ 26])

lemma wifi_power_total: "\<exists>r h'. wifi_power gpio enabled h = Some (r, h')"
  using hardware_line_total [of gpio WIFI_POWER enabled h]
  by (auto simp: wifi_power_def gpio_access_def group_get_run split: sum.split prod.split)

lemma keeps_wifi: "keeps (mirrored h0) (panel_wifi_power latch_hw enabled)"
  unfolding keeps_def
proof (intro allI impI)
  fix p r p'
  assume m: "mirrored h0 p" and run: "panel_wifi_power latch_hw enabled p = Some (r, p')"
  define h where "h = snd (m_hw p)"
  from m have b: "board_ok h" by (simp add: mirrored_def Let_def h_def)
  obtain x h1 where h1: "hardware_line latch_hw WIFI_POWER enabled h = Some (x, h1)"
    using hardware_line_total by blast
  note l = hardware_line_latch [OF b lines_owned(3,6) h1]
  have "wifi_power latch_hw enabled h = Some (if bit (data_level h1) 26 = enabled then Inr () else Inl GpioError,
      h1\<lparr>hd_log := hd_log h1 @ [OnGpio (Load gpio_register.Data (data_level h1))]\<rparr>)"
    using l(1,2) h1 by (auto simp: wifi_power_def gpio_access_def group_get_run latch_hw_def board_ok_def wifi_bit)
  with run have "snd (m_hw p') = h1\<lparr>hd_log := hd_log h1 @ [OnGpio (Load gpio_register.Data (data_level h1))]\<rparr>"
    "m_log p' = m_log p"
    by (auto simp: panel_wifi_power_def h_def)
  moreover have "dc_pin False (hd_log h1) = dc_pin False (hd_log h)" "wired False (hd_log h1) = wired False (hd_log h)"
    using l(5) board_ok_pin [OF b] by (simp_all add: dc_pin_append wired_append dc_driven)
  ultimately show "mirrored h0 p'"
    using m l(2,3) b by (auto simp: mirrored_def Let_def h_def board_ok_def same_frames_def dc_pin_append wired_append)
qed

section \<open>Runs of the panel\<close>

datatype panel_op = Display lcd_op | Wifi bool

primrec panel_do :: "'s pac_hw \<Rightarrow> 'g pac_hw \<Rightarrow> panel_op \<Rightarrow> (('s, 'g) panel, lcd_error, job list) prog" where
  "panel_do spi gpio (Display op) = engine_op (hardware_io spi gpio) op"
| "panel_do spi gpio (Wifi enabled) = bind (attempt (panel_wifi_power gpio enabled)) (\<lambda>_. ok [])"

primrec panel_run :: "'s pac_hw \<Rightarrow> 'g pac_hw \<Rightarrow> panel_op list \<Rightarrow> (('s, 'g) panel, lcd_error, job list) prog" where
  "panel_run spi gpio [] = ok []"
| "panel_run spi gpio (op # ops) = bind (panel_do spi gpio op) (\<lambda>js. bind (panel_run spi gpio ops) (\<lambda>js'. ok (js @ js')))"

lemma course_wifi: "course (panel_wifi_power gpio enabled) e (\<lambda>r e' l. e' = e \<and> l = [])"
  unfolding course_def panel_wifi_power_def
proof (intro allI)
  fix h log
  obtain r h' where "wifi_power gpio enabled h = Some (r, h')" using wifi_power_total by blast
  then show "\<exists>r d' h' new. (case wifi_power gpio enabled (snd (m_hw \<lparr>m_hw = (e, h), m_log = log\<rparr>)) of None \<Rightarrow> None
      | Some (r, h') \<Rightarrow> Some (r, \<lparr>m_hw = (e, h), m_log = log\<rparr>
          \<lparr>m_hw := (fst (m_hw \<lparr>m_hw = (e, h), m_log = log\<rparr>), h')\<rparr>)) =
      Some (r, \<lparr>m_hw = (d', h'), m_log = log @ new\<rparr>) \<and> d' = e \<and> new = []"
    by simp
qed

lemma course_panel_do:
  assumes "engine_ok e"
  shows "course (panel_do spi gpio op) e (\<lambda>x e' l. \<exists>js. x = Inr js \<and> served e js e' l)"
proof (cases op)
  case (Display lop)
  with hw.course_engine_op [OF assms] show ?thesis by simp
next
  case (Wifi enabled)
  with assms show ?thesis
    by (auto simp: served_def intro!: course_bind_attempt [OF course_wifi])
qed

lemma course_panel_run:
  assumes "engine_ok e"
  shows "course (panel_run spi gpio ops) e (\<lambda>x e' l. \<exists>js. x = Inr js \<and> served e js e' l)"
  using assms
proof (induction ops arbitrary: e)
  case Nil
  then show ?case by (simp add: served_def)
next
  case (Cons op ops)
  show ?case
    unfolding panel_run.simps
  proof (rule course_bind [OF course_panel_do [OF Cons.prems]], goal_cases)
    case (1 js e' l)
    then have st: "served e js e' l" "engine_ok e'" by (auto simp: served_def)
    show ?case
    proof (rule course_bind [OF Cons.IH [OF st(2)]], goal_cases)
      case (1 js' e'' l')
      then show ?case using served_trans [OF st(1)] by auto
    qed auto
  qed auto
qed

lemma keeps_panel_do: "keeps (mirrored h0) (panel_do spi latch_hw op)"
proof (cases op)
  case (Display lop)
  then show ?thesis
    using keeps_step [of h0 spi] by (cases lop) (auto simp: panel_step_def intro!: keeps_intros)
next
  case (Wifi enabled)
  then show ?thesis by (auto intro!: keeps_intros keeps_wifi)
qed

lemma keeps_panel_run: "keeps (mirrored h0) (panel_run spi latch_hw ops)"
  by (induction ops) (auto intro!: keeps_intros keeps_panel_do)

section \<open>A new panel\<close>

lemma course_spi_configure:
  "course (spi_configure spi d idle_high second) drv (\<lambda>x d' log. x = Inr () \<and> configured d' \<and> stored log = [])"
  by (cases d) (auto simp: spi_io_defs Let_def bind_assoc intro!: course_steps)

lemma panel_new_outputs:
  assumes "gpio_access (bind (mask_interrupts latch_hw :: (_, unit, unit) gpio_prog)
      (\<lambda>_. outputs latch_hw CONTROL_LINES RESET)) h = Some (r, h')" "hd_log h = []"
  shows "wired False (hd_log h') = []" "dc_pin False (hd_log h') = bit (data_level h') 28" "hd_spi h' = hd_spi h"
    "hd_outputs h' = hd_outputs h" "hd_poll_budget h' = hd_poll_budget h" "same_frames h h'"
    "dc_pin False (hd_log h') = False"
  using assms by (auto simp: gpio_access_def mask_interrupts_def outputs_def gpio_read_def gpio_write_def
      ordered_read_def ordered_write_def sense_def drive_def bind_def latch_hw_def Let_def same_frames_def
      DC_def CONTROL_LINES_def RESET_def WIFI_POWER_def bit_simps)

lemma panel_new_mirrored:
  assumes "panel_new spi latch_hw cfg s g memory = Some (Inr p)"
  shows "mirrored (snd (m_hw p)) p" "fst (m_hw p) = engine_new" "m_log p = []"
    "hd_memory (snd (m_hw p)) = memory"
proof -
  obtain d h0 r1 h1 r2 h2 where d: "divider_new (cfg_divider cfg) = Some d" and budget: "poll_budget cfg \<noteq> 0"
    and h0: "h0 = \<lparr>hd_spi = spi_from_base, hd_outputs = CONTROL_LINES, hd_poll_budget = poll_budget cfg,
      hd_framebuffer_base = framebuffer_base cfg, hd_framebuffer_stride = framebuffer_stride cfg,
      hd_spi_device = s, hd_gpio_device = g, hd_memory = memory, hd_log = []\<rparr>"
    and h1: "gpio_access (bind (mask_interrupts latch_hw :: (_, unit, unit) gpio_prog)
      (\<lambda>_. outputs latch_hw CONTROL_LINES RESET)) h0 = Some (r1, h1)"
    and h2: "spi_access (spi_configure spi d False False) h1 = Some (r2, h2)"
    and p: "p = \<lparr>m_hw = (engine_new, h2), m_log = []\<rparr>"
    using assms unfolding panel_new_def Let_def by (auto split: if_splits option.splits prod.splits)
  have "hd_log h0 = []" by (simp add: h0)
  note o = panel_new_outputs [OF h1 this]
  from course_spi_configure h2 obtain new where "configured (hd_spi h2)" "stored new = []"
    "hd_log h2 = hd_log h1 @ map OnSpi new" "hd_outputs h2 = hd_outputs h1" "hd_poll_budget h2 = hd_poll_budget h1"
    "same_frames h1 h2" "hd_gpio_device h2 = hd_gpio_device h1"
    by (rule spi_accessE) auto
  with o p budget h0 show "mirrored (snd (m_hw p)) p" "fst (m_hw p) = engine_new" "m_log p = []"
    "hd_memory (snd (m_hw p)) = memory"
    by (auto simp: mirrored_def board_ok_def same_frames_def wired_append dc_pin_append wired_spi)
qed

lemma expanded_prefix: "prefix ws ws' \<Longrightarrow> prefix (expanded h ws) (expanded h ws')"
  by (auto simp: prefix_def)

lemma mirrored_served:
  assumes "mirrored h0 p" "served e js (fst (m_hw p)) (m_log p)"
  shows "let sent = wired False (hd_log (snd (m_hw p)));
      due = expanded h0 (Lcd_Engine.pending (en_phase e) @ concat (map job_wire js))
    in if ls_state (en_status (fst (m_hw p))) = Fault then prefix sent due
       else sent @ expanded h0 (Lcd_Engine.pending (en_phase (fst (m_hw p)))) = due"
proof -
  let ?e = "fst (m_hw p)" and ?due = "Lcd_Engine.pending (en_phase e) @ concat (map job_wire js)"
  have fault: "en_phase ?e = FaultPhase \<longleftrightarrow> ls_state (en_status ?e) = Fault"
    using assms(2) by (cases "en_phase ?e") (auto simp: served_def engine_ok_def)
  show ?thesis
  proof (cases "en_phase ?e = FaultPhase")
    case True
    then have "faulty (m_log p)" "prefix (transmit False (m_log p)) ?due"
      using assms(2) by (simp_all add: served_def)
    with assms(1) have "prefix (wired False (hd_log (snd (m_hw p)))) (expanded h0 (transmit False (m_log p)))"
      "prefix (expanded h0 (transmit False (m_log p))) (expanded h0 ?due)"
      by (simp_all only: mirrored_def Let_def faulty_def expanded_prefix)
    with True fault show ?thesis by (auto simp: Let_def intro: prefix_order.trans)
  next
    case False
    then have "flawless (m_log p)" and due: "?due = transmit False (m_log p) @ Lcd_Engine.pending (en_phase ?e)"
      using assms(2) by (simp_all add: served_def)
    with assms(1) have "wired False (hd_log (snd (m_hw p))) = expanded h0 (transmit False (m_log p))"
      by (auto simp: mirrored_def Let_def flawless_def list_all_iff)
    with False fault show ?thesis unfolding due by (simp add: Let_def)
  qed
qed

section \<open>Properties\<close>

text \<open>C20: what the panel receives. On GPIO registers that read back what was stored and any SPI controller,
  a new panel that is submitted jobs, stepped and told to switch Wi-Fi power in any order never
  panics, and the values written to the SPI data register, each with the level of the
  data/command line at that moment, are exactly the initialization sequence and the window
  commands and pixels of every job that was started, in order; what is missing at the end is
  what the engine still has pending, or after a fault a suffix. The pixels of a frame are those
  of its slot in memory.\<close>

theorem panel_sends_exactly:
  assumes "panel_new spi latch_hw cfg s g memory = Some (Inr p)"
  shows "\<exists>js p'. panel_run spi latch_hw ops p = Some (Inr js, p') \<and>
    (let sent = wired False (hd_log (snd (m_hw p')));
         due = expanded (snd (m_hw p)) (Lcd_Engine.pending (en_phase engine_new) @ concat (map job_wire js))
     in if ls_state (panel_status p') = Fault then prefix sent due
        else sent @ expanded (snd (m_hw p)) (Lcd_Engine.pending (en_phase (fst (m_hw p')))) = due)"
proof -
  note new = panel_new_mirrored [OF assms]
  have ok: "engine_ok (fst (m_hw p))" by (simp add: new engine_new_ok)
  from course_panel_run [OF ok, where spi = spi and gpio = latch_hw and ops = ops] show ?thesis
  proof (rule course_runE, goal_cases)
    case (1 r p' log)
    then obtain js where js: "r = Inr js" "served engine_new js (fst (m_hw p')) (m_log p')"
      by (auto simp: new)
    from keepsD [OF keeps_panel_run new(1) 1(1)] have "mirrored (snd (m_hw p)) p'" .
    from mirrored_served [OF this js(2)] 1(1) js(1) show ?case by (auto simp: panel_status_def)
  qed
qed

definition picoclaw :: lcd_config where
  "picoclaw = \<lparr>spi_base = 0x04190000, gpio_base = 0x03020000, cfg_divider = 4, poll_budget = 100000,
     framebuffer_base = 0x8ff51000, framebuffer_stride = 0x1d000\<rparr>"

lemma picoclaw_panel: "\<exists>p. panel_new spi latch_hw picoclaw s g memory = Some (Inr p)"
proof -
  define h where "h = \<lparr>hd_spi = spi_from_base, hd_outputs = CONTROL_LINES, hd_poll_budget = 100000,
      hd_framebuffer_base = 0x8ff51000, hd_framebuffer_stride = 0x1d000,
      hd_spi_device = s, hd_gpio_device = g, hd_memory = memory, hd_log = []\<rparr>"
  have "\<exists>x. gpio_access (bind (mask_interrupts latch_hw :: (_, unit, unit) gpio_prog)
      (\<lambda>_. outputs latch_hw CONTROL_LINES RESET)) h = Some x"
    by (simp add: gpio_access_def mask_interrupts_def outputs_def gpio_read_def gpio_write_def
      ordered_read_def ordered_write_def sense_def drive_def bind_def Let_def latch_hw_def)
  then obtain r1 h1 where 1: "gpio_access (bind (mask_interrupts latch_hw :: (_, unit, unit) gpio_prog)
      (\<lambda>_. outputs latch_hw CONTROL_LINES RESET)) h = Some (r1, h1)" by auto
  obtain r2 h2 where 2: "spi_access (spi_configure spi (Divider 4) False False) h1 = Some (r2, h2)"
    using spi_access_total [OF course_spi_configure] by blast
  have 4: "divider_new 4 = Some (Divider 4)" by (simp add: divider_new_def)
  show ?thesis
    unfolding panel_new_def picoclaw_def lcd_config.select_convs 4 Let_def h_def [symmetric] option.case 1 prod.case 2
    by simp
qed

theorem panel_sends_exactly_witness:
  "\<exists>p js p'. panel_new idle_spi latch_hw picoclaw () (\<lambda>_. 0) (\<lambda>_. 0) = Some (Inr p) \<and>
     panel_run idle_spi latch_hw [Display (Step 0), Wifi True, Display (Step 10)] p = Some (Inr js, p') \<and>
    (let sent = wired False (hd_log (snd (m_hw p')));
         due = expanded (snd (m_hw p)) (Lcd_Engine.pending (en_phase engine_new) @ concat (map job_wire js))
     in if ls_state (panel_status p') = Fault then prefix sent due
        else sent @ expanded (snd (m_hw p)) (Lcd_Engine.pending (en_phase (fst (m_hw p')))) = due)"
proof -
  obtain p where p: "panel_new idle_spi latch_hw picoclaw () (\<lambda>_. 0) (\<lambda>_. 0) = Some (Inr p)"
    using picoclaw_panel [of idle_spi "()" "\<lambda>_. 0" "\<lambda>_. 0"] by blast
  from panel_sends_exactly [OF p] p show ?thesis by blast
qed

text \<open>Switching Wi-Fi power. Whatever the GPIO controller does, the command reads the data register,
  writes it back with only the Wi-Fi bit changed, reads it again, and is acknowledged exactly
  when that read shows the requested level.\<close>

theorem wifi_power_confirmed:
  assumes "hd_outputs h = CONTROL_LINES"
  shows "\<exists>r h' old new seen. wifi_power gpio enabled h = Some (r, h') \<and>
    hd_log h' = hd_log h @ map OnGpio [Load gpio_register.Data old, Store gpio_register.Data new, Load gpio_register.Data seen] \<and>
    (\<forall>n. bit new n = (if n = 26 then enabled else bit old n)) \<and>
    r = (if bit seen 26 = enabled then Inr () else Inl GpioError) \<and>
    hd_spi_device h' = hd_spi_device h \<and> hd_spi h' = hd_spi h"
proof -
  let ?at = "gpio_offset gpio_register.Data"
  obtain old g1 where load: "ph_load gpio ?at (hd_gpio_device h) = (old, g1)" by fastforce
  define new where "new = driven WIFI_POWER enabled old"
  obtain seen g2 where again: "ph_load gpio ?at (ph_store gpio ?at new g1) = (seen, g2)" by fastforce
  have "bit new n = (if n = 26 then enabled else bit old n)" for n
    by (auto simp: new_def driven_def bit_simps bit_WIFI_POWER dest: bit_imp_le_length)
  moreover have "wifi_power gpio enabled h = Some (if bit seen 26 = enabled then Inr () else Inl GpioError,
      h\<lparr>hd_gpio_device := g2, hd_log := hd_log h @ map OnGpio
        [Load gpio_register.Data old, Store gpio_register.Data new, Load gpio_register.Data seen]\<rparr>)"
    using assms load again
    by (auto simp: wifi_power_def hardware_line_def gpio_access_def group_set_run group_get_run Let_def wifi_bit
        new_def driven_def)
  ultimately show ?thesis by simp
qed

definition idle_board :: "(unit, nat \<Rightarrow> u32) hardware" where
  "idle_board = \<lparr>hd_spi = spi_from_base, hd_outputs = CONTROL_LINES, hd_poll_budget = 5, hd_framebuffer_base = 0,
     hd_framebuffer_stride = 0, hd_spi_device = (), hd_gpio_device = (\<lambda>_. 0), hd_memory = (\<lambda>_. 0), hd_log = []\<rparr>"

theorem wifi_power_confirmed_witness:
  "hd_outputs idle_board = CONTROL_LINES \<and> (\<exists>r h' old new seen. wifi_power latch_hw True idle_board = Some (r, h') \<and>
    hd_log h' = map OnGpio [Load gpio_register.Data old, Store gpio_register.Data new, Load gpio_register.Data seen] \<and>
    (\<forall>n. bit new n = (if n = 26 then True else bit old n)) \<and>
    r = (if bit seen 26 = True then Inr () else Inl GpioError) \<and>
    hd_spi_device h' = hd_spi_device idle_board \<and> hd_spi h' = hd_spi idle_board)"
proof -
  have b: "hd_outputs idle_board = CONTROL_LINES" "hd_log idle_board = []" by (simp_all add: idle_board_def)
  from wifi_power_confirmed [OF b(1), of latch_hw True] b show ?thesis by (simp only: append_Nil)
qed

end
