(* ===== verification/Wifi_Power.thy ===== *)
theory Wifi_Power
  imports Pac
begin

text \<open>
  The Wi-Fi power command (firmware/sg2002-c906l/src/wifi_power.rs) and the shared memory it and the
  LCD service use. Linux writes request records and the C906L completion records, each in its own
  cache line. The world \<open>'w\<close> is arbitrary: a volatile read returns whatever \<open>sw_read_wifi\<close> or
  \<open>sw_read_lcd\<close> gives, so Linux may change a record between two reads, and every access may
  change the world. The log records the accesses and the calls that were made.

  Shown: a command is applied only after two identical reads of a well-formed record with a new
  sequence, and at most once; it is answered by one record with its sequence whose commit word is
  written after the record was cleaned to memory.
\<close>

section \<open>Shared records\<close>

record wifi_record =
  wr_magic :: u32
  wr_generation :: u32
  wr_sequence :: u32
  wr_enabled :: u32
  wr_reserved :: "u8 list"
  wr_commit :: u32

text \<open>\<open>lcd_service::Record\<close>.\<close>

record lcd_record =
  lr_magic :: u32
  lr_generation :: u32
  lr_sequence :: u32
  lr_result :: u32
  lr_x :: u16
  lr_y :: u16
  lr_width :: u16
  lr_height :: u16
  lr_reserved :: "u8 list"
  lr_commit :: u32

text \<open>The constants of the generated contract.\<close>

record lcd_contract =
  PICOCLAW_LCD_WIFI_POWER_OWNERSHIP_ADDRESS :: nat
  PICOCLAW_LCD_WIFI_POWER_REQUEST_MAGIC :: u32
  PICOCLAW_LCD_WIFI_POWER_COMPLETION_MAGIC :: u32
  PICOCLAW_LCD_SPI_ADDRESS :: nat
  PICOCLAW_LCD_GPIO_ADDRESS :: nat
  PICOCLAW_LCD_SPI_DIVIDER :: u32
  PICOCLAW_LCD_WIDTH :: u32
  PICOCLAW_LCD_HEIGHT :: u32
  PICOCLAW_LCD_FRAME_SLOT0_ADDRESS :: nat
  PICOCLAW_LCD_FRAME_SLOT_STRIDE :: u32
  PICOCLAW_LCD_OWNERSHIP0_ADDRESS :: nat
  PICOCLAW_LCD_OWNERSHIP_SIZE :: nat
  PICOCLAW_LCD_COMPLETION_OFFSET :: u32
  PICOCLAW_LCD_REQUEST_MAGIC :: u32
  PICOCLAW_LCD_COMPLETION_MAGIC :: u32
  PICOCLAW_LCD_RECORD_RESERVED_SIZE :: nat
  PICOCLAW_LCD_SHARED_PRECONDITIONS :: "(nat \<times> u32 \<times> u32) list"

datatype shared_event =
    Invalidate nat nat
  | Clean nat nat
  | ReadWifi nat wifi_record
  | WriteWifi nat wifi_record
  | ReadRequest nat lcd_record
  | WriteCompletion nat lcd_record
  | WriteCommit nat u32
  | WifiApplied bool "unit + unit"
  | Submitted nat lcd_record "unit + unit"
  | ReadPrecondition nat u32
  | SharedFence
  | Ticks u32
  | DelayTicks u32

text \<open>\<open>sw_react\<close> is what the rest of the system does on an access; \<open>sw_memory\<close> are the frame slots
  and \<open>sw_spi\<close>, \<open>sw_gpio\<close> the two controllers when the panel is created.\<close>

record ('w, 's, 'g) lcd_world =
  sw_read_wifi :: "nat \<Rightarrow> 'w \<Rightarrow> wifi_record \<times> 'w"
  sw_read_lcd :: "nat \<Rightarrow> 'w \<Rightarrow> lcd_record \<times> 'w"
  sw_read_word :: "nat \<Rightarrow> 'w \<Rightarrow> u32 \<times> 'w"
  sw_ticks :: "'w \<Rightarrow> u32 \<times> 'w"
  sw_react :: "shared_event \<Rightarrow> 'w \<Rightarrow> 'w"
  sw_memory :: "'w \<Rightarrow> nat \<Rightarrow> u8"
  sw_spi :: "'w \<Rightarrow> 's"
  sw_gpio :: "'w \<Rightarrow> 'g"

type_synonym ('d, 'w, 'a) shared_prog = "(('d \<times> 'w, shared_event) machine, unit, 'a) prog"

definition shared_do :: "('w, 's, 'g) lcd_world \<Rightarrow> shared_event \<Rightarrow> ('d, 'w, unit) shared_prog" where
  "shared_do wd ev = drive (\<lambda>(d, w). (d, sw_react wd ev w)) ev"

definition read_wifi :: "('w, 's, 'g) lcd_world \<Rightarrow> nat \<Rightarrow> ('d, 'w, wifi_record) shared_prog" where
  "read_wifi wd address =
     sense (\<lambda>(d, w). case sw_read_wifi wd address w of (r, w') \<Rightarrow> (r, (d, w'))) (ReadWifi address)"

definition read_lcd :: "('w, 's, 'g) lcd_world \<Rightarrow> nat \<Rightarrow> ('d, 'w, lcd_record) shared_prog" where
  "read_lcd wd address =
     sense (\<lambda>(d, w). case sw_read_lcd wd address w of (r, w') \<Rightarrow> (r, (d, w'))) (ReadRequest address)"

section \<open>The command\<close>

definition wifi_valid :: "lcd_contract \<Rightarrow> wifi_record \<Rightarrow> u32 \<Rightarrow> u32 \<Rightarrow> bool" where
  "wifi_valid k request generation completed \<longleftrightarrow> \<not> (
     generation = 0 \<or> wr_magic request \<noteq> PICOCLAW_LCD_WIFI_POWER_REQUEST_MAGIC k \<or>
     wr_generation request \<noteq> generation \<or> wr_sequence request \<le> completed \<or>
     wr_commit request \<noteq> wr_sequence request \<or> wr_enabled request > 1 \<or>
     wr_reserved request \<noteq> replicate 44 0)"

text \<open>\<open>process\<close> returns the response and the new value of \<open>completed\<close>.\<close>

definition wifi_process ::
    "('w, 's, 'g) lcd_world \<Rightarrow> lcd_contract \<Rightarrow> wifi_record \<Rightarrow> u32 \<Rightarrow> u32 \<Rightarrow>
     (bool \<Rightarrow> ('d, 'w, unit + unit) shared_prog) \<Rightarrow> ('d, 'w, wifi_record option \<times> u32) shared_prog" where
  "wifi_process wd k request generation completed app =
     (if \<not> wifi_valid k request generation completed then ok (None, completed)
      else bind (app (wr_enabled request \<noteq> 0)) (\<lambda>r.
        bind (shared_do wd (WifiApplied (wr_enabled request \<noteq> 0) r)) (\<lambda>_.
        ok (Some \<lparr>wr_magic = PICOCLAW_LCD_WIFI_POWER_COMPLETION_MAGIC k, wr_generation = generation,
             wr_sequence = wr_sequence request,
             wr_enabled = (if r = Inr () then wr_enabled request else - 1),
             wr_reserved = replicate 44 0, wr_commit = 0\<rparr>, wr_sequence request))))"

definition wifi_step ::
    "('w, 's, 'g) lcd_world \<Rightarrow> lcd_contract \<Rightarrow> u32 \<Rightarrow> u32 \<Rightarrow> (bool \<Rightarrow> ('d, 'w, unit + unit) shared_prog) \<Rightarrow>
     ('d, 'w, u32) shared_prog" where
  "wifi_step wd k generation completed app =
     (let address = PICOCLAW_LCD_WIFI_POWER_OWNERSHIP_ADDRESS k in
      bind (shared_do wd (Invalidate address 64)) (\<lambda>_.
      bind (read_wifi wd address) (\<lambda>first.
      bind (shared_do wd (Invalidate address 64)) (\<lambda>_.
      bind (read_wifi wd address) (\<lambda>second.
      if first \<noteq> second then ok completed
      else bind (wifi_process wd k first generation completed app) (\<lambda>(response, completed').
        case response of None \<Rightarrow> ok completed'
        | Some response \<Rightarrow>
          bind (shared_do wd (WriteWifi (address + 64) response)) (\<lambda>_.
          bind (shared_do wd (Clean (address + 64) 64)) (\<lambda>_.
          bind (shared_do wd (WriteCommit (address + 64 + 60) (wr_sequence response))) (\<lambda>_.
          bind (shared_do wd (Clean (address + 64) 64)) (\<lambda>_.
          ok completed'))))))))))"

section \<open>What a step does\<close>

lemma course_do: "Q (Inr ()) d [ev] \<Longrightarrow> course (shared_do wd ev) d Q"
  by (auto simp: course_def shared_do_def drive_def)

lemma course_read_wifi: "(\<And>r. Q (Inr r) d [ReadWifi a r]) \<Longrightarrow> course (read_wifi wd a) d Q"
  by (auto simp: course_def read_wifi_def sense_def split: prod.split)

lemma course_read_lcd: "(\<And>r. Q (Inr r) d [ReadRequest a r]) \<Longrightarrow> course (read_lcd wd a) d Q"
  by (auto simp: course_def read_lcd_def sense_def split: prod.split)

lemma course_bind_do:
  "course (f ()) d (\<lambda>x d' n. Q x d' (ev # n)) \<Longrightarrow> course (bind (shared_do wd ev) f) d Q"
  by (rule course_bind [OF course_do [where Q = "\<lambda>x d' n. d' = d \<and> x = Inr () \<and> n = [ev]"]]) auto

lemma course_bind_read_wifi:
  "(\<And>r. course (f r) d (\<lambda>x d' n. Q x d' (ReadWifi a r # n))) \<Longrightarrow> course (bind (read_wifi wd a) f) d Q"
  by (rule course_bind [OF course_read_wifi [where Q = "\<lambda>x d' n. d' = d \<and> (\<exists>r. x = Inr r \<and> n = [ReadWifi a r])"]]) auto

lemma course_bind_read_lcd:
  "(\<And>r. course (f r) d (\<lambda>x d' n. Q x d' (ReadRequest a r # n))) \<Longrightarrow> course (bind (read_lcd wd a) f) d Q"
  by (rule course_bind [OF course_read_lcd [where Q = "\<lambda>x d' n. d' = d \<and> (\<exists>r. x = Inr r \<and> n = [ReadRequest a r])"]]) auto

lemmas shared_steps = course_bind_do course_bind_read_wifi course_bind_read_lcd

text \<open>The accesses of a step: two reads, and for a valid command its application and the answer.\<close>

definition wifi_reads :: "lcd_contract \<Rightarrow> wifi_record \<Rightarrow> wifi_record \<Rightarrow> shared_event list" where
  "wifi_reads k first second = (let a = PICOCLAW_LCD_WIFI_POWER_OWNERSHIP_ADDRESS k in
     [Invalidate a 64, ReadWifi a first, Invalidate a 64, ReadWifi a second])"

definition wifi_answer :: "lcd_contract \<Rightarrow> wifi_record \<Rightarrow> unit + unit \<Rightarrow> shared_event list" where
  "wifi_answer k request r = (let a = PICOCLAW_LCD_WIFI_POWER_OWNERSHIP_ADDRESS k + 64 in
     [WifiApplied (wr_enabled request \<noteq> 0) r,
      WriteWifi a \<lparr>wr_magic = PICOCLAW_LCD_WIFI_POWER_COMPLETION_MAGIC k,
        wr_generation = wr_generation request, wr_sequence = wr_sequence request,
        wr_enabled = (if r = Inr () then wr_enabled request else - 1),
        wr_reserved = replicate 44 0, wr_commit = 0\<rparr>,
      Clean a 64, WriteCommit (a + 60) (wr_sequence request), Clean a 64])"

definition wifi_spec :: "lcd_contract \<Rightarrow> u32 \<Rightarrow> u32 \<Rightarrow> u32 \<Rightarrow> shared_event list \<Rightarrow> bool" where
  "wifi_spec k generation completed completed' log \<longleftrightarrow> (\<exists>first second.
     if first = second \<and> wifi_valid k first generation completed
     then \<exists>r. log = wifi_reads k first first @ wifi_answer k first r \<and> completed' = wr_sequence first
     else log = wifi_reads k first second \<and> completed' = completed)"

lemma wifi_spec_idle:
  "\<not> (first = second \<and> wifi_valid k first generation completed) \<Longrightarrow>
   wifi_spec k generation completed completed (wifi_reads k first second)"
  unfolding wifi_spec_def by (rule exI [of _ first], rule exI [of _ second]) auto

lemma wifi_spec_answer:
  "wifi_valid k first generation completed \<Longrightarrow>
   wifi_spec k generation completed (wr_sequence first) (wifi_reads k first first @ wifi_answer k first r)"
  unfolding wifi_spec_def by (rule exI [of _ first], rule exI [of _ first]) auto

lemma course_wifi_step:
  assumes "\<And>b. course (app b) d (\<lambda>x d' n. n = [] \<and> (\<exists>r. x = Inr r) \<and> P d')" "P d"
  shows "course (wifi_step wd k generation completed app) d
    (\<lambda>x d' log. \<exists>c. x = Inr c \<and> wifi_spec k generation completed c log \<and> P d')"
  unfolding wifi_step_def Let_def
proof (intro shared_steps course_if, goal_cases)
  case (1 first second)
  with assms(2) show ?case
    using wifi_spec_idle [of first second k generation completed] by (simp add: wifi_reads_def Let_def)
next
  case (2 first second)
  then have same: "second = first" by simp
  show ?case
  proof (cases "wifi_valid k first generation completed")
    case True
    then have g: "wr_generation first = generation" by (simp add: wifi_valid_def)
    then show ?thesis
      using wifi_spec_answer [OF True]
      by (auto simp: True same wifi_process_def bind_assoc wifi_reads_def wifi_answer_def Let_def g intro!: course_bind [OF assms(1)] shared_steps)
  next
    case False
    with assms(2) show ?thesis
      using wifi_spec_idle [of first first k generation completed] same by (simp add: wifi_process_def wifi_reads_def Let_def)
  qed
qed

section \<open>Runs\<close>

primrec wifi_steps ::
    "('w, 's, 'g) lcd_world \<Rightarrow> lcd_contract \<Rightarrow> u32 \<Rightarrow> (bool \<Rightarrow> ('d, 'w, unit + unit) shared_prog) \<Rightarrow> nat \<Rightarrow> u32 \<Rightarrow>
     ('d, 'w, u32) shared_prog" where
  "wifi_steps wd k generation app 0 completed = ok completed"
| "wifi_steps wd k generation app (Suc n) completed =
     bind (wifi_step wd k generation completed app) (\<lambda>c. wifi_steps wd k generation app n c)"

text \<open>The answers given, as sequence and reported level, and the applications made, with their results.\<close>

fun wifi_answers :: "shared_event list \<Rightarrow> (u32 \<times> u32) list" where
  "wifi_answers [] = []"
| "wifi_answers (WriteWifi a r # log) = (wr_sequence r, wr_enabled r) # wifi_answers log"
| "wifi_answers (_ # log) = wifi_answers log"

fun wifi_applied :: "shared_event list \<Rightarrow> (bool \<times> (unit + unit)) list" where
  "wifi_applied [] = []"
| "wifi_applied (WifiApplied b r # log) = (b, r) # wifi_applied log"
| "wifi_applied (_ # log) = wifi_applied log"

fun wifi_level :: "bool \<times> (unit + unit) \<Rightarrow> u32" where
  "wifi_level (b, Inr _) = (if b then 1 else 0)"
| "wifi_level (b, Inl _) = - 1"

lemma wifi_append:
  "wifi_answers (l @ l') = wifi_answers l @ wifi_answers l'"
  "wifi_applied (l @ l') = wifi_applied l @ wifi_applied l'"
  by (induction l rule: wifi_answers.induct) simp_all

definition wifi_history :: "u32 \<Rightarrow> u32 \<Rightarrow> shared_event list \<Rightarrow> bool" where
  "wifi_history completed c log \<longleftrightarrow> sorted_wrt (<) (completed # map fst (wifi_answers log)) \<and>
     c = last (completed # map fst (wifi_answers log)) \<and>
     map snd (wifi_answers log) = map wifi_level (wifi_applied log)"

lemma wifi_spec_history:
  assumes "wifi_spec k generation completed c log"
  shows "wifi_history completed c log"
proof -
  have reads: "wifi_history a c (wifi_reads k x y @ l) = wifi_history a c l" for a c x y l
    by (simp add: wifi_reads_def wifi_history_def Let_def)
  have answer: "wifi_history completed (wr_sequence q) (wifi_answer k q r)" if "wifi_valid k q generation completed" for q r
  proof -
    have "completed < wr_sequence q" "wr_enabled q \<le> 1" using that by (auto simp: wifi_valid_def)
    moreover from this(2) have "wr_enabled q = 0 \<or> wr_enabled q = 1"
      by (simp add: word_le_nat_alt le_Suc_eq unat_eq_0) (metis unat_1 word_unat_eq_iff One_nat_def)
    ultimately show ?thesis
      by (cases r) (auto simp: wifi_history_def wifi_answer_def Let_def)
  qed
  from assms obtain first second where sp: "if first = second \<and> wifi_valid k first generation completed
      then \<exists>r. log = wifi_reads k first first @ wifi_answer k first r \<and> c = wr_sequence first
      else log = wifi_reads k first second \<and> c = completed"
    unfolding wifi_spec_def by blast
  show ?thesis
  proof (cases "first = second \<and> wifi_valid k first generation completed")
    case True
    with sp obtain r where "log = wifi_reads k first first @ wifi_answer k first r" "c = wr_sequence first" by auto
    with answer [of first r] conjunct2 [OF True] show ?thesis by (simp only: reads)
  next
    case False
    with sp have "log = wifi_reads k first second @ []" "c = completed" by (simp_all split: if_splits)
    then show ?thesis by (simp only: reads) (simp add: wifi_history_def)
  qed
qed

lemma le_last: "sorted_wrt (<) xs \<Longrightarrow> x \<in> set xs \<Longrightarrow> x \<le> last xs" for x :: u32
  by (induction xs) (auto intro: less_imp_le)

lemma wifi_history_trans:
  assumes "wifi_history a b l" "wifi_history b c l'"
  shows "wifi_history a c (l @ l')"
proof -
  let ?x = "map fst (wifi_answers l)" and ?y = "map fst (wifi_answers l')"
  have b: "b = last (a # ?x)" "sorted_wrt (<) (a # ?x)" "sorted_wrt (<) (b # ?y)" "c = last (b # ?y)"
    using assms by (simp_all only: wifi_history_def)
  have "x \<le> b" if "x \<in> set (a # ?x)" for x
    using le_last [OF b(2) that] b(1) by simp
  moreover have y: "\<forall>y\<in>set ?y. b < y" "sorted_wrt (<) ?y" using b(3) unfolding sorted_wrt.simps by blast+
  ultimately have "\<forall>x\<in>set (a # ?x). \<forall>y\<in>set ?y. x < y" by (meson le_less_trans)
  then have "sorted_wrt (<) ((a # ?x) @ ?y)" using b(2) y(2) by (simp only: sorted_wrt_append)
  moreover have "c = last ((a # ?x) @ ?y)" using b(1,4) by (cases "?y = []") auto
  ultimately show ?thesis using assms by (simp add: wifi_history_def wifi_append)
qed

lemma course_wifi_steps:
  assumes "\<And>b d. course (app b) d (\<lambda>x d' n. n = [] \<and> (\<exists>r. x = Inr r))"
  shows "course (wifi_steps wd k generation app n completed) d
    (\<lambda>x d' log. \<exists>c. x = Inr c \<and> wifi_history completed c log)"
proof (induction n arbitrary: completed d)
  case 0
  then show ?case by (simp add: wifi_history_def)
next
  case (Suc n)
  have "course (wifi_step wd k generation completed app) d
      (\<lambda>x d' log. \<exists>c. x = Inr c \<and> wifi_history completed c log)"
    by (rule course_mono [OF course_wifi_step [where P = "\<lambda>_. True"]]) (use assms wifi_spec_history in \<open>auto intro: course_mono\<close>)
  then show ?case
    unfolding wifi_steps.simps
  proof (rule course_bind, goal_cases)
    case (1 c d' l)
    then have h: "wifi_history completed c l" by simp
    show ?case by (rule course_mono [OF Suc.IH]) (auto intro: wifi_history_trans [OF h])
  qed auto
qed

section \<open>Properties\<close>

text \<open>C21: Wi-Fi power commands take effect at most once and in order. Whatever Linux writes to the request
  record, torn or repeated requests included, any number of service steps answers strictly
  increasing sequence numbers above the last one completed; the answers correspond one to one to
  the applications of a command, and each reports the level that was applied, or all ones when
  the application failed; the last answered sequence is what the service remembers.\<close>

theorem wifi_commands_once:
  assumes "\<And>b d. course (app b) d (\<lambda>x d' n. n = [] \<and> (\<exists>r. x = Inr r))"
  shows "\<exists>c m' new. wifi_steps wd k generation app n completed m = Some (Inr c, m') \<and> m_log m' = m_log m @ new \<and>
    sorted_wrt (<) (completed # map fst (wifi_answers new)) \<and> c = last (completed # map fst (wifi_answers new)) \<and>
    map snd (wifi_answers new) = map wifi_level (wifi_applied new)"
proof (rule course_runE [OF course_wifi_steps [where app = app and wd = wd and k = k and generation = generation
        and n = n and completed = completed], of m], goal_cases)
  case (2 r m' new)
  then show ?case unfolding wifi_history_def by blast
qed (rule assms)

text \<open>A world in which Linux asks for power on with sequence 1.\<close>

definition power_on :: wifi_record where
  "power_on = \<lparr>wr_magic = 827347799, wr_generation = 7, wr_sequence = 1, wr_enabled = 1,
     wr_reserved = replicate 44 0, wr_commit = 1\<rparr>"

definition still_world :: "(unit, unit, nat \<Rightarrow> u32) lcd_world" where
  "still_world = \<lparr>sw_read_wifi = (\<lambda>a w. (power_on, w)),
     sw_read_lcd = (\<lambda>a w. (\<lparr>lr_magic = 0, lr_generation = 0, lr_sequence = 0, lr_result = 0, lr_x = 0, lr_y = 0,
       lr_width = 0, lr_height = 0, lr_reserved = [], lr_commit = 0\<rparr>, w)),
     sw_read_word = (\<lambda>a w. (0, w)), sw_ticks = (\<lambda>w. (0, w)), sw_react = (\<lambda>ev w. w), sw_memory = (\<lambda>w a. 0), sw_spi = (\<lambda>w. ()),
     sw_gpio = (\<lambda>w a. 0)\<rparr>"

text \<open>The constants of the PicoClaw profile, with the values of the contract.\<close>

definition picoclaw_contract :: lcd_contract where
  "picoclaw_contract =
    \<lparr>PICOCLAW_LCD_WIFI_POWER_OWNERSHIP_ADDRESS = 2415198464,
     PICOCLAW_LCD_WIFI_POWER_REQUEST_MAGIC = 827347799,
     PICOCLAW_LCD_WIFI_POWER_COMPLETION_MAGIC = 827347779,
     PICOCLAW_LCD_SPI_ADDRESS = 68747264, PICOCLAW_LCD_GPIO_ADDRESS = 50462720, PICOCLAW_LCD_SPI_DIVIDER = 4,
     PICOCLAW_LCD_WIDTH = 240, PICOCLAW_LCD_HEIGHT = 240,
     PICOCLAW_LCD_FRAME_SLOT0_ADDRESS = 2415202304, PICOCLAW_LCD_FRAME_SLOT_STRIDE = 118784,
     PICOCLAW_LCD_OWNERSHIP0_ADDRESS = 2415198208, PICOCLAW_LCD_OWNERSHIP_SIZE = 128,
     PICOCLAW_LCD_COMPLETION_OFFSET = 64, PICOCLAW_LCD_REQUEST_MAGIC = 826688076,
     PICOCLAW_LCD_COMPLETION_MAGIC = 826688067, PICOCLAW_LCD_RECORD_RESERVED_SIZE = 36,
     PICOCLAW_LCD_SHARED_PRECONDITIONS =
      [(0x3009804, 0x1, 0x1), (0x3009808, 0x1f, 0x1), (0x3009800, 0x4, 0x4),
       (0x300907c, 0x1f00, 0x500), (0x3009078, 0xfff, 0xf00), (0x3009074, 0x606, 0x606),
       (0x3009070, 0x606, 0x606), (0x3001124, 0x7, 0x6), (0x3001128, 0x7, 0x6),
       (0x300112c, 0x7, 0x6), (0x3001130, 0x7, 0x6), (0x3001058, 0x7, 0x3),
       (0x3001070, 0x7, 0x3), (0x300104c, 0x7, 0x3)]\<rparr>"

theorem wifi_commands_once_witness:
  "\<exists>c m' new. wifi_steps still_world picoclaw_contract 7 (\<lambda>b. ok (Inr ())) 3 0 \<lparr>m_hw = ((), ()), m_log = []\<rparr> =
     Some (Inr c, m') \<and> m_log m' = [] @ new \<and>
    sorted_wrt (<) (0 # map fst (wifi_answers new)) \<and> c = last (0 # map fst (wifi_answers new)) \<and>
    map snd (wifi_answers new) = map wifi_level (wifi_applied new)"
  using wifi_commands_once [of "\<lambda>b. ok (Inr ())" still_world picoclaw_contract 7 3 0 "\<lparr>m_hw = ((), ()), m_log = []\<rparr>"]
  by (simp only: course_ok machine.select_convs) blast

end
