(* ===== verification/Lcd_Service.thy ===== *)
theory Lcd_Service
  imports Lcd_Panel Wifi_Power
begin

text \<open>
  The framebuffer service (firmware/sg2002-c906l/src/lcd_service.rs): the scanout task that owns the
  panel, takes frame requests from two slots of shared memory and publishes their completion, the
  authorization by the control task, and the status reply of the RPMsg task. The task's state is
  the driver half of the machine: the statics of the module, which the other tasks read, and the
  service object with its panel.

  Shown: the service never panics; a frame is submitted to the panel only after two identical reads
  of a well-formed request and while no frame is outstanding, and is answered by exactly one
  completion for the same slot and sequence, published on the next step of the task, success
  exactly when the panel has not faulted; the status reply carries the last published snapshot.
\<close>

section \<open>State\<close>

record lcd_statics =
  AUTHORIZED :: bool
  FAULTED :: bool
  GENERATION :: u32
  SNAPSHOT_STATE :: u32
  SNAPSHOT_FRAMES :: u32
  SNAPSHOT_COMPLETED0 :: u32
  SNAPSHOT_COMPLETED1 :: u32

definition lcd_statics_initial :: lcd_statics where
  "lcd_statics_initial = \<lparr>AUTHORIZED = False, FAULTED = False, GENERATION = 0, SNAPSHOT_STATE = 0,
     SNAPSHOT_FRAMES = 0, SNAPSHOT_COMPLETED0 = 0, SNAPSHOT_COMPLETED1 = 0\<rparr>"

record ('s, 'g) service =
  sv_panel :: "('s, 'g) panel option"
  initialized :: bool
  sv_generation :: u32
  completed :: "u32 list"
  active :: "(nat \<times> u32 \<times> u32) option"
  job_sequence :: u32
  next_slot :: nat
  frames :: u32
  wifi_completed :: u32

definition service_new :: "('s, 'g) service" where
  "service_new = \<lparr>sv_panel = None, initialized = False, sv_generation = 0, completed = [0, 0], active = None,
     job_sequence = 0, next_slot = 0, frames = 0, wifi_completed = 0\<rparr>"

type_synonym ('s, 'g) task = "lcd_statics \<times> ('s, 'g) service"
type_synonym ('s, 'g, 'w, 'a) service_prog = "(('s, 'g) task, 'w, 'a) shared_prog"

definition set_statics :: "(lcd_statics \<Rightarrow> lcd_statics) \<Rightarrow> ('s, 'g, 'w, unit) service_prog" where
  "set_statics f = bind self (\<lambda>(st, sv). set_self (f st, sv))"

definition set_service :: "(('s, 'g) service \<Rightarrow> ('s, 'g) service) \<Rightarrow> ('s, 'g, 'w, unit) service_prog" where
  "set_service f = bind self (\<lambda>(st, sv). set_self (st, f sv))"

section \<open>Authorization\<close>

definition initialize_generation :: "u32 \<Rightarrow> ('s, 'g, 'w, unit) service_prog" where
  "initialize_generation generation = set_statics (\<lambda>st. st\<lparr>GENERATION := generation\<rparr>)"

definition read_word :: "('w, 's, 'g) lcd_world \<Rightarrow> nat \<Rightarrow> ('d, 'w, u32) shared_prog" where
  "read_word wd address =
     sense (\<lambda>(d, w). case sw_read_word wd address w of (v, w') \<Rightarrow> (v, (d, w'))) (ReadPrecondition address)"

primrec preconditions :: "('w, 's, 'g) lcd_world \<Rightarrow> (nat \<times> u32 \<times> u32) list \<Rightarrow> ('d, 'w, bool) shared_prog" where
  "preconditions wd [] = ok True"
| "preconditions wd (c # cs) = (case c of (address, msk, expected) \<Rightarrow>
     bind (shared_do wd SharedFence) (\<lambda>_.
     bind (read_word wd address) (\<lambda>v.
     if v AND msk \<noteq> expected then ok False else preconditions wd cs)))"

definition authorize ::
    "('w, 's, 'g) lcd_world \<Rightarrow> lcd_contract \<Rightarrow> ('s, 'g, 'w, unit + unit) service_prog" where
  "authorize wd k = bind self (\<lambda>(st, sv).
     if GENERATION st = 0 then ok (Inl ())
     else bind (preconditions wd (PICOCLAW_LCD_SHARED_PRECONDITIONS k)) (\<lambda>holds.
       if \<not> holds then ok (Inl ())
       else bind (set_statics (\<lambda>st. st\<lparr>AUTHORIZED := True\<rparr>)) (\<lambda>_. ok (Inr ()))))"

definition faulted :: "lcd_statics \<Rightarrow> bool" where
  "faulted st = FAULTED st"

section \<open>Requests and completions\<close>

definition valid_request :: "lcd_contract \<Rightarrow> lcd_record \<Rightarrow> u32 \<Rightarrow> u32 \<Rightarrow> bool" where
  "valid_request k record generation finished =
     (let width = ucast (lr_width record) :: u32; height = ucast (lr_height record) :: u32 in
      lr_magic record = PICOCLAW_LCD_REQUEST_MAGIC k \<and>
      lr_generation record = generation \<and>
      lr_sequence record \<noteq> 0 \<and>
      lr_sequence record \<noteq> finished \<and>
      lr_commit record = lr_sequence record \<and>
      width \<noteq> 0 \<and>
      height \<noteq> 0 \<and>
      ucast (lr_x record) + width \<le> PICOCLAW_LCD_WIDTH k \<and>
      ucast (lr_y record) + height \<le> PICOCLAW_LCD_HEIGHT k \<and>
      lr_result record = width * height * 2 \<and>
      lr_reserved record = replicate (PICOCLAW_LCD_RECORD_RESERVED_SIZE k) 0)"

definition request_address :: "lcd_contract \<Rightarrow> nat \<Rightarrow> nat" where
  "request_address k slot = PICOCLAW_LCD_OWNERSHIP0_ADDRESS k + slot * PICOCLAW_LCD_OWNERSHIP_SIZE k"

definition request ::
    "('w, 's, 'g) lcd_world \<Rightarrow> lcd_contract \<Rightarrow> nat \<Rightarrow> u32 \<Rightarrow> u32 \<Rightarrow> ('d, 'w, lcd_record option) shared_prog" where
  "request wd k slot generation finished =
     (let address = request_address k slot in
      bind (shared_do wd (Invalidate address 64)) (\<lambda>_.
      bind (read_lcd wd address) (\<lambda>first.
      bind (shared_do wd (Invalidate address 64)) (\<lambda>_.
      bind (read_lcd wd address) (\<lambda>second.
      ok (if first = second \<and> valid_request k first generation finished then Some first else None))))))"

definition completion_address :: "lcd_contract \<Rightarrow> nat \<Rightarrow> nat" where
  "completion_address k slot = PICOCLAW_LCD_OWNERSHIP0_ADDRESS k + slot * PICOCLAW_LCD_OWNERSHIP_SIZE k +
     unat (PICOCLAW_LCD_COMPLETION_OFFSET k)"

definition completion_record :: "lcd_contract \<Rightarrow> u32 \<Rightarrow> u32 \<Rightarrow> u32 \<Rightarrow> lcd_record" where
  "completion_record k generation sequence error =
     \<lparr>lr_magic = PICOCLAW_LCD_COMPLETION_MAGIC k, lr_generation = generation, lr_sequence = sequence,
      lr_result = error, lr_x = 0, lr_y = 0, lr_width = 0, lr_height = 0,
      lr_reserved = replicate (PICOCLAW_LCD_RECORD_RESERVED_SIZE k) 0, lr_commit = 0\<rparr>"

definition service_complete ::
    "('w, 's, 'g) lcd_world \<Rightarrow> lcd_contract \<Rightarrow> nat \<Rightarrow> u32 \<Rightarrow> u32 \<Rightarrow> u32 \<Rightarrow> ('d, 'w, unit) shared_prog" where
  "service_complete wd k slot generation sequence error =
     (let address = completion_address k slot in
      bind (shared_do wd (WriteCompletion address (completion_record k generation sequence error))) (\<lambda>_.
      bind (shared_do wd (Clean address 64)) (\<lambda>_.
      bind (shared_do wd (WriteCommit (address + 60) sequence)) (\<lambda>_.
      shared_do wd (Clean address 64)))))"

section \<open>The scanout step\<close>

text \<open>A method of the panel; it sees the frame slots as they are now.\<close>

definition on_panel ::
    "('w, 's, 'g) lcd_world \<Rightarrow> (('s, 'g) panel, lcd_error, 'a) prog \<Rightarrow> ('s, 'g, 'w, lcd_error + 'a) service_prog" where
  "on_panel wd prog m = (case m_hw m of ((st, sv), w) \<Rightarrow>
     (case sv_panel sv of None \<Rightarrow> None
      | Some p \<Rightarrow> (case prog (p\<lparr>m_hw := (fst (m_hw p), (snd (m_hw p))\<lparr>hd_memory := sw_memory wd w\<rparr>)\<rparr>) of
          None \<Rightarrow> None
        | Some (r, p') \<Rightarrow> Some (Inr r, m\<lparr>m_hw := ((st, sv\<lparr>sv_panel := Some p'\<rparr>), w)\<rparr>))))"

definition panel_config :: "lcd_contract \<Rightarrow> lcd_config" where
  "panel_config k = \<lparr>spi_base = PICOCLAW_LCD_SPI_ADDRESS k, gpio_base = PICOCLAW_LCD_GPIO_ADDRESS k,
     cfg_divider = ucast (PICOCLAW_LCD_SPI_DIVIDER k), poll_budget = 100000,
     framebuffer_base = PICOCLAW_LCD_FRAME_SLOT0_ADDRESS k,
     framebuffer_stride = unat (PICOCLAW_LCD_FRAME_SLOT_STRIDE k)\<rparr>"

definition create_panel ::
    "('w, 's, 'g) lcd_world \<Rightarrow> lcd_contract \<Rightarrow> 's pac_hw \<Rightarrow> 'g pac_hw \<Rightarrow> ('s, 'g, 'w, lcd_error + unit) service_prog" where
  "create_panel wd k spi gpio m = (case m_hw m of ((st, sv), w) \<Rightarrow>
     (case panel_new spi gpio (panel_config k) (sw_spi wd w) (sw_gpio wd w) (sw_memory wd w) of None \<Rightarrow> None
      | Some (Inl x) \<Rightarrow> Some (Inr (Inl x), m)
      | Some (Inr p) \<Rightarrow> Some (Inr (Inr ()), m\<lparr>m_hw := ((st, sv\<lparr>sv_panel := Some p\<rparr>), w)\<rparr>)))"

text \<open>The first authorized step creates the panel; \<open>False\<close> means that \<open>step\<close> returns.\<close>

definition service_init ::
    "('w, 's, 'g) lcd_world \<Rightarrow> lcd_contract \<Rightarrow> 's pac_hw \<Rightarrow> 'g pac_hw \<Rightarrow> ('s, 'g, 'w, bool) service_prog" where
  "service_init wd k spi gpio = bind self (\<lambda>(st, sv).
     if initialized sv then ok True
     else bind (set_self (st, sv\<lparr>initialized := True, sv_generation := GENERATION st\<rparr>)) (\<lambda>_.
       bind (create_panel wd k spi gpio) (\<lambda>r. case r of
         Inr _ \<Rightarrow> ok True
       | Inl _ \<Rightarrow> bind (set_statics (\<lambda>st. st\<lparr>FAULTED := True\<rparr>)) (\<lambda>_. ok False))))"

definition service_wifi ::
    "('w, 's, 'g) lcd_world \<Rightarrow> lcd_contract \<Rightarrow> 'g pac_hw \<Rightarrow> ('s, 'g, 'w, unit) service_prog" where
  "service_wifi wd k gpio = bind self (\<lambda>(st, sv).
     bind (wifi_step wd k (sv_generation sv) (wifi_completed sv)
       (\<lambda>enabled. bind (on_panel wd (panel_wifi_power gpio enabled)) (\<lambda>r. ok (map_sum (\<lambda>_. ()) id r)))) (\<lambda>c.
     set_service (\<lambda>sv. sv\<lparr>wifi_completed := c\<rparr>)))"

text \<open>Publication of the completion of the active frame; indexing past the two slots panics.\<close>

definition service_settle ::
    "('w, 's, 'g) lcd_world \<Rightarrow> lcd_contract \<Rightarrow> lcd_status \<Rightarrow> ('s, 'g, 'w, unit) service_prog" where
  "service_settle wd k status = bind self (\<lambda>(st, sv).
     case active sv of None \<Rightarrow> ok ()
     | Some (slot, sequence, job) \<Rightarrow>
       if ls_state status = Fault \<or> completed_sequence status = job
       then let error = (if ls_state status = Fault then 1 else 0) in
         bind (service_complete wd k slot (sv_generation sv) sequence error) (\<lambda>_.
         if slot < length (completed sv)
         then set_service (\<lambda>sv. sv\<lparr>completed := (completed sv)[slot := sequence], active := None,
           next_slot := slot XOR 1, frames := (if error = 0 then frames sv + 1 else frames sv)\<rparr>)
         else panic)
       else ok ())"

definition frame_job :: "nat \<Rightarrow> lcd_record \<Rightarrow> job" where
  "frame_job slot record = FrameJob (of_nat slot) (lr_x record) (lr_y record) (lr_width record) (lr_height record)"

definition submit_frame ::
    "('w, 's, 'g) lcd_world \<Rightarrow> lcd_contract \<Rightarrow> nat \<Rightarrow> lcd_record \<Rightarrow> ('s, 'g, 'w, unit) service_prog" where
  "submit_frame wd k slot record =
     (let address = PICOCLAW_LCD_FRAME_SLOT0_ADDRESS k + slot * unat (PICOCLAW_LCD_FRAME_SLOT_STRIDE k) in
      bind (shared_do wd (Invalidate address (unat (lr_width record) * unat (lr_height record) * 2))) (\<lambda>_.
      bind (set_service (\<lambda>sv. sv\<lparr>job_sequence := max (job_sequence sv + 1) 1\<rparr>)) (\<lambda>_.
      bind self (\<lambda>(st, sv).
      bind (on_panel wd (panel_submit (job_sequence sv) (frame_job slot record))) (\<lambda>r.
      bind (shared_do wd (Submitted slot record (map_sum (\<lambda>_. ()) id r))) (\<lambda>_.
      case r of
        Inl _ \<Rightarrow> bind (service_complete wd k slot (sv_generation sv) (lr_sequence record) 1) (\<lambda>_.
          bind (set_service (\<lambda>sv. sv\<lparr>completed := (completed sv)[slot := lr_sequence record]\<rparr>)) (\<lambda>_.
          set_statics (\<lambda>st. st\<lparr>FAULTED := True\<rparr>)))
      | Inr _ \<Rightarrow> set_service (\<lambda>sv. sv\<lparr>active := Some (slot, lr_sequence record, job_sequence sv)\<rparr>)))))))"

primrec service_admit :: "('w, 's, 'g) lcd_world \<Rightarrow> lcd_contract \<Rightarrow> nat list \<Rightarrow> ('s, 'g, 'w, unit) service_prog" where
  "service_admit wd k [] = ok ()"
| "service_admit wd k (slot # slots) = bind self (\<lambda>(st, sv).
     if slot < length (completed sv)
     then bind (request wd k slot (sv_generation sv) (completed sv ! slot)) (\<lambda>r. case r of
         None \<Rightarrow> service_admit wd k slots
       | Some record \<Rightarrow> submit_frame wd k slot record)
     else panic)"

text \<open>From the panel's step to the end of \<open>Service::step\<close>.\<close>

definition service_finish ::
    "('w, 's, 'g) lcd_world \<Rightarrow> lcd_contract \<Rightarrow> lcd_status \<Rightarrow> ('s, 'g, 'w, unit) service_prog" where
  "service_finish wd k status =
     bind (service_settle wd k status) (\<lambda>_.
     if ls_state status = Fault then set_statics (\<lambda>st. st\<lparr>FAULTED := True\<rparr>)
     else bind self (\<lambda>(st, sv).
       if active sv \<noteq> None \<or> ls_state status \<noteq> Ready then ok ()
       else service_admit wd k [next_slot sv, next_slot sv XOR 1]))"

definition service_step ::
    "('w, 's, 'g) lcd_world \<Rightarrow> lcd_contract \<Rightarrow> 's pac_hw \<Rightarrow> 'g pac_hw \<Rightarrow> u32 \<Rightarrow> ('s, 'g, 'w, unit) service_prog" where
  "service_step wd k spi gpio now = bind self (\<lambda>(st, sv).
     if FAULTED st then ok ()
     else if \<not> AUTHORIZED st then ok ()
     else bind (service_init wd k spi gpio) (\<lambda>going.
       if \<not> going then ok ()
       else bind self (\<lambda>(st, sv). case sv_panel sv of None \<Rightarrow> ok ()
       | Some _ \<Rightarrow>
         bind (service_wifi wd k gpio) (\<lambda>_.
         bind (on_panel wd (panel_step spi gpio now)) (\<lambda>_.
         bind self (\<lambda>(st, sv). case sv_panel sv of None \<Rightarrow> ok ()
         | Some p \<Rightarrow> service_finish wd k (panel_status p)))))))"

section \<open>The task loop and the status reply\<close>

definition panel_state :: "('s, 'g) service \<Rightarrow> lcd_state option" where
  "panel_state sv = map_option (\<lambda>p. ls_state (panel_status p)) (sv_panel sv)"

definition working :: "('s, 'g) service \<Rightarrow> bool" where
  "working sv \<longleftrightarrow> active sv \<noteq> None \<or> \<not> (panel_state sv = None \<or> panel_state sv = Some Ready)"

definition snapshot_state :: "lcd_state option \<Rightarrow> u32" where
  "snapshot_state s = (case s of None \<Rightarrow> 0 | Some Initializing \<Rightarrow> 1 | Some Ready \<Rightarrow> 2 | Some Busy \<Rightarrow> 3 | Some Fault \<Rightarrow> 4)"

definition publish_snapshot :: "('s, 'g, 'w, unit) service_prog" where
  "publish_snapshot = bind self (\<lambda>(st, sv).
     if length (completed sv) < 2 then panic
     else set_self (st\<lparr>SNAPSHOT_STATE := snapshot_state (panel_state sv), SNAPSHOT_FRAMES := frames sv,
       SNAPSHOT_COMPLETED0 := completed sv ! 0, SNAPSHOT_COMPLETED1 := completed sv ! 1\<rparr>, sv))"

definition ACTIVE_SPIN_TICKS :: u32 where "ACTIVE_SPIN_TICKS = 200"

definition c906l_ticks :: "('w, 's, 'g) lcd_world \<Rightarrow> ('d, 'w, u32) shared_prog" where
  "c906l_ticks wd = sense (\<lambda>(d, w). case sw_ticks wd w of (v, w') \<Rightarrow> (v, (d, w'))) Ticks"

text \<open>\<open>n\<close> rounds of the loop of \<open>run\<close>; the result is \<open>last_work\<close>.\<close>

primrec lcd_run ::
    "('w, 's, 'g) lcd_world \<Rightarrow> lcd_contract \<Rightarrow> 's pac_hw \<Rightarrow> 'g pac_hw \<Rightarrow> nat \<Rightarrow> u32 \<Rightarrow> ('s, 'g, 'w, u32) service_prog" where
  "lcd_run wd k spi gpio 0 last_work = ok last_work"
| "lcd_run wd k spi gpio (Suc n) last_work =
     bind (c906l_ticks wd) (\<lambda>now.
     bind (service_step wd k spi gpio now) (\<lambda>_.
     bind publish_snapshot (\<lambda>_.
     bind self (\<lambda>(st, sv).
     let last_work = (if working sv then now else last_work);
         ticks = (if now - last_work \<ge> ACTIVE_SPIN_TICKS then 1 else 0) in
     bind (shared_do wd (DelayTicks ticks)) (\<lambda>_.
     lcd_run wd k spi gpio n last_work)))))"

definition reply_valid :: "lcd_statics \<Rightarrow> u8 list \<Rightarrow> bool" where
  "reply_valid st payload \<longleftrightarrow> length payload = 8 \<and> slice 0 4 payload = [0x4c, 0x43, 0x51, 0x31] \<and>
     from_le (slice 4 4 payload) = GENERATION st"

definition reply :: "lcd_statics \<Rightarrow> u8 list \<Rightarrow> u8 list" where
  "reply st payload = fold (\<lambda>(offset, value :: u32). splice offset (to_le 4 value))
     [(4, GENERATION st), (8, SNAPSHOT_STATE st), (12, SNAPSHOT_FRAMES st), (16, SNAPSHOT_COMPLETED0 st),
      (20, SNAPSHOT_COMPLETED1 st), (24, if faulted st then 1 else 0), (28, if reply_valid st payload then 0 else 1)]
     (splice 0 [0x4c, 0x43, 0x53, 0x31] (replicate 32 0))"

section \<open>What the engine keeps\<close>

text \<open>The last accepted job, and that no drawing starts by itself.\<close>

definition admission :: "u32 \<Rightarrow> bool \<Rightarrow> engine \<Rightarrow> bool" where
  "admission a idle e \<longleftrightarrow> accepted_sequence (en_status e) = a \<and> (idle \<longrightarrow> (\<forall>r. en_phase e \<noteq> Draw r))"

definition on_engine :: "(engine \<Rightarrow> bool) \<Rightarrow> (engine \<times> 'h, 'ev) machine \<Rightarrow> bool" where
  "on_engine P m \<longleftrightarrow> P (fst (m_hw m))"

lemma keeps_engine_call: "keeps (on_engine P) (call io c)"
  by (auto simp: keeps_def on_engine_def call_def split: option.splits)

lemma keeps_engine_self: "(\<And>e. P e \<Longrightarrow> keeps (on_engine P) (f e)) \<Longrightarrow> keeps (on_engine P) (bind self f)"
  by (auto simp: keeps_def on_engine_def bind_def self_def)

lemma keeps_engine_set: "P e \<Longrightarrow> keeps (on_engine P) (set_self e)"
  by (auto simp: keeps_def on_engine_def set_self_def)

lemmas keeps_engine = keeps_engine_self keeps_bind keeps_attempt keeps_engine_call keeps_engine_set

lemma keeps_set_phase:
  "(\<And>r. p = Draw r \<Longrightarrow> \<not> idle) \<Longrightarrow> keeps (on_engine (admission a idle)) (set_phase p)"
  by (auto simp: set_phase_def admission_def intro!: keeps_engine)

lemma keeps_engine_write: "keeps (on_engine P) (engine_write io data bytes)"
  by (auto simp: engine_write_def intro!: keeps_engine)

lemma keeps_engine_after: "keeps (on_engine (admission a idle)) (after io nxt)"
  by (cases nxt) (auto simp: admission_def intro!: keeps_engine keeps_engine_write)

lemma after_not_draw: "after io nxt m = Some (Inr p, m') \<Longrightarrow> p \<noteq> Draw r"
  by (cases nxt) (auto simp: bind_def ok_def self_def set_self_def delay_def split: option.splits sum.splits)

lemma keeps_end_of_delay:
  "keeps (on_engine (admission a idle)) (bind (after io nxt) (\<lambda>p. bind (set_phase p) (\<lambda>_. ok True)))"
  unfolding keeps_def
proof (intro allI impI)
  fix m r m'
  assume m: "on_engine (admission a idle) m"
    and run: "bind (after io nxt) (\<lambda>p. bind (set_phase p) (\<lambda>_. ok True)) m = Some (r, m')"
  from run obtain q m1 where q: "after io nxt m = Some (q, m1)" by (auto simp: bind_def split: option.splits)
  with m have m1: "on_engine (admission a idle) m1" using keepsD [OF keeps_engine_after] by blast
  show "on_engine (admission a idle) m'"
  proof (cases q)
    case (Inl x)
    with run q m1 show ?thesis by (auto simp: bind_def)
  next
    case (Inr p)
    then have "\<And>r. p \<noteq> Draw r" using after_not_draw q by blast
    then have "keeps (on_engine (admission a idle)) (bind (set_phase p) (\<lambda>_. ok True :: ('h, bool) lcd_prog))"
      by (intro keeps_bind keeps_set_phase) auto
    from keepsD [OF this m1] run q Inr show ?thesis by (auto simp: bind_def)
  qed
qed

lemma keeps_engine_init: "keeps (on_engine (admission a idle)) (init_once io index offset)"
  by (auto simp: init_once_def Let_def delay_def split: prod.split
      intro!: keeps_bind keeps_engine_write keeps_set_phase)

lemma keeps_go_on: "\<not> idle \<Longrightarrow> keeps (on_engine (admission a idle)) (go_on r)"
  by (auto simp: go_on_def intro!: keeps_bind keeps_set_phase)

lemma keeps_finish: "keeps (on_engine (admission a idle)) finish"
  unfolding finish_def by (intro keeps_engine) (simp_all add: complete_def admission_def)

lemma keeps_engine_draw: "\<not> idle \<Longrightarrow> keeps (on_engine (admission a idle)) (draw_once io r)"
  by (auto simp: draw_once_def draw_pixels_def Let_def split: pixels.split
      intro!: keeps_bind keeps_engine_call keeps_engine_write keeps_go_on keeps_finish)

lemma keeps_engine_advance: "keeps (on_engine (admission a idle)) (advance io now n)"
proof (induction n)
  case (Suc n)
  have "keeps (on_engine (admission a idle)) (advance_once io now)"
    unfolding advance_once_def
  proof (rule keeps_engine_self, goal_cases)
    case (1 e)
    then show ?case
      by (auto simp: admission_def [of a idle e] split: phase.split option.split
          intro!: keeps_bind [OF keeps_set_phase] keeps_end_of_delay keeps_engine_init keeps_engine_draw)
  qed
  with Suc show ?case by (auto intro!: keeps_bind)
qed simp

lemma keeps_engine_step: "keeps (on_engine (admission a idle)) (engine_step io now)"
  unfolding engine_step_def
  by (intro keeps_bind keeps_attempt keeps_engine_advance)
    (auto simp: admission_def split: sum.split intro!: keeps_engine)

lemma course_keeps:
  assumes "course p e Q" "keeps (on_engine P) p" "P e"
  shows "course p e (\<lambda>x e' l. Q x e' l \<and> P e')"
  unfolding course_def
proof (intro allI)
  fix h log
  obtain r d' h' new where run: "p \<lparr>m_hw = (e, h), m_log = log\<rparr> = Some (r, \<lparr>m_hw = (d', h'), m_log = log @ new\<rparr>)"
    "Q r d' new"
    using assms(1) unfolding course_def by blast
  moreover have "P d'" using keepsD [OF assms(2) _ run(1)] assms(3) by (simp add: on_engine_def)
  ultimately show "\<exists>r d' h' new. p \<lparr>m_hw = (e, h), m_log = log\<rparr> = Some (r, \<lparr>m_hw = (d', h'), m_log = log @ new\<rparr>) \<and>
      Q r d' new \<and> P d'"
    by blast
qed

section \<open>The hand-over protocol\<close>

text \<open>
  A monitor of the log: the last two request records read, the frame the C906L owns, and the last
  completed sequence of each slot. It stops at a submission without two equal reads of a valid
  request or while a frame is owned, at a submission the panel refuses, and at a completion that is
  not for the owned frame.
\<close>

record handoff =
  ho_reads :: "(nat \<times> lcd_record) list"
  ho_owner :: "(nat \<times> u32) option"
  ho_done :: "nat \<Rightarrow> u32"

fun handoff_step :: "lcd_contract \<Rightarrow> u32 \<Rightarrow> shared_event \<Rightarrow> handoff \<Rightarrow> handoff option" where
  "handoff_step k g (ReadRequest a r) h = Some (h\<lparr>ho_reads := take 2 ((a, r) # ho_reads h)\<rparr>)"
| "handoff_step k g (Submitted slot r res) h =
     (if slot < 2 \<and> ho_owner h = None \<and> ho_reads h = [(request_address k slot, r), (request_address k slot, r)] \<and>
         valid_request k r g (ho_done h slot) \<and> res = Inr ()
      then Some (h\<lparr>ho_owner := Some (slot, lr_sequence r)\<rparr>) else None)"
| "handoff_step k g (WriteCompletion a r) h = (case ho_owner h of None \<Rightarrow> None
     | Some (slot, sequence) \<Rightarrow>
       if a = completion_address k slot \<and> (\<exists>error\<in>{0, 1}. r = completion_record k g sequence error)
       then Some (h\<lparr>ho_owner := None, ho_done := (ho_done h)(slot := sequence)\<rparr>) else None)"
| "handoff_step k g _ h = Some h"

fun handoff_run :: "lcd_contract \<Rightarrow> u32 \<Rightarrow> shared_event list \<Rightarrow> handoff \<Rightarrow> handoff option" where
  "handoff_run k g [] h = Some h"
| "handoff_run k g (ev # log) h = (case handoff_step k g ev h of None \<Rightarrow> None | Some h' \<Rightarrow> handoff_run k g log h')"

lemma handoff_append:
  "handoff_run k g (l @ l') h = (case handoff_run k g l h of None \<Rightarrow> None | Some h' \<Rightarrow> handoff_run k g l' h')"
  by (induction l arbitrary: h) (auto split: option.split)

text \<open>Events the monitor ignores.\<close>

definition unrelated :: "shared_event list \<Rightarrow> bool" where
  "unrelated log \<longleftrightarrow> list_all (\<lambda>ev. case ev of ReadRequest _ _ \<Rightarrow> False | Submitted _ _ _ \<Rightarrow> False
     | WriteCompletion _ _ \<Rightarrow> False | _ \<Rightarrow> True) log"

lemma unrelated_run: "unrelated log \<Longrightarrow> handoff_run k g log h = Some h"
proof (induction log)
  case (Cons ev log)
  then show ?case by (cases ev) (simp_all add: unrelated_def)
qed simp

text \<open>Events without any publication of a completion.\<close>

definition no_completion :: "shared_event list \<Rightarrow> bool" where
  "no_completion log \<longleftrightarrow> list_all (\<lambda>ev. case ev of WriteCompletion _ _ \<Rightarrow> False
     | WriteCommit _ _ \<Rightarrow> False | _ \<Rightarrow> True) log"

lemma no_completion_append [simp]: "no_completion (l @ l') \<longleftrightarrow> no_completion l \<and> no_completion l'"
  by (simp add: no_completion_def)

lemma no_completion_Nil [simp]: "no_completion []"
  by (simp add: no_completion_def)

lemma unrelated_wifi: "wifi_spec k generation c c' log \<Longrightarrow> unrelated log"
  by (auto simp: wifi_spec_def wifi_reads_def wifi_answer_def Let_def unrelated_def split: if_splits)

section \<open>The invariant of the task\<close>

definition active_ok :: "('s, 'g) service \<Rightarrow> engine \<Rightarrow> bool" where
  "active_ok sv e \<longleftrightarrow> (case active sv of None \<Rightarrow> (\<forall>r. en_phase e \<noteq> Draw r)
     | Some (slot, sequence, job) \<Rightarrow> slot < 2 \<and> job = job_sequence sv \<and>
         (\<exists>r s. en_phase e = Draw r \<and> r_source r = Frame s))"

definition base_ok :: "('s, 'g) task \<Rightarrow> ('s, 'g) panel \<Rightarrow> bool" where
  "base_ok d p \<longleftrightarrow> length (completed (snd d)) = 2 \<and> next_slot (snd d) < 2 \<and> initialized (snd d) \<and>
     sv_generation (snd d) = GENERATION (fst d) \<and> engine_ok (fst (m_hw p)) \<and>
     accepted_sequence (panel_status p) = job_sequence (snd d)"

definition service_ok :: "('s, 'g) task \<Rightarrow> bool" where
  "service_ok d \<longleftrightarrow> length (completed (snd d)) = 2 \<and> next_slot (snd d) < 2 \<and> (case sv_panel (snd d) of
     None \<Rightarrow> active (snd d) = None \<and> job_sequence (snd d) = 0 \<and> (initialized (snd d) \<longrightarrow> FAULTED (fst d))
   | Some p \<Rightarrow> base_ok d p \<and> (if FAULTED (fst d) then active (snd d) = None else active_ok (snd d) (fst (m_hw p))))"

definition tracks :: "handoff \<Rightarrow> ('s, 'g) task \<Rightarrow> bool" where
  "tracks h d \<longleftrightarrow> ho_owner h = map_option (\<lambda>(slot, sequence, job). (slot, sequence)) (active (snd d)) \<and>
     (\<forall>slot < 2. ho_done h slot = completed (snd d) ! slot)"

text \<open>A part of a step that takes \<open>d\<close> to \<open>d'\<close> in accordance with the protocol.\<close>

definition follows :: "lcd_contract \<Rightarrow> ('s, 'g) task \<Rightarrow> ('s, 'g) task \<Rightarrow> shared_event list \<Rightarrow> bool" where
  "follows k d d' log \<longleftrightarrow> GENERATION (fst d') = GENERATION (fst d) \<and> AUTHORIZED (fst d') = AUTHORIZED (fst d) \<and>
     (\<forall>h. tracks h d \<longrightarrow> (\<exists>h'. handoff_run k (GENERATION (fst d)) log h = Some h' \<and> tracks h' d'))"

lemma follows_refl: "follows k d d []"
  by (simp add: follows_def)

lemma follows_trans:
  assumes "follows k d d' l" "follows k d' d'' l'"
  shows "follows k d d'' (l @ l')"
  unfolding follows_def
proof (intro conjI allI impI)
  fix h assume "tracks h d"
  with assms(1) obtain h1 where h1: "handoff_run k (GENERATION (fst d)) l h = Some h1" "tracks h1 d'"
    unfolding follows_def by blast
  with assms obtain h2 where "handoff_run k (GENERATION (fst d)) l' h1 = Some h2" "tracks h2 d''"
    unfolding follows_def by metis
  with h1 show "\<exists>h'. handoff_run k (GENERATION (fst d)) (l @ l') h = Some h' \<and> tracks h' d''"
    by (simp add: handoff_append)
qed (use assms in \<open>simp_all add: follows_def\<close>)

lemma follows_unrelated:
  assumes "unrelated log" "active (snd d') = active (snd d)" "completed (snd d') = completed (snd d)"
    "GENERATION (fst d') = GENERATION (fst d)" "AUTHORIZED (fst d') = AUTHORIZED (fst d)"
  shows "follows k d d' log"
  using assms by (simp add: follows_def unrelated_run tracks_def)

lemma course_on_panel:
  assumes "course prog (fst (m_hw p)) Q" "sv_panel sv = Some p"
  shows "course (on_panel wd prog) (st, sv) (\<lambda>x d' n. n = [] \<and>
    (\<exists>r p' l. x = Inr r \<and> d' = (st, sv\<lparr>sv_panel := Some p'\<rparr>) \<and> Q r (fst (m_hw p')) l))"
  unfolding course_def
proof (intro allI)
  fix w log
  define q where "q = p\<lparr>m_hw := (fst (m_hw p), (snd (m_hw p))\<lparr>hd_memory := sw_memory wd w\<rparr>)\<rparr>"
  have "course prog (fst (m_hw q)) Q" using assms(1) by (simp add: q_def)
  then show "\<exists>r d' h' new. on_panel wd prog \<lparr>m_hw = ((st, sv), w), m_log = log\<rparr> =
      Some (r, \<lparr>m_hw = (d', h'), m_log = log @ new\<rparr>) \<and> new = [] \<and>
      (\<exists>ra p' l. r = Inr ra \<and> d' = (st, sv\<lparr>sv_panel := Some p'\<rparr>) \<and> Q ra (fst (m_hw p')) l)"
  proof (rule course_runE, goal_cases)
    case (1 r q' new)
    then have "on_panel wd prog \<lparr>m_hw = ((st, sv), w), m_log = log\<rparr> =
        Some (Inr r, \<lparr>m_hw = ((st, sv\<lparr>sv_panel := Some q'\<rparr>), w), m_log = log @ []\<rparr>)"
      using assms(2) by (simp add: on_panel_def q_def)
    with 1(3) show ?case by blast
  qed
qed

lemma course_set_service [simp]: "course (set_service f) d Q \<longleftrightarrow> Q (Inr ()) (fst d, f (snd d)) []"
  by (cases d) (simp add: set_service_def course_def bind_def self_def set_self_def)

lemma course_set_statics [simp]: "course (set_statics f) d Q \<longleftrightarrow> Q (Inr ()) (f (fst d), snd d) []"
  by (cases d) (simp add: set_statics_def course_def bind_def self_def set_self_def)

lemma course_bind_statics: "course (f ()) (g (fst d), snd d) Q \<Longrightarrow> course (bind (set_statics g) f) d Q"
  by (rule course_bind [where P = "\<lambda>x d' n. x = Inr () \<and> d' = (g (fst d), snd d) \<and> n = []"]) auto

section \<open>The parts of a step\<close>

lemma course_service_wifi:
  assumes "sv_panel sv = Some p"
  shows "course (service_wifi wd k gpio) (st, sv) (\<lambda>x d' log. x = Inr () \<and> unrelated log \<and>
    (\<exists>p' c. d' = (st, sv\<lparr>sv_panel := Some p', wifi_completed := c\<rparr>) \<and> fst (m_hw p') = fst (m_hw p)))"
proof -
  let ?P = "\<lambda>d'. \<exists>p'. d' = (st, sv\<lparr>sv_panel := Some p'\<rparr>) \<and> fst (m_hw p') = fst (m_hw p)"
  have start: "?P (st, sv)" using assms by (intro exI [of _ p]) simp
  have app: "course (bind (on_panel wd (panel_wifi_power gpio enabled)) (\<lambda>r. ok (map_sum (\<lambda>_. ()) id r))) (st, sv)
      (\<lambda>x d' n. n = [] \<and> (\<exists>r. x = Inr r) \<and> ?P d')" for enabled
    by (rule course_bind [OF course_on_panel [OF course_wifi assms]]) auto
  show ?thesis
    unfolding service_wifi_def
  proof (rule course_bind_self, unfold prod.case, rule course_bind [OF course_wifi_step [OF app start]], goal_cases)
    case (1 c d' log)
    then obtain p' where "d' = (st, sv\<lparr>sv_panel := Some p'\<rparr>)" "fst (m_hw p') = fst (m_hw p)" "unrelated log"
      using unrelated_wifi by blast
    then show ?case by (auto intro!: exI [of _ p'])
  qed auto
qed

text \<open>What the panel's step leaves: an active frame is complete or the panel is in the fault state.\<close>

definition stepped :: "('s, 'g) service \<Rightarrow> ('s, 'g) panel \<Rightarrow> bool" where
  "stepped sv p \<longleftrightarrow> (case active sv of None \<Rightarrow> (\<forall>r. en_phase (fst (m_hw p)) \<noteq> Draw r)
     | Some (slot, sequence, job) \<Rightarrow> slot < 2 \<and> job = job_sequence sv \<and>
         (ls_state (panel_status p) = Fault \<or> ls_state (panel_status p) = Ready \<and> completed_sequence (panel_status p) = job))"

lemma course_frame_step:
  assumes "engine_ok e" "en_phase e = Draw r" "r_source r = Frame s"
  shows "course (panel_step spi gpio now) e (\<lambda>x e' l. en_phase e' = FaultPhase \<or> e' = complete e)"
proof -
  have "render_ok r" using assms by (simp add: engine_ok_def)
  then have "todo r \<le> MAX_CHUNKS" using todo_bound [of r] assms(3) by simp
  then show ?thesis
    unfolding panel_step_def
    by (intro course_mono [OF hw.course_draw_step [OF assms(1,2)]]) (use drawn_all in blast)
qed

lemma course_panel_step:
  assumes "base_ok (st, sv) p" "active_ok sv (fst (m_hw p))"
  shows "course (panel_step spi gpio now) (fst (m_hw p)) (\<lambda>x e' l. x = Inr () \<and>
    (\<forall>p'. fst (m_hw p') = e' \<longrightarrow> base_ok (st, sv) p' \<and> stepped sv p'))"
proof -
  let ?e = "fst (m_hw p)"
  have ok: "engine_ok ?e" and acc: "accepted_sequence (en_status ?e) = job_sequence sv"
    using assms(1) by (simp_all add: base_ok_def panel_status_def)
  have fault: "ls_state (en_status e') = Fault" if "engine_ok e'" "en_phase e' = FaultPhase" for e'
    using that by (simp add: engine_ok_def)
  note run = course_keeps [OF hw.course_engine_step [OF ok], OF keeps_engine_step, folded panel_step_def]
  show ?thesis
  proof (cases "active sv")
    case None
    then have "admission (job_sequence sv) True ?e" using assms(2) acc by (simp add: admission_def active_ok_def)
    from run [OF this] show ?thesis
      by (rule course_mono) (use None assms(1) in \<open>auto simp: served_def admission_def base_ok_def stepped_def panel_status_def\<close>)
  next
    case (Some a)
    obtain slot sequence job where a: "a = (slot, sequence, job)" by (cases a)
    with Some assms(2) obtain r s where d: "en_phase ?e = Draw r" "r_source r = Frame s" "slot < 2" "job = job_sequence sv"
      by (auto simp: active_ok_def)
    have "admission (job_sequence sv) False ?e" using acc by (simp add: admission_def)
    from course_conj [OF run [OF this] course_frame_step [OF ok d(1,2)]] show ?thesis
      by (rule course_mono) (use Some a d assms(1) fault acc in
        \<open>auto simp: served_def admission_def base_ok_def stepped_def panel_status_def complete_def\<close>)
  qed
qed

definition completion_log :: "lcd_contract \<Rightarrow> nat \<Rightarrow> u32 \<Rightarrow> u32 \<Rightarrow> u32 \<Rightarrow> shared_event list" where
  "completion_log k slot g sequence error = (let a = completion_address k slot in
     [WriteCompletion a (completion_record k g sequence error), Clean a 64, WriteCommit (a + 60) sequence, Clean a 64])"

lemma course_bind_complete:
  "course (f ()) d (\<lambda>x d' n. Q x d' (completion_log k slot g sequence error @ n)) \<Longrightarrow>
   course (bind (service_complete wd k slot g sequence error) f) d Q"
  unfolding service_complete_def Let_def bind_assoc
  by (intro course_bind_do) (simp add: completion_log_def Let_def)

text \<open>The completion of the active frame.\<close>

definition settled :: "('s, 'g) service \<Rightarrow> lcd_status \<Rightarrow> ('s, 'g) service" where
  "settled sv status = (case active sv of None \<Rightarrow> sv
     | Some (slot, sequence, job) \<Rightarrow> sv\<lparr>completed := (completed sv)[slot := sequence], active := None,
         next_slot := slot XOR 1,
         frames := (if ls_state status = Fault then frames sv else frames sv + 1)\<rparr>)"

definition settle_log :: "lcd_contract \<Rightarrow> ('s, 'g) service \<Rightarrow> lcd_status \<Rightarrow> shared_event list" where
  "settle_log k sv status = (case active sv of None \<Rightarrow> []
     | Some (slot, sequence, job) \<Rightarrow>
         completion_log k slot (sv_generation sv) sequence (if ls_state status = Fault then 1 else 0))"

lemma course_service_settle:
  assumes "base_ok (st, sv) p" "stepped sv p"
  shows "course (service_settle wd k (panel_status p)) (st, sv) (\<lambda>x d' log. x = Inr () \<and>
    d' = (st, settled sv (panel_status p)) \<and> log = settle_log k sv (panel_status p))"
proof (cases "active sv")
  case None
  then show ?thesis
    unfolding service_settle_def by (intro course_bind_self) (simp add: settled_def settle_log_def)
next
  case (Some a)
  obtain slot sequence job where a: "a = (slot, sequence, job)" by (cases a)
  with Some assms have "slot < length (completed sv)"
    "ls_state (panel_status p) = Fault \<or> completed_sequence (panel_status p) = job"
    by (auto simp: base_ok_def stepped_def)
  with Some a show ?thesis
    unfolding service_settle_def
    by (intro course_bind_self) (auto simp: Let_def settled_def settle_log_def intro!: course_bind_complete)
qed

lemma slot_flip: "slot < 2 \<Longrightarrow> slot XOR 1 < 2" for slot :: nat
  by (auto simp: less_2_cases_iff)

lemma follows_settle:
  assumes "base_ok (st, sv) p" "stepped sv p"
  shows "follows k (st, sv) (st, settled sv (panel_status p)) (settle_log k sv (panel_status p))"
proof (cases "active sv")
  case None
  then show ?thesis by (simp add: settled_def settle_log_def follows_refl)
next
  case (Some a)
  obtain slot sequence job where a: "a = (slot, sequence, job)" by (cases a)
  have "sv_generation sv = GENERATION st" "length (completed sv) = 2" using assms(1) by (simp_all add: base_ok_def)
  with Some a show ?thesis
    by (auto simp: settled_def settle_log_def follows_def tracks_def completion_log_def Let_def nth_list_update)
qed

section \<open>Admission of a frame\<close>

text \<open>The display size in the contract is the one the panel driver is written for.\<close>

definition lcd_contract_ok :: "lcd_contract \<Rightarrow> bool" where
  "lcd_contract_ok k \<longleftrightarrow> PICOCLAW_LCD_WIDTH k = 240 \<and> PICOCLAW_LCD_HEIGHT k = 240"

definition read_twice :: "lcd_contract \<Rightarrow> nat \<Rightarrow> lcd_record \<Rightarrow> lcd_record \<Rightarrow> shared_event list" where
  "read_twice k slot r r' = (let a = request_address k slot in
     [Invalidate a 64, ReadRequest a r, Invalidate a 64, ReadRequest a r'])"

lemma course_request:
  "course (request wd k slot g c) d (\<lambda>x d' log. d' = d \<and> (\<exists>r r'. log = read_twice k slot r r' \<and>
     x = Inr (if r = r' \<and> valid_request k r g c then Some r else None)))"
  unfolding request_def Let_def by (intro shared_steps) (auto simp: read_twice_def Let_def)

lemma follows_reads: "follows k d d (read_twice k slot r r')"
  by (auto simp: follows_def tracks_def read_twice_def Let_def)

lemma no_completion_reads [simp]: "no_completion (read_twice k slot r r')"
  by (simp add: no_completion_def read_twice_def Let_def)

lemma course_panel_submit: "course (panel_submit s j) e (\<lambda>x e' l. (x, e') = submit s j e \<and> l = [])"
  unfolding panel_submit_def by (intro course_bind_self) (auto split: prod.split intro!: course_bind_set_self)

lemma unat_ucast_add: "unat (ucast x + ucast y :: u32) = unat x + unat y" for x y :: u16
  using unat_lt [of x] unat_lt [of y] by (simp add: unat_word_ariths unat_u16_u32)

lemma frame_render:
  assumes "valid_request k r g c" "lcd_contract_ok k" "slot < 2"
  obtains rr where "render_new (frame_job slot r) = Inr rr" "r_source rr = Frame (of_nat slot)"
proof -
  have "lr_width r \<noteq> 0" "lr_height r \<noteq> 0" using assms(1) by (auto simp: valid_request_def Let_def)
  moreover have "(ucast (lr_x r) + ucast (lr_width r) :: u32) \<le> 240" "(ucast (lr_y r) + ucast (lr_height r) :: u32) \<le> 240"
    using assms(1,2) by (simp_all add: valid_request_def lcd_contract_ok_def Let_def)
  then have "unat (lr_x r) + unat (lr_width r) \<le> 240" "unat (lr_y r) + unat (lr_height r) \<le> 240"
    by (simp_all add: word_le_nat_alt unat_ucast_add)
  moreover have "(of_nat slot :: u8) < 2" using assms(3) by (auto simp: less_2_cases_iff)
  ultimately show thesis
    by (intro that) (auto simp: frame_job_def render_new_def render_area_def WIDTH_def HEIGHT_def)
qed

lemma next_job: "max (j + 1) 1 \<noteq> 0 \<and> max (j + 1) 1 \<noteq> j" for j :: u32
proof (cases "j + 1 = 0")
  case True
  then have "j = - 1" by (simp add: eq_neg_iff_add_eq_0)
  then show ?thesis by simp
next
  case False
  then have "1 \<le> j + 1" by (simp add: word_le_nat_alt unat_gt_0 Suc_le_eq)
  then show ?thesis by (auto simp: max_def)
qed

definition frame_invalidate :: "lcd_contract \<Rightarrow> nat \<Rightarrow> lcd_record \<Rightarrow> shared_event" where
  "frame_invalidate k slot r = Invalidate (PICOCLAW_LCD_FRAME_SLOT0_ADDRESS k + slot * unat (PICOCLAW_LCD_FRAME_SLOT_STRIDE k))
     (unat (lr_width r) * unat (lr_height r) * 2)"

lemma course_submit_frame:
  assumes "base_ok (st, sv) p" "sv_panel sv = Some p" "ls_state (panel_status p) = Ready"
    "valid_request k r g c" "lcd_contract_ok k" "slot < 2"
  shows "course (submit_frame wd k slot r) (st, sv) (\<lambda>x d' log. x = Inr () \<and>
    log = [frame_invalidate k slot r, Submitted slot r (Inr ())] \<and>
    (\<exists>p' j. d' = (st, sv\<lparr>job_sequence := j, sv_panel := Some p', active := Some (slot, lr_sequence r, j)\<rparr>) \<and>
      base_ok d' p' \<and> active_ok (snd d') (fst (m_hw p')) \<and> ls_state (panel_status p') \<noteq> Fault \<and>
      completed_sequence (panel_status p') = completed_sequence (panel_status p)))"
proof -
  define j where "j = max (job_sequence sv + 1) 1"
  obtain rr where rr: "render_new (frame_job slot r) = Inr rr" "r_source rr = Frame (of_nat slot)"
    using frame_render [OF assms(4-6)] .
  define e where "e = (fst (m_hw p))\<lparr>last_job := Some (frame_job slot r), en_phase := Draw rr,
      en_status := (panel_status p)\<lparr>ls_state := Busy, accepted_sequence := j\<rparr>\<rparr>"
  have "admits j (fst (m_hw p))"
    using assms(1,3) next_job [of "job_sequence sv"] by (simp add: admits_def j_def base_ok_def panel_status_def)
  then have sub: "submit j (frame_job slot r) (fst (m_hw p)) = (Inr (), e)"
    by (simp add: submit_admitted rr e_def panel_status_def)
  have "engine_ok e" using submit_ok [of "fst (m_hw p)" j "frame_job slot r"] assms(1) sub by (simp add: base_ok_def)
  then have fin: "base_ok (st, sv\<lparr>job_sequence := j, sv_panel := Some p', active := Some (slot, lr_sequence r, j)\<rparr>) p' \<and>
      active_ok (sv\<lparr>job_sequence := j, sv_panel := Some p', active := Some (slot, lr_sequence r, j)\<rparr>) (fst (m_hw p')) \<and>
      ls_state (panel_status p') \<noteq> Fault \<and>
      completed_sequence (panel_status p') = completed_sequence (panel_status p)"
    if "fst (m_hw p') = e" for p'
    using that assms(1,6) rr(2) by (auto simp: base_ok_def panel_status_def active_ok_def e_def)
  have pan: "sv_panel (sv\<lparr>job_sequence := j\<rparr>) = Some p" using assms(2) by simp
  show ?thesis
    unfolding submit_frame_def Let_def
  proof (rule course_bind_do, rule course_bind [where P = "\<lambda>x d' n. x = Inr () \<and> d' = (st, sv\<lparr>job_sequence := j\<rparr>) \<and> n = []"],
      goal_cases)
    case (2 u d' n)
    then have eq: "d' = (st, sv\<lparr>job_sequence := j\<rparr>)" "n = []" by auto
    show ?case
      unfolding eq append_Nil
    proof (intro course_bind_self, unfold prod.case,
        rule course_bind [OF course_on_panel [OF course_panel_submit pan]], goal_cases)
      case (1 a d1 n1)
      then obtain p' where "d1 = (st, sv\<lparr>job_sequence := j, sv_panel := Some p'\<rparr>)" "fst (m_hw p') = e" "a = Inr ()" "n1 = []"
        by (auto simp: sub)
      with fin [of p'] show ?case
        by (auto intro!: course_bind_do exI [of _ p'] exI [of _ j] simp: frame_invalidate_def)
    qed auto
  qed (auto simp: j_def)
qed

lemma follows_submit:
  assumes "active sv = None" "valid_request k r (GENERATION st) (completed sv ! slot)" "slot < 2"
    "active (snd d') = Some (slot, lr_sequence r, j)" "completed (snd d') = completed sv" "fst d' = st"
  shows "follows k (st, sv) d' (read_twice k slot r r @ [frame_invalidate k slot r, Submitted slot r (Inr ())])"
  using assms by (auto simp: follows_def tracks_def read_twice_def frame_invalidate_def Let_def)

text \<open>The task's panel after a step whose panel was left as \<open>p\<close> by the panel's own step: it is in the
  fault state exactly when \<open>p\<close> is, and has completed the same job.\<close>

definition shows_panel :: "('s, 'g) panel \<Rightarrow> ('s, 'g) task \<Rightarrow> bool" where
  "shows_panel p d \<longleftrightarrow> (\<exists>p'. sv_panel (snd d) = Some p' \<and>
     (ls_state (panel_status p') = Fault \<longleftrightarrow> ls_state (panel_status p) = Fault) \<and>
     completed_sequence (panel_status p') = completed_sequence (panel_status p))"

lemma course_service_admit:
  assumes "base_ok (st, sv) p" "sv_panel sv = Some p" "ls_state (panel_status p) = Ready" "lcd_contract_ok k"
    "active sv = None" "\<not> FAULTED st" "\<forall>slot\<in>set slots. slot < 2"
  shows "course (service_admit wd k slots) (st, sv) (\<lambda>x d' log. x = Inr () \<and> service_ok d' \<and>
    \<not> FAULTED (fst d') \<and> follows k (st, sv) d' log \<and> no_completion log \<and> shows_panel p d')"
  using assms(7)
proof (induction slots)
  case Nil
  have "\<forall>r. en_phase (fst (m_hw p)) \<noteq> Draw r"
    using assms(1,3) by (auto simp: base_ok_def engine_ok_def panel_status_def)
  with assms show ?case
    by (auto simp: service_ok_def follows_refl active_ok_def base_ok_def shows_panel_def)
next
  case (Cons slot slots)
  have base: "length (completed sv) = 2" "sv_generation sv = GENERATION st" using assms(1) by (simp_all add: base_ok_def)
  show ?case
    unfolding service_admit.simps
  proof (intro course_bind_self, unfold prod.case, intro course_if, rule course_bind [OF course_request], goal_cases)
    case (1 a d' l)
    then obtain r r' where l: "d' = (st, sv)" "l = read_twice k slot r r'"
      and a: "a = (if r = r' \<and> valid_request k r (sv_generation sv) (completed sv ! slot) then Some r else None)"
      by auto
    show ?case
    proof (cases a)
      case None
      have "course (service_admit wd k slots) (st, sv) (\<lambda>x d' log. x = Inr () \<and> service_ok d' \<and>
          \<not> FAULTED (fst d') \<and> follows k (st, sv) d' (l @ log) \<and> no_completion (l @ log) \<and> shows_panel p d')"
        by (rule course_mono [OF Cons.IH]) (use Cons.prems l follows_trans [OF follows_reads] in auto)
      with None l show ?thesis by simp
    next
      case (Some q)
      then have q: "q = r" "r' = r" "valid_request k r (GENERATION st) (completed sv ! slot)"
        using a base by (auto split: if_splits)
      have "slot < 2" using Cons.prems by simp
      from course_submit_frame [OF assms(1-3) q(3) assms(4) this]
      have "course (submit_frame wd k slot r) (st, sv) (\<lambda>x d' log. x = Inr () \<and> service_ok d' \<and>
          \<not> FAULTED (fst d') \<and> follows k (st, sv) d' (l @ log) \<and> no_completion (l @ log) \<and> shows_panel p d')"
        by (rule course_mono) (use assms base q \<open>slot < 2\<close> l(2) in
          \<open>auto simp: service_ok_def base_ok_def shows_panel_def no_completion_def [of "[_, _]"]
             frame_invalidate_def intro!: follows_submit [unfolded frame_invalidate_def]\<close>)
      with Some q l show ?thesis by simp
    qed
  qed (use base Cons.prems in auto)
qed

section \<open>A whole step\<close>

lemma next_slots: "base_ok d p \<Longrightarrow> \<forall>slot\<in>set [next_slot (snd d), next_slot (snd d) XOR 1]. slot < 2"
  using slot_flip by (simp add: base_ok_def)

lemma settled_base:
  assumes "base_ok (st, sv) p" "stepped sv p"
  shows "base_ok (st, settled sv (panel_status p)) p" "active (settled sv (panel_status p)) = None"
    "sv_panel (settled sv (panel_status p)) = sv_panel sv"
  using assms slot_flip by (auto simp: base_ok_def settled_def stepped_def split: option.split prod.split)

lemma not_drawing:
  assumes "base_ok (st, sv) p" "stepped sv p" "ls_state (panel_status p) \<noteq> Fault"
  shows "en_phase (fst (m_hw p)) \<noteq> Draw r"
  using assms by (auto simp: base_ok_def stepped_def engine_ok_def panel_status_def split: option.splits prod.splits)

lemma course_service_finish:
  assumes "base_ok (st, sv) p" "stepped sv p" "sv_panel sv = Some p" "lcd_contract_ok k" "\<not> FAULTED st"
  shows "course (service_finish wd k (panel_status p)) (st, sv) (\<lambda>x d' log. x = Inr () \<and> service_ok d' \<and>
    follows k (st, sv) d' log \<and>
    (\<exists>later. log = settle_log k sv (panel_status p) @ later \<and> no_completion later) \<and>
    FAULTED (fst d') = (ls_state (panel_status p) = Fault) \<and> shows_panel p d')"
proof -
  let ?status = "panel_status p" and ?sv = "settled sv (panel_status p)" and ?l = "settle_log k sv (panel_status p)"
  note b = settled_base [OF assms(1,2)]
  note f = follows_settle [OF assms(1,2), of k]
  have idle: "service_ok (st, ?sv)" if "ls_state ?status \<noteq> Fault"
    using that b assms(3,5) not_drawing [OF assms(1,2)]
    by (auto simp: service_ok_def base_ok_def active_ok_def)
  have fault: "service_ok (st\<lparr>FAULTED := True\<rparr>, ?sv)"
    using b assms(3) by (auto simp: service_ok_def base_ok_def)
  have follows_fault: "follows k (st, sv) (st\<lparr>FAULTED := True\<rparr>, ?sv) ?l"
    using f by (simp add: follows_def tracks_def)
  have admit: "course (service_admit wd k [next_slot ?sv, next_slot ?sv XOR 1]) (st, ?sv)
      (\<lambda>x d' log. x = Inr () \<and> service_ok d' \<and> \<not> FAULTED (fst d') \<and> follows k (st, sv) d' (?l @ log) \<and>
        no_completion log \<and> shows_panel p d')"
    if "ls_state ?status = Ready"
    by (rule course_mono [OF course_service_admit [OF b(1) _ that assms(4) b(2) assms(5)]])
      (use b assms(3) next_slots [OF b(1)] follows_trans [OF f] in auto)
  have same: "shows_panel p (st', ?sv)" for st'
    using b(3) assms(3) by (simp add: shows_panel_def)
  show ?thesis
    unfolding service_finish_def
  proof (rule course_bind [OF course_service_settle [OF assms(1,2)]], goal_cases)
    case (1 u d' n)
    then have eq: "d' = (st, ?sv)" "n = ?l" by auto
    show ?case
      unfolding eq
    proof (intro course_if course_bind_self, goal_cases)
      case 1
      with fault follows_fault same show ?case by simp
    next
      case 2
      then show ?case
        unfolding prod.case
      proof (intro course_if, goal_cases)
        case 1
        with idle f assms(5) same show ?case by simp
      next
        case 2
        with admit show ?case by (auto intro: course_mono)
      qed
    qed
  qed auto
qed

lemma gpio_access_total:
  assumes "course p () Q"
  shows "\<exists>r h'. gpio_access p h = Some (r, h')"
proof -
  from assms have "\<exists>r m. p \<lparr>m_hw = ((), hd_gpio_device h), m_log = []\<rparr> = Some (r, m)"
    unfolding course_def by blast
  then show ?thesis by (auto simp: gpio_access_def)
qed

lemma panel_new_result:
  "\<exists>r. panel_new spi gpio cfg s g memory = Some r \<and> (\<forall>p. r = Inr p \<longrightarrow> fst (m_hw p) = engine_new)"
proof -
  have c: "course (bind (mask_interrupts gpio :: (_, unit, unit) gpio_prog)
      (\<lambda>_. outputs gpio CONTROL_LINES RESET)) () (\<lambda>_ _ _. True)"
    by (auto simp: mask_interrupts_def outputs_def gpio_read_def gpio_write_def Let_def bind_assoc
        intro!: course_steps course_write)
  define h where "h = \<lparr>hd_spi = spi_from_base, hd_outputs = CONTROL_LINES, hd_poll_budget = poll_budget cfg,
      hd_framebuffer_base = framebuffer_base cfg, hd_framebuffer_stride = framebuffer_stride cfg,
      hd_spi_device = s, hd_gpio_device = g, hd_memory = memory, hd_log = []\<rparr>"
  obtain r1 h1 where 1: "gpio_access (bind (mask_interrupts gpio :: (_, unit, unit) gpio_prog)
      (\<lambda>_. outputs gpio CONTROL_LINES RESET)) h = Some (r1, h1)"
    using gpio_access_total [OF c] by blast
  have 2: "\<exists>r h2. spi_access (spi_configure spi d False False) h1 = Some (r, h2)" for d
    by (rule spi_access_total [OF course_spi_configure])
  show ?thesis
  proof (cases "divider_new (cfg_divider cfg)")
    case None
    then show ?thesis by (simp add: panel_new_def)
  next
    case (Some d)
    with 2 obtain r2 h2 where "spi_access (spi_configure spi d False False) h1 = Some (r2, h2)" by blast
    with Some show ?thesis
      unfolding panel_new_def Let_def h_def [symmetric] by (simp add: 1)
  qed
qed

definition going :: "('s, 'g) task \<Rightarrow> bool" where
  "going d \<longleftrightarrow> \<not> FAULTED (fst d) \<and>
     (\<exists>p. sv_panel (snd d) = Some p \<and> base_ok d p \<and> active_ok (snd d) (fst (m_hw p)))"

lemma course_create_panel:
  "course (create_panel wd k spi gpio) (st, sv) (\<lambda>x d' n. n = [] \<and>
     (x \<noteq> Inr (Inr ()) \<and> d' = (st, sv) \<and> (\<exists>e. x = Inr (Inl e)) \<or>
      x = Inr (Inr ()) \<and> (\<exists>p. d' = (st, sv\<lparr>sv_panel := Some p\<rparr>) \<and> fst (m_hw p) = engine_new)))"
  unfolding course_def
proof (intro allI)
  fix w log
  obtain r where r: "panel_new spi gpio (panel_config k) (sw_spi wd w) (sw_gpio wd w) (sw_memory wd w) = Some r"
    "\<And>p. r = Inr p \<Longrightarrow> fst (m_hw p) = engine_new"
    using panel_new_result [of spi gpio "panel_config k" "sw_spi wd w" "sw_gpio wd w" "sw_memory wd w"] by auto
  then show "\<exists>r d' h' new. create_panel wd k spi gpio \<lparr>m_hw = ((st, sv), w), m_log = log\<rparr> =
      Some (r, \<lparr>m_hw = (d', h'), m_log = log @ new\<rparr>) \<and> new = [] \<and>
      (r \<noteq> Inr (Inr ()) \<and> d' = (st, sv) \<and> (\<exists>e. r = Inr (Inl e)) \<or>
       r = Inr (Inr ()) \<and> (\<exists>p. d' = (st, sv\<lparr>sv_panel := Some p\<rparr>) \<and> fst (m_hw p) = engine_new))"
    by (cases r) (auto simp: create_panel_def)
qed

lemma course_service_init:
  assumes "service_ok (st, sv)" "\<not> FAULTED st"
  shows "course (service_init wd k spi gpio) (st, sv) (\<lambda>x d' n. n = [] \<and> follows k (st, sv) d' [] \<and>
    active (snd d') = active sv \<and> sv_generation (snd d') = GENERATION st \<and>
    (x = Inr True \<and> going d' \<or> x = Inr False \<and> service_ok d' \<and> FAULTED (fst d') \<and> active sv = None))"
proof (cases "initialized sv")
  case True
  with assms have "going (st, sv)" "sv_generation sv = GENERATION st"
    by (auto simp: service_ok_def going_def base_ok_def split: option.splits)
  with True show ?thesis
    unfolding service_init_def by (intro course_bind_self) (simp add: follows_refl)
next
  case False
  with assms have sv: "sv_panel sv = None" "active sv = None" "job_sequence sv = 0" "length (completed sv) = 2" "next_slot sv < 2"
    by (auto simp: service_ok_def base_ok_def split: option.splits)
  show ?thesis
    unfolding service_init_def
  proof (intro course_bind_self, unfold prod.case if_not_P [OF False], rule course_bind_set_self,
      rule course_bind [OF course_create_panel], goal_cases)
    case (1 r d' n)
    then show ?case
      using sv assms(2) by (cases r) (auto simp: engine_ok_def follows_unrelated unrelated_def service_ok_def going_def base_ok_def active_ok_def
          panel_status_def engine_new_def delay_def intro!: course_bind_statics)
  qed auto
qed

text \<open>An active frame is answered in the next step.\<close>

definition answered :: "lcd_contract \<Rightarrow> ('s, 'g) task \<Rightarrow> ('s, 'g) task \<Rightarrow> shared_event list \<Rightarrow> bool" where
  "answered k d d' log \<longleftrightarrow> (case active (snd d) of None \<Rightarrow> True
     | Some (slot, sequence, job) \<Rightarrow> \<exists>p before later. sv_panel (snd d') = Some p \<and>
         unrelated before \<and> no_completion later \<and>
         log = before @ completion_log k slot (GENERATION (fst d)) sequence
           (if ls_state (panel_status p) = Fault then 1 else 0) @ later \<and>
         (FAULTED (fst d') \<longleftrightarrow> ls_state (panel_status p) = Fault) \<and>
         (ls_state (panel_status p) \<noteq> Fault \<longrightarrow> completed_sequence (panel_status p) = job))"

lemma answered_cong:
  "active sv1 = active sv \<Longrightarrow> GENERATION st1 = GENERATION st \<Longrightarrow> answered k (st1, sv1) d' log = answered k (st, sv) d' log"
  by (auto simp: answered_def split: option.split)

lemma course_going:
  assumes "going (st, sv)" "lcd_contract_ok k"
  shows "course (bind (service_wifi wd k gpio) (\<lambda>_. bind (on_panel wd (panel_step spi gpio now)) (\<lambda>_.
      bind self (\<lambda>(st, sv). case sv_panel sv of None \<Rightarrow> ok () | Some p \<Rightarrow> service_finish wd k (panel_status p)))))
    (st, sv) (\<lambda>x d' log. x = Inr () \<and> service_ok d' \<and> follows k (st, sv) d' log \<and> answered k (st, sv) d' log)"
proof -
  from assms(1) obtain p where p: "sv_panel sv = Some p" "base_ok (st, sv) p" "active_ok sv (fst (m_hw p))" "\<not> FAULTED st"
    by (auto simp: going_def)
  show ?thesis
  proof (rule course_bind [OF course_service_wifi [OF p(1)]], goal_cases)
    case (1 u d1 l)
    then obtain p1 c where d1: "d1 = (st, sv\<lparr>sv_panel := Some p1, wifi_completed := c\<rparr>)"
      "fst (m_hw p1) = fst (m_hw p)" "unrelated l" by auto
    define sv1 where "sv1 = sv\<lparr>sv_panel := Some p1, wifi_completed := c\<rparr>"
    have b1: "base_ok (st, sv1) p1" "active_ok sv1 (fst (m_hw p1))" "sv_panel sv1 = Some p1"
      using p d1(2) by (auto simp: sv1_def base_ok_def active_ok_def panel_status_def split: option.splits)
    show ?case
      unfolding d1(1) sv1_def [symmetric]
    proof (rule course_bind [OF course_on_panel [OF course_panel_step [OF b1(1,2)] b1(3)]], goal_cases)
      case (1 a d2 n)
      then obtain p2 where d2: "d2 = (st, sv1\<lparr>sv_panel := Some p2\<rparr>)" "n = []" "base_ok (st, sv1) p2" "stepped sv1 p2"
        by auto
      define sv2 where "sv2 = sv1\<lparr>sv_panel := Some p2\<rparr>"
      have b2: "base_ok (st, sv2) p2" "stepped sv2 p2" "sv_panel sv2 = Some p2"
        using d2(3,4) by (auto simp: sv2_def base_ok_def stepped_def split: option.splits)
      have same: "active sv2 = active sv" "sv_generation sv2 = GENERATION st"
        using p(2) by (simp_all add: sv1_def sv2_def base_ok_def)
      have f: "follows k (st, sv) (st, sv2) l"
        using d1(3) by (intro follows_unrelated) (simp_all add: sv1_def sv2_def)
      show ?case
        unfolding d2(1,2) sv2_def [symmetric]
      proof (intro course_bind_self, unfold prod.case b2(3) option.case,
          rule course_mono [OF course_service_finish [OF b2 assms(2) p(4)]], goal_cases)
        case (1 x d' log)
        then obtain p' later where l': "log = settle_log k sv2 (panel_status p2) @ later" "no_completion later"
          "sv_panel (snd d') = Some p'" "FAULTED (fst d') \<longleftrightarrow> ls_state (panel_status p') = Fault"
          "ls_state (panel_status p') = Fault \<longleftrightarrow> ls_state (panel_status p2) = Fault"
          "completed_sequence (panel_status p') = completed_sequence (panel_status p2)"
          by (auto simp: shows_panel_def)
        have "answered k (st, sv) d' (l @ [] @ log)"
        proof (cases "active sv")
          case (Some a)
          obtain slot sequence job where a: "a = (slot, sequence, job)" by (cases a)
          have "ls_state (panel_status p') \<noteq> Fault \<longrightarrow> completed_sequence (panel_status p') = job"
            using b2(2) Some a same(1) l'(5,6) by (auto simp: stepped_def)
          moreover have "l @ [] @ log = l @ completion_log k slot (GENERATION (fst (st, sv))) sequence
              (if ls_state (panel_status p') = Fault then 1 else 0) @ later"
            using Some a same l'(1,5) by (simp add: settle_log_def)
          ultimately show ?thesis
            using Some a l'(2-4) d1(3) unfolding answered_def snd_conv by (simp only: option.case prod.case) blast
        qed (simp add: answered_def)
        with 1 follows_trans [OF f] show ?case by simp
      qed
    qed auto
  qed auto
qed

lemma course_service_step:
  assumes "service_ok d" "lcd_contract_ok k"
  shows "course (service_step wd k spi gpio now) d (\<lambda>x d' log. x = Inr () \<and> service_ok d' \<and> follows k d d' log \<and>
    (AUTHORIZED (fst d) \<and> \<not> FAULTED (fst d) \<longrightarrow> answered k d d' log))"
proof -
  obtain st sv where d: "d = (st, sv)" by (cases d)
  show ?thesis
    unfolding service_step_def d
  proof (intro course_bind_self, unfold prod.case, intro course_if, goal_cases)
    case 3
    with assms d show ?case
    proof (intro course_bind [OF course_service_init], goal_cases)
      case (3 a d' n)
      obtain st1 sv1 where d': "d' = (st1, sv1)" by (cases d')
      show ?case
      proof (cases a)
        case True
        with 3 d' have g: "going (st1, sv1)" "follows k (st, sv) (st1, sv1) []" "active sv1 = active sv" "n = []" by auto
        then obtain p where "sv_panel sv1 = Some p" by (auto simp: going_def)
        moreover have "GENERATION st1 = GENERATION st" using g(2) by (simp add: follows_def)
        moreover from this answered_cong [OF g(3)] have "answered k (st1, sv1) d' l = answered k (st, sv) d' l" for d' l
          by simp
        ultimately show ?thesis
          unfolding d' using True g follows_trans [OF g(2)]
          by (auto intro!: course_bind_self course_mono [OF course_going [OF g(1) assms(2)]])
      next
        case False
        with 3 d' show ?thesis by (auto simp: answered_def)
      qed
    qed auto
  qed (use assms d in \<open>auto simp: follows_refl\<close>)
qed

section \<open>The task loop\<close>

lemma course_bind_ticks:
  "(\<And>v. course (f v) d (\<lambda>x d' n. Q x d' (Ticks v # n))) \<Longrightarrow> course (bind (c906l_ticks wd) f) d Q"
  by (rule course_bind [where P = "\<lambda>x d' n. d' = d \<and> (\<exists>v. x = Inr v \<and> n = [Ticks v])"])
    (auto simp: course_def c906l_ticks_def sense_def split: prod.split)

lemma course_publish_snapshot:
  assumes "service_ok d"
  shows "course publish_snapshot d (\<lambda>x d' n. x = Inr () \<and> n = [] \<and> service_ok d' \<and> follows k d d' [])"
proof -
  obtain st sv where d: "d = (st, sv)" by (cases d)
  from assms have "length (completed sv) = 2" by (simp add: d service_ok_def)
  then show ?thesis
    unfolding publish_snapshot_def d
    using assms d by (intro course_bind_self)
      (auto simp: service_ok_def base_ok_def unrelated_def intro!: follows_unrelated split: option.splits if_splits)
qed

lemma follows_one: "unrelated [ev] \<Longrightarrow> follows k d d' log \<Longrightarrow> follows k d d' (ev # log)"
  using follows_trans [OF follows_unrelated [of "[ev]" d d k]] by simp

lemma course_lcd_run:
  assumes "service_ok d" "lcd_contract_ok k"
  shows "course (lcd_run wd k spi gpio n w) d (\<lambda>x d' log. (\<exists>v. x = Inr v) \<and> service_ok d' \<and> follows k d d' log)"
  using assms(1)
proof (induction n arbitrary: d w)
  case 0
  then show ?case by (simp add: follows_refl)
next
  case (Suc n)
  show ?case
    unfolding lcd_run.simps
  proof (rule course_bind_ticks, rule course_bind [OF course_service_step [OF Suc.prems assms(2)]], goal_cases)
    case (1 now u d1 l1)
    then have 1: "service_ok d1" "follows k d d1 (Ticks now # l1)" by (auto simp: unrelated_def intro: follows_one)
    show ?case
    proof (rule course_bind [OF course_publish_snapshot [OF 1(1), of k]], goal_cases)
      case (1 u2 d2 l2)
      then have 2: "service_ok d2" "follows k d1 d2 []" "l2 = []" by auto
      obtain st sv where d2: "d2 = (st, sv)" by (cases d2)
      have f: "follows k d d2 (Ticks now # l1)" using follows_trans [OF \<open>follows k d d1 (Ticks now # l1)\<close> 2(2)] by simp
      have "course (lcd_run wd k spi gpio n v) (st, sv) (\<lambda>x d' log. (\<exists>v. x = Inr v) \<and> service_ok d' \<and>
          follows k d d' ((Ticks now # l1) @ DelayTicks t # log))" for v t
        by (rule course_mono [OF Suc.IH])
          (use 2 d2 in \<open>auto simp: unrelated_def intro!: follows_trans [OF f, unfolded append_Cons] follows_one\<close>)
      then show ?case
        unfolding d2 2(3) Let_def prod.case
        by (intro course_bind_self) (auto intro!: course_bind_do)
    qed auto
  qed auto
qed

section \<open>The reply\<close>

lemma reply_layout:
  "reply st q = [0x4c, 0x43, 0x53, 0x31] @ to_le 4 (GENERATION st) @ to_le 4 (SNAPSHOT_STATE st) @
     to_le 4 (SNAPSHOT_FRAMES st) @ to_le 4 (SNAPSHOT_COMPLETED0 st) @ to_le 4 (SNAPSHOT_COMPLETED1 st) @
     to_le 4 (if faulted st then 1 else 0 :: u32) @ to_le 4 (if reply_valid st q then 0 else 1 :: u32)"
  by (simp add: reply_def splice_def)

section \<open>Properties\<close>

text \<open>C22: frames are handed over one at a time. However Linux writes the request records, torn, repeated and
  malformed ones included, and whatever the controllers do, the scanout task never panics, and its
  log follows the hand-over protocol: a frame is submitted to the panel only after two identical
  reads of a valid request of this generation whose sequence is not the last completed one of that
  slot, only while no frame is owned, and the panel accepts it; a completion is published only for
  the owned frame, with its slot, sequence and generation.\<close>

theorem lcd_frames_handed_over:
  assumes "lcd_contract_ok k" "service_ok (fst (m_hw m))" "tracks h (fst (m_hw m))"
  shows "\<exists>w m' new h'. lcd_run wd k spi gpio n last_work m = Some (Inr w, m') \<and> m_log m' = m_log m @ new \<and>
    handoff_run k (GENERATION (fst (fst (m_hw m)))) new h = Some h' \<and> tracks h' (fst (m_hw m')) \<and>
    service_ok (fst (m_hw m'))"
proof (rule course_runE [OF course_lcd_run [OF assms(2,1), where wd = wd and spi = spi and gpio = gpio and n = n
        and w = last_work]], goal_cases)
  case (1 r m' new)
  with assms(3) show ?case unfolding follows_def by blast
qed

definition idle_task :: "(unit, nat \<Rightarrow> u32) task" where
  "idle_task = (lcd_statics_initial\<lparr>GENERATION := 7, AUTHORIZED := True\<rparr>, service_new)"

definition idle_handoff :: handoff where
  "idle_handoff = \<lparr>ho_reads = [], ho_owner = None, ho_done = (\<lambda>_. 0)\<rparr>"

lemma idle_task_ok: "service_ok idle_task" "tracks idle_handoff idle_task"
  by (simp_all add: idle_task_def service_ok_def service_new_def tracks_def idle_handoff_def less_2_cases_iff)

lemma picoclaw_contract_ok: "lcd_contract_ok picoclaw_contract"
  by (simp add: lcd_contract_ok_def picoclaw_contract_def)

theorem lcd_frames_handed_over_witness:
  "\<exists>w m' new h'. lcd_run still_world picoclaw_contract idle_spi latch_hw 3 0 \<lparr>m_hw = (idle_task, ()), m_log = []\<rparr> =
      Some (Inr w, m') \<and> m_log m' = [] @ new \<and>
    handoff_run picoclaw_contract (GENERATION (fst idle_task)) new idle_handoff = Some h' \<and> tracks h' (fst (m_hw m')) \<and>
    service_ok (fst (m_hw m'))"
  using lcd_frames_handed_over [of picoclaw_contract "\<lparr>m_hw = (idle_task, ()), m_log = []\<rparr>" idle_handoff
      still_world idle_spi latch_hw 3 0] idle_task_ok picoclaw_contract_ok
  by (simp only: machine.select_convs fst_conv)

text \<open>C23: an accepted frame is answered by the next step of the task. The step publishes exactly one
  completion, for its slot and sequence: success when the panel is not in the fault state
  afterwards, and then the panel has completed this frame's job, failure when it is, and then
  the service is marked faulted. The completion is cleaned to memory before its commit word is written;
  nothing of the hand-over protocol happens before it, and no completion or commit word is written
  after it.\<close>

theorem lcd_frame_answered:
  assumes "lcd_contract_ok k" "service_ok (fst (m_hw m))" "AUTHORIZED (fst (fst (m_hw m)))" "\<not> FAULTED (fst (fst (m_hw m)))"
    "active (snd (fst (m_hw m))) = Some (slot, sequence, job)"
  shows "\<exists>m' p before later. service_step wd k spi gpio now m = Some (Inr (), m') \<and> service_ok (fst (m_hw m')) \<and>
    sv_panel (snd (fst (m_hw m'))) = Some p \<and>
    m_log m' = m_log m @ before @
      completion_log k slot (GENERATION (fst (fst (m_hw m)))) sequence
        (if ls_state (panel_status p) = Fault then 1 else 0) @ later \<and>
    unrelated before \<and> no_completion later \<and>
    (FAULTED (fst (fst (m_hw m'))) \<longleftrightarrow> ls_state (panel_status p) = Fault) \<and>
    (ls_state (panel_status p) \<noteq> Fault \<longrightarrow> completed_sequence (panel_status p) = job)"
proof (rule course_runE [OF course_service_step [OF assms(2,1), where wd = wd and spi = spi and gpio = gpio and now = now]],
    goal_cases)
  case (1 r m' new)
  with assms(3,4) have "answered k (fst (m_hw m)) (fst (m_hw m')) new" by simp
  with 1 show ?case unfolding answered_def assms(5) option.case prod.case by blast
qed

definition busy_task :: "(unit, nat \<Rightarrow> u32) task" where
  "busy_task = (lcd_statics_initial\<lparr>GENERATION := 7, AUTHORIZED := True\<rparr>,
     service_new\<lparr>initialized := True, sv_generation := 7, job_sequence := 5, active := Some (1, 9, 5),
       sv_panel := Some \<lparr>m_hw = (snd (submit 5 (FrameJob 1 10 20 30 40) ready_engine), idle_board), m_log = []\<rparr>\<rparr>)"

lemma busy_task_ok: "service_ok busy_task"
proof -
  have "engine_ok (snd (submit 5 (FrameJob 1 10 20 30 40) ready_engine))"
    by (rule submit_ok [OF ready_engine_ok])
  then show ?thesis
    by (simp add: busy_task_def service_ok_def service_new_def base_ok_def active_ok_def panel_status_def submit_def
        ready_engine_def render_new_def render_area_def WIDTH_def HEIGHT_def lcd_statics_initial_def)
qed

theorem lcd_frame_answered_witness:
  "\<exists>m' p before later. service_step still_world picoclaw_contract idle_spi latch_hw 3 \<lparr>m_hw = (busy_task, ()), m_log = []\<rparr> =
      Some (Inr (), m') \<and> service_ok (fst (m_hw m')) \<and> sv_panel (snd (fst (m_hw m'))) = Some p \<and>
    m_log m' = [] @ before @
      completion_log picoclaw_contract 1 (GENERATION (fst busy_task)) 9
        (if ls_state (panel_status p) = Fault then 1 else 0) @ later \<and>
    unrelated before \<and> no_completion later \<and>
    (FAULTED (fst (fst (m_hw m'))) \<longleftrightarrow> ls_state (panel_status p) = Fault) \<and>
    (ls_state (panel_status p) \<noteq> Fault \<longrightarrow> completed_sequence (panel_status p) = 5)"
proof -
  let ?m = "\<lparr>m_hw = (busy_task, ()), m_log = []\<rparr>"
  have "AUTHORIZED (fst busy_task)" "\<not> FAULTED (fst busy_task)" "active (snd busy_task) = Some (1, 9, 5)"
    by (simp_all add: busy_task_def lcd_statics_initial_def)
  with lcd_frame_answered [of picoclaw_contract ?m 1 9 5 still_world idle_spi latch_hw 3] busy_task_ok picoclaw_contract_ok
  show ?thesis by (simp only: machine.select_convs fst_conv simp_thms)
qed

text \<open>The status reply. It is 32 bytes: the magic, then the generation, the panel state, frame count and
  last completed sequences of the snapshot, the fault flag, and an error word that is zero exactly
  for the eight-byte query that carries this generation.\<close>

theorem lcd_reply_exact:
  "length (reply st q) = 32 \<and> slice 0 4 (reply st q) = [0x4c, 0x43, 0x53, 0x31] \<and>
   map (\<lambda>i. from_le (slice i 4 (reply st q)) :: u32) [4, 8, 12, 16, 20, 24, 28] =
     [GENERATION st, SNAPSHOT_STATE st, SNAPSHOT_FRAMES st, SNAPSHOT_COMPLETED0 st, SNAPSHOT_COMPLETED1 st,
      if faulted st then 1 else 0, if q = [0x4c, 0x43, 0x51, 0x31] @ to_le 4 (GENERATION st) then 0 else 1]"
proof -
  have valid: "reply_valid st q \<longleftrightarrow> q = [0x4c, 0x43, 0x51, 0x31] @ to_le 4 (GENERATION st)"
  proof
    assume v: "reply_valid st q"
    then have "slice 4 4 q = to_le 4 (GENERATION st)" "length q = 8" "slice 0 4 q = [0x4c, 0x43, 0x51, 0x31]"
      using to_from_le [of "slice 4 4 q" 4, where 'a = 32] by (auto simp: reply_valid_def)
    moreover have "q = slice 0 4 q @ slice 4 4 q"
      using \<open>length q = 8\<close> by (simp add: slice_def)
    ultimately show "q = [0x4c, 0x43, 0x51, 0x31] @ to_le 4 (GENERATION st)" by simp
  next
    assume "q = [0x4c, 0x43, 0x51, 0x31] @ to_le 4 (GENERATION st)"
    then show "reply_valid st q" by (simp add: reply_valid_def slice_def from_to_le)
  qed
  show ?thesis by (simp add: reply_layout slice_def from_to_le valid)
qed

end
