(* ===== verification/Std_Text.thy ===== *)
theory Std_Text
  imports Contract
begin

text \<open>
  The text operations of the Rust standard library that the control tool
  \<open>tools/sg2002-c906l-ctl\<close> uses, on strings as their bytes (a \<open>char\<close> of HOL is a byte;
  the separators the tool looks for are ASCII, so searching bytes and searching characters
  agree): integers in a radix (\<open>from_str_radix\<close>, \<open>parse\<close>, \<open>to_string\<close>,
  \<open>{:0Nx}\<close>), \<open>split\<close>, \<open>split_once\<close>, \<open>strip_prefix\<close>, \<open>strip_suffix\<close>, the
  joined form of a list of words, and the validity of UTF-8.

  The lemmas say that printing and parsing are inverse: a canonical decimal, a fixed-width
  lowercase hexadecimal number and a single-space joined record have exactly one reading.
\<close>

section \<open>Digits\<close>

definition byte :: "char \<Rightarrow> nat" where
  "byte c = of_char c"

definition is_ascii_digit :: "char \<Rightarrow> bool" where
  "is_ascii_digit c \<longleftrightarrow> byte CHR ''0'' \<le> byte c \<and> byte c \<le> byte CHR ''9''"

definition is_ascii_lowercase :: "char \<Rightarrow> bool" where
  "is_ascii_lowercase c \<longleftrightarrow> byte CHR ''a'' \<le> byte c \<and> byte c \<le> byte CHR ''z''"

definition is_lower_hex :: "char \<Rightarrow> bool" where
  "is_lower_hex c \<longleftrightarrow> is_ascii_digit c \<or> byte CHR ''a'' \<le> byte c \<and> byte c \<le> byte CHR ''f''"

text \<open>\<open>char::to_digit\<close>: letters of either case count from ten.\<close>

definition to_digit :: "nat \<Rightarrow> char \<Rightarrow> nat option" where
  "to_digit radix c =
     (let v = (if is_ascii_digit c then byte c - 48
               else if is_ascii_lowercase c then byte c - 87
               else if 65 \<le> byte c \<and> byte c \<le> 90 then byte c - 55 else radix)
      in if v < radix then Some v else None)"

definition digit_char :: "nat \<Rightarrow> char" where
  "digit_char d = char_of (if d < 10 then 48 + d else 87 + d)"

fun radix_value :: "nat \<Rightarrow> nat \<Rightarrow> string \<Rightarrow> nat option" where
  "radix_value radix acc [] = Some acc"
| "radix_value radix acc (c # s) = (case to_digit radix c of None \<Rightarrow> None
     | Some d \<Rightarrow> radix_value radix (radix * acc + d) s)"

text \<open>
  \<open>from_str_radix\<close> of an unsigned type: one leading plus sign is allowed, an empty string, a
  lone sign, a foreign character and a value outside the type are refused.
\<close>

definition from_str_radix :: "nat \<Rightarrow> string \<Rightarrow> 'a::len word option" where
  "from_str_radix radix s =
     (if s = '''' \<or> s = ''+'' \<or> s = ''-'' then None
      else case radix_value radix 0 (if hd s = CHR ''+'' then tl s else s) of
        None \<Rightarrow> None
      | Some v \<Rightarrow> if v < 2 ^ LENGTH('a) then Some (of_nat v) else None)"

fun show_radix :: "nat \<Rightarrow> nat \<Rightarrow> string" where
  "show_radix radix n = (if n < radix \<or> radix < 2 then [digit_char n]
     else show_radix radix (n div radix) @ [digit_char (n mod radix)])"

declare show_radix.simps [simp del]

definition to_string :: "'a::len word \<Rightarrow> string" where
  "to_string w = show_radix 10 (unat w)"

text \<open>The format specification \<open>{:0Nx}\<close>: lowercase hexadecimal, padded with zeros to \<open>N\<close>.\<close>

definition hex_padded :: "nat \<Rightarrow> 'a::len word \<Rightarrow> string" where
  "hex_padded n w = (let s = show_radix 16 (unat w) in replicate (n - length s) CHR ''0'' @ s)"

section \<open>Splitting and joining\<close>

fun split :: "char \<Rightarrow> string \<Rightarrow> string list" where
  "split c [] = [[]]"
| "split c (x # xs) = (if x = c then [] # split c xs
     else case split c xs of [] \<Rightarrow> [[x]] | y # ys \<Rightarrow> (x # y) # ys)"

fun split_once :: "char \<Rightarrow> string \<Rightarrow> (string \<times> string) option" where
  "split_once c [] = None"
| "split_once c (x # xs) = (if x = c then Some ([], xs)
     else case split_once c xs of None \<Rightarrow> None | Some (a, b) \<Rightarrow> Some (x # a, b))"

definition strip_prefix :: "string \<Rightarrow> string \<Rightarrow> string option" where
  "strip_prefix p s = (if take (length p) s = p then Some (drop (length p) s) else None)"

definition strip_suffix :: "char \<Rightarrow> string \<Rightarrow> string option" where
  "strip_suffix c s = (if s \<noteq> [] \<and> last s = c then Some (butlast s) else None)"

fun join :: "string \<Rightarrow> string list \<Rightarrow> string" where
  "join sep [] = []"
| "join sep [w] = w"
| "join sep (w # v # ws) = w @ sep @ join sep (v # ws)"

section \<open>UTF-8\<close>

text \<open>
  The byte sequences \<open>String::from_utf8\<close> accepts: no overlong form, no surrogate and
  nothing above \<open>U+10FFFF\<close>.
\<close>

definition continuation :: "char \<Rightarrow> bool" where
  "continuation c \<longleftrightarrow> 0x80 \<le> byte c \<and> byte c \<le> 0xBF"

fun utf8_valid :: "string \<Rightarrow> bool" where
  "utf8_valid [] = True"
| "utf8_valid (a # s) =
     (if byte a < 0x80 then utf8_valid s
      else if 0xC2 \<le> byte a \<and> byte a \<le> 0xDF then
        (case s of b # s' \<Rightarrow> continuation b \<and> utf8_valid s' | _ \<Rightarrow> False)
      else if 0xE0 \<le> byte a \<and> byte a \<le> 0xEF then
        (case s of b # c # s' \<Rightarrow> continuation b \<and> continuation c \<and>
           (byte a = 0xE0 \<longrightarrow> 0xA0 \<le> byte b) \<and> (byte a = 0xED \<longrightarrow> byte b \<le> 0x9F) \<and> utf8_valid s'
         | _ \<Rightarrow> False)
      else if 0xF0 \<le> byte a \<and> byte a \<le> 0xF4 then
        (case s of b # c # d # s' \<Rightarrow> continuation b \<and> continuation c \<and> continuation d \<and>
           (byte a = 0xF0 \<longrightarrow> 0x90 \<le> byte b) \<and> (byte a = 0xF4 \<longrightarrow> byte b \<le> 0x8F) \<and> utf8_valid s'
         | _ \<Rightarrow> False)
      else False)"

section \<open>Facts about digits\<close>

lemma byte_char_of: "n < 256 \<Longrightarrow> byte (char_of n) = n"
  by (simp add: byte_def)

lemma byte_inject: "byte c = byte d \<longleftrightarrow> c = d"
  by (simp add: byte_def)

lemmas byte_classes = is_ascii_digit_def is_ascii_lowercase_def is_lower_hex_def

lemma byte_literals [simp]:
  "byte CHR ''0'' = 48" "byte CHR ''9'' = 57" "byte CHR ''a'' = 97" "byte CHR ''f'' = 102"
  "byte CHR ''z'' = 122" "byte CHR ''+'' = 43" "byte CHR ''-'' = 45" "byte CHR '' '' = 32"
  "byte CHR ''='' = 61" "byte CHR ''.'' = 46" "byte CHR ''\<newline>'' = 10" "byte CHR 0x0D = 13"
  by (simp_all add: byte_def)

lemma byte_digit_char: "d < 16 \<Longrightarrow> byte (digit_char d) = (if d < 10 then 48 + d else 87 + d)"
  unfolding digit_char_def by (subst byte_char_of) auto

lemma digit_char_lower_hex: "d < 16 \<Longrightarrow> is_lower_hex (digit_char d)"
  by (simp add: byte_classes byte_digit_char)

lemma digit_char_digit: "d < 10 \<Longrightarrow> is_ascii_digit (digit_char d)"
  by (simp add: byte_classes byte_digit_char)

lemma to_digit_digit_char: "d < radix \<Longrightarrow> radix \<le> 16 \<Longrightarrow> to_digit radix (digit_char d) = Some d"
  by (auto simp: to_digit_def byte_classes byte_digit_char Let_def)

lemma to_digit_less: "to_digit radix c = Some d \<Longrightarrow> d < radix"
  by (simp add: to_digit_def Let_def split: if_splits)

lemma lower_hex_digit: "is_lower_hex c \<Longrightarrow> \<exists>d < 16. c = digit_char d"
proof -
  assume "is_lower_hex c"
  then consider "48 \<le> byte c" "byte c \<le> 57" | "97 \<le> byte c" "byte c \<le> 102"
    by (auto simp: byte_classes)
  then show ?thesis
  proof cases
    case 1
    then have "c = digit_char (byte c - 48)"
      by (subst byte_inject [symmetric], subst byte_digit_char) auto
    with 1 show ?thesis by (intro exI [of _ "byte c - 48"]) auto
  next
    case 2
    then have "c = digit_char (byte c - 87)"
      by (subst byte_inject [symmetric], subst byte_digit_char) auto
    with 2 show ?thesis by (intro exI [of _ "byte c - 87"]) auto
  qed
qed

lemma radix_value_append:
  "radix_value r acc (s @ t) = (case radix_value r acc s of None \<Rightarrow> None | Some v \<Rightarrow> radix_value r v t)"
  by (induction s arbitrary: acc) (auto split: option.split)

lemma radix_value_digits:
  "radix \<le> 16 \<Longrightarrow> \<forall>d \<in> set ds. d < radix \<Longrightarrow>
   radix_value radix acc (map digit_char ds) = Some (foldl (\<lambda>a d. radix * a + d) acc ds)"
  by (induction ds arbitrary: acc) (simp_all add: to_digit_digit_char)

lemma radix_value_bound:
  "radix_value r acc s = Some v \<Longrightarrow> 0 < r \<Longrightarrow> v < (acc + 1) * r ^ length s"
proof (induction s arbitrary: acc)
  case (Cons c s)
  then obtain d where d: "to_digit r c = Some d" "radix_value r (r * acc + d) s = Some v"
    by (auto split: option.splits)
  have "r * acc + d + 1 \<le> (acc + 1) * r" using to_digit_less [OF d(1)] by (simp add: algebra_simps)
  then have "(r * acc + d + 1) * r ^ length s \<le> (acc + 1) * r * r ^ length s" by (rule mult_le_mono1)
  with Cons.IH [OF d(2) Cons.prems(2)] show ?case by (simp add: algebra_simps)
qed simp

lemma radix_value_snoc:
  assumes "radix_value 16 a (s @ [c]) = Some v" "is_lower_hex c"
  shows "\<exists>x i. radix_value 16 a s = Some x \<and> v = 16 * x + i \<and> i < 16 \<and> c = digit_char i"
  using assms lower_hex_digit [OF assms(2)]
  by (auto simp: radix_value_append to_digit_digit_char split: option.splits)

lemma radix_value_inject:
  assumes "radix_value 16 a s = Some v" "radix_value 16 b t = Some v" "length s = length t"
    "list_all is_lower_hex s" "list_all is_lower_hex t"
  shows "a = b \<and> s = t"
  using assms
proof (induction s arbitrary: t v rule: rev_induct)
  case (snoc c s)
  then obtain d t' where t: "t = t' @ [d]" by (cases t rule: rev_cases) auto
  obtain x i where x: "radix_value 16 a s = Some x" "v = 16 * x + i" "i < 16" "c = digit_char i"
    using radix_value_snoc [OF snoc.prems(1)] snoc.prems(4) by auto
  obtain y j where y: "radix_value 16 b t' = Some y" "v = 16 * y + j" "j < 16" "d = digit_char j"
    using radix_value_snoc [OF snoc.prems(2) [unfolded t]] snoc.prems(5) t by auto
  have "x = y" "i = j" using x(2,3) y(2,3) by presburger+
  then have "a = b \<and> s = t'" using snoc.IH [OF x(1), of t'] y(1) snoc.prems(3-5) t by simp
  then show ?case using x(4) y(4) \<open>i = j\<close> t by simp
qed simp

lemma show_radix_value:
  "2 \<le> r \<Longrightarrow> r \<le> 16 \<Longrightarrow> radix_value r 0 (show_radix r n) = Some n"
proof (induction r n rule: show_radix.induct)
  case (1 r n)
  show ?case
  proof (cases "n < r")
    case True
    with 1 show ?thesis by (subst show_radix.simps) (simp add: to_digit_digit_char)
  next
    case False
    with 1 show ?thesis
      by (subst show_radix.simps) (simp add: radix_value_append to_digit_digit_char)
  qed
qed

lemma show_radix_all:
  "2 \<le> r \<Longrightarrow> (\<And>d. d < r \<Longrightarrow> P (digit_char d)) \<Longrightarrow> list_all P (show_radix r n)"
proof (induction r n rule: show_radix.induct)
  case (1 r n)
  then show ?case by (cases "n < r") (subst show_radix.simps; simp)+
qed

lemma show_radix_nonempty [simp]: "show_radix r n \<noteq> []"
  by (subst show_radix.simps) simp

lemma length_show_radix:
  "2 \<le> r \<Longrightarrow> n < r ^ k \<Longrightarrow> 0 < k \<Longrightarrow> length (show_radix r n) \<le> k"
proof (induction r n arbitrary: k rule: show_radix.induct)
  case (1 r n)
  show ?case
  proof (cases "n < r")
    case True
    with 1 show ?thesis by (subst show_radix.simps) simp
  next
    case False
    with 1 obtain m where m: "k = Suc m" "0 < m" by (cases k; cases "k - 1") auto
    then have "n div r < r ^ m" using 1 by (simp add: less_mult_imp_div_less mult.commute)
    then have "length (show_radix r (n div r)) \<le> m" using 1 False m by simp
    with False 1(2) m show ?thesis by (subst show_radix.simps) simp
  qed
qed

lemma to_string_digits: "list_all is_ascii_digit (to_string w)"
  unfolding to_string_def by (rule show_radix_all) (simp_all add: digit_char_digit)

lemma to_string_nonempty [simp]: "to_string w \<noteq> []"
  by (simp add: to_string_def)

text \<open>No sign is stripped from a string that starts with a digit.\<close>

lemma from_str_radix_digits:
  assumes "s \<noteq> []" "list_all is_lower_hex s"
  shows "from_str_radix r s = (case radix_value r 0 s of None \<Rightarrow> None
    | Some v \<Rightarrow> if v < 2 ^ LENGTH('a) then Some (of_nat v :: 'a::len word) else None)"
proof -
  have "is_lower_hex (hd s)" using assms by (cases s) auto
  then have "hd s \<noteq> CHR ''+''" "hd s \<noteq> CHR ''-''" by (auto simp: byte_classes)
  with assms(1) show ?thesis by (cases s) (auto simp: from_str_radix_def)
qed

lemma digits_lower_hex: "list_all is_ascii_digit s \<Longrightarrow> list_all is_lower_hex s"
  by (auto simp: list_all_iff is_lower_hex_def)

lemma from_str_radix_to_string: "from_str_radix 10 (to_string w) = Some w" for w :: "'a::len word"
proof -
  have "from_str_radix 10 (to_string w) = (case radix_value 10 0 (to_string w) of None \<Rightarrow> None
    | Some v \<Rightarrow> if v < 2 ^ LENGTH('a) then Some (of_nat v :: 'a word) else None)"
    by (rule from_str_radix_digits [OF to_string_nonempty digits_lower_hex [OF to_string_digits]])
  then show ?thesis using unat_lt [of w] by (simp add: to_string_def show_radix_value)
qed

lemma hex_padded_lower_hex: "list_all is_lower_hex (hex_padded n w)"
proof -
  have "list_all is_lower_hex (show_radix 16 (unat w))"
    by (rule show_radix_all) (simp_all add: digit_char_lower_hex)
  then show ?thesis by (auto simp: hex_padded_def Let_def byte_classes list_all_iff)
qed

lemma radix_value_zeros: "1 < r \<Longrightarrow> radix_value r 0 (replicate k CHR ''0'' @ s) = radix_value r 0 s"
  by (induction k) (simp_all add: to_digit_def byte_classes)

lemma hex_padded_value: "radix_value 16 0 (hex_padded n w) = Some (unat w)"
  by (simp add: hex_padded_def Let_def radix_value_zeros show_radix_value)

lemma length_hex_padded: "unat w < 16 ^ n \<Longrightarrow> 0 < n \<Longrightarrow> length (hex_padded n w) = n"
  using length_show_radix [of 16 "unat w" n] by (simp add: hex_padded_def Let_def)

text \<open>A lowercase hexadecimal string of length \<open>n\<close> is the padded form of exactly one value.\<close>

lemma lower_hex_value:
  assumes "list_all is_lower_hex s"
  shows "\<exists>v. radix_value 16 0 s = Some v \<and> v < 16 ^ length s"
proof -
  from assms have "\<exists>v. radix_value 16 0 s = Some v"
  proof (induction s rule: rev_induct)
    case (snoc c s)
    then show ?case
      using lower_hex_digit [of c] by (auto simp: radix_value_append to_digit_digit_char)
  qed simp
  then show ?thesis using radix_value_bound [of 16 0 s] by fastforce
qed

lemma from_str_radix_hex_iff:
  assumes "list_all is_lower_hex s" "length s = n" "0 < n" "16 ^ n \<le> (2::nat) ^ LENGTH('a)"
  shows "from_str_radix 16 s = Some w \<longleftrightarrow> s = hex_padded n (w :: 'a::len word)"
    and "\<exists>w :: 'a word. from_str_radix 16 s = Some w \<and> unat w < 16 ^ n"
proof -
  from lower_hex_value [OF assms(1)] obtain v where
    v: "radix_value 16 0 s = Some v" "v < 16 ^ n" using assms(2) by auto
  have lt: "v < 2 ^ LENGTH('a)" using v(2) assms(4) by simp
  have un: "unat (of_nat v :: 'a word) = v" using lt by (simp add: unat_of_nat)
  have "s \<noteq> []" using assms by auto
  then have p: "from_str_radix 16 s = Some (of_nat v :: 'a word)"
    using from_str_radix_digits [OF _ assms(1), where 'a = 'a] v lt by simp
  then show "\<exists>w :: 'a word. from_str_radix 16 s = Some w \<and> unat w < 16 ^ n" using un v(2) by auto
  have "length (hex_padded n (of_nat v :: 'a word)) = n"
    using v(2) assms(3) un by (intro length_hex_padded) auto
  then have "s = hex_padded n (of_nat v :: 'a word)"
    using radix_value_inject [of 0 s v 0 "hex_padded n (of_nat v :: 'a word)"]
      v(1) hex_padded_value [of n "of_nat v :: 'a word"] un assms hex_padded_lower_hex by auto
  moreover have "s = hex_padded n w \<Longrightarrow> w = of_nat v"
    using hex_padded_value [of n w] v(1) by auto
  ultimately show "from_str_radix 16 s = Some w \<longleftrightarrow> s = hex_padded n w" using p by auto
qed

lemma hex_padded_parses:
  assumes "unat w < 16 ^ n" "0 < n" "16 ^ n \<le> (2::nat) ^ LENGTH('a)"
  shows "from_str_radix 16 (hex_padded n w) = Some (w :: 'a::len word)"
  using from_str_radix_hex_iff(1) [OF hex_padded_lower_hex length_hex_padded [OF assms(1,2)]
      assms(2,3), of w] by simp

section \<open>Facts about splitting\<close>

lemma split_nonempty [simp]: "split c s \<noteq> []"
  by (induction s) (auto split: list.split)

lemma join_Cons: "ws \<noteq> [] \<Longrightarrow> join sep (w # ws) = w @ sep @ join sep ws"
  by (cases ws) auto

lemma split_no_sep: "w \<in> set (split c s) \<Longrightarrow> c \<notin> set w"
  by (induction s arbitrary: w) (auto split: if_splits list.splits)

lemma join_split: "join [c] (split c s) = s"
proof (induction s)
  case (Cons x s)
  obtain y ys where s: "split c s = y # ys" by (cases "split c s") auto
  with Cons show ?case by (cases ys) simp_all
qed simp

lemma split_append: "c \<notin> set w \<Longrightarrow> split c (w @ c # s) = w # split c s"
  by (induction w) auto

lemma split_word: "c \<notin> set w \<Longrightarrow> split c w = [w]"
  by (induction w) auto

lemma split_join: "ws \<noteq> [] \<Longrightarrow> \<forall>w \<in> set ws. c \<notin> set w \<Longrightarrow> split c (join [c] ws) = ws"
proof (induction ws)
  case (Cons w ws)
  then show ?case by (cases ws) (auto simp: split_word split_append)
qed simp

lemma set_join: "x \<in> set (join sep ws) \<Longrightarrow> x \<in> set sep \<or> (\<exists>w \<in> set ws. x \<in> set w)"
  by (induction sep ws rule: join.induct) auto

lemma set_join_word: "w \<in> set ws \<Longrightarrow> x \<in> set w \<Longrightarrow> x \<in> set (join sep ws)"
  by (induction sep ws rule: join.induct) auto

lemma split_once_append: "c \<notin> set a \<Longrightarrow> split_once c (a @ c # b) = Some (a, b)"
  by (induction a) auto

lemma split_once_SomeD: "split_once c s = Some (a, b) \<Longrightarrow> s = a @ c # b \<and> c \<notin> set a"
proof (induction s arbitrary: a)
  case (Cons x s)
  show ?case
  proof (cases "x = c")
    case False
    with Cons.prems obtain a' where "split_once c s = Some (a', b)" "a = x # a'"
      by (auto split: option.splits)
    with Cons.IH False show ?thesis by simp
  qed (use Cons.prems in simp)
qed simp

lemma split_once_Some_iff: "split_once c s = Some (a, b) \<longleftrightarrow> s = a @ c # b \<and> c \<notin> set a"
  using split_once_append split_once_SomeD by metis

lemma split_once_None_iff: "split_once c s = None \<longleftrightarrow> c \<notin> set s"
  by (induction s) (auto split: option.splits)

lemma strip_suffix_Some_iff: "strip_suffix c s = Some r \<longleftrightarrow> s = r @ [c]"
  by (cases s rule: rev_cases) (auto simp: strip_suffix_def)

lemma strip_prefix_Some_iff: "strip_prefix p s = Some r \<longleftrightarrow> s = p @ r"
proof
  assume "strip_prefix p s = Some r"
  then have "take (length p) s = p" "drop (length p) s = r"
    by (simp_all add: strip_prefix_def split: if_splits)
  then show "s = p @ r" using append_take_drop_id [of "length p" s] by simp
qed (simp add: strip_prefix_def)

lemma utf8_ascii: "list_all (\<lambda>c. byte c < 128) s \<Longrightarrow> utf8_valid s"
  by (induction s) auto

end
