(* ===== verification/Ctl_Sysfs.thy ===== *)
theory Ctl_Sysfs
  imports Std_Text
begin

text \<open>
  The sysfs half of the control library, \<open>tools/sg2002-c906l-ctl/src/lib.rs\<close>: the
  identity of the contract and the activation status as the kernel driver prints them, their
  strict parsers and printers, the stable double read of the two attributes, and the
  validation against the contract compiled into the tool.

  Error messages are kept as the list of the pieces of their format string. A piece whose
  text is produced outside the sources or the standard library's plain formatting (the
  \<open>Debug\<close> form of a string, an errno of \<open>rustix\<close>, a set of poll events) keeps its
  argument instead of its text. The file system is a parameter: opening a path and reading
  an open file are arbitrary functions on an arbitrary state.
\<close>

section \<open>Data\<close>

datatype errno = INTR | AGAIN | Errno nat

datatype poll_flag = POLL_IN | POLL_OUT | POLL_ERR | POLL_HUP | POLL_NVAL | POLL_OTHER nat

datatype fragment = Text string | Debugged string | Errno_text errno | Events "poll_flag list"

type_synonym detail = "fragment list"

datatype ctl_error =
    Transport detail
  | SysfsRead string detail
  | MalformedSysfs string detail
  | UnstableSysfs
  | ContractMismatch string detail
  | ActivationMismatch detail
  | Timeout string
  | ShortWrite nat
  | ShortRead nat
  | UnexpectedService u8 u8
  | UnexpectedOpcode u8 u8
  | UnexpectedSequence u16 u16
  | UnexpectedValue u32 u32
  | RemoteError u16 u32
  | DataPlaneLength nat nat
  | DataPlaneMismatch nat
  | InvalidArgument string

record abi_version =
  av_major :: u16
  av_minor :: u16

datatype activation_outcome = NotRequired | AlreadyActive | Completed | RecoveredLostResponse

record contract_identity =
  ci_profile :: string
  ci_profile_id :: u32
  ci_sha256 :: "u8 list"
  ci_epoch :: u32
  ci_abi :: abi_version
  ci_final_capabilities :: u64
  ci_dormant_capabilities :: u64
  ci_lease_mask :: u64
  ci_manifest_flags :: u32
  ci_activation_required :: bool

record activation_status =
  driver_outcome :: activation_outcome
  act_state :: u8
  act_error :: u8
  act_attempts :: u16
  act_request_id :: u32

record control_state =
  cs_contract :: contract_identity
  cs_activation :: activation_status

definition compiled :: "contract \<Rightarrow> contract_identity" where
  "compiled c =
    \<lparr>ci_profile = PROFILE_NAME c, ci_profile_id = PROFILE_ID c, ci_sha256 = CONTRACT_SHA256 c,
     ci_epoch = CONTRACT_EPOCH c, ci_abi = \<lparr>av_major = ABI_MAJOR c, av_minor = ABI_MINOR c\<rparr>,
     ci_final_capabilities = EXPECTED_CAPABILITIES c,
     ci_dormant_capabilities = DORMANT_CAPABILITIES c, ci_lease_mask = LEASE_MASK c,
     ci_manifest_flags = MANIFEST_FLAGS c, ci_activation_required = ACTIVATION_REQUIRED c\<rparr>"

section \<open>Printing\<close>

definition show_abi :: "abi_version \<Rightarrow> string" where
  "show_abi v = to_string (av_major v) @ ''.'' @ to_string (av_minor v)"

fun show_outcome :: "activation_outcome \<Rightarrow> string" where
  "show_outcome NotRequired = ''not-required''"
| "show_outcome AlreadyActive = ''already-active''"
| "show_outcome Completed = ''completed''"
| "show_outcome RecoveredLostResponse = ''recovered-lost-response''"

definition format_digest :: "u8 list \<Rightarrow> string" where
  "format_digest digest = concat (map (hex_padded 2) digest)"

definition show_flag :: "bool \<Rightarrow> string" where
  "show_flag b = to_string (if b then 1 else 0 :: u8)"

definition show_contract :: "contract_identity \<Rightarrow> string" where
  "show_contract c =
     ''profile='' @ ci_profile c @ '' profile_id='' @ to_string (ci_profile_id c) @
     '' sha256='' @ format_digest (ci_sha256 c) @ '' epoch='' @ to_string (ci_epoch c) @
     '' abi='' @ show_abi (ci_abi c) @
     '' final_capabilities=0x'' @ hex_padded 16 (ci_final_capabilities c) @
     '' dormant_capabilities=0x'' @ hex_padded 16 (ci_dormant_capabilities c) @
     '' lease_mask=0x'' @ hex_padded 16 (ci_lease_mask c) @
     '' manifest_flags=0x'' @ hex_padded 8 (ci_manifest_flags c) @
     '' activation_required='' @ show_flag (ci_activation_required c)"

definition show_activation :: "activation_status \<Rightarrow> string" where
  "show_activation a =
     ''driver_outcome='' @ show_outcome (driver_outcome a) @ '' state='' @ to_string (act_state a) @
     '' error='' @ to_string (act_error a) @ '' attempts='' @ to_string (act_attempts a) @
     '' request_id='' @ to_string (act_request_id a)"

definition show_usize :: "nat \<Rightarrow> string" where
  "show_usize n = show_radix 10 n"

fun show_error :: "ctl_error \<Rightarrow> detail" where
  "show_error (Transport d) = Text ''transport error: '' # d"
| "show_error (SysfsRead path d) = Text ''cannot read '' # Text path # Text '': '' # d"
| "show_error (MalformedSysfs attribute d) =
     Text ''malformed '' # Text attribute # Text '' sysfs attribute: '' # d"
| "show_error UnstableSysfs =
     [Text ''contract or activation sysfs attribute changed between snapshots'']"
| "show_error (ContractMismatch field d) =
     Text ''compiled contract mismatch for '' # Text field # Text '': '' # d"
| "show_error (ActivationMismatch d) = Text ''activation state mismatch: '' # d"
| "show_error (Timeout phase) = [Text ''timed out waiting for '', Text phase]"
| "show_error (ShortWrite count) =
     [Text ''device accepted '', Text (show_usize count), Text '' bytes, expected exactly 8'']"
| "show_error (ShortRead count) =
     [Text ''device returned '', Text (show_usize count), Text '' bytes, expected exactly 8'']"
| "show_error (UnexpectedService expected actual) =
     [Text ''response service 0x'', Text (hex_padded 2 actual),
      Text '', expected 0x'', Text (hex_padded 2 expected)]"
| "show_error (UnexpectedOpcode expected actual) =
     [Text ''response opcode 0x'', Text (hex_padded 2 actual),
      Text '', expected 0x'', Text (hex_padded 2 expected)]"
| "show_error (UnexpectedSequence expected actual) =
     [Text ''response sequence '', Text (to_string actual),
      Text '', expected '', Text (to_string expected)]"
| "show_error (UnexpectedValue expected actual) =
     [Text ''response value 0x'', Text (hex_padded 8 actual),
      Text '', expected 0x'', Text (hex_padded 8 expected)]"
| "show_error (RemoteError seq val) =
     [Text ''firmware rejected sequence '', Text (to_string seq),
      Text '' with value 0x'', Text (hex_padded 8 val)]"
| "show_error (DataPlaneLength actual expected) =
     [Text ''RPMsg returned '', Text (show_usize actual),
      Text '' bytes, expected exactly '', Text (show_usize expected)]"
| "show_error (DataPlaneMismatch offset) =
     [Text ''RPMsg echo differs at byte '', Text (show_usize offset)]"
| "show_error (InvalidArgument d) = [Text d]"

section \<open>Parsing\<close>

definition malformed :: "string \<Rightarrow> detail \<Rightarrow> ctl_error" where
  "malformed attribute d = MalformedSysfs attribute d"

fun collect_fields :: "string \<Rightarrow> string list \<Rightarrow> string list \<Rightarrow> (string \<rightharpoonup> string)
    \<Rightarrow> ctl_error + (string \<rightharpoonup> string)" where
  "collect_fields attribute expected [] found = Inr found"
| "collect_fields attribute expected (entry # entries) found =
     (if entry = [] then Inl (malformed attribute [Text ''fields are not separated by one space''])
      else case split_once CHR ''='' entry of
        None \<Rightarrow> Inl (malformed attribute [Text ''field '', Debugged entry,
            Text ('' has no '' @ [CHR 0x27, CHR ''='', CHR 0x27])])
      | Some (name, val) \<Rightarrow>
          if name = [] \<or> val = [] \<or> CHR ''='' \<in> set val
          then Inl (malformed attribute [Text ''invalid field '', Debugged entry])
          else if name \<notin> set expected
          then Inl (malformed attribute [Text ''unknown field '', Debugged name])
          else if found name \<noteq> None
          then Inl (malformed attribute [Text ''duplicate field '', Debugged name])
          else collect_fields attribute expected entries (found(name \<mapsto> val)))"

definition parse_fields :: "string \<Rightarrow> string \<Rightarrow> string list \<Rightarrow> ctl_error + (string \<rightharpoonup> string)" where
  "parse_fields attribute input expected =
     (case strip_suffix CHR ''\<newline>'' input of
        None \<Rightarrow> Inl (malformed attribute [Text ''record is not newline-terminated''])
      | Some line \<Rightarrow>
          if line = [] \<or> CHR ''\<newline>'' \<in> set line \<or> CHR 0x0D \<in> set line
          then Inl (malformed attribute [Text ''record is empty or contains extra lines''])
          else case collect_fields attribute expected (split CHR '' '' line) Map.empty of
            Inl x \<Rightarrow> Inl x
          | Inr found \<Rightarrow>
              (case find (\<lambda>name. found name = None) expected of
                 Some name \<Rightarrow> Inl (malformed attribute [Text ''missing field '', Debugged name])
               | None \<Rightarrow> Inr found))"

definition parse_decimal :: "string \<Rightarrow> string \<Rightarrow> string \<Rightarrow> ctl_error + 'a::len word" where
  "parse_decimal attribute field t =
     (if t = [] \<or> \<not> list_all is_ascii_digit t
      then Inl (malformed attribute [Text field, Text '' is not decimal''])
      else case from_str_radix 10 t of
        None \<Rightarrow> Inl (malformed attribute [Text field, Text '' is out of range''])
      | Some v \<Rightarrow>
          if to_string v \<noteq> t
          then Inl (malformed attribute [Text field, Text '' is not canonically encoded''])
          else Inr v)"

definition parse_fixed_hex :: "string \<Rightarrow> string \<Rightarrow> string \<Rightarrow> nat \<Rightarrow> ctl_error + u64" where
  "parse_fixed_hex attribute field t digits =
     (case strip_prefix ''0x'' t of
        None \<Rightarrow> Inl (malformed attribute [Text field, Text '' has no 0x prefix''])
      | Some hex \<Rightarrow>
          if length hex \<noteq> digits \<or> \<not> list_all is_lower_hex hex
          then Inl (malformed attribute [Text field, Text '' is not '', Text (show_usize digits),
            Text ''-digit lowercase hexadecimal''])
          else case from_str_radix 16 hex of
            None \<Rightarrow> Inl (malformed attribute [Text field, Text '' is out of range''])
          | Some v \<Rightarrow> Inr v)"

definition parse_abi :: "string \<Rightarrow> string \<Rightarrow> ctl_error + abi_version" where
  "parse_abi attribute t =
     (case split_once CHR ''.'' t of
        None \<Rightarrow> Inl (malformed attribute [Text ''abi has no major.minor separator''])
      | Some (major, minor) \<Rightarrow>
          if CHR ''.'' \<in> set minor
          then Inl (malformed attribute [Text ''abi contains multiple separators''])
          else case parse_decimal attribute ''abi major'' major of
            Inl x \<Rightarrow> Inl x
          | Inr a \<Rightarrow> (case parse_decimal attribute ''abi minor'' minor of
              Inl x \<Rightarrow> Inl x
            | Inr b \<Rightarrow> Inr \<lparr>av_major = a, av_minor = b\<rparr>))"

text \<open>The loop over the 32 bytes of the digest; \<open>slice (2 * index) 2\<close> is the slice of the text.\<close>

fun digest_bytes :: "string \<Rightarrow> string \<Rightarrow> nat list \<Rightarrow> ctl_error + u8 list" where
  "digest_bytes attribute t [] = Inr []"
| "digest_bytes attribute t (index # rest) =
     (case from_str_radix 16 (slice (index * 2) 2 t) of
        None \<Rightarrow> Inl (malformed attribute [Text ''sha256 contains invalid hexadecimal''])
      | Some b \<Rightarrow> (case digest_bytes attribute t rest of Inl x \<Rightarrow> Inl x | Inr bs \<Rightarrow> Inr (b # bs)))"

definition parse_digest :: "string \<Rightarrow> string \<Rightarrow> ctl_error + u8 list" where
  "parse_digest attribute t =
     (if length t \<noteq> 64 \<or> \<not> list_all is_lower_hex t
      then Inl (malformed attribute [Text ''sha256 is not 64-digit lowercase hexadecimal''])
      else digest_bytes attribute t [0..<32])"

text \<open>\<open>fields[name]\<close> panics on a missing key.\<close>

definition field :: "(string \<rightharpoonup> string) \<Rightarrow> string \<Rightarrow> ('e, 'x, string) prog" where
  "field found name = (case found name of None \<Rightarrow> panic | Some v \<Rightarrow> ok v)"

definition canonical_slug :: "string \<Rightarrow> bool" where
  "canonical_slug s \<longleftrightarrow> s \<noteq> [] \<and>
     list_all (\<lambda>(index, c). is_ascii_lowercase c \<or> is_ascii_digit c \<and> index > 0
       \<or> c = CHR ''-'' \<and> index > 0) (List.enumerate 0 s)"

definition CONTRACT_FIELDS :: "string list" where
  "CONTRACT_FIELDS = [''profile'', ''profile_id'', ''sha256'', ''epoch'', ''abi'',
     ''final_capabilities'', ''dormant_capabilities'', ''lease_mask'', ''manifest_flags'',
     ''activation_required'']"

definition ACTIVATION_FIELDS :: "string list" where
  "ACTIVATION_FIELDS = [''driver_outcome'', ''state'', ''error'', ''attempts'', ''request_id'']"

definition parse_flag :: "string \<Rightarrow> ctl_error + bool" where
  "parse_flag t = (if t = ''0'' then Inr False else if t = ''1'' then Inr True
     else Inl (malformed ''contract'' [Text ''activation_required is not exactly 0 or 1'']))"

definition expect_u32 :: "u64 \<Rightarrow> ('e, 'x, u32) prog" where
  "expect_u32 v = (if unat v < 2 ^ 32 then ok (ucast v) else panic)"

text \<open>The two attribute parsers after \<open>parse_fields\<close> has succeeded.\<close>

definition contract_of_fields :: "(string \<rightharpoonup> string) \<Rightarrow> ('e, ctl_error, contract_identity) prog" where
  "contract_of_fields found =
     bind (field found ''profile'') (\<lambda>profile.
     if \<not> canonical_slug profile
     then fail (malformed ''contract'' [Text ''profile is not a canonical slug''])
     else
     bind (field found ''activation_required'') (\<lambda>t.
     bind (give (parse_flag t)) (\<lambda>required.
     bind (field found ''profile_id'') (\<lambda>t.
     bind (give (parse_decimal ''contract'' ''profile_id'' t)) (\<lambda>profile_id.
     bind (field found ''sha256'') (\<lambda>t.
     bind (give (parse_digest ''contract'' t)) (\<lambda>sha256.
     bind (field found ''epoch'') (\<lambda>t.
     bind (give (parse_decimal ''contract'' ''epoch'' t)) (\<lambda>epoch.
     bind (field found ''abi'') (\<lambda>t.
     bind (give (parse_abi ''contract'' t)) (\<lambda>abi.
     bind (field found ''final_capabilities'') (\<lambda>t.
     bind (give (parse_fixed_hex ''contract'' ''final_capabilities'' t 16)) (\<lambda>final.
     bind (field found ''dormant_capabilities'') (\<lambda>t.
     bind (give (parse_fixed_hex ''contract'' ''dormant_capabilities'' t 16)) (\<lambda>dormant.
     bind (field found ''lease_mask'') (\<lambda>t.
     bind (give (parse_fixed_hex ''contract'' ''lease_mask'' t 16)) (\<lambda>leases.
     bind (field found ''manifest_flags'') (\<lambda>t.
     bind (give (parse_fixed_hex ''contract'' ''manifest_flags'' t 8)) (\<lambda>flags.
     bind (expect_u32 flags) (\<lambda>flags.
     ok \<lparr>ci_profile = profile, ci_profile_id = profile_id, ci_sha256 = sha256, ci_epoch = epoch,
         ci_abi = abi, ci_final_capabilities = final, ci_dormant_capabilities = dormant,
         ci_lease_mask = leases, ci_manifest_flags = flags,
         ci_activation_required = required\<rparr>))))))))))))))))))))"

definition parse_contract_attribute :: "string \<Rightarrow> ('e, ctl_error, contract_identity) prog" where
  "parse_contract_attribute input =
     bind (give (parse_fields ''contract'' input CONTRACT_FIELDS)) contract_of_fields"

definition parse_outcome :: "string \<Rightarrow> ctl_error + activation_outcome" where
  "parse_outcome t =
     (if t = ''not-required'' then Inr NotRequired
      else if t = ''already-active'' then Inr AlreadyActive
      else if t = ''completed'' then Inr Completed
      else if t = ''recovered-lost-response'' then Inr RecoveredLostResponse
      else Inl (malformed ''activation'' [Text ''unknown driver_outcome '', Debugged t]))"

definition activation_of_fields :: "(string \<rightharpoonup> string) \<Rightarrow> ('e, ctl_error, activation_status) prog" where
  "activation_of_fields found =
     bind (field found ''driver_outcome'') (\<lambda>t.
     bind (give (parse_outcome t)) (\<lambda>outcome.
     bind (field found ''state'') (\<lambda>t.
     bind (give (parse_decimal ''activation'' ''state'' t)) (\<lambda>state.
     bind (field found ''error'') (\<lambda>t.
     bind (give (parse_decimal ''activation'' ''error'' t)) (\<lambda>err.
     bind (field found ''attempts'') (\<lambda>t.
     bind (give (parse_decimal ''activation'' ''attempts'' t)) (\<lambda>attempts.
     bind (field found ''request_id'') (\<lambda>t.
     bind (give (parse_decimal ''activation'' ''request_id'' t)) (\<lambda>request_id.
     ok \<lparr>driver_outcome = outcome, act_state = state, act_error = err,
         act_attempts = attempts, act_request_id = request_id\<rparr>))))))))))"

definition parse_activation_attribute :: "string \<Rightarrow> ('e, ctl_error, activation_status) prog" where
  "parse_activation_attribute input =
     bind (give (parse_fields ''activation'' input ACTIVATION_FIELDS)) activation_of_fields"

section \<open>Reading\<close>

text \<open>
  \<open>fs_open\<close> is \<open>File::open\<close>; \<open>fs_read\<close> is \<open>take(limit).read_to_end\<close> on the open
  file, the bytes up to the end of the file or to the limit. Both may fail with the text of an
  error, and the next call may find different contents.
\<close>

record ('file, 'h) file_system =
  fs_open :: "string \<Rightarrow> 'h \<Rightarrow> (string + 'file) \<times> 'h"
  fs_read :: "'file \<Rightarrow> nat \<Rightarrow> 'h \<Rightarrow> (string + string) \<times> 'h"

text \<open>The contents each completed read returned, for the order of the reads.\<close>

datatype fs_event = Snapshot string "string option"

definition path_join :: "string \<Rightarrow> string \<Rightarrow> string" where
  "path_join directory name = (if directory = [] \<or> last directory = CHR ''/''
     then directory @ name else directory @ ''/'' @ name)"

definition read_file :: "('file, 'h) file_system \<Rightarrow> string \<Rightarrow> nat
    \<Rightarrow> (('h, fs_event) machine, ctl_error, string) prog" where
  "read_file fs path limit = (\<lambda>m. case fs_open fs path (m_hw m) of
      (Inl err, h) \<Rightarrow> Some (Inl (SysfsRead path [Text err]), \<lparr>m_hw = h, m_log = m_log m @ [Snapshot path None]\<rparr>)
    | (Inr file, h) \<Rightarrow> (case fs_read fs file limit h of
        (Inl err, h') \<Rightarrow> Some (Inl (SysfsRead path [Text err]),
          \<lparr>m_hw = h', m_log = m_log m @ [Snapshot path None]\<rparr>)
      | (Inr bytes, h') \<Rightarrow> Some (Inr bytes, \<lparr>m_hw = h', m_log = m_log m @ [Snapshot path (Some bytes)]\<rparr>)))"

definition read_attribute :: "('file, 'h) file_system \<Rightarrow> string \<Rightarrow> string
    \<Rightarrow> (('h, fs_event) machine, ctl_error, string) prog" where
  "read_attribute fs directory name =
     bind (read_file fs (path_join directory name) 4097) (\<lambda>bytes.
     if length bytes > 4096 then fail (malformed name [Text ''record exceeds one sysfs page''])
     else if utf8_valid bytes then ok bytes
     else fail (malformed name [Text ''record is not UTF-8'']))"

definition read_stable_attribute :: "('file, 'h) file_system \<Rightarrow> string \<Rightarrow> string
    \<Rightarrow> (('h, fs_event) machine, ctl_error, string) prog" where
  "read_stable_attribute fs directory name =
     bind (read_attribute fs directory name) (\<lambda>first.
     bind (read_attribute fs directory name) (\<lambda>second.
     if first \<noteq> second then fail UnstableSysfs else ok first))"

definition read_contract :: "('file, 'h) file_system \<Rightarrow> string
    \<Rightarrow> (('h, fs_event) machine, ctl_error, contract_identity) prog" where
  "read_contract fs directory =
     bind (read_stable_attribute fs directory ''contract'') parse_contract_attribute"

definition read_activation :: "('file, 'h) file_system \<Rightarrow> string
    \<Rightarrow> (('h, fs_event) machine, ctl_error, activation_status) prog" where
  "read_activation fs directory =
     bind (read_stable_attribute fs directory ''activation'') parse_activation_attribute"

definition read_control_state :: "('file, 'h) file_system \<Rightarrow> string
    \<Rightarrow> (('h, fs_event) machine, ctl_error, control_state) prog" where
  "read_control_state fs directory =
     bind (read_attribute fs directory ''contract'') (\<lambda>first_contract.
     bind (read_attribute fs directory ''activation'') (\<lambda>first_activation.
     bind (read_attribute fs directory ''contract'') (\<lambda>second_contract.
     bind (read_attribute fs directory ''activation'') (\<lambda>second_activation.
     if first_contract \<noteq> second_contract \<or> first_activation \<noteq> second_activation
     then fail UnstableSysfs
     else
     bind (parse_contract_attribute first_contract) (\<lambda>c.
     bind (parse_activation_attribute first_activation) (\<lambda>a.
     ok \<lparr>cs_contract = c, cs_activation = a\<rparr>))))))"

section \<open>Validation\<close>

definition contract_mismatch :: "string \<Rightarrow> string \<Rightarrow> string \<Rightarrow> ctl_error" where
  "contract_mismatch name actual expected =
     ContractMismatch name [Text ''got '', Text actual, Text '', expected '', Text expected]"

definition validate_compiled_contract :: "contract \<Rightarrow> contract_identity \<Rightarrow> ctl_error + unit" where
  "validate_compiled_contract c actual =
     (let expected = compiled c in
      if ci_profile actual \<noteq> ci_profile expected
      then Inl (contract_mismatch ''profile'' (ci_profile actual) (ci_profile expected))
      else if ci_profile_id actual \<noteq> ci_profile_id expected
      then Inl (contract_mismatch ''profile_id'' (to_string (ci_profile_id actual))
        (to_string (ci_profile_id expected)))
      else if ci_sha256 actual \<noteq> ci_sha256 expected
      then Inl (contract_mismatch ''sha256'' (format_digest (ci_sha256 actual))
        (format_digest (ci_sha256 expected)))
      else if ci_epoch actual \<noteq> ci_epoch expected
      then Inl (contract_mismatch ''epoch'' (to_string (ci_epoch actual))
        (to_string (ci_epoch expected)))
      else if ci_abi actual \<noteq> ci_abi expected
      then Inl (contract_mismatch ''abi'' (show_abi (ci_abi actual)) (show_abi (ci_abi expected)))
      else if ci_final_capabilities actual \<noteq> ci_final_capabilities expected
      then Inl (contract_mismatch ''final_capabilities''
        (''0x'' @ hex_padded 16 (ci_final_capabilities actual))
        (''0x'' @ hex_padded 16 (ci_final_capabilities expected)))
      else if ci_dormant_capabilities actual \<noteq> ci_dormant_capabilities expected
      then Inl (contract_mismatch ''dormant_capabilities''
        (''0x'' @ hex_padded 16 (ci_dormant_capabilities actual))
        (''0x'' @ hex_padded 16 (ci_dormant_capabilities expected)))
      else if ci_lease_mask actual \<noteq> ci_lease_mask expected
      then Inl (contract_mismatch ''lease_mask''
        (''0x'' @ hex_padded 16 (ci_lease_mask actual))
        (''0x'' @ hex_padded 16 (ci_lease_mask expected)))
      else if ci_manifest_flags actual \<noteq> ci_manifest_flags expected
      then Inl (contract_mismatch ''manifest_flags''
        (''0x'' @ hex_padded 8 (ci_manifest_flags actual))
        (''0x'' @ hex_padded 8 (ci_manifest_flags expected)))
      else if ci_activation_required actual \<noteq> ci_activation_required expected
      then Inl (contract_mismatch ''activation_required''
        (show_flag (ci_activation_required actual)) (show_flag (ci_activation_required expected)))
      else Inr ())"

definition validate_activation ::
    "contract \<Rightarrow> contract_identity \<Rightarrow> activation_status \<Rightarrow> ctl_error + unit" where
  "validate_activation c identity a =
     (if act_state a \<noteq> ACTIVATION_STATE_ACTIVE c
      then Inl (ActivationMismatch [Text ''state is '', Text (to_string (act_state a)),
        Text '', expected ACTIVE ('', Text (to_string (ACTIVATION_STATE_ACTIVE c)), Text '')''])
      else if ucast (act_error a) \<noteq> ACTIVATION_RESULT_SUCCESS c
      then Inl (ActivationMismatch [Text ''error is '', Text (to_string (act_error a)),
        Text '', expected SUCCESS ('', Text (to_string (ACTIVATION_RESULT_SUCCESS c)), Text '')''])
      else if ci_activation_required identity then
        (if driver_outcome a = NotRequired
         then Inl (ActivationMismatch [Text ''lease profile reports driver_outcome=not-required''])
         else if act_attempts a = 0 \<or> act_request_id a = 0
         then Inl (ActivationMismatch
           [Text ''lease profile has no completed activation attempt/request''])
         else Inr ())
      else if driver_outcome a \<noteq> NotRequired \<or> act_attempts a \<noteq> 0 \<or> act_request_id a \<noteq> 0
      then Inl (ActivationMismatch [Text ''base profile has unexpected activation history''])
      else Inr ())"

definition validate_control_state :: "contract \<Rightarrow> control_state \<Rightarrow> ctl_error + unit" where
  "validate_control_state c s =
     (case validate_compiled_contract c (cs_contract s) of
        Inl x \<Rightarrow> Inl x
      | Inr _ \<Rightarrow> validate_activation c (cs_contract s) (cs_activation s))"

section \<open>Facts about the parsers\<close>

lemma parse_decimal_Inr_iff: "parse_decimal a f t = Inr v \<longleftrightarrow> t = to_string v"
proof
  assume "parse_decimal a f t = Inr v"
  then show "t = to_string v"
    by (simp add: parse_decimal_def split: if_splits option.splits)
next
  assume "t = to_string v"
  then show "parse_decimal a f t = Inr v"
    using to_string_digits [of v] by (simp add: parse_decimal_def from_str_radix_to_string)
qed

lemma parse_fixed_hex_Inr_iff:
  assumes "0 < n" "n \<le> 16"
  shows "parse_fixed_hex a f t n = Inr v \<longleftrightarrow> t = ''0x'' @ hex_padded n v \<and> unat v < 16 ^ n"
proof -
  have pow: "(16::nat) ^ n \<le> 2 ^ LENGTH(64)"
    using power_increasing [OF assms(2), of "16::nat"] by simp
  show ?thesis
  proof (cases "strip_prefix ''0x'' t")
    case None
    then have "t \<noteq> ''0x'' @ hex_padded n v"
      using strip_prefix_Some_iff [of "''0x''" t "hex_padded n v"] by auto
    then show ?thesis using None by (simp add: parse_fixed_hex_def)
  next
    case (Some hex)
    then have t: "t = ''0x'' @ hex" by (simp only: strip_prefix_Some_iff)
    show ?thesis
    proof (cases "length hex = n \<and> list_all is_lower_hex hex")
      case False
      then have "hex = hex_padded n v \<Longrightarrow> \<not> unat v < 16 ^ n"
        using length_hex_padded [of v n] hex_padded_lower_hex assms(1) by auto
      with False show ?thesis using Some by (auto simp: parse_fixed_hex_def t)
    next
      case True
      from from_str_radix_hex_iff [where 'a = 64, OF conjunct2 [OF True] conjunct1 [OF True]
          assms(1) pow]
      have iff: "from_str_radix 16 hex = Some v \<longleftrightarrow> hex = hex_padded n v"
        and ex: "\<exists>w :: u64. from_str_radix 16 hex = Some w \<and> unat w < 16 ^ n" by auto
      from ex have "from_str_radix 16 hex = Some v \<Longrightarrow> unat v < 16 ^ n" by auto
      with iff True Some show ?thesis by (auto simp: parse_fixed_hex_def t split: option.splits)
    qed
  qed
qed

lemma digit_chars_no: "list_all is_ascii_digit s \<Longrightarrow> \<not> is_ascii_digit c \<Longrightarrow> c \<notin> set s"
  by (auto simp: list_all_iff)

lemma to_string_no: "\<not> is_ascii_digit c \<Longrightarrow> c \<notin> set (to_string w)"
  using to_string_digits by (rule digit_chars_no)

lemma parse_abi_Inr_iff: "parse_abi a t = Inr v \<longleftrightarrow> t = show_abi v"
proof
  assume "parse_abi a t = Inr v"
  then show "t = show_abi v"
    by (auto simp: parse_abi_def show_abi_def parse_decimal_Inr_iff split_once_Some_iff
        split: option.splits if_splits sum.splits)
next
  assume "t = show_abi v"
  then have "split_once CHR ''.'' t = Some (to_string (av_major v), to_string (av_minor v))"
    by (simp add: show_abi_def split_once_append to_string_no byte_classes)
  moreover have "CHR ''.'' \<notin> set (to_string (av_minor v))"
    by (simp add: to_string_no byte_classes)
  moreover have "parse_decimal a f (to_string w) = Inr w" for f and w :: u16
    by (simp add: parse_decimal_Inr_iff)
  ultimately show "parse_abi a t = Inr v" by (simp add: parse_abi_def)
qed

lemma length_hex_byte: "length (hex_padded 2 (b :: u8)) = 2"
  using length_hex_padded [of b 2] unat_lt [of b] by simp

lemma length_format_digest: "length (format_digest d) = 2 * length d"
  by (induction d) (simp_all add: format_digest_def length_hex_byte)

lemma slice_format_digest: "i < length d \<Longrightarrow> slice (i * 2) 2 (format_digest d) = hex_padded 2 (d ! i)"
proof (induction d arbitrary: i)
  case (Cons b d)
  then show ?case
    by (cases i) (simp_all add: format_digest_def slice_def length_hex_byte)
qed simp

lemma hex_byte_parses: "from_str_radix 16 (hex_padded 2 b) = Some (b :: u8)"
  using hex_padded_parses [of b 2] unat_lt [of b] by simp

lemma digest_bytes_format:
  "\<forall>i \<in> set is. i < length d \<Longrightarrow> digest_bytes a (format_digest d) is = Inr (map ((!) d) is)"
  by (induction "is") (simp_all add: slice_format_digest hex_byte_parses)

lemma lower_hex_slice: "list_all is_lower_hex t \<Longrightarrow> list_all is_lower_hex (slice i n t)"
  by (auto simp: slice_def list_all_iff dest: in_set_takeD in_set_dropD)

lemma digest_bytes_Inr:
  assumes "\<forall>i \<in> set is. i * 2 + 2 \<le> length t" "list_all is_lower_hex t"
  shows "\<exists>bs. digest_bytes a t is = Inr bs \<and> length bs = length is \<and>
    (\<forall>k < length is. slice (is ! k * 2) 2 t = hex_padded 2 (bs ! k))"
  using assms
proof (induction "is")
  case (Cons i "is")
  then obtain bs where bs: "digest_bytes a t is = Inr bs" "length bs = length is"
    "\<forall>k < length is. slice (is ! k * 2) 2 t = hex_padded 2 (bs ! k)" by auto
  have l: "length (slice (i * 2) 2 t) = 2" using Cons.prems by simp
  note h = from_str_radix_hex_iff [where 'a = 8, OF lower_hex_slice [OF Cons.prems(2)] l]
  obtain b :: u8 where b: "from_str_radix 16 (slice (i * 2) 2 t) = Some b"
    using h(2) by auto
  then have "slice (i * 2) 2 t = hex_padded 2 b" using h(1) by simp
  with bs b show ?case
    by (auto simp: nth_Cons less_Suc_eq_0_disj split: nat.split)
qed simp

lemma concat_slices:
  "length t = 2 * n \<Longrightarrow> concat (map (\<lambda>k. slice (k * 2) 2 t) [0..<n]) = t"
proof (induction n arbitrary: t)
  case (Suc n)
  then have "length (take (2 * n) t) = 2 * n" by simp
  from Suc.IH [OF this]
  have "concat (map (\<lambda>k. slice (k * 2) 2 t) [0..<n]) = take (2 * n) t"
    by (auto simp: slice_def take_drop min_def intro!: arg_cong [where f = concat] cong: map_cong
        elim!: trans [rotated])
  then show ?case using Suc.prems append_take_drop_id [of "2 * n" t]
    by (simp add: slice_def mult.commute)
qed simp

lemma parse_digest_Inr_iff: "parse_digest a t = Inr d \<longleftrightarrow> length d = 32 \<and> t = format_digest d"
proof
  assume p: "parse_digest a t = Inr d"
  then have l: "length t = 64" "list_all is_lower_hex t" and d: "digest_bytes a t [0..<32] = Inr d"
    by (simp_all add: parse_digest_def split: if_splits)
  have "\<exists>bs. digest_bytes a t [0..<32] = Inr bs \<and> length bs = length [0..<32] \<and>
    (\<forall>k < length [0..<32]. slice ([0..<32] ! k * 2) 2 t = hex_padded 2 (bs ! k))"
    by (rule digest_bytes_Inr) (use l in auto)
  then have bs: "length d = 32" "\<forall>k < 32. slice (k * 2) 2 t = hex_padded 2 (d ! k)"
    using d by auto
  have "t = concat (map (\<lambda>k. slice (k * 2) 2 t) [0..<32])" using l(1) by (simp only: concat_slices)
  also have "map (\<lambda>k. slice (k * 2) 2 t) [0..<32] = map (hex_padded 2) d"
    by (rule nth_equalityI) (use bs in auto)
  finally show "length d = 32 \<and> t = format_digest d" using bs(1) by (simp only: format_digest_def)
next
  assume d: "length d = 32 \<and> t = format_digest d"
  then have "list_all is_lower_hex t"
    using hex_padded_lower_hex by (auto simp: format_digest_def list_all_iff)
  moreover have "digest_bytes a t [0..<32] = Inr (map ((!) d) [0..<32])"
    using d by (simp add: digest_bytes_format del: upt_rec_numeral)
  moreover have "map ((!) d) [0..<32] = d" using d map_nth [of d] by simp
  ultimately show "parse_digest a t = Inr d"
    using d by (simp add: parse_digest_def length_format_digest del: upt_rec_numeral)
qed

lemma parse_flag_Inr_iff: "parse_flag t = Inr b \<longleftrightarrow> t = show_flag b"
proof -
  have "show_flag True = ''1''" "show_flag False = ''0''"
    by (simp_all add: show_flag_def to_string_def show_radix.simps byte_digit_char
        byte_inject [symmetric] byte_def [of "CHR ''1''"])
  then show ?thesis by (cases b) (simp_all add: parse_flag_def)
qed

lemma parse_outcome_Inr_iff: "parse_outcome t = Inr v \<longleftrightarrow> t = show_outcome v"
  by (cases v) (simp_all add: parse_outcome_def)

section \<open>Records of fields\<close>

definition entry :: "string \<times> string \<Rightarrow> string" where
  "entry kv = fst kv @ ''='' @ snd kv"

text \<open>A value has no separator: no space, no equals sign, no line break.\<close>

definition plain :: "string \<Rightarrow> bool" where
  "plain s \<longleftrightarrow> s \<noteq> [] \<and> list_all (\<lambda>c. c \<noteq> CHR '' '' \<and> c \<noteq> CHR ''='' \<and> c \<noteq> CHR ''\<newline>'' \<and> c \<noteq> CHR 0x0D) s"

definition record_line :: "(string \<times> string) list \<Rightarrow> string" where
  "record_line kvs = join '' '' (map entry kvs) @ ''\<newline>''"

lemma plain_iff:
  "plain s \<longleftrightarrow> s \<noteq> [] \<and> CHR '' '' \<notin> set s \<and> CHR ''='' \<notin> set s \<and> CHR ''\<newline>'' \<notin> set s \<and> CHR 0x0D \<notin> set s"
  by (auto simp: plain_def list_all_iff)

lemma split_once_entry: "plain k \<Longrightarrow> split_once CHR ''='' (entry (k, v)) = Some (k, v)"
  by (simp add: entry_def split_once_append plain_iff)

lemma collect_fields_complete:
  assumes "list_all (\<lambda>(k, v). plain k \<and> plain v \<and> k \<in> set expected) kvs" "distinct (map fst kvs)"
    "\<forall>k \<in> set (map fst kvs). found k = None"
  shows "collect_fields a expected (map entry kvs) found = Inr (found ++ map_of kvs)"
  using assms
proof (induction kvs arbitrary: found)
  case (Cons kv kvs)
  obtain k v where kv: "kv = (k, v)" by (cases kv)
  have IH: "collect_fields a expected (map entry kvs) (found(k \<mapsto> v)) = Inr (found(k \<mapsto> v) ++ map_of kvs)"
    using Cons.prems kv by (intro Cons.IH) auto
  have "map_of kvs k = None" using Cons.prems kv by (auto simp: map_of_eq_None_iff)
  then have eq: "found(k \<mapsto> v) ++ map_of kvs = found ++ map_of (kv # kvs)"
    using kv by (auto simp: map_add_def fun_eq_iff split: option.splits)
  have "entry kv \<noteq> []" by (simp add: entry_def)
  moreover have "split_once CHR ''='' (entry kv) = Some (k, v)"
    using Cons.prems kv by (simp add: split_once_entry)
  ultimately have "collect_fields a expected (map entry (kv # kvs)) found =
      collect_fields a expected (map entry kvs) (found(k \<mapsto> v))"
    using Cons.prems kv by (simp add: plain_iff)
  then show ?case by (simp only: IH eq)
qed simp

lemma collect_fields_sound:
  assumes "collect_fields a expected entries found = Inr m"
    "\<forall>e \<in> set entries. CHR '' '' \<notin> set e \<and> CHR ''\<newline>'' \<notin> set e \<and> CHR 0x0D \<notin> set e"
  shows "\<exists>kvs. entries = map entry kvs \<and> m = found ++ map_of kvs \<and>
    list_all (\<lambda>(k, v). plain k \<and> plain v \<and> k \<in> set expected) kvs \<and> distinct (map fst kvs) \<and>
    (\<forall>k \<in> set (map fst kvs). found k = None)"
  using assms
proof (induction entries arbitrary: found)
  case Nil
  then show ?case by (intro exI [of _ "[]"]) simp
next
  case (Cons e es)
  from Cons.prems(1) obtain k v where s: "split_once CHR ''='' e = Some (k, v)"
    by (auto split: option.splits if_splits)
  with Cons.prems(1) have g: "k \<noteq> []" "v \<noteq> []" "CHR ''='' \<notin> set v" "k \<in> set expected" "found k = None"
    and r: "collect_fields a expected es (found(k \<mapsto> v)) = Inr m"
    by (auto split: if_splits)
  from split_once_SomeD [OF s] have e: "e = entry (k, v)" "CHR ''='' \<notin> set k"
    by (simp_all add: entry_def)
  have p: "plain k" "plain v" using g e Cons.prems(2) by (auto simp: plain_iff entry_def)
  have "\<forall>e \<in> set es. CHR '' '' \<notin> set e \<and> CHR ''\<newline>'' \<notin> set e \<and> CHR 0x0D \<notin> set e"
    using Cons.prems(2) by simp
  from Cons.IH [OF r this] obtain kvs where
    kvs: "es = map entry kvs" "m = found(k \<mapsto> v) ++ map_of kvs"
      "list_all (\<lambda>(k, v). plain k \<and> plain v \<and> k \<in> set expected) kvs" "distinct (map fst kvs)"
      "\<forall>x \<in> set (map fst kvs). (found(k \<mapsto> v)) x = None" by blast
  have k: "k \<notin> set (map fst kvs)" using kvs(5) by fastforce
  then have "map_of kvs k = None" by (simp add: map_of_eq_None_iff)
  then have m: "m = found ++ map_of ((k, v) # kvs)"
    using kvs(2) by (auto simp: map_add_def fun_eq_iff split: option.splits)
  show ?case using kvs(1,3-5) g p e k
    by (intro exI [of _ "(k, v) # kvs"] conjI m) (auto split: if_splits)
qed

definition record_of :: "string list \<Rightarrow> (string \<times> string) list \<Rightarrow> bool" where
  "record_of expected kvs \<longleftrightarrow> list_all (\<lambda>(k, v). plain k \<and> plain v) kvs \<and>
     distinct (map fst kvs) \<and> set (map fst kvs) = set expected"

lemma parse_fields_Inr_iff:
  assumes "expected \<noteq> []"
  shows "parse_fields a s expected = Inr m \<longleftrightarrow>
    (\<exists>kvs. record_of expected kvs \<and> s = record_line kvs \<and> m = map_of kvs)"
proof
  assume "parse_fields a s expected = Inr m"
  then obtain line where line: "s = line @ ''\<newline>''" "CHR ''\<newline>'' \<notin> set line" "CHR 0x0D \<notin> set line"
    and c: "collect_fields a expected (split CHR '' '' line) Map.empty = Inr m"
    and all: "find (\<lambda>n. m n = None) expected = None"
    by (auto simp: parse_fields_def strip_suffix_Some_iff split: option.splits if_splits sum.splits)
  have "\<forall>e \<in> set (split CHR '' '' line).
      CHR '' '' \<notin> set e \<and> CHR ''\<newline>'' \<notin> set e \<and> CHR 0x0D \<notin> set e"
  proof
    fix e assume e: "e \<in> set (split CHR '' '' line)"
    then have "set e \<subseteq> set line"
      using set_join_word [OF e, of _ "'' ''"] by (auto simp: join_split)
    with line split_no_sep [OF e] show "CHR '' '' \<notin> set e \<and> CHR ''\<newline>'' \<notin> set e \<and> CHR 0x0D \<notin> set e"
      by auto
  qed
  from collect_fields_sound [OF c this] obtain kvs where
    kvs: "split CHR '' '' line = map entry kvs" "m = map_of kvs"
      "list_all (\<lambda>(k, v). plain k \<and> plain v \<and> k \<in> set expected) kvs" "distinct (map fst kvs)"
    by auto
  have "line = join '' '' (map entry kvs)" using join_split [of "CHR '' ''" line] kvs(1) by simp
  then have "s = record_line kvs" using line by (simp add: record_line_def)
  moreover have "set expected \<subseteq> set (map fst kvs)"
    using all kvs(2) by (auto simp: find_None_iff map_of_eq_None_iff)
  then have "record_of expected kvs"
    using kvs(3,4) by (auto simp: record_of_def list_all_iff)
  ultimately show "\<exists>kvs. record_of expected kvs \<and> s = record_line kvs \<and> m = map_of kvs"
    using kvs(2) by blast
next
  assume "\<exists>kvs. record_of expected kvs \<and> s = record_line kvs \<and> m = map_of kvs"
  then obtain kvs where kvs: "record_of expected kvs" "s = record_line kvs" "m = map_of kvs"
    by blast
  define line where "line = join '' '' (map entry kvs)"
  have ne: "kvs \<noteq> []" using kvs(1) assms by (auto simp: record_of_def)
  have e: "CHR '' '' \<notin> set (entry kv) \<and> CHR ''\<newline>'' \<notin> set (entry kv) \<and> CHR 0x0D \<notin> set (entry kv)"
    if "kv \<in> set kvs" for kv
    using that kvs(1) by (auto simp: record_of_def list_all_iff plain_iff entry_def)
  have sp: "split CHR '' '' line = map entry kvs"
    unfolding line_def using ne e by (intro split_join) auto
  have nl: "CHR ''\<newline>'' \<notin> set line" "CHR 0x0D \<notin> set line"
    unfolding line_def using e by (auto dest!: set_join)
  have "line \<noteq> []"
  proof
    assume "line = []"
    then have "map entry kvs = [[]]" using sp by simp
    then show False by (auto simp: entry_def)
  qed
  moreover have "k \<in> set expected" if "(k, v) \<in> set kvs" for k v
    using that kvs(1) by (force simp: record_of_def)
  then have "collect_fields a expected (map entry kvs) Map.empty = Inr (Map.empty ++ map_of kvs)"
    using kvs(1) by (intro collect_fields_complete) (auto simp: record_of_def list_all_iff)
  moreover have "find (\<lambda>n. m n = None) expected = None"
    using kvs(1,3) by (auto simp: find_None_iff map_of_eq_None_iff record_of_def)
  ultimately show "parse_fields a s expected = Inr m"
    using kvs(2,3) nl sp
    by (simp add: parse_fields_def record_line_def strip_suffix_def line_def [symmetric])
qed

section \<open>Attributes\<close>

text \<open>The fields of the two attributes in the order in which they are printed.\<close>

definition contract_fields :: "contract_identity \<Rightarrow> (string \<times> string) list" where
  "contract_fields c =
    [(''profile'', ci_profile c), (''profile_id'', to_string (ci_profile_id c)),
     (''sha256'', format_digest (ci_sha256 c)), (''epoch'', to_string (ci_epoch c)),
     (''abi'', show_abi (ci_abi c)),
     (''final_capabilities'', ''0x'' @ hex_padded 16 (ci_final_capabilities c)),
     (''dormant_capabilities'', ''0x'' @ hex_padded 16 (ci_dormant_capabilities c)),
     (''lease_mask'', ''0x'' @ hex_padded 16 (ci_lease_mask c)),
     (''manifest_flags'', ''0x'' @ hex_padded 8 (ci_manifest_flags c)),
     (''activation_required'', show_flag (ci_activation_required c))]"

definition activation_fields :: "activation_status \<Rightarrow> (string \<times> string) list" where
  "activation_fields a =
    [(''driver_outcome'', show_outcome (driver_outcome a)), (''state'', to_string (act_state a)),
     (''error'', to_string (act_error a)), (''attempts'', to_string (act_attempts a)),
     (''request_id'', to_string (act_request_id a))]"

text \<open>The identities that have a printed form the parser accepts.\<close>

definition identity_ok :: "contract_identity \<Rightarrow> bool" where
  "identity_ok c \<longleftrightarrow> canonical_slug (ci_profile c) \<and> length (ci_sha256 c) = 32"

text \<open>\<open>shuffled kvs fs\<close>: \<open>kvs\<close> has the fields \<open>fs\<close>, each once, in any order.\<close>

definition shuffled :: "(string \<times> string) list \<Rightarrow> (string \<times> string) list \<Rightarrow> bool" where
  "shuffled kvs fs \<longleftrightarrow> distinct kvs \<and> set kvs = set fs"

lemma show_contract_fields: "show_contract c @ ''\<newline>'' = record_line (contract_fields c)"
  by (simp add: show_contract_def record_line_def contract_fields_def entry_def)

lemma show_activation_fields: "show_activation a @ ''\<newline>'' = record_line (activation_fields a)"
  by (simp add: show_activation_def record_line_def activation_fields_def entry_def)

lemma plain_class: "s \<noteq> [] \<Longrightarrow> list_all P s \<Longrightarrow>
    \<not> P CHR '' '' \<Longrightarrow> \<not> P CHR ''='' \<Longrightarrow> \<not> P CHR ''\<newline>'' \<Longrightarrow> \<not> P CHR 0x0D \<Longrightarrow> plain s"
  by (auto simp: plain_iff list_all_iff)

lemma plain_append: "plain s \<Longrightarrow> plain t \<Longrightarrow> plain (s @ t)"
  by (simp add: plain_iff)

lemma plain_to_string: "plain (to_string w)"
  by (rule plain_class [OF to_string_nonempty to_string_digits]) (simp_all add: byte_classes)

lemma plain_lower_hex: "s \<noteq> [] \<Longrightarrow> list_all is_lower_hex s \<Longrightarrow> plain s"
  by (rule plain_class [where P = is_lower_hex]) (simp_all add: byte_classes)

lemma plain_hex_padded: "plain (hex_padded n w)"
  using hex_padded_lower_hex by (intro plain_lower_hex) (auto simp: hex_padded_def Let_def)

lemma plain_show_flag: "plain (show_flag b)"
  by (simp add: show_flag_def plain_to_string)

lemma plain_show_outcome: "plain (show_outcome v)"
  by (cases v) (simp_all add: plain_def)

lemma plain_show_abi: "plain (show_abi v)"
  unfolding show_abi_def by (intro plain_append plain_to_string) (simp add: plain_def)

lemma plain_slug: "canonical_slug s \<Longrightarrow> plain s"
proof -
  assume s: "canonical_slug s"
  have "is_ascii_lowercase c \<or> is_ascii_digit c \<or> c = CHR ''-''" if "c \<in> set s" for c
  proof -
    from that obtain i where "i < length s" "c = s ! i" by (auto simp: in_set_conv_nth)
    then have "(i, c) \<in> set (List.enumerate 0 s)" by (simp add: in_set_enumerate_eq)
    with s show ?thesis by (fastforce simp: canonical_slug_def list_all_iff)
  qed
  then have "list_all (\<lambda>c. is_ascii_lowercase c \<or> is_ascii_digit c \<or> c = CHR ''-'') s"
    by (simp add: list_all_iff)
  moreover have "s \<noteq> []" using s by (simp add: canonical_slug_def)
  ultimately show ?thesis by (elim plain_class [rotated]) (simp_all add: byte_classes)
qed

lemma plain_digest: "length d = 32 \<Longrightarrow> plain (format_digest d)"
proof -
  assume d: "length d = 32"
  then have "format_digest d \<noteq> []" using length_format_digest [of d] by auto
  moreover have "list_all is_lower_hex (format_digest d)"
    using hex_padded_lower_hex by (auto simp: format_digest_def list_all_iff)
  ultimately show ?thesis by (rule plain_lower_hex)
qed

lemmas plain_shows = plain_to_string plain_hex_padded plain_show_flag plain_show_outcome
  plain_show_abi

lemma plain_hex_field: "plain (CHR ''0'' # CHR ''x'' # hex_padded n w)"
  using plain_append [of "''0x''" "hex_padded n w"] by (simp add: plain_hex_padded plain_def [of "''0x''"])

lemma plain_names: "list_all plain CONTRACT_FIELDS" "list_all plain ACTIVATION_FIELDS"
  by (simp_all add: CONTRACT_FIELDS_def ACTIVATION_FIELDS_def plain_def)

lemma record_ofI:
  assumes "list_all plain expected" "distinct expected" "map fst kvs = expected"
    "list_all (\<lambda>kv. plain (snd kv)) kvs"
  shows "record_of expected kvs"
  using assms by (force simp: record_of_def list_all_iff)

lemma record_of_contract: "identity_ok c \<Longrightarrow> record_of CONTRACT_FIELDS (contract_fields c)"
  by (rule record_ofI [OF plain_names(1)])
    (simp_all add: contract_fields_def CONTRACT_FIELDS_def identity_ok_def
      plain_shows plain_slug plain_digest plain_hex_field)

lemma record_of_activation: "record_of ACTIVATION_FIELDS (activation_fields a)"
  by (rule record_ofI [OF plain_names(2)])
    (simp_all add: activation_fields_def ACTIVATION_FIELDS_def plain_shows)

text \<open>Two records of the same fields with the same lookups are shuffles of each other.\<close>

lemma record_of_shuffled:
  assumes "record_of expected fs" "shuffled kvs fs"
  shows "record_of expected kvs \<and> map_of kvs = map_of fs"
proof -
  have "inj_on fst (set kvs)" using assms by (auto simp: record_of_def shuffled_def distinct_map)
  then have d: "distinct (map fst kvs)" using assms(2) by (simp add: distinct_map shuffled_def)
  moreover have "distinct (map fst fs)" using assms(1) by (simp add: record_of_def)
  ultimately have "map_of kvs = map_of fs"
    using assms(2) by (simp add: shuffled_def map_of_inject_set)
  with d assms show ?thesis by (auto simp: record_of_def shuffled_def list_all_iff)
qed

lemma shuffled_of_lookups:
  assumes "record_of expected kvs" "distinct (map fst fs)" "set (map fst fs) = set expected"
    "list_all (\<lambda>(k, v). map_of kvs k = Some v) fs"
  shows "shuffled kvs fs"
proof -
  have d: "distinct (map fst kvs)" "set (map fst kvs) = set expected"
    using assms(1) by (simp_all add: record_of_def)
  have "set fs \<subseteq> set kvs" using assms(4) by (auto simp: list_all_iff dest: map_of_SomeD)
  moreover have "card (set fs) = card (set kvs)"
    using assms(2,3) d by (metis card_image distinct_map image_set)
  ultimately have "set fs = set kvs" by (intro card_subset_eq) auto
  with d(1) show ?thesis by (simp add: shuffled_def distinct_map)
qed

section \<open>The attribute parsers\<close>

text \<open>\<open>returns p e\<close>: \<open>p\<close> does not panic and leaves the environment alone.\<close>

definition returns :: "('e, 'x, 'a) prog \<Rightarrow> 'e \<Rightarrow> bool" where
  "returns p e \<longleftrightarrow> (\<exists>r. p e = Some (r, e))"

lemma returns_simple [simp]: "returns (ok a) e" "returns (fail x) e" "returns (give r) e"
  by (simp_all add: returns_def ok_def fail_def give_def)

lemma returns_bind_give: "(\<And>a. r = Inr a \<Longrightarrow> returns (f a) e) \<Longrightarrow> returns (bind (give r) f) e"
  by (cases r) (simp_all add: returns_def bind_def give_def)

lemma field_found: "record_of expected kvs \<Longrightarrow> k \<in> set expected \<Longrightarrow>
    field (map_of kvs) k = ok (the (map_of kvs k))"
proof -
  assume "record_of expected kvs" "k \<in> set expected"
  then have "map_of kvs k \<noteq> None" by (auto simp: map_of_eq_None_iff record_of_def)
  then show ?thesis by (auto simp: field_def split: option.split)
qed

lemma hex8_fits: "parse_fixed_hex a f t 8 = Inr v \<Longrightarrow> unat v < 4294967296"
  using parse_fixed_hex_Inr_iff [of 8] by simp

lemma hex8_show:
  assumes "unat (v :: u64) < 4294967296"
  shows "hex_padded 8 (ucast v :: u32) = hex_padded 8 v"
proof -
  have "unat (ucast v :: u32) = unat v"
    using assms by (simp add: unsigned_ucast_eq take_bit_nat_eq_self)
  then show ?thesis by (simp add: hex_padded_def)
qed

lemma unat_word16: "unat (v :: u64) < 16 ^ 16"
  using unat_lt [of v] by simp

lemma unat_up32: "unat (ucast (w :: u32) :: u64) = unat w"
  using unat_lt [of w] by (simp add: unsigned_ucast_eq take_bit_nat_eq_self)

lemma down_up32: "ucast (ucast (w :: u32) :: u64) = w"
  by (rule bit_eqI) (auto simp: bit_simps)

lemma hex16_iff: "parse_fixed_hex a f t 16 = Inr v \<longleftrightarrow> t = ''0x'' @ hex_padded 16 v"
  using parse_fixed_hex_Inr_iff [of 16 a f t v] unat_word16 [of v] by simp

lemma hex8_iff:
  "parse_fixed_hex a f t 8 = Inr v \<longleftrightarrow> t = ''0x'' @ hex_padded 8 (ucast v :: u32) \<and> unat v < 4294967296"
  using parse_fixed_hex_Inr_iff [of 8 a f t v] hex8_show [of v] by auto

lemmas parser_iffs = parse_decimal_Inr_iff parse_abi_Inr_iff parse_digest_Inr_iff
  parse_flag_Inr_iff parse_outcome_Inr_iff hex16_iff

lemma parser_shows:
  "parse_decimal a f (to_string w) = Inr w" "parse_abi a (show_abi v) = Inr v"
  "length d = 32 \<Longrightarrow> parse_digest a (format_digest d) = Inr d" "parse_flag (show_flag b) = Inr b"
  "parse_outcome (show_outcome u) = Inr u"
  "parse_fixed_hex a f (''0x'' @ hex_padded 16 x) 16 = Inr x"
  "parse_fixed_hex a f (''0x'' @ hex_padded 8 y) 8 = Inr (ucast (y :: u32))"
  using unat_up32 [of y] unat_lt [of y] by (simp_all add: parser_iffs hex8_iff down_up32)

lemma expect_u32_fits: "unat v < 4294967296 \<Longrightarrow> expect_u32 v = ok (ucast v)"
  by (simp add: expect_u32_def)

text \<open>What the two continuations do on a complete record of fields.\<close>

lemma contract_of_fields_returns:
  assumes "record_of CONTRACT_FIELDS kvs"
  shows "returns (contract_of_fields (map_of kvs)) e"
  by (simp add: contract_of_fields_def field_found [OF assms] CONTRACT_FIELDS_def
      returns_bind_give hex8_fits expect_u32_fits)

lemma activation_of_fields_returns:
  assumes "record_of ACTIVATION_FIELDS kvs"
  shows "returns (activation_of_fields (map_of kvs)) e"
  by (simp add: activation_of_fields_def field_found [OF assms] ACTIVATION_FIELDS_def
      returns_bind_give)

lemma lookup_the:
  assumes "record_of expected kvs" "k \<in> set expected"
  shows "map_of kvs k = Some t \<longleftrightarrow> the (map_of kvs k) = t"
  using assms by (cases "map_of kvs k") (auto simp: map_of_eq_None_iff record_of_def)

lemma contract_of_fields_Inr:
  assumes "record_of CONTRACT_FIELDS kvs" "contract_of_fields (map_of kvs) e = Some (Inr c, e')"
  shows "identity_ok c \<and> shuffled kvs (contract_fields c)"
proof -
  have "identity_ok c \<and> list_all (\<lambda>(k, t). the (map_of kvs k) = t) (contract_fields c)"
    using assms(2)
    by (auto simp: contract_of_fields_def field_found [OF assms(1)] CONTRACT_FIELDS_def
      bind_give_Inr_iff parser_iffs hex8_iff ok_Inr_iff fail_Inr_iff expect_u32_fits
      contract_fields_def identity_ok_def split: if_splits)
  moreover from this have "shuffled kvs (contract_fields c)"
    by (intro shuffled_of_lookups [OF assms(1)])
      (simp_all add: contract_fields_def CONTRACT_FIELDS_def lookup_the [OF assms(1)])
  ultimately show ?thesis by simp
qed

lemma activation_of_fields_Inr:
  assumes "record_of ACTIVATION_FIELDS kvs" "activation_of_fields (map_of kvs) e = Some (Inr a, e')"
  shows "shuffled kvs (activation_fields a)"
proof -
  have "list_all (\<lambda>(k, t). the (map_of kvs k) = t) (activation_fields a)"
    using assms(2)
    by (auto simp: activation_of_fields_def field_found [OF assms(1)] ACTIVATION_FIELDS_def
      bind_give_Inr_iff parser_iffs ok_Inr_iff activation_fields_def)
  then show ?thesis
    by (intro shuffled_of_lookups [OF assms(1)])
      (simp_all add: activation_fields_def ACTIVATION_FIELDS_def lookup_the [OF assms(1)])
qed

lemma contract_of_fields_show:
  assumes "identity_ok c"
  shows "contract_of_fields (map_of (contract_fields c)) e = Some (Inr c, e)"
proof -
  have "unat (ucast (ci_manifest_flags c) :: u64) < 4294967296"
    using unat_lt [of "ci_manifest_flags c"] by (simp add: unat_up32)
  with assms show ?thesis
    by (simp add: contract_of_fields_def contract_fields_def field_def identity_ok_def
        bind_give_ok parser_shows parser_shows(6,7) [simplified] expect_u32_fits down_up32 ok_Inr_iff)
qed

lemma activation_of_fields_show:
  "activation_of_fields (map_of (activation_fields a)) e = Some (Inr a, e)"
  by (simp add: activation_of_fields_def activation_fields_def field_def bind_give_ok
      parser_shows ok_Inr_iff)

lemma parse_contract_Inr_iff:
  "parse_contract_attribute s e = Some (Inr c, e') \<longleftrightarrow>
     e' = e \<and> identity_ok c \<and> (\<exists>kvs. shuffled kvs (contract_fields c) \<and> s = record_line kvs)"
proof
  assume "parse_contract_attribute s e = Some (Inr c, e')"
  then obtain kvs where kvs: "record_of CONTRACT_FIELDS kvs" "s = record_line kvs"
    "contract_of_fields (map_of kvs) e = Some (Inr c, e')"
    by (auto simp: parse_contract_attribute_def bind_give_Inr_iff parse_fields_Inr_iff
        CONTRACT_FIELDS_def)
  moreover have "e' = e"
    using contract_of_fields_returns [OF kvs(1), of e] kvs(3) by (auto simp: returns_def)
  ultimately show "e' = e \<and> identity_ok c \<and>
      (\<exists>kvs. shuffled kvs (contract_fields c) \<and> s = record_line kvs)"
    using contract_of_fields_Inr [OF kvs(1,3)] by blast
next
  assume "e' = e \<and> identity_ok c \<and> (\<exists>kvs. shuffled kvs (contract_fields c) \<and> s = record_line kvs)"
  then obtain kvs where kvs: "e' = e" "identity_ok c" "shuffled kvs (contract_fields c)"
    "s = record_line kvs" by blast
  from record_of_shuffled [OF record_of_contract [OF kvs(2)] kvs(3)]
  have "record_of CONTRACT_FIELDS kvs" "map_of kvs = map_of (contract_fields c)" by simp_all
  then have "parse_fields ''contract'' s CONTRACT_FIELDS = Inr (map_of (contract_fields c))"
    using kvs(4) parse_fields_Inr_iff [of CONTRACT_FIELDS] by (auto simp: CONTRACT_FIELDS_def)
  with kvs(1,2) show "parse_contract_attribute s e = Some (Inr c, e')"
    by (simp add: parse_contract_attribute_def bind_give_ok contract_of_fields_show)
qed

lemma parse_activation_Inr_iff:
  "parse_activation_attribute s e = Some (Inr a, e') \<longleftrightarrow>
     e' = e \<and> (\<exists>kvs. shuffled kvs (activation_fields a) \<and> s = record_line kvs)"
proof
  assume "parse_activation_attribute s e = Some (Inr a, e')"
  then obtain kvs where kvs: "record_of ACTIVATION_FIELDS kvs" "s = record_line kvs"
    "activation_of_fields (map_of kvs) e = Some (Inr a, e')"
    by (auto simp: parse_activation_attribute_def bind_give_Inr_iff parse_fields_Inr_iff
        ACTIVATION_FIELDS_def)
  moreover have "e' = e"
    using activation_of_fields_returns [OF kvs(1), of e] kvs(3) by (auto simp: returns_def)
  ultimately show "e' = e \<and> (\<exists>kvs. shuffled kvs (activation_fields a) \<and> s = record_line kvs)"
    using activation_of_fields_Inr [OF kvs(1,3)] by blast
next
  assume "e' = e \<and> (\<exists>kvs. shuffled kvs (activation_fields a) \<and> s = record_line kvs)"
  then obtain kvs where kvs: "e' = e" "shuffled kvs (activation_fields a)" "s = record_line kvs"
    by blast
  from record_of_shuffled [OF record_of_activation kvs(2)]
  have "record_of ACTIVATION_FIELDS kvs" "map_of kvs = map_of (activation_fields a)" by simp_all
  then have "parse_fields ''activation'' s ACTIVATION_FIELDS = Inr (map_of (activation_fields a))"
    using kvs(3) parse_fields_Inr_iff [of ACTIVATION_FIELDS] by (auto simp: ACTIVATION_FIELDS_def)
  with kvs(1) show "parse_activation_attribute s e = Some (Inr a, e')"
    by (simp add: parse_activation_attribute_def bind_give_ok activation_of_fields_show)
qed

section \<open>Facts about reading and validation\<close>

lemma parse_contract_returns: "\<exists>r. parse_contract_attribute s e = Some (r, e)"
proof -
  have "returns (parse_contract_attribute s) e"
    unfolding parse_contract_attribute_def
  proof (rule returns_bind_give)
    fix m assume "parse_fields ''contract'' s CONTRACT_FIELDS = Inr m"
    then obtain kvs where "record_of CONTRACT_FIELDS kvs" "m = map_of kvs"
      by (auto simp: parse_fields_Inr_iff CONTRACT_FIELDS_def)
    then show "returns (contract_of_fields m) e" by (simp add: contract_of_fields_returns)
  qed
  then show ?thesis by (simp add: returns_def)
qed

lemma parse_activation_returns: "\<exists>r. parse_activation_attribute s e = Some (r, e)"
proof -
  have "returns (parse_activation_attribute s) e"
    unfolding parse_activation_attribute_def
  proof (rule returns_bind_give)
    fix m assume "parse_fields ''activation'' s ACTIVATION_FIELDS = Inr m"
    then obtain kvs where "record_of ACTIVATION_FIELDS kvs" "m = map_of kvs"
      by (auto simp: parse_fields_Inr_iff ACTIVATION_FIELDS_def)
    then show "returns (activation_of_fields m) e" by (simp add: activation_of_fields_returns)
  qed
  then show ?thesis by (simp add: returns_def)
qed

lemma read_attribute_wp:
  "wp (read_attribute fs d n) (\<lambda>r m'. \<exists>b. m_log m' = m_log m @ [Snapshot (path_join d n) b] \<and>
     (\<forall>t. r = Inr t \<longrightarrow> b = Some t \<and> length t \<le> 4096 \<and> utf8_valid t)) m"
  by (auto simp: read_attribute_def read_file_def wp_def bind_def fail_def ok_def
      split: prod.splits sum.splits)

lemma read_attribute_Inr:
  assumes "read_attribute fs d n m = Some (Inr t, m')"
  shows "m_log m' = m_log m @ [Snapshot (path_join d n) (Some t)]" "length t \<le> 4096" "utf8_valid t"
  using wp_elim [OF read_attribute_wp assms] by auto

lemma read_control_state_Inr:
  assumes "read_control_state fs d m = Some (Inr s, m')"
  shows "\<exists>ct at. m_log m' = m_log m @
      [Snapshot (path_join d ''contract'') (Some ct), Snapshot (path_join d ''activation'') (Some at),
       Snapshot (path_join d ''contract'') (Some ct), Snapshot (path_join d ''activation'') (Some at)] \<and>
    length ct \<le> 4096 \<and> length at \<le> 4096 \<and> identity_ok (cs_contract s) \<and>
    (\<exists>kvs. shuffled kvs (contract_fields (cs_contract s)) \<and> ct = record_line kvs) \<and>
    (\<exists>kvs. shuffled kvs (activation_fields (cs_activation s)) \<and> at = record_line kvs)"
proof -
  from assms obtain ct at m1 m2 m3 m4 m5 where
    r: "read_attribute fs d ''contract'' m = Some (Inr ct, m1)"
      "read_attribute fs d ''activation'' m1 = Some (Inr at, m2)"
      "read_attribute fs d ''contract'' m2 = Some (Inr ct, m3)"
      "read_attribute fs d ''activation'' m3 = Some (Inr at, m4)"
    and p: "parse_contract_attribute ct m4 = Some (Inr (cs_contract s), m5)"
      "parse_activation_attribute at m5 = Some (Inr (cs_activation s), m')"
    by (auto simp: read_control_state_def bind_Inr_iff fail_Inr_iff ok_Inr_iff split: if_splits)
  show ?thesis
    using read_attribute_Inr [OF r(1)] read_attribute_Inr [OF r(2)] read_attribute_Inr [OF r(3)]
      read_attribute_Inr [OF r(4)] p
    by (intro exI [of _ ct] exI [of _ at]) (simp add: parse_contract_Inr_iff parse_activation_Inr_iff)
qed

text \<open>Every attribute read returns, so every use of it does.\<close>

lemma read_attribute_runs: "\<exists>r m'. read_attribute fs d n m = Some (r, m')"
  using read_attribute_wp [of fs d n m] by (auto simp: wp_runs)

lemma bind_runs:
  "(\<exists>r e'. p e = Some (r, e')) \<Longrightarrow> (\<And>a e'. \<exists>r e''. f a e' = Some (r, e'')) \<Longrightarrow>
    \<exists>r e'. bind p f e = Some (r, e')"
  by (auto simp: bind_def split: sum.splits)

lemma simple_runs: "\<exists>r e'. ok a e = Some (r, e')" "\<exists>r e'. fail x e = Some (r, e')"
  by (simp_all add: ok_def fail_def)

lemma parse_runs: "\<exists>r e'. parse_contract_attribute s e = Some (r, e')"
  "\<exists>r e'. parse_activation_attribute s e = Some (r, e')"
  using parse_contract_returns [of s e] parse_activation_returns [of s e] by auto

lemma if_runs: "(b \<Longrightarrow> \<exists>r e'. p e = Some (r, e')) \<Longrightarrow> (\<not> b \<Longrightarrow> \<exists>r e'. q e = Some (r, e')) \<Longrightarrow>
    \<exists>r e'. (if b then p else q) e = Some (r, e')"
  by simp

lemmas runs = bind_runs if_runs read_attribute_runs parse_runs simple_runs

lemma read_control_state_runs: "\<exists>r m'. read_control_state fs d m = Some (r, m')"
  unfolding read_control_state_def by (intro runs)

lemma read_stable_runs: "\<exists>r m'. read_stable_attribute fs d n m = Some (r, m')"
  unfolding read_stable_attribute_def by (intro runs)

lemma read_one_runs: "\<exists>r m'. read_contract fs d m = Some (r, m')"
  "\<exists>r m'. read_activation fs d m = Some (r, m')"
  unfolding read_contract_def read_activation_def by (intro runs read_stable_runs)+

text \<open>The activation status that \<open>validate_activation\<close> accepts under a contract.\<close>

definition activation_valid :: "contract \<Rightarrow> activation_status \<Rightarrow> bool" where
  "activation_valid c a \<longleftrightarrow> act_state a = ACTIVATION_STATE_ACTIVE c \<and>
     unat (act_error a) = unat (ACTIVATION_RESULT_SUCCESS c) \<and>
     (if ACTIVATION_REQUIRED c
      then driver_outcome a \<noteq> NotRequired \<and> act_attempts a \<noteq> 0 \<and> act_request_id a \<noteq> 0
      else driver_outcome a = NotRequired \<and> act_attempts a = 0 \<and> act_request_id a = 0)"

lemma validate_compiled_contract_iff: "validate_compiled_contract c x = Inr () \<longleftrightarrow> x = compiled c"
proof
  assume v: "validate_compiled_contract c x = Inr ()"
  show "x = compiled c"
    by (rule contract_identity.equality)
      (use v in \<open>simp_all add: validate_compiled_contract_def Let_def split: if_splits\<close>)
qed (simp add: validate_compiled_contract_def)

lemma ucast_eq_unat: "ucast (x :: u8) = (y :: u32) \<longleftrightarrow> unat x = unat y"
proof -
  have "unat (ucast x :: u32) = unat x"
    using unat_lt [of x] by (simp add: unsigned_ucast_eq take_bit_nat_eq_self)
  then show ?thesis by (simp add: word_unat_eq_iff)
qed

lemma validate_activation_iff:
  "validate_activation c (compiled c) a = Inr () \<longleftrightarrow> activation_valid c a"
  by (simp add: validate_activation_def activation_valid_def compiled_def ucast_eq_unat)

lemma validate_control_state_iff:
  "validate_control_state c s = Inr () \<longleftrightarrow>
     cs_contract s = compiled c \<and> activation_valid c (cs_activation s)"
proof (cases "validate_compiled_contract c (cs_contract s)")
  case (Inl x)
  then show ?thesis
    using validate_compiled_contract_iff [of c "cs_contract s"] by (simp add: validate_control_state_def)
next
  case (Inr u)
  then have "cs_contract s = compiled c" using validate_compiled_contract_iff by simp
  with Inr show ?thesis by (simp add: validate_control_state_def validate_activation_iff)
qed

text \<open>A concrete directory whose two attributes never change.\<close>

definition static_files :: "string \<Rightarrow> string \<Rightarrow> (string, unit) file_system" where
  "static_files ct at =
    \<lparr>fs_open = (\<lambda>path h. (Inr path, h)),
     fs_read = (\<lambda>path n h. (Inr (take n (if path = ''/s/contract'' then ct else at)), h))\<rparr>"

definition timer_activation :: activation_status where
  "timer_activation = \<lparr>driver_outcome = Completed, act_state = 4, act_error = 0, act_attempts = 1,
     act_request_id = 7\<rparr>"

lemma timer_identity_ok: "identity_ok (compiled timer_contract)"
  by (simp add: identity_ok_def compiled_def timer_contract_def canonical_slug_def byte_classes byte_def)

text \<open>The printed forms are ASCII and short, so they fit a page of sysfs.\<close>

definition ascii :: "string \<Rightarrow> bool" where
  "ascii s \<longleftrightarrow> list_all (\<lambda>c. byte c < 128) s"

lemma ascii_append [simp]: "ascii (s @ t) \<longleftrightarrow> ascii s \<and> ascii t"
  by (simp add: ascii_def)

lemma ascii_literal: "ascii []" "ascii (c # s) \<longleftrightarrow> of_char c < (128 :: nat) \<and> ascii s"
  by (simp_all add: ascii_def byte_def)

lemma ascii_lower_hex: "list_all is_lower_hex s \<Longrightarrow> ascii s"
  by (auto simp: ascii_def list_all_iff byte_classes)

lemma ascii_shows: "ascii (to_string w)" "ascii (hex_padded n w)" "ascii (format_digest d)"
  "ascii (show_flag b)" "ascii (show_abi v)" "ascii (show_outcome u)"
proof -
  show to: "ascii (to_string w)" for w :: "'z::len word"
    by (rule ascii_lower_hex [OF digits_lower_hex [OF to_string_digits]])
  show "ascii (hex_padded n w)" by (rule ascii_lower_hex [OF hex_padded_lower_hex])
  show "ascii (format_digest d)"
    using hex_padded_lower_hex by (intro ascii_lower_hex) (auto simp: format_digest_def list_all_iff)
  show "ascii (show_flag b)" by (simp add: show_flag_def to)
  show "ascii (show_abi v)" by (simp add: show_abi_def to ascii_literal)
  show "ascii (show_outcome u)" by (cases u) (simp_all add: ascii_def byte_def)
qed

lemma length_to_string: "length (to_string (w :: 'a::len word)) \<le> LENGTH('a)"
proof -
  have "unat w < 10 ^ LENGTH('a)"
    using unat_lt [of w] power_mono [of 2 "10 :: nat" "LENGTH('a)"] by linarith
  then show ?thesis unfolding to_string_def by (intro length_show_radix) auto
qed

lemma length_hex64: "length (hex_padded 16 (w :: u64)) = 16"
  using unat_word16 by (intro length_hex_padded) auto

lemma length_hex32: "length (hex_padded 8 (w :: u32)) = 8"
  using unat_lt [of w] by (intro length_hex_padded) auto

lemma length_show_contract:
  assumes "identity_ok c"
  shows "length (show_contract c) \<le> length (ci_profile c) + 500"
  using assms length_to_string [of "ci_profile_id c"] length_to_string [of "ci_epoch c"]
    length_to_string [of "av_major (ci_abi c)"] length_to_string [of "av_minor (ci_abi c)"]
    length_to_string [of "if ci_activation_required c then 1 else 0 :: u8"]
  by (simp add: show_contract_def identity_ok_def length_format_digest length_hex64 length_hex32
      show_abi_def show_flag_def)

lemma length_show_activation: "length (show_activation a) \<le> 500"
proof -
  have "length (show_outcome (driver_outcome a)) \<le> 23" by (cases "driver_outcome a") simp_all
  then show ?thesis
    using length_to_string [of "act_state a"] length_to_string [of "act_error a"]
      length_to_string [of "act_attempts a"] length_to_string [of "act_request_id a"]
    by (simp add: show_activation_def)
qed

lemma utf8_show_activation: "utf8_valid (show_activation a @ ''\<newline>'')"
  by (rule utf8_ascii [folded ascii_def])
    (simp add: show_activation_def ascii_shows ascii_literal)

lemma utf8_show_contract: "ascii (ci_profile c) \<Longrightarrow> utf8_valid (show_contract c @ ''\<newline>'')"
  by (rule utf8_ascii [folded ascii_def])
    (simp add: show_contract_def ascii_shows ascii_literal)

lemma timer_texts:
  "length (show_contract (compiled timer_contract)) < 4096"
  "utf8_valid (show_contract (compiled timer_contract) @ ''\<newline>'')"
  "length (show_activation timer_activation) < 4096"
  "utf8_valid (show_activation timer_activation @ ''\<newline>'')"
proof -
  have p: "ci_profile (compiled timer_contract) = ''timer4''"
    by (simp add: compiled_def timer_contract_def)
  show "length (show_contract (compiled timer_contract)) < 4096"
    using length_show_contract [OF timer_identity_ok] p by simp
  show "utf8_valid (show_contract (compiled timer_contract) @ ''\<newline>'')"
    by (rule utf8_show_contract) (simp add: p ascii_def byte_def)
  show "length (show_activation timer_activation) < 4096"
    using length_show_activation [of timer_activation] by simp
qed (rule utf8_show_activation)

lemma timer_files_read:
  "read_control_state (static_files (show_contract (compiled timer_contract) @ ''\<newline>'')
      (show_activation timer_activation @ ''\<newline>'')) ''/s'' \<lparr>m_hw = (), m_log = []\<rparr> =
    Some (Inr \<lparr>cs_contract = compiled timer_contract, cs_activation = timer_activation\<rparr>,
      \<lparr>m_hw = (), m_log = concat (replicate 2
        [Snapshot ''/s/contract'' (Some (show_contract (compiled timer_contract) @ ''\<newline>'')),
         Snapshot ''/s/activation'' (Some (show_activation timer_activation @ ''\<newline>''))])\<rparr>)"
proof -
  have "shuffled (contract_fields x) (contract_fields x)" "shuffled (activation_fields a) (activation_fields a)"
    for x a by (simp_all add: shuffled_def contract_fields_def activation_fields_def)
  then have "parse_contract_attribute (show_contract (compiled timer_contract) @ ''\<newline>'') e =
      Some (Inr (compiled timer_contract), e)"
    "parse_activation_attribute (show_activation timer_activation @ ''\<newline>'') e =
      Some (Inr timer_activation, e)" for e :: "(unit, fs_event) machine"
    using timer_identity_ok
    by (auto simp: parse_contract_Inr_iff parse_activation_Inr_iff show_contract_fields
      show_activation_fields)
  then show ?thesis using timer_texts
    by (simp add: read_control_state_def read_attribute_def read_file_def static_files_def
        path_join_def bind_def ok_def numeral_2_eq_2)
qed

section \<open>Properties\<close>

text \<open>C37: the parsers of the two sysfs attributes never panic and accept exactly the newline
  terminated records with the printed fields of a well-formed value, each field once, in any
  order, separated by one space; the value they return is the printed one. In particular
  parsing what the printer wrote gives the value back.\<close>

theorem attribute_roundtrip:
  fixes ac :: activation_status
  shows "(\<exists>r. parse_contract_attribute s e = Some (r, e)) \<and>
    (\<exists>r. parse_activation_attribute s e = Some (r, e)) \<and>
    (parse_contract_attribute s e = Some (Inr ci, e) \<longleftrightarrow>
      identity_ok ci \<and> (\<exists>kvs. shuffled kvs (contract_fields ci) \<and> s = record_line kvs)) \<and>
    (parse_activation_attribute s e = Some (Inr ac, e) \<longleftrightarrow>
      (\<exists>kvs. shuffled kvs (activation_fields ac) \<and> s = record_line kvs)) \<and>
    (identity_ok ci \<longrightarrow> parse_contract_attribute (show_contract ci @ ''\<newline>'') e = Some (Inr ci, e)) \<and>
    parse_activation_attribute (show_activation ac @ ''\<newline>'') e = Some (Inr ac, e)"
proof -
  have "shuffled (contract_fields ci) (contract_fields ci)"
    "shuffled (activation_fields ac) (activation_fields ac)"
    by (simp_all add: shuffled_def contract_fields_def activation_fields_def)
  then show ?thesis
    using parse_contract_returns [of s e] parse_activation_returns [of s e]
    by (simp add: parse_contract_Inr_iff parse_activation_Inr_iff show_contract_fields
        show_activation_fields) blast
qed

theorem attribute_roundtrip_witness:
  "identity_ok (compiled timer_contract) \<and>
   parse_contract_attribute (show_contract (compiled timer_contract) @ ''\<newline>'') () =
     Some (Inr (compiled timer_contract), ())"
proof -
  have "identity_ok (compiled timer_contract)" by (rule timer_identity_ok)
  then show ?thesis
    using attribute_roundtrip [where ci = "compiled timer_contract" and e = "()"] by blast
qed

text \<open>C38: reading the control state always returns. It succeeds only after each attribute was
  read twice, alternating, at most a page long and identical both times; when the result also
  passes validation, the text of the contract attribute is a shuffle of the fields of the
  contract compiled into the tool and the activation attribute reports the active state, no
  error and an activation history that fits the profile.\<close>

theorem control_state_exact:
  "(\<exists>r m'. read_control_state fs d m = Some (r, m')) \<and>
   (validate_control_state c s = Inr () \<longleftrightarrow>
      cs_contract s = compiled c \<and> activation_valid c (cs_activation s)) \<and>
   (read_control_state fs d m = Some (Inr s, m') \<and> validate_control_state c s = Inr () \<longrightarrow>
     (\<exists>ckvs akvs. shuffled ckvs (contract_fields (compiled c)) \<and>
       shuffled akvs (activation_fields (cs_activation s)) \<and>
       length (record_line ckvs) \<le> 4096 \<and> length (record_line akvs) \<le> 4096 \<and>
       m_log m' = m_log m @ concat (replicate 2
         [Snapshot (path_join d ''contract'') (Some (record_line ckvs)),
          Snapshot (path_join d ''activation'') (Some (record_line akvs))])))"
proof (intro conjI impI)
  show "\<exists>r m'. read_control_state fs d m = Some (r, m')" by (rule read_control_state_runs)
  show "validate_control_state c s = Inr () \<longleftrightarrow>
      cs_contract s = compiled c \<and> activation_valid c (cs_activation s)"
    by (rule validate_control_state_iff)
next
  assume "read_control_state fs d m = Some (Inr s, m') \<and> validate_control_state c s = Inr ()"
  then have r: "read_control_state fs d m = Some (Inr s, m')" and v: "cs_contract s = compiled c"
    by (simp_all add: validate_control_state_iff)
  from read_control_state_Inr [OF r, unfolded v]
  show "\<exists>ckvs akvs. shuffled ckvs (contract_fields (compiled c)) \<and>
       shuffled akvs (activation_fields (cs_activation s)) \<and>
       length (record_line ckvs) \<le> 4096 \<and> length (record_line akvs) \<le> 4096 \<and>
       m_log m' = m_log m @ concat (replicate 2
         [Snapshot (path_join d ''contract'') (Some (record_line ckvs)),
          Snapshot (path_join d ''activation'') (Some (record_line akvs))])"
    by (auto simp: numeral_2_eq_2)
qed

theorem control_state_exact_witness:
  "\<exists>m'. read_control_state (static_files (show_contract (compiled timer_contract) @ ''\<newline>'')
      (show_activation timer_activation @ ''\<newline>'')) ''/s'' \<lparr>m_hw = (), m_log = []\<rparr> =
    Some (Inr \<lparr>cs_contract = compiled timer_contract, cs_activation = timer_activation\<rparr>, m') \<and>
   validate_control_state timer_contract
     \<lparr>cs_contract = compiled timer_contract, cs_activation = timer_activation\<rparr> = Inr () \<and>
   length (m_log m') = 4"
proof -
  note E = control_state_exact [of "static_files (show_contract (compiled timer_contract) @ ''\<newline>'')
      (show_activation timer_activation @ ''\<newline>'')" "''/s''" "\<lparr>m_hw = (), m_log = []\<rparr>" timer_contract
      "\<lparr>cs_contract = compiled timer_contract, cs_activation = timer_activation\<rparr>"]
  have "activation_valid timer_contract timer_activation"
    by (simp add: activation_valid_def timer_activation_def timer_contract_def)
  then have v: "validate_control_state timer_contract
     \<lparr>cs_contract = compiled timer_contract, cs_activation = timer_activation\<rparr> = Inr ()"
    using E by simp
  show ?thesis using timer_files_read v E by (auto simp: numeral_2_eq_2)
qed

end
