(* ===== verification/Ctl_Device.thy ===== *)
theory Ctl_Device
  imports Ctl_Sysfs
begin

text \<open>
  The device half of the control library, \<open>tools/sg2002-c906l-ctl/src/lib.rs\<close>: the
  exchange of one eight-byte message on the control device (\<open>DeviceTransport\<close>) and of one
  payload on the RPMsg echo endpoint (\<open>RpmsgEcho\<close>), both with a deadline, over
  non-blocking descriptors.

  The \<open>rustix\<close> calls and the monotonic clock are parameters: arbitrary functions on an
  arbitrary state. Instants and durations are nanoseconds. A loop that waits on the descriptor
  may in principle never end (a clock that stands still, a poll that is interrupted for ever),
  so the loops are partial functions whose value is \<open>None\<close> when they do not return. They do
  return on a kernel whose calls take time and whose clock follows it (\<open>kernel_time\<close>): the
  clock may be coarse, but has to reach the deadline.

  The wait, write and read loops of the two users are the same code up to the wording of the
  errors and the expected length; \<open>wait_for\<close>, \<open>send_exactly\<close> and \<open>receive_exactly\<close> have
  these as arguments.
\<close>

section \<open>The descriptor\<close>

record 'h rustix =
  rx_now :: "'h \<Rightarrow> nat \<times> 'h" \<comment> \<open>\<open>Instant::now\<close>\<close>
  rx_timespec :: "nat \<Rightarrow> detail + nat" \<comment> \<open>\<open>Timespec::try_from\<close>\<close>
  rx_poll :: "poll_flag \<Rightarrow> nat \<Rightarrow> 'h \<Rightarrow> (errno + nat \<times> poll_flag list) \<times> 'h"
  rx_write :: "u8 list \<Rightarrow> 'h \<Rightarrow> (errno + nat) \<times> 'h"
  rx_read :: "nat \<Rightarrow> 'h \<Rightarrow> (errno + u8 list) \<times> 'h"

datatype io_event =
    Polled poll_flag nat "errno + nat \<times> poll_flag list"
  | Wrote "u8 list" "errno + nat"
  | Received nat "errno + u8 list"

type_synonym 'h io = "('h, io_event) machine"

text \<open>\<open>Instant::checked_add\<close>: an instant has a signed 64-bit count of seconds.\<close>

definition checked_instant :: "nat \<Rightarrow> nat \<Rightarrow> nat option" where
  "checked_instant t d = (if t + d < 2 ^ 63 * 10 ^ 9 then Some (t + d) else None)"

definition terminal :: "poll_flag list \<Rightarrow> bool" where
  "terminal events \<longleftrightarrow> POLL_ERR \<in> set events \<or> POLL_HUP \<in> set events \<or> POLL_NVAL \<in> set events"

definition retry :: "errno \<Rightarrow> bool" where
  "retry e \<longleftrightarrow> e = INTR \<or> e = AGAIN"

partial_function (option) wait_for ::
    "string \<Rightarrow> 'h rustix \<Rightarrow> poll_flag \<Rightarrow> nat \<Rightarrow> string \<Rightarrow> 'h io \<Rightarrow> ((ctl_error + unit) \<times> 'h io) option" where
  "wait_for pre rx wanted deadline phase m =
     (case rx_now rx (m_hw m) of (now, h) \<Rightarrow>
      if deadline < now then Some (Inl (Timeout phase), m\<lparr>m_hw := h\<rparr>)
      else if deadline - now = 0 then Some (Inl (Timeout phase), m\<lparr>m_hw := h\<rparr>)
      else (case rx_timespec rx (deadline - now) of
        Inl d \<Rightarrow> Some (Inl (Transport (Text ''poll timeout: '' # d)), m\<lparr>m_hw := h\<rparr>)
      | Inr ts \<Rightarrow> (case rx_poll rx wanted ts h of (r, h') \<Rightarrow>
          (case r of
            Inr (n, events) \<Rightarrow>
              if n = 0
              then Some (Inl (Timeout phase), \<lparr>m_hw = h', m_log = m_log m @ [Polled wanted ts r]\<rparr>)
              else if terminal events
              then Some (Inl (Transport [Text (pre @ ''poll reported terminal events ''), Events events]),
                \<lparr>m_hw = h', m_log = m_log m @ [Polled wanted ts r]\<rparr>)
              else if wanted \<in> set events
              then Some (Inr (), \<lparr>m_hw = h', m_log = m_log m @ [Polled wanted ts r]\<rparr>)
              else wait_for pre rx wanted deadline phase
                \<lparr>m_hw = h', m_log = m_log m @ [Polled wanted ts r]\<rparr>
          | Inl e \<Rightarrow>
              if e = INTR
              then wait_for pre rx wanted deadline phase
                \<lparr>m_hw = h', m_log = m_log m @ [Polled wanted ts r]\<rparr>
              else Some (Inl (Transport [Text (pre @ ''poll: ''), Errno_text e]),
                \<lparr>m_hw = h', m_log = m_log m @ [Polled wanted ts r]\<rparr>)))))"

text \<open>The request loop: wait until the descriptor is writable, then write everything at once.\<close>

partial_function (option) send_exactly ::
    "string \<Rightarrow> string \<Rightarrow> nat \<Rightarrow> (nat \<Rightarrow> ctl_error) \<Rightarrow> 'h rustix \<Rightarrow> nat \<Rightarrow> u8 list \<Rightarrow> 'h io
      \<Rightarrow> ((ctl_error + unit) \<times> 'h io) option" where
  "send_exactly pre phase expected wrong rx deadline bytes m =
     (case wait_for pre rx POLL_OUT deadline phase m of
        None \<Rightarrow> None
      | Some (Inl x, m1) \<Rightarrow> Some (Inl x, m1)
      | Some (Inr u, m1) \<Rightarrow>
         (case rx_write rx bytes (m_hw m1) of (r, h) \<Rightarrow>
            (case r of
              Inr n \<Rightarrow> Some (if n = expected then Inr () else Inl (wrong n),
                \<lparr>m_hw = h, m_log = m_log m1 @ [Wrote bytes r]\<rparr>)
            | Inl e \<Rightarrow>
                if retry e
                then send_exactly pre phase expected wrong rx deadline bytes
                  \<lparr>m_hw = h, m_log = m_log m1 @ [Wrote bytes r]\<rparr>
                else Some (Inl (Transport [Text (pre @ ''write: ''), Errno_text e]),
                  \<lparr>m_hw = h, m_log = m_log m1 @ [Wrote bytes r]\<rparr>))))"

text \<open>The response loop: wait until the descriptor is readable, then read one message.\<close>

partial_function (option) receive_exactly ::
    "string \<Rightarrow> string \<Rightarrow> nat \<Rightarrow> (nat \<Rightarrow> ctl_error) \<Rightarrow> 'h rustix \<Rightarrow> nat \<Rightarrow> nat \<Rightarrow> 'h io
      \<Rightarrow> ((ctl_error + u8 list) \<times> 'h io) option" where
  "receive_exactly pre phase expected wrong rx deadline limit m =
     (case wait_for pre rx POLL_IN deadline phase m of
        None \<Rightarrow> None
      | Some (Inl x, m1) \<Rightarrow> Some (Inl x, m1)
      | Some (Inr u, m1) \<Rightarrow>
         (case rx_read rx limit (m_hw m1) of (r, h) \<Rightarrow>
            (case r of
              Inr bytes \<Rightarrow> Some (if length bytes = expected then Inr bytes else Inl (wrong (length bytes)),
                \<lparr>m_hw = h, m_log = m_log m1 @ [Received limit r]\<rparr>)
            | Inl e \<Rightarrow>
                if retry e
                then receive_exactly pre phase expected wrong rx deadline limit
                  \<lparr>m_hw = h, m_log = m_log m1 @ [Received limit r]\<rparr>
                else Some (Inl (Transport [Text (pre @ ''read: ''), Errno_text e]),
                  \<lparr>m_hw = h, m_log = m_log m1 @ [Received limit r]\<rparr>))))"

section \<open>The control device\<close>

definition start_deadline :: "'h rustix \<Rightarrow> nat \<Rightarrow> ('h io, ctl_error, nat) prog" where
  "start_deadline rx timeout = (\<lambda>m. case rx_now rx (m_hw m) of (now, h) \<Rightarrow>
     (case checked_instant now timeout of
        None \<Rightarrow> Some (Inl (Transport [Text ''timeout exceeds monotonic clock range'']), m\<lparr>m_hw := h\<rparr>)
      | Some deadline \<Rightarrow> Some (Inr deadline, m\<lparr>m_hw := h\<rparr>)))"

definition device_exchange :: "'h rustix \<Rightarrow> u8 list \<Rightarrow> nat \<Rightarrow> ('h io, ctl_error, u8 list) prog" where
  "device_exchange rx request timeout =
     bind (start_deadline rx timeout) (\<lambda>deadline.
     bind (send_exactly '''' ''request readiness'' 8 ShortWrite rx deadline request) (\<lambda>_.
     receive_exactly '''' ''response'' 8 ShortRead rx deadline 8))"

section \<open>The RPMsg echo endpoint\<close>

text \<open>\<open>position\<close> of the first byte that differs.\<close>

fun first_difference :: "nat \<Rightarrow> u8 list \<Rightarrow> u8 list \<Rightarrow> nat option" where
  "first_difference k (a # as) (b # bs) = (if a \<noteq> b then Some k else first_difference (Suc k) as bs)"
| "first_difference k _ _ = None"

definition echo :: "'h rustix \<Rightarrow> u8 list \<Rightarrow> nat \<Rightarrow> ('h io, ctl_error, unit) prog" where
  "echo rx payload timeout =
     (if payload = [] \<or> length payload > 496
      then fail (InvalidArgument ''RPMsg payload length must be in 1..=496'')
      else
      bind (start_deadline rx timeout) (\<lambda>deadline.
      bind (send_exactly ''RPMsg '' ''RPMsg request readiness'' (length payload)
        (\<lambda>n. DataPlaneLength n (length payload)) rx deadline payload) (\<lambda>_.
      bind (receive_exactly ''RPMsg '' ''RPMsg echo'' (length payload)
        (\<lambda>n. DataPlaneLength n (length payload)) rx deadline 497) (\<lambda>response.
      case first_difference 0 response payload of
        Some offset \<Rightarrow> fail (DataPlaneMismatch offset)
      | None \<Rightarrow> ok ()))))"

definition stress_marker :: "u64 \<Rightarrow> u64" where
  "stress_marker iteration =
     (let a = iteration + 0x9e3779b97f4a7c15;
          b = (a XOR drop_bit 30 a) * 0xbf58476d1ce4e5b9;
          c = (b XOR drop_bit 27 b) * 0x94d049bb133111eb
      in c XOR drop_bit 31 c)"

definition stress_payload :: "nat \<Rightarrow> nat \<Rightarrow> u8 list" where
  "stress_payload len iteration =
     (let marker = to_le 8 (stress_marker (of_nat iteration))
      in map (\<lambda>offset. marker ! (offset mod 8) XOR (of_nat offset * 0x5b)) [0..<len])"

section \<open>What the loops do\<close>

text \<open>Events after which a loop goes on: a poll, or a write or read that is to be retried.\<close>

fun sending :: "u8 list \<Rightarrow> io_event \<Rightarrow> bool" where
  "sending bytes (Polled w ts r) \<longleftrightarrow> w = POLL_OUT"
| "sending bytes (Wrote b r) \<longleftrightarrow> b = bytes \<and> (case r of Inl e \<Rightarrow> retry e | Inr _ \<Rightarrow> False)"
| "sending bytes (Received n r) \<longleftrightarrow> False"

fun receiving :: "nat \<Rightarrow> io_event \<Rightarrow> bool" where
  "receiving limit (Polled w ts r) \<longleftrightarrow> w = POLL_IN"
| "receiving limit (Wrote b r) \<longleftrightarrow> False"
| "receiving limit (Received n r) \<longleftrightarrow> n = limit \<and> (case r of Inl e \<Rightarrow> retry e | Inr _ \<Rightarrow> False)"

fun polling :: "poll_flag \<Rightarrow> io_event \<Rightarrow> bool" where
  "polling wanted (Polled w ts r) \<longleftrightarrow> w = wanted"
| "polling wanted _ \<longleftrightarrow> False"

lemma polling_sending: "polling POLL_OUT ev \<Longrightarrow> sending bytes ev"
  by (cases ev) auto

lemma polling_receiving: "polling POLL_IN ev \<Longrightarrow> receiving limit ev"
  by (cases ev) auto

definition grows :: "(io_event \<Rightarrow> bool) \<Rightarrow> 'h io \<Rightarrow> 'h io \<Rightarrow> bool" where
  "grows E m m' \<longleftrightarrow> (\<exists>new. m_log m' = m_log m @ new \<and> list_all E new)"

lemma grows_refl: "m_log m' = m_log m \<Longrightarrow> grows E m m'"
  by (simp add: grows_def)

lemma grows_one: "m_log m' = m_log m @ [ev] \<Longrightarrow> E ev \<Longrightarrow> grows E m m'"
  by (simp add: grows_def)

lemma grows_trans: "grows E m m' \<Longrightarrow> grows E m' m'' \<Longrightarrow> grows E m m''"
  by (auto simp: grows_def)

lemma grows_mono: "grows E m m' \<Longrightarrow> (\<And>ev. E ev \<Longrightarrow> F ev) \<Longrightarrow> grows F m m'"
  unfolding grows_def using list.pred_mono_strong by blast

lemma wait_for_polls:
  assumes "wait_for pre rx w d ph m = Some (r, m')"
  shows "grows (polling w) m m'"
proof -
  have "grows (polling w) m (snd (r, m'))"
  proof (rule wait_for.raw_induct [where P = "\<lambda>pre rx w d ph m y. grows (polling w) m (snd y)",
      OF _ assms], goal_cases)
    case (1 wf pre rx w d ph m y)
    have step: "grows (polling w) m (snd y)"
      if "wf pre rx w d ph \<lparr>m_hw = h', m_log = m_log m @ [Polled w ts q]\<rparr> = Some y" for h' ts q
      by (rule grows_trans [OF grows_one [where ev = "Polled w ts q"] 1(1) [OF that]]) simp_all
    show ?case
      using 1(2) by (auto split: prod.splits if_splits sum.splits intro: step grows_refl grows_one)
  qed
  then show ?thesis by simp
qed

text \<open>
  The write loop adds waiting events and then stops: before a write, or with one write that was
  accepted or failed for good. It succeeds exactly when the last write was accepted in full.
\<close>

definition stops :: "(io_event \<Rightarrow> bool) \<Rightarrow> 'h io \<Rightarrow> 'h io \<Rightarrow> io_event list \<Rightarrow> bool" where
  "stops E m m' tail \<longleftrightarrow> (\<exists>new. m_log m' = m_log m @ new @ tail \<and> list_all E new)"

lemma stops_grows: "grows E m m1 \<Longrightarrow> stops E m1 m' tail \<Longrightarrow> stops E m m' tail"
  unfolding grows_def stops_def
proof (elim exE conjE, goal_cases)
  case (1 a b)
  then show ?case by (intro exI [of _ "a @ b"]) simp
qed

lemma stops_now: "m_log m' = m_log m @ tail \<Longrightarrow> stops E m m' tail"
  by (auto simp: stops_def)

lemma send_log:
  assumes "send_exactly pre ph expected wrong rx d bytes m = Some (r, m')"
  shows "case r of Inr _ \<Rightarrow> stops (sending bytes) m m' [Wrote bytes (Inr expected)]
    | Inl _ \<Rightarrow> \<exists>tail. stops (sending bytes) m m' tail \<and>
        (tail = [] \<or> (\<exists>q. tail = [Wrote bytes q] \<and> q \<noteq> Inr expected))"
proof -
  define P where "P = (\<lambda>expected bytes m (y :: (ctl_error + unit) \<times> 'a io).
    case fst y of Inr _ \<Rightarrow> stops (sending bytes) m (snd y) [Wrote bytes (Inr expected)]
    | Inl _ \<Rightarrow> \<exists>tail. stops (sending bytes) m (snd y) tail \<and>
        (tail = [] \<or> (\<exists>q. tail = [Wrote bytes q] \<and> q \<noteq> Inr expected)))"
  have mono: "P expected bytes m y" if "grows (sending bytes) m m1" "P expected bytes m1 y"
    for expected bytes m m1 y
    using that by (auto simp: P_def split: sum.splits intro: stops_grows)
  have "P expected bytes m (r, m')"
  proof (rule send_exactly.raw_induct [where P = "\<lambda>pre ph expected wrong rx d bytes m y. P expected bytes m y",
      OF _ assms], goal_cases)
    case (1 tr pre ph expected wrong rx d bytes m y)
    from 1(2) obtain q m1 where w: "wait_for pre rx POLL_OUT d ph m = Some (q, m1)"
      by (cases "wait_for pre rx POLL_OUT d ph m") auto
    have g: "grows (sending bytes) m m1"
      using wait_for_polls [OF w] polling_sending by (rule grows_mono)
    have "P expected bytes m1 y"
    proof (cases q)
      case (Inl x)
      then show ?thesis using 1(2) w by (auto simp: P_def intro!: exI [of _ "[]"] stops_now)
    next
      case (Inr u)
      obtain r h where x: "rx_write rx bytes (m_hw m1) = (r, h)" by (cases "rx_write rx bytes (m_hw m1)")
      let ?m = "\<lparr>m_hw = h, m_log = m_log m1 @ [Wrote bytes r]\<rparr>"
      show ?thesis
      proof (cases "\<exists>e. r = Inl e \<and> retry e")
        case True
        then have "tr pre ph expected wrong rx d bytes ?m = Some y" using 1(2) w Inr x by auto
        then have "P expected bytes ?m y" by (rule 1(1))
        moreover have "grows (sending bytes) m1 ?m" using True by (intro grows_one) auto
        ultimately show ?thesis by (rule mono [rotated])
      next
        case False
        then have "y = (case r of Inr n \<Rightarrow> if n = expected then Inr () else Inl (wrong n)
            | Inl e \<Rightarrow> Inl (Transport [Text (pre @ ''write: ''), Errno_text e]), ?m)"
          using 1(2) w Inr x by (auto split: sum.splits)
        then show ?thesis
          by (auto simp: P_def split: sum.splits intro!: exI [of _ "[Wrote bytes r]"] stops_now)
      qed
    qed
    with g show ?case by (rule mono)
  qed
  then show ?thesis by (cases r) (simp_all add: P_def)
qed

lemma receive_log:
  assumes "receive_exactly pre ph expected wrong rx d limit m = Some (r, m')"
  shows "case r of Inr bytes \<Rightarrow> length bytes = expected \<and>
        stops (receiving limit) m m' [Received limit (Inr bytes)]
    | Inl _ \<Rightarrow> \<exists>tail. stops (receiving limit) m m' tail \<and> (tail = [] \<or> (\<exists>q. tail = [Received limit q]))"
proof -
  define P where "P = (\<lambda>expected limit m (y :: (ctl_error + u8 list) \<times> 'a io).
    case fst y of Inr bytes \<Rightarrow> length bytes = expected \<and>
        stops (receiving limit) m (snd y) [Received limit (Inr bytes)]
    | Inl _ \<Rightarrow> \<exists>tail. stops (receiving limit) m (snd y) tail \<and>
        (tail = [] \<or> (\<exists>q. tail = [Received limit q])))"
  have mono: "P expected limit m y" if "grows (receiving limit) m m1" "P expected limit m1 y"
    for expected limit m m1 y
    using that by (auto simp: P_def split: sum.splits intro: stops_grows)
  have "P expected limit m (r, m')"
  proof (rule receive_exactly.raw_induct [where
      P = "\<lambda>pre ph expected wrong rx d limit m y. P expected limit m y", OF _ assms], goal_cases)
    case (1 rc pre ph expected wrong rx d limit m y)
    from 1(2) obtain q m1 where w: "wait_for pre rx POLL_IN d ph m = Some (q, m1)"
      by (cases "wait_for pre rx POLL_IN d ph m") auto
    have g: "grows (receiving limit) m m1"
      using wait_for_polls [OF w] polling_receiving by (rule grows_mono)
    have "P expected limit m1 y"
    proof (cases q)
      case (Inl x)
      then show ?thesis using 1(2) w by (auto simp: P_def intro!: exI [of _ "[]"] stops_now)
    next
      case (Inr u)
      obtain r h where x: "rx_read rx limit (m_hw m1) = (r, h)" by (cases "rx_read rx limit (m_hw m1)")
      let ?m = "\<lparr>m_hw = h, m_log = m_log m1 @ [Received limit r]\<rparr>"
      show ?thesis
      proof (cases "\<exists>e. r = Inl e \<and> retry e")
        case True
        then have "rc pre ph expected wrong rx d limit ?m = Some y" using 1(2) w Inr x by auto
        then have "P expected limit ?m y" by (rule 1(1))
        moreover have "grows (receiving limit) m1 ?m" using True by (intro grows_one) auto
        ultimately show ?thesis by (rule mono [rotated])
      next
        case False
        then have "y = (case r of Inr b \<Rightarrow> if length b = expected then Inr b else Inl (wrong (length b))
            | Inl e \<Rightarrow> Inl (Transport [Text (pre @ ''read: ''), Errno_text e]), ?m)"
          using 1(2) w Inr x by (auto split: sum.splits)
        then show ?thesis
          by (auto simp: P_def split: sum.splits intro!: exI [of _ "[Received limit r]"] stops_now)
      qed
    qed
    with g show ?case by (rule mono)
  qed
  then show ?thesis by (cases r) (simp_all add: P_def)
qed

text \<open>
  The log of a round trip: up to the write (\<open>ask\<close>) and after it (\<open>answer\<close>). Nothing is read
  before the request was accepted in full, and it is never written again afterwards.
\<close>

definition round_trip :: "u8 list \<Rightarrow> nat \<Rightarrow> io_event list \<Rightarrow> io_event list \<Rightarrow> bool" where
  "round_trip bytes limit ask answer \<longleftrightarrow>
     (\<exists>waits tail. ask = waits @ tail \<and> list_all (sending bytes) waits \<and>
       (tail = [] \<or> (\<exists>q. tail = [Wrote bytes q])) \<and>
       (answer \<noteq> [] \<longrightarrow> tail = [Wrote bytes (Inr (length bytes))])) \<and>
     (\<exists>waits tail. answer = waits @ tail \<and> list_all (receiving limit) waits \<and>
       (tail = [] \<or> (\<exists>q. tail = [Received limit q])))"

lemma round_trip_unsent:
  assumes "stops (sending bytes) m m' tail" "tail = [] \<or> (\<exists>q. tail = [Wrote bytes q])"
  shows "\<exists>ask. m_log m' = m_log m @ ask \<and> round_trip bytes limit ask []"
proof -
  from assms(1) obtain w where "m_log m' = m_log m @ w @ tail" "list_all (sending bytes) w"
    by (auto simp: stops_def)
  then show ?thesis using assms(2) by (intro exI [of _ "w @ tail"]) (auto simp: round_trip_def)
qed

lemma round_trip_sent:
  assumes "stops (sending bytes) m m1 [Wrote bytes (Inr (length bytes))]"
    "stops (receiving limit) m1 m' tail" "tail = [] \<or> (\<exists>q. tail = [Received limit q])"
  shows "\<exists>ask answer. m_log m' = m_log m @ ask @ answer \<and> round_trip bytes limit ask answer \<and>
    last ask = Wrote bytes (Inr (length bytes)) \<and> (tail \<noteq> [] \<longrightarrow> answer \<noteq> [] \<and> last answer = hd tail)"
proof -
  from assms(1) obtain w where w: "m_log m1 = m_log m @ w @ [Wrote bytes (Inr (length bytes))]"
    "list_all (sending bytes) w" by (auto simp: stops_def)
  from assms(2) obtain v where v: "m_log m' = m_log m1 @ v @ tail" "list_all (receiving limit) v"
    by (auto simp: stops_def)
  have "round_trip bytes limit (w @ [Wrote bytes (Inr (length bytes))]) (v @ tail)"
    unfolding round_trip_def using w(2) v(2) assms(3) by blast
  then show ?thesis using w(1) v(1) assms(3)
    by (intro exI [of _ "w @ [Wrote bytes (Inr (length bytes))]"] exI [of _ "v @ tail"]) auto
qed

lemma start_deadline_log:
  "start_deadline rx timeout m = Some (r, m') \<Longrightarrow> m_log m' = m_log m"
  by (auto simp: start_deadline_def split: prod.splits option.splits)

lemma start_deadline_runs: "\<exists>s m0. start_deadline rx timeout m = Some (s, m0)"
  by (simp add: start_deadline_def split: prod.split option.split)

text \<open>Both users of the loops make a round trip; success needs a reply of the expected length.\<close>

definition transact :: "string \<Rightarrow> string \<Rightarrow> string \<Rightarrow> (nat \<Rightarrow> ctl_error) \<Rightarrow> (nat \<Rightarrow> ctl_error) \<Rightarrow> nat
    \<Rightarrow> 'h rustix \<Rightarrow> u8 list \<Rightarrow> nat \<Rightarrow> ('h io, ctl_error, u8 list) prog" where
  "transact pre ph ph' wrong wrong' limit rx bytes timeout =
     bind (start_deadline rx timeout) (\<lambda>d.
     bind (send_exactly pre ph (length bytes) wrong rx d bytes) (\<lambda>_.
     receive_exactly pre ph' (length bytes) wrong' rx d limit))"

lemma device_exchange_transact:
  "length rq = 8 \<Longrightarrow> device_exchange rx rq timeout =
     transact '''' ''request readiness'' ''response'' ShortWrite ShortRead 8 rx rq timeout"
  by (simp add: device_exchange_def transact_def)

lemma echo_transact:
  "payload \<noteq> [] \<Longrightarrow> length payload \<le> 496 \<Longrightarrow> echo rx payload timeout =
     bind (transact ''RPMsg '' ''RPMsg request readiness'' ''RPMsg echo''
       (\<lambda>n. DataPlaneLength n (length payload)) (\<lambda>n. DataPlaneLength n (length payload)) 497
       rx payload timeout) (\<lambda>response. case first_difference 0 response payload of
        Some offset \<Rightarrow> fail (DataPlaneMismatch offset) | None \<Rightarrow> ok ())"
  by (auto simp: echo_def transact_def bind_assoc)

lemma transact_log:
  assumes "transact pre ph ph' wrong wrong' limit rx bytes timeout m = Some (r, m')"
  shows "\<exists>ask answer. m_log m' = m_log m @ ask @ answer \<and> round_trip bytes limit ask answer \<and>
    (\<forall>reply. r = Inr reply \<longrightarrow> length reply = length bytes \<and>
      last ask = Wrote bytes (Inr (length bytes)) \<and> answer \<noteq> [] \<and>
      last answer = Received limit (Inr reply))"
proof -
  obtain s m0 where s: "start_deadline rx timeout m = Some (s, m0)"
    using start_deadline_runs by blast
  note l0 = start_deadline_log [OF s]
  note run = assms [unfolded transact_def bind_def s]
  have base: ?thesis if h: "stops (sending bytes) m0 m' tail" "tail = [] \<or> (\<exists>q. tail = [Wrote bytes q])"
    "r = Inl x" for tail x
  proof -
    obtain ask where "m_log m' = m_log m @ ask" "round_trip bytes limit ask []"
      using round_trip_unsent [OF h(1,2), of limit] l0 by auto
    then show ?thesis using h(3) by (intro exI [of _ ask] exI [of _ "[]"]) simp
  qed
  show ?thesis
  proof (cases s)
    case (Inl x)
    then show ?thesis using run by (intro base [of "[]" x]) (auto intro: stops_now)
  next
    case (Inr d)
    with run obtain t m1 where t: "send_exactly pre ph (length bytes) wrong rx d bytes m0 = Some (t, m1)"
      by (auto split: option.splits)
    note lt = send_log [OF t]
    show ?thesis
    proof (cases t)
      case (Inl x)
      then have "r = Inl x" "m' = m1" using run Inr t by auto
      moreover obtain tail where "stops (sending bytes) m0 m1 tail"
        "tail = [] \<or> (\<exists>q. tail = [Wrote bytes q])" using lt Inl by auto
      ultimately show ?thesis using base by blast
    next
      case (Inr u)
      then have w: "stops (sending bytes) m0 m1 [Wrote bytes (Inr (length bytes))]" using lt by simp
      have v: "receive_exactly pre ph' (length bytes) wrong' rx d limit m1 = Some (r, m')"
        using run \<open>s = Inr d\<close> t Inr by simp
      obtain tail where tail: "stops (receiving limit) m1 m' tail"
        "tail = [] \<or> (\<exists>q. tail = [Received limit q])"
        "\<forall>reply. r = Inr reply \<longrightarrow> length reply = length bytes \<and> tail = [Received limit (Inr reply)]"
        using receive_log [OF v] by (cases r) auto
      obtain ask answer where "m_log m' = m_log m @ ask @ answer" "round_trip bytes limit ask answer"
        "last ask = Wrote bytes (Inr (length bytes))" "tail \<noteq> [] \<longrightarrow> answer \<noteq> [] \<and> last answer = hd tail"
        using round_trip_sent [OF w tail(1,2)] l0 by auto
      then show ?thesis using tail(3) by (intro exI [of _ ask] exI [of _ answer]) auto
    qed
  qed
qed

section \<open>The loops return\<close>

text \<open>
  The hypothesis on the kernel. \<open>elapsed\<close> is the time that has passed in a state, in a unit as
  small as the shortest \<open>poll\<close>; the program cannot see it. Every \<open>poll\<close> takes at least one
  unit and no call turns time back, reading the clock included. What \<open>Instant::now\<close> answers is
  a nondecreasing function \<open>clock\<close> of that time, and nothing more: it may be as coarse as it
  likes, so that it shows the same instant before and after a \<open>poll\<close>. That the clock gets as
  far as the deadline at all is a separate hypothesis of the theorem.
\<close>

definition kernel_time :: "'h rustix \<Rightarrow> ('h \<Rightarrow> nat) \<Rightarrow> (nat \<Rightarrow> nat) \<Rightarrow> bool" where
  "kernel_time rx elapsed clock \<longleftrightarrow> mono clock \<and>
     (\<forall>h. fst (rx_now rx h) = clock (elapsed h) \<and> elapsed h \<le> elapsed (snd (rx_now rx h))) \<and>
     (\<forall>w ts h. elapsed h < elapsed (snd (rx_poll rx w ts h))) \<and>
     (\<forall>b h. elapsed h \<le> elapsed (snd (rx_write rx b h))) \<and>
     (\<forall>n h. elapsed h \<le> elapsed (snd (rx_read rx n h)))"

lemma kernel_time_now:
  assumes "kernel_time rx elapsed clock" "rx_now rx h = (now, h')"
  shows "now = clock (elapsed h)" "elapsed h \<le> elapsed h'"
  using assms unfolding kernel_time_def by (metis fst_conv, metis snd_conv)

lemma kernel_time_calls:
  assumes "kernel_time rx elapsed clock"
  shows "rx_poll rx w ts h = (r, h') \<Longrightarrow> elapsed h < elapsed h'"
    "rx_write rx b h = (q, h') \<Longrightarrow> elapsed h \<le> elapsed h'"
    "rx_read rx n h = (p, h') \<Longrightarrow> elapsed h \<le> elapsed h'"
  using assms unfolding kernel_time_def by (metis snd_conv)+

lemma kernel_time_mono: "kernel_time rx elapsed clock \<Longrightarrow> s \<le> t \<Longrightarrow> clock s \<le> clock t"
  by (simp add: kernel_time_def monoD)

definition polls :: "io_event list \<Rightarrow> nat" where
  "polls es = length (filter (\<lambda>ev. \<exists>w ts r. ev = Polled w ts r) es)"

lemma polls_simps [simp]: "polls [] = 0" "polls (Polled w ts r # es) = Suc (polls es)"
  "polls (Wrote b q # es) = polls es" "polls (Received n p # es) = polls es"
  "polls (es @ fs) = polls es + polls fs"
  by (simp_all add: polls_def)

text \<open>A \<open>poll\<close> is armed with a wait that is not empty and not longer than the given one.\<close>

fun armed :: "'h rustix \<Rightarrow> nat \<Rightarrow> io_event \<Rightarrow> bool" where
  "armed rx longest (Polled w ts r) \<longleftrightarrow> (\<exists>wait \<in> {1..longest}. rx_timespec rx wait = Inr ts)"
| "armed rx longest ev \<longleftrightarrow> True"

text \<open>
  \<open>spends rx elapsed longest e m m' k\<close>: between the two states at least one unit of the time left
  until \<open>e\<close> passed for each \<open>poll\<close>; there were at least \<open>k\<close> of them, all properly armed.
\<close>

definition spends :: "'h rustix \<Rightarrow> ('h \<Rightarrow> nat) \<Rightarrow> nat \<Rightarrow> nat \<Rightarrow> 'h io \<Rightarrow> 'h io \<Rightarrow> nat \<Rightarrow> bool" where
  "spends rx elapsed longest e m m' k \<longleftrightarrow> elapsed (m_hw m) \<le> elapsed (m_hw m') \<and>
     (\<exists>new. m_log m' = m_log m @ new \<and> k \<le> polls new \<and> list_all (armed rx longest) new \<and>
       polls new + (e - elapsed (m_hw m')) \<le> e - elapsed (m_hw m))"

lemma spends_none:
  "m_log m' = m_log m \<Longrightarrow> elapsed (m_hw m) \<le> elapsed (m_hw m') \<Longrightarrow> spends rx elapsed longest e m m' 0"
  by (simp add: spends_def diff_le_mono2)

lemma spends_trans:
  "spends rx elapsed longest e m m1 j \<Longrightarrow> spends rx elapsed longest e m1 m' k \<Longrightarrow>
   spends rx elapsed longest e m m' (j + k)"
  unfolding spends_def
proof (elim exE conjE, goal_cases)
  case (1 a b)
  then show ?case by (intro conjI exI [of _ "a @ b"]) simp_all
qed

lemma spends_less:
  "spends rx elapsed longest e m m' k \<Longrightarrow> 0 < k \<Longrightarrow> e - elapsed (m_hw m') < e - elapsed (m_hw m)"
  by (auto simp: spends_def)

lemma spends_weaken: "spends rx elapsed longest e m m' k \<Longrightarrow> j \<le> k \<Longrightarrow> spends rx elapsed longest e m m' j"
  by (auto simp: spends_def)

lemma spends_time: "spends rx elapsed longest e m m' k \<Longrightarrow> elapsed (m_hw m) \<le> elapsed (m_hw m')"
  by (simp add: spends_def)

lemma spends_poll:
  assumes "elapsed (m_hw m) < e" "elapsed (m_hw m) < elapsed h'"
    "wait \<in> {1..longest}" "rx_timespec rx wait = Inr ts"
  shows "spends rx elapsed longest e m \<lparr>m_hw = h', m_log = m_log m @ [Polled w ts r]\<rparr> 1"
  using assms by (auto simp: spends_def intro!: bexI [of _ wait])

lemma spends_silent:
  "elapsed (m_hw m) \<le> elapsed h \<Longrightarrow> polls [ev] = 0 \<Longrightarrow> armed rx longest ev \<Longrightarrow>
   spends rx elapsed longest e m \<lparr>m_hw = h, m_log = m_log m @ [ev]\<rparr> 0"
  by (simp add: spends_def diff_le_mono2)

fun readied :: "'x + 'a \<Rightarrow> nat" where
  "readied (Inl x) = 0"
| "readied (Inr a) = 1"

text \<open>
  In a state within \<open>longest\<close> of the deadline, which the clock has passed at time \<open>e\<close>, every
  loop returns and its polls fit in the time until \<open>e\<close>.
\<close>

lemma wait_for_returns:
  assumes k: "kernel_time rx elapsed clock" and e: "d \<le> clock e"
  shows "d \<le> clock (elapsed (m_hw m)) + longest \<Longrightarrow>
    \<exists>r m'. wait_for pre rx w d ph m = Some (r, m') \<and> spends rx elapsed longest e m m' (readied r)"
proof (induction "e - elapsed (m_hw m)" arbitrary: m rule: less_induct)
  case less
  obtain now h where n: "rx_now rx (m_hw m) = (now, h)" by (cases "rx_now rx (m_hw m)")
  note nt = kernel_time_now [OF k n]
  have idle: "spends rx elapsed longest e m (m\<lparr>m_hw := h\<rparr>) 0" using nt by (intro spends_none) simp_all
  show ?case
  proof (cases "now < d \<and> (\<exists>ts. rx_timespec rx (d - now) = Inr ts)")
    case False
    then show ?thesis
      using n idle by (subst wait_for.simps) (auto split: sum.split)
  next
    case True
    then obtain ts where t: "now < d" "rx_timespec rx (d - now) = Inr ts" by blast
    obtain r h' where p: "rx_poll rx w ts h = (r, h')" by (cases "rx_poll rx w ts h")
    let ?m = "\<lparr>m_hw = h', m_log = m_log m @ [Polled w ts r]\<rparr>"
    have early: "elapsed (m_hw m) < e"
      using t(1) e nt(1) kernel_time_mono [OF k, of e "elapsed (m_hw m)"] by (meson leI le_trans not_le)
    have later: "elapsed (m_hw m) < elapsed h'" using nt(2) kernel_time_calls(1) [OF k p] by simp
    have s: "spends rx elapsed longest e m ?m 1"
      using early later t less(2) nt(1) by (intro spends_poll [where wait = "d - now"]) auto
    have near: "d \<le> clock (elapsed (m_hw ?m)) + longest"
      using less(2) kernel_time_mono [OF k less_imp_le [OF later]] by simp
    have again: "\<exists>q m'. wait_for pre rx w d ph ?m = Some (q, m') \<and>
        spends rx elapsed longest e m m' (readied q)"
    proof -
      obtain q m' where q: "wait_for pre rx w d ph ?m = Some (q, m')"
        "spends rx elapsed longest e ?m m' (readied q)"
        using less(1) [OF spends_less [OF s] near] by auto
      from spends_trans [OF s q(2)] have "spends rx elapsed longest e m m' (readied q)"
        by (rule spends_weaken) simp
      with q(1) show ?thesis by blast
    qed
    have weak: "spends rx elapsed longest e m ?m 0" using s by (rule spends_weaken) simp
    show ?thesis
      using n t p s weak again
      by (subst wait_for.simps) (auto split: sum.split prod.split)
  qed
qed

lemma send_returns:
  assumes k: "kernel_time rx elapsed clock" and e: "d \<le> clock e"
  shows "d \<le> clock (elapsed (m_hw m)) + longest \<Longrightarrow>
    \<exists>r m'. send_exactly pre ph expected wrong rx d bytes m = Some (r, m') \<and>
      spends rx elapsed longest e m m' 0"
proof (induction "e - elapsed (m_hw m)" arbitrary: m rule: less_induct)
  case less
  obtain q m1 where w: "wait_for pre rx POLL_OUT d ph m = Some (q, m1)"
    "spends rx elapsed longest e m m1 (readied q)" using wait_for_returns [OF k e less(2)] by blast
  show ?case
  proof (cases q)
    case (Inl x)
    then show ?thesis using w by (subst send_exactly.simps) simp
  next
    case (Inr u)
    obtain r h where x: "rx_write rx bytes (m_hw m1) = (r, h)" by (cases "rx_write rx bytes (m_hw m1)")
    let ?m = "\<lparr>m_hw = h, m_log = m_log m1 @ [Wrote bytes r]\<rparr>"
    from spends_trans [OF w(2) spends_silent [OF kernel_time_calls(2) [OF k x], of "Wrote bytes r"]]
    have s: "spends rx elapsed longest e m ?m 1" using Inr by simp
    have "d \<le> clock (elapsed (m_hw ?m)) + longest"
      using less(2) kernel_time_mono [OF k spends_time [OF s]] by simp
    then obtain p m' where p: "send_exactly pre ph expected wrong rx d bytes ?m = Some (p, m')"
      "spends rx elapsed longest e ?m m' 0" using less(1) [OF spends_less [OF s]] by auto
    have f: "spends rx elapsed longest e m m' 0"
      using spends_trans [OF s p(2)] by (rule spends_weaken) simp
    have "spends rx elapsed longest e m ?m 0" using s by (rule spends_weaken) simp
    with f p(1) w(1) Inr x show ?thesis
      by (subst send_exactly.simps) (auto split: sum.split)
  qed
qed

lemma receive_returns:
  assumes k: "kernel_time rx elapsed clock" and e: "d \<le> clock e"
  shows "d \<le> clock (elapsed (m_hw m)) + longest \<Longrightarrow>
    \<exists>r m'. receive_exactly pre ph expected wrong rx d limit m = Some (r, m') \<and>
      spends rx elapsed longest e m m' 0"
proof (induction "e - elapsed (m_hw m)" arbitrary: m rule: less_induct)
  case less
  obtain q m1 where w: "wait_for pre rx POLL_IN d ph m = Some (q, m1)"
    "spends rx elapsed longest e m m1 (readied q)" using wait_for_returns [OF k e less(2)] by blast
  show ?case
  proof (cases q)
    case (Inl x)
    then show ?thesis using w by (subst receive_exactly.simps) simp
  next
    case (Inr u)
    obtain r h where x: "rx_read rx limit (m_hw m1) = (r, h)" by (cases "rx_read rx limit (m_hw m1)")
    let ?m = "\<lparr>m_hw = h, m_log = m_log m1 @ [Received limit r]\<rparr>"
    from spends_trans [OF w(2) spends_silent [OF kernel_time_calls(3) [OF k x], of "Received limit r"]]
    have s: "spends rx elapsed longest e m ?m 1" using Inr by simp
    have "d \<le> clock (elapsed (m_hw ?m)) + longest"
      using less(2) kernel_time_mono [OF k spends_time [OF s]] by simp
    then obtain p m' where p: "receive_exactly pre ph expected wrong rx d limit ?m = Some (p, m')"
      "spends rx elapsed longest e ?m m' 0" using less(1) [OF spends_less [OF s]] by auto
    have f: "spends rx elapsed longest e m m' 0"
      using spends_trans [OF s p(2)] by (rule spends_weaken) simp
    have "spends rx elapsed longest e m ?m 0" using s by (rule spends_weaken) simp
    with f p(1) w(1) Inr x show ?thesis
      by (subst receive_exactly.simps) (auto split: sum.split)
  qed
qed

text \<open>A run that comes back after a bounded number of properly armed polls.\<close>

definition returns_within :: "nat \<Rightarrow> 'h rustix \<Rightarrow> nat \<Rightarrow> 'h io \<Rightarrow> ((ctl_error + 'a) \<times> 'h io) option \<Rightarrow> bool" where
  "returns_within budget rx timeout m y \<longleftrightarrow> (case y of None \<Rightarrow> False
     | Some (r, m') \<Rightarrow> \<exists>new. m_log m' = m_log m @ new \<and> polls new \<le> budget \<and> list_all (armed rx timeout) new)"

lemma transact_returns:
  assumes k: "kernel_time rx elapsed clock"
    and e: "clock (elapsed (m_hw m)) + timeout \<le> clock (elapsed (m_hw m) + budget)"
  shows "returns_within budget rx timeout m (transact pre ph ph' wrong wrong' limit rx bytes timeout m)"
proof -
  obtain now h where n: "rx_now rx (m_hw m) = (now, h)" by (cases "rx_now rx (m_hw m)")
  note nt = kernel_time_now [OF k n]
  show ?thesis
  proof (cases "checked_instant now timeout")
    case None
    then show ?thesis using n by (simp add: returns_within_def transact_def start_deadline_def bind_def)
  next
    case (Some d)
    then have d: "d = clock (elapsed (m_hw m)) + timeout"
      using nt(1) by (auto simp: checked_instant_def split: if_splits)
    let ?e = "elapsed (m_hw m) + budget" and ?m0 = "m\<lparr>m_hw := h\<rparr>"
    have e': "d \<le> clock ?e" using e d by simp
    have near: "d \<le> clock (elapsed (m_hw m1)) + timeout" if "elapsed (m_hw m) \<le> elapsed (m_hw m1)" for m1
      using d kernel_time_mono [OF k that] by simp
    have st: "start_deadline rx timeout m = Some (Inr d, ?m0)" using n Some by (simp add: start_deadline_def)
    have s0: "spends rx elapsed timeout ?e m ?m0 0" using nt(2) by (intro spends_none) simp_all
    obtain t m1 where t: "send_exactly pre ph (length bytes) wrong rx d bytes ?m0 = Some (t, m1)"
      "spends rx elapsed timeout ?e ?m0 m1 0" using send_returns [OF k e' near [OF spends_time [OF s0]]] by blast
    have s1: "spends rx elapsed timeout ?e m m1 0" using spends_trans [OF s0 t(2)] by simp
    obtain v m2 where v: "receive_exactly pre ph' (length bytes) wrong' rx d limit m1 = Some (v, m2)"
      "spends rx elapsed timeout ?e m1 m2 0" using receive_returns [OF k e' near [OF spends_time [OF s1]]] by blast
    have "spends rx elapsed timeout ?e m m2 0" using spends_trans [OF s1 v(2)] by simp
    with t v st s1 show ?thesis
      by (cases t) (auto simp: returns_within_def transact_def bind_def spends_def)
  qed
qed

section \<open>Stress payloads\<close>

lemma xorshift_inject:
  fixes x y :: "'a::len word"
  assumes "x XOR drop_bit k x = y XOR drop_bit k y" "0 < k"
  shows "x = y"
proof (rule bit_eqI)
  fix n
  show "bit x n \<longleftrightarrow> bit y n"
  proof (induction "LENGTH('a) - n" arbitrary: n rule: less_induct)
    case less
    show ?case
    proof (cases "n < LENGTH('a)")
      case True
      then have "bit x (k + n) \<longleftrightarrow> bit y (k + n)" using less [of "k + n"] assms(2) by simp
      moreover have "bit (x XOR drop_bit k x) n \<longleftrightarrow> bit (y XOR drop_bit k y) n" using assms(1) by simp
      ultimately show ?thesis by (auto simp: bit_simps)
    qed (auto dest: bit_imp_le_length)
  qed
qed

lemma times_inject:
  fixes x y c d :: "'a::len word"
  assumes "x * c = y * c" "c * d = 1"
  shows "x = y"
proof -
  have "x * (c * d) = y * (c * d)" using assms(1) by (simp add: mult.assoc [symmetric])
  then show ?thesis using assms(2) by simp
qed

lemma mix_inject:
  fixes x y c d :: "'a::len word"
  assumes "(x XOR drop_bit k x) * c = (y XOR drop_bit k y) * c" "c * d = 1" "0 < k"
  shows "x = y"
  using times_inject [OF assms(1,2)] assms(3) by (rule xorshift_inject)

lemma stress_marker_inject: "stress_marker i = stress_marker j \<longleftrightarrow> i = j"
proof
  define f :: "u64 \<Rightarrow> u64" where "f a = (a XOR drop_bit 30 a) * 0xbf58476d1ce4e5b9" for a
  define g :: "u64 \<Rightarrow> u64" where "g b = (b XOR drop_bit 27 b) * 0x94d049bb133111eb" for b
  have m: "stress_marker n = (let c = g (f (n + 0x9e3779b97f4a7c15)) in c XOR drop_bit 31 c)" for n
    by (simp add: stress_marker_def f_def g_def Let_def)
  have f: "a = b" if "f a = f b" for a b
    using that unfolding f_def
    by (rule mix_inject [where d = "0x96de1b173f119089"]) simp_all
  have g: "a = b" if "g a = g b" for a b
    using that unfolding g_def
    by (rule mix_inject [where d = "0x319642b2d24d8ec3"]) simp_all
  assume "stress_marker i = stress_marker j"
  then have "g (f (i + 0x9e3779b97f4a7c15)) = g (f (j + 0x9e3779b97f4a7c15))"
    unfolding m Let_def by (rule xorshift_inject) simp
  then have "i + 0x9e3779b97f4a7c15 = j + 0x9e3779b97f4a7c15" by (rule f [OF g])
  then show "i = j" by (simp only: add_right_cancel)
qed simp

lemma length_stress_payload [simp]: "length (stress_payload len i) = len"
  by (simp add: stress_payload_def Let_def)

lemma nth_stress_payload:
  "k < len \<Longrightarrow> stress_payload len i ! k =
     to_le 8 (stress_marker (of_nat i)) ! (k mod 8) XOR (of_nat k * 0x5b)"
  by (simp add: stress_payload_def Let_def)

lemma to_le_inject: "to_le 8 (v :: u64) = to_le 8 w \<longleftrightarrow> v = w"
proof
  assume "to_le 8 v = to_le 8 w"
  then have "(from_le (to_le 8 v) :: u64) = from_le (to_le 8 w)" by simp
  then show "v = w" by (simp add: from_to_le)
qed simp

lemma xor_cancel: "a XOR c = b XOR c \<longleftrightarrow> a = (b :: 'a::len word)"
proof
  assume "a XOR c = b XOR c"
  then have "(a XOR c) XOR c = (b XOR c) XOR c" by simp
  then show "a = b" by (simp add: xor.assoc)
qed simp

lemma first_difference_None:
  "length a = length b \<Longrightarrow> first_difference k a b = None \<longleftrightarrow> a = b"
  by (induction k a b rule: first_difference.induct) (auto split: if_splits)

lemma first_difference_Some:
  "first_difference k a b = Some p \<Longrightarrow> k \<le> p \<and> p - k < length a \<and> p - k < length b \<and>
    a ! (p - k) \<noteq> b ! (p - k) \<and> take (p - k) a = take (p - k) b"
proof (induction k a b rule: first_difference.induct)
  case (1 k a as b bs)
  show ?case
  proof (cases "a = b")
    case True
    with 1 have h: "Suc k \<le> p" "p - Suc k < length as" "p - Suc k < length bs"
      "as ! (p - Suc k) \<noteq> bs ! (p - Suc k)" "take (p - Suc k) as = take (p - Suc k) bs" by auto
    moreover from h(1) have "p - k = Suc (p - Suc k)" by simp
    ultimately show ?thesis using True by simp
  qed (use 1 in simp)
qed simp_all

text \<open>No loop reports a difference of the data.\<close>

lemma wait_for_error:
  assumes "wait_for pre rx w d ph m = Some (Inl x, m')"
  shows "x \<noteq> DataPlaneMismatch k"
proof -
  have "fst (Inl x :: ctl_error + unit, m') \<noteq> Inl (DataPlaneMismatch k)"
    by (rule wait_for.raw_induct [where P = "\<lambda>pre rx w d ph m y. fst y \<noteq> Inl (DataPlaneMismatch k)",
        OF _ assms]) (auto split: prod.splits if_splits sum.splits)
  then show ?thesis by simp
qed

lemma send_error:
  assumes "send_exactly pre ph expected wrong rx d bytes m = Some (Inl x, m')"
    "\<And>n. wrong n \<noteq> DataPlaneMismatch k"
  shows "x \<noteq> DataPlaneMismatch k"
proof -
  have "(\<forall>n. wrong n \<noteq> DataPlaneMismatch k) \<longrightarrow> fst (Inl x :: ctl_error + unit, m') \<noteq> Inl (DataPlaneMismatch k)"
    by (rule send_exactly.raw_induct [where P = "\<lambda>pre ph expected wrong rx d bytes m y.
        (\<forall>n. wrong n \<noteq> DataPlaneMismatch k) \<longrightarrow> fst y \<noteq> Inl (DataPlaneMismatch k)", OF _ assms(1)])
      (auto split: prod.splits if_splits sum.splits option.splits dest: wait_for_error)
  then show ?thesis using assms(2) by simp
qed

lemma receive_error:
  assumes "receive_exactly pre ph expected wrong rx d limit m = Some (Inl x, m')"
    "\<And>n. wrong n \<noteq> DataPlaneMismatch k"
  shows "x \<noteq> DataPlaneMismatch k"
proof -
  have "(\<forall>n. wrong n \<noteq> DataPlaneMismatch k) \<longrightarrow> fst (Inl x :: ctl_error + u8 list, m') \<noteq> Inl (DataPlaneMismatch k)"
    by (rule receive_exactly.raw_induct [where P = "\<lambda>pre ph expected wrong rx d limit m y.
        (\<forall>n. wrong n \<noteq> DataPlaneMismatch k) \<longrightarrow> fst y \<noteq> Inl (DataPlaneMismatch k)", OF _ assms(1)])
      (auto split: prod.splits if_splits sum.splits option.splits dest: wait_for_error)
  then show ?thesis using assms(2) by simp
qed

lemma transact_error:
  assumes "transact pre ph ph' wrong wrong' limit rx bytes timeout m = Some (Inl x, m')"
    "\<And>n. wrong n \<noteq> DataPlaneMismatch k" "\<And>n. wrong' n \<noteq> DataPlaneMismatch k"
  shows "x \<noteq> DataPlaneMismatch k"
  using assms
  by (auto simp: transact_def bind_def start_deadline_def split: prod.splits option.splits sum.splits
      dest: send_error [OF _ assms(2)] receive_error [OF _ assms(3)])

lemma echo_reply:
  assumes "bind p (\<lambda>response. case first_difference 0 response payload of
      Some offset \<Rightarrow> fail (DataPlaneMismatch offset) | None \<Rightarrow> ok ()) m = Some (r, m')"
    "r = Inr () \<or> (\<exists>k. r = Inl (DataPlaneMismatch k))"
    "\<forall>x m'' k. p m = Some (Inl x, m'') \<longrightarrow> x \<noteq> DataPlaneMismatch k"
  shows "\<exists>reply. p m = Some (Inr reply, m') \<and> r = (case first_difference 0 reply payload of
      Some k \<Rightarrow> Inl (DataPlaneMismatch k) | None \<Rightarrow> Inr ())"
  using assms by (auto simp: bind_def fail_def ok_def split: option.splits sum.splits prod.splits)

section \<open>Properties\<close>

text \<open>
  A concrete descriptor on a counting clock that answers each message with itself; it is always
  ready, and its first write is interrupted.
\<close>

definition mirror :: "(nat \<times> u8 list) rustix" where
  "mirror =
    \<lparr>rx_now = (\<lambda>h. (fst h, h)), rx_timespec = Inr,
     rx_poll = (\<lambda>w ts h. (Inr (1, [w]), (Suc (fst h), snd h))),
     rx_write = (\<lambda>b h. if fst h = 1 then (Inl INTR, h) else (Inr (length b), (fst h, b))),
     rx_read = (\<lambda>n h. (Inr (take n (snd h)), h))\<rparr>"

definition idle_mirror :: "(nat \<times> u8 list) io" where
  "idle_mirror = \<lparr>m_hw = (0, []), m_log = []\<rparr>"

lemma mirror_wait:
  "t < d \<Longrightarrow> wait_for pre mirror w d ph \<lparr>m_hw = (t, b), m_log = l\<rparr> =
    (if terminal [w] then Some (Inl (Transport [Text (pre @ ''poll reported terminal events ''), Events [w]]),
       \<lparr>m_hw = (Suc t, b), m_log = l @ [Polled w (d - t) (Inr (1, [w]))]\<rparr>)
     else Some (Inr (), \<lparr>m_hw = (Suc t, b), m_log = l @ [Polled w (d - t) (Inr (1, [w]))]\<rparr>))"
  by (subst wait_for.simps) (simp add: mirror_def)

lemma mirror_fields: "rx_now mirror h = (fst h, h)"
  "rx_write mirror b h = (if fst h = 1 then (Inl INTR, h) else (Inr (length b), (fst h, b)))"
  "rx_read mirror n h = (Inr (take n (snd h)), h)"
  by (simp_all add: mirror_def)

text \<open>The first write is interrupted at time 1 and repeated at time 2.\<close>

lemma mirror_send:
  "bytes \<noteq> [] \<Longrightarrow> 1 < d \<Longrightarrow> send_exactly pre ph (length bytes) wrong mirror d bytes \<lparr>m_hw = (0, b), m_log = l\<rparr> =
    Some (Inr (), \<lparr>m_hw = (2, bytes), m_log = l @
      [Polled POLL_OUT d (Inr (1, [POLL_OUT])), Wrote bytes (Inl INTR),
       Polled POLL_OUT (d - 1) (Inr (1, [POLL_OUT])), Wrote bytes (Inr (length bytes))]\<rparr>)"
  by (subst send_exactly.simps, simp add: mirror_wait terminal_def mirror_fields retry_def)
    (subst send_exactly.simps, simp add: mirror_wait terminal_def mirror_fields)

lemma mirror_transact:
  "bytes \<noteq> [] \<Longrightarrow> length bytes \<le> limit \<Longrightarrow>
   transact pre ph ph' wrong wrong' limit mirror bytes 10 idle_mirror =
    Some (Inr bytes, \<lparr>m_hw = (3, bytes), m_log =
      [Polled POLL_OUT 10 (Inr (1, [POLL_OUT])), Wrote bytes (Inl INTR),
       Polled POLL_OUT 9 (Inr (1, [POLL_OUT])), Wrote bytes (Inr (length bytes)),
       Polled POLL_IN 8 (Inr (1, [POLL_IN])), Received limit (Inr bytes)]\<rparr>)"
  by (simp add: transact_def start_deadline_def checked_instant_def bind_def idle_mirror_def
      mirror_fields mirror_send)
    (subst receive_exactly.simps, simp add: mirror_wait terminal_def mirror_fields)

lemma mirror_exchange:
  "device_exchange mirror [1, 2, 3, 4, 5, 6, 7, 8] 10 idle_mirror =
    Some (Inr [1, 2, 3, 4, 5, 6, 7, 8], \<lparr>m_hw = (3, [1, 2, 3, 4, 5, 6, 7, 8]), m_log =
      [Polled POLL_OUT 10 (Inr (1, [POLL_OUT])), Wrote [1, 2, 3, 4, 5, 6, 7, 8] (Inl INTR),
       Polled POLL_OUT 9 (Inr (1, [POLL_OUT])), Wrote [1, 2, 3, 4, 5, 6, 7, 8] (Inr 8),
       Polled POLL_IN 8 (Inr (1, [POLL_IN])), Received 8 (Inr [1, 2, 3, 4, 5, 6, 7, 8])]\<rparr>)"
  by (simp add: device_exchange_transact mirror_transact)

lemma mirror_echo:
  "echo mirror [1, 2, 3] 10 idle_mirror = Some (Inr (), \<lparr>m_hw = (3, [1, 2, 3]), m_log =
      [Polled POLL_OUT 10 (Inr (1, [POLL_OUT])), Wrote [1, 2, 3] (Inl INTR),
       Polled POLL_OUT 9 (Inr (1, [POLL_OUT])), Wrote [1, 2, 3] (Inr 3),
       Polled POLL_IN 8 (Inr (1, [POLL_IN])), Received 497 (Inr [1, 2, 3])]\<rparr>)"
  by (simp add: echo_transact) (simp add: bind_def mirror_transact ok_def)

text \<open>One exchange on the control device hands the request over at most once. Before it,
  only polls for writability and writes of the request that the kernel refused with EINTR or
  EAGAIN happen; nothing is read unless all eight bytes were accepted in one write; and the
  exchange succeeds only with the eight bytes of the first completed read after that.\<close>

theorem device_exchange_once:
  assumes "length rq = 8" "device_exchange rx rq timeout m = Some (r, m')"
  shows "\<exists>ask answer. m_log m' = m_log m @ ask @ answer \<and> round_trip rq 8 ask answer \<and>
    (\<forall>reply. r = Inr reply \<longrightarrow> length reply = 8 \<and> last ask = Wrote rq (Inr 8) \<and>
      answer \<noteq> [] \<and> last answer = Received 8 (Inr reply))"
  using transact_log [of _ _ _ _ _ 8 rx rq timeout m r m'] assms
  by (simp add: device_exchange_transact)

theorem device_exchange_once_witness:
  "\<exists>m'. device_exchange mirror [1, 2, 3, 4, 5, 6, 7, 8] 10 idle_mirror =
      Some (Inr [1, 2, 3, 4, 5, 6, 7, 8], m') \<and>
    (\<exists>ask answer. m_log m' = m_log idle_mirror @ ask @ answer \<and>
      round_trip [1, 2, 3, 4, 5, 6, 7, 8] 8 ask answer)"
  using device_exchange_once [OF _ mirror_exchange] mirror_exchange by fastforce

text \<open>C39: the echo test succeeds only when a payload of 1 to 496 bytes was accepted in one write
  and the first completed read, with room for one byte more than the longest payload, returned
  exactly the same bytes; an echo of the right length that differs is reported with the offset
  of its first wrong byte.\<close>

theorem echo_exact:
  assumes "echo rx payload timeout m = Some (r, m')" "r = Inr () \<or> (\<exists>k. r = Inl (DataPlaneMismatch k))"
  shows "0 < length payload \<and> length payload \<le> 496 \<and>
    (\<exists>ask answer reply. m_log m' = m_log m @ ask @ answer \<and> round_trip payload 497 ask answer \<and>
      last ask = Wrote payload (Inr (length payload)) \<and> answer \<noteq> [] \<and>
      last answer = Received 497 (Inr reply) \<and> length reply = length payload \<and>
      (r = Inr () \<longleftrightarrow> reply = payload) \<and>
      (\<forall>k. r = Inl (DataPlaneMismatch k) \<longrightarrow>
        k < length payload \<and> reply ! k \<noteq> payload ! k \<and> take k reply = take k payload))"
proof -
  have l: "payload \<noteq> [] \<and> length payload \<le> 496"
    using assms by (auto simp: echo_def fail_def split: if_splits)
  note run = assms(1) [unfolded echo_transact [OF conjunct1 [OF l] conjunct2 [OF l]]]
  have no_mismatch: "x \<noteq> DataPlaneMismatch k" if "transact ''RPMsg '' ''RPMsg request readiness''
       ''RPMsg echo'' (\<lambda>n. DataPlaneLength n (length payload)) (\<lambda>n. DataPlaneLength n (length payload))
       497 rx payload timeout m = Some (Inl x, m'')" for x m'' k
    by (rule transact_error [OF that]) simp_all
  obtain reply where t: "transact ''RPMsg '' ''RPMsg request readiness'' ''RPMsg echo''
       (\<lambda>n. DataPlaneLength n (length payload)) (\<lambda>n. DataPlaneLength n (length payload)) 497
       rx payload timeout m = Some (Inr reply, m')"
    and f: "r = (case first_difference 0 reply payload of
      Some k \<Rightarrow> Inl (DataPlaneMismatch k) | None \<Rightarrow> Inr ())"
    using echo_reply [OF run assms(2)] no_mismatch by blast
  from transact_log [OF t] obtain ask answer where log: "m_log m' = m_log m @ ask @ answer"
    "round_trip payload 497 ask answer" "last ask = Wrote payload (Inr (length payload))"
    "answer \<noteq> []" "last answer = Received 497 (Inr reply)" "length reply = length payload"
    by auto
  moreover have "r = Inr () \<longleftrightarrow> reply = payload"
    using f first_difference_None [OF log(6), of 0] by (auto split: option.splits)
  moreover have "k < length payload \<and> reply ! k \<noteq> payload ! k \<and> take k reply = take k payload"
    if "r = Inl (DataPlaneMismatch k)" for k
    using that f first_difference_Some [of 0 reply payload k] by (auto split: option.splits)
  ultimately show ?thesis using l by (intro conjI exI [of _ ask] exI [of _ answer] exI [of _ reply]) auto
qed

theorem echo_exact_witness:
  "\<exists>m' ask answer reply. echo mirror [1, 2, 3] 10 idle_mirror = Some (Inr (), m') \<and>
    m_log m' = m_log idle_mirror @ ask @ answer \<and> reply = [1, 2, 3] \<and>
    last answer = Received 497 (Inr reply)"
  using echo_exact [OF mirror_echo] mirror_echo by fastforce

text \<open>C36: one exchange and one echo always return, whatever the descriptor does: even when every
  \<open>poll\<close> is interrupted or reports something else. The hypotheses are that the clock is a
  nondecreasing, possibly coarse, function of a time of which every \<open>poll\<close> takes at least one
  unit, and that this clock moves by the timeout within some budget of units; then there are at
  most that many polls, and none waits longer than the timeout or with an empty wait.\<close>

theorem exchange_returns:
  assumes "kernel_time rx elapsed clock"
    "clock (elapsed (m_hw m)) + timeout \<le> clock (elapsed (m_hw m) + budget)" "length rq = 8"
  shows "returns_within budget rx timeout m (device_exchange rx rq timeout m) \<and>
    returns_within budget rx timeout m (echo rx payload timeout m)"
proof
  show "returns_within budget rx timeout m (device_exchange rx rq timeout m)"
    unfolding device_exchange_transact [OF assms(3)] by (rule transact_returns [OF assms(1,2)])
  show "returns_within budget rx timeout m (echo rx payload timeout m)"
  proof (cases "payload \<noteq> [] \<and> length payload \<le> 496")
    case True
    have "returns_within budget rx timeout m (transact ''RPMsg '' ''RPMsg request readiness'' ''RPMsg echo''
       (\<lambda>n. DataPlaneLength n (length payload)) (\<lambda>n. DataPlaneLength n (length payload)) 497
       rx payload timeout m)" by (rule transact_returns [OF assms(1,2)])
    then show ?thesis
      unfolding echo_transact [OF conjunct1 [OF True] conjunct2 [OF True]]
      by (auto simp: returns_within_def bind_def fail_def ok_def split: option.splits sum.splits)
  qed (auto simp: returns_within_def echo_def fail_def)
qed

text \<open>A descriptor whose polls are always interrupted, on a clock that shows every fourth unit of
  time only.\<close>

definition interrupted :: "nat rustix" where
  "interrupted =
    \<lparr>rx_now = (\<lambda>t. (t div 4, Suc t)), rx_timespec = Inr, rx_poll = (\<lambda>w ts t. (Inl INTR, Suc t)),
     rx_write = (\<lambda>b t. (Inr (length b), t)), rx_read = (\<lambda>n t. (Inr [], t))\<rparr>"

lemma kernel_time_interrupted: "kernel_time interrupted id (\<lambda>t. t div 4)"
  by (simp add: kernel_time_def interrupted_def monoI div_le_mono)

theorem exchange_returns_witness:
  "\<exists>r m'. device_exchange interrupted (replicate 8 0) 5 \<lparr>m_hw = 0, m_log = []\<rparr> = Some (r, m') \<and>
    polls (m_log m') \<le> 20"
proof -
  have "returns_within 20 interrupted 5 \<lparr>m_hw = 0, m_log = []\<rparr>
      (device_exchange interrupted (replicate 8 0) 5 \<lparr>m_hw = 0, m_log = []\<rparr>)"
    using exchange_returns [OF kernel_time_interrupted, of "\<lparr>m_hw = 0, m_log = []\<rparr>" 5 20
        "replicate 8 0" "[]"] by simp
  then show ?thesis by (auto simp: returns_within_def split: option.splits)
qed

text \<open>The stress payloads of two different iterations differ in every aligned eight-byte
  word, hence in every cache line they fill, because the mixing function is a bijection of the
  64-bit counter.\<close>

theorem stress_payload_changes:
  assumes "i \<noteq> j" "i < 2 ^ 64" "j < 2 ^ 64" "8 * k + 8 \<le> len"
  shows "slice (8 * k) 8 (stress_payload len i) \<noteq> slice (8 * k) 8 (stress_payload len j)"
proof
  assume eq: "slice (8 * k) 8 (stress_payload len i) = slice (8 * k) 8 (stress_payload len j)"
  have "to_le 8 (stress_marker (of_nat i)) = to_le 8 (stress_marker (of_nat j))"
  proof (rule nth_equalityI)
    fix n assume "n < length (to_le 8 (stress_marker (of_nat i)))"
    then have n: "n < 8" by simp
    have "slice (8 * k) 8 (stress_payload len x) ! n = stress_payload len x ! (8 * k + n)" for x
      using n assms(4) by (simp add: slice_def)
    then have "stress_payload len i ! (8 * k + n) = stress_payload len j ! (8 * k + n)" using eq by metis
    then show "to_le 8 (stress_marker (of_nat i)) ! n = to_le 8 (stress_marker (of_nat j)) ! n"
      using n assms(4) by (simp add: nth_stress_payload xor_cancel)
  qed simp
  then have "(of_nat i :: u64) = of_nat j" by (simp add: to_le_inject stress_marker_inject)
  then have "unat (of_nat i :: u64) = unat (of_nat j :: u64)" by simp
  with assms(1-3) show False by (simp add: unat_of_nat)
qed

theorem stress_payload_changes_witness:
  "slice (8 * 1) 8 (stress_payload 16 0) \<noteq> slice (8 * 1) 8 (stress_payload 16 65536)"
  by (rule stress_payload_changes) simp_all

end
