(* ===== verification/Ctl_Client.thy ===== *)
theory Ctl_Client
  imports Message Ctl_Device
begin

text \<open>
  The message client of the control library, \<open>tools/sg2002-c906l-ctl/src/lib.rs\<close>: the
  byte form of a mailbox message, latency statistics, the RPMsg benchmarks, and the client that
  numbers its requests and checks every response.

  A client is generic in its transport. Here the transport is an arbitrary function
  \<open>exchange\<close> on an arbitrary state; the locale \<open>message_transport\<close> states the one thing the type
  \<open>[u8; 8]\<close> promises of it and holds the client's lemmas, and the control device of the
  previous theory is an interpretation of it. The monotonic clock of the benchmarks is a
  function on the same state.
\<close>

section \<open>Messages as bytes\<close>

definition encode_message :: "message \<Rightarrow> u8 list" where
  "encode_message m =
     (let s = to_le 2 (sequence m); v = to_le 4 (msg_value m)
      in [service m, opcode m, s ! 0, s ! 1, v ! 0, v ! 1, v ! 2, v ! 3])"

definition decode_message :: "u8 list \<Rightarrow> message" where
  "decode_message bytes =
    \<lparr>service = bytes ! 0, opcode = bytes ! 1, sequence = from_le [bytes ! 2, bytes ! 3],
     msg_value = from_le [bytes ! 4, bytes ! 5, bytes ! 6, bytes ! 7]\<rparr>"

section \<open>Latency statistics\<close>

record latency_stats =
  ls_count :: nat
  ls_p50 :: nat
  ls_p99 :: nat
  ls_max :: nat

definition usize_saturating_mul :: "nat \<Rightarrow> nat \<Rightarrow> nat" where
  "usize_saturating_mul a b = min (a * b) (2 ^ 64 - 1)"

definition index_or_panic :: "'a list \<Rightarrow> nat \<Rightarrow> ('e, 'x, 'a) prog" where
  "index_or_panic xs i = (if i < length xs then ok (xs ! i) else panic)"

definition nearest_rank :: "nat list \<Rightarrow> nat \<Rightarrow> ('e, 'x, nat) prog" where
  "nearest_rank sorted_samples percentile =
     (let rank = (usize_saturating_mul (length sorted_samples) percentile + 99) div 100
      in index_or_panic sorted_samples (rank - 1))"

definition from_samples :: "nat list \<Rightarrow> ('e, ctl_error, latency_stats) prog" where
  "from_samples samples =
     (if samples = [] then fail (InvalidArgument ''sample count must be non-zero'')
      else
      bind (nearest_rank (sort samples) 50) (\<lambda>p50.
      bind (nearest_rank (sort samples) 99) (\<lambda>p99.
      ok \<lparr>ls_count = length samples, ls_p50 = p50, ls_p99 = p99, ls_max = last (sort samples)\<rparr>)))"

section \<open>RPMsg benchmarks\<close>

definition instant_now :: "('e \<Rightarrow> nat \<times> 'e) \<Rightarrow> ('e, 'x, nat) prog" where
  "instant_now now = (\<lambda>e. case now e of (t, e') \<Rightarrow> Some (Inr t, e'))"

definition io_now :: "'h rustix \<Rightarrow> 'h io \<Rightarrow> nat \<times> 'h io" where
  "io_now rx m = (case rx_now rx (m_hw m) of (t, h) \<Rightarrow> (t, m\<lparr>m_hw := h\<rparr>))"

text \<open>The measured loop of all benchmarks: \<open>started.elapsed()\<close> is a saturating difference.\<close>

fun measure_each :: "('e \<Rightarrow> nat \<times> 'e) \<Rightarrow> (nat \<Rightarrow> ('e, 'x, unit) prog) \<Rightarrow> nat list \<Rightarrow> nat list
    \<Rightarrow> ('e, 'x, nat list) prog" where
  "measure_each now body [] samples = ok samples"
| "measure_each now body (iteration # rest) samples =
     bind (instant_now now) (\<lambda>started.
     bind (body iteration) (\<lambda>_.
     bind (instant_now now) (\<lambda>finished.
     measure_each now body rest (samples @ [finished - started]))))"

definition benchmark_sizes :: "'h rustix \<Rightarrow> nat \<Rightarrow> (nat \<Rightarrow> nat) \<Rightarrow> nat
    \<Rightarrow> ('h io, ctl_error, latency_stats) prog" where
  "benchmark_sizes rx count len timeout =
     bind (measure_each (io_now rx)
       (\<lambda>iteration. if len iteration > 496 then panic
          else echo rx (stress_payload (len iteration) iteration) timeout) [0..<count] []) from_samples"

definition rpmsg_benchmark :: "'h rustix \<Rightarrow> nat \<Rightarrow> nat \<Rightarrow> nat \<Rightarrow> ('h io, ctl_error, latency_stats) prog" where
  "rpmsg_benchmark rx count payload_size timeout =
     (if count = 0 then fail (InvalidArgument ''sample count must be non-zero'')
      else if \<not> (1 \<le> payload_size \<and> payload_size \<le> 496)
      then fail (InvalidArgument ''RPMsg payload length must be in 1..=496'')
      else benchmark_sizes rx count (\<lambda>_. payload_size) timeout)"

definition rpmsg_stress :: "'h rustix \<Rightarrow> nat \<Rightarrow> nat \<Rightarrow> ('h io, ctl_error, latency_stats) prog" where
  "rpmsg_stress rx count timeout =
     (if count = 0 then fail (InvalidArgument ''sample count must be non-zero'')
      else benchmark_sizes rx count (\<lambda>iteration. 1 + iteration mod 496) timeout)"

section \<open>The client\<close>

record 't client =
  transport :: 't
  next_sequence :: u16

type_synonym ('t, 'a) client_call = "('t client, ctl_error, 'a) prog"
type_synonym 't message_exchange = "u8 list \<Rightarrow> nat \<Rightarrow> ('t, ctl_error, u8 list) prog"

definition with_sequence :: "'t \<Rightarrow> u16 \<Rightarrow> 't client" where
  "with_sequence t first_sequence = \<lparr>transport = t, next_sequence = first_sequence\<rparr>"

definition client_new :: "'t \<Rightarrow> 't client" where
  "client_new t = with_sequence t 1"

definition into_inner :: "'t client \<Rightarrow> 't" where
  "into_inner cl = transport cl"

definition on_transport :: "('t, 'x, 'a) prog \<Rightarrow> ('t client, 'x, 'a) prog" where
  "on_transport p = (\<lambda>cl. case p (transport cl) of None \<Rightarrow> None
     | Some (r, t) \<Rightarrow> Some (r, cl\<lparr>transport := t\<rparr>))"

definition take_sequence :: "('t, u16) client_call" where
  "take_sequence = (\<lambda>cl. Some (Inr (next_sequence cl), cl\<lparr>next_sequence := next_sequence cl + 1\<rparr>))"

definition check_response :: "contract \<Rightarrow> u16 \<Rightarrow> u8 \<Rightarrow> message \<Rightarrow> ctl_error + message" where
  "check_response c seq code response =
     (if service response \<noteq> SERVICE_CONTROL c
      then Inl (UnexpectedService (SERVICE_CONTROL c) (service response))
      else if sequence response \<noteq> seq then Inl (UnexpectedSequence seq (sequence response))
      else if opcode response = OP_ERROR c then Inl (RemoteError seq (msg_value response))
      else if opcode response \<noteq> code OR OP_RESPONSE c
      then Inl (UnexpectedOpcode (code OR OP_RESPONSE c) (opcode response))
      else Inr response)"

definition request :: "contract \<Rightarrow> 't message_exchange \<Rightarrow> u8 \<Rightarrow> u32 \<Rightarrow> nat \<Rightarrow> ('t, message) client_call" where
  "request c exchange code val timeout =
     bind take_sequence (\<lambda>seq.
     bind (on_transport (exchange (encode_message
       \<lparr>service = SERVICE_CONTROL c, opcode = code, sequence = seq, msg_value = val\<rparr>) timeout)) (\<lambda>bytes.
     give (check_response c seq code (decode_message bytes))))"

definition client_abi :: "contract \<Rightarrow> 't message_exchange \<Rightarrow> nat \<Rightarrow> ('t, abi_version) client_call" where
  "client_abi c exchange timeout =
     bind (request c exchange (OP_GET_ABI c) 0 timeout) (\<lambda>m.
     ok \<lparr>av_major = ucast (drop_bit 16 (msg_value m)), av_minor = ucast (msg_value m)\<rparr>)"

definition client_capabilities :: "contract \<Rightarrow> 't message_exchange \<Rightarrow> nat \<Rightarrow> ('t, u32) client_call" where
  "client_capabilities c exchange timeout =
     bind (request c exchange (OP_GET_CAPABILITIES c) 0 timeout) (\<lambda>m. ok (msg_value m))"

definition client_ping :: "contract \<Rightarrow> 't message_exchange \<Rightarrow> u32 \<Rightarrow> nat \<Rightarrow> ('t, u32) client_call" where
  "client_ping c exchange val timeout =
     bind (request c exchange (OP_PING c) val timeout) (\<lambda>m.
     if msg_value m \<noteq> val then fail (UnexpectedValue val (msg_value m)) else ok (msg_value m))"

definition client_now :: "('t \<Rightarrow> nat \<times> 't) \<Rightarrow> 't client \<Rightarrow> nat \<times> 't client" where
  "client_now now cl = (case now (transport cl) of (x, t) \<Rightarrow> (x, cl\<lparr>transport := t\<rparr>))"

definition client_benchmark :: "contract \<Rightarrow> 't message_exchange \<Rightarrow> ('t \<Rightarrow> nat \<times> 't) \<Rightarrow> nat \<Rightarrow> nat
    \<Rightarrow> ('t, latency_stats) client_call" where
  "client_benchmark c exchange now count timeout =
     (if count = 0 then fail (InvalidArgument ''benchmark count must be non-zero'')
      else bind (measure_each (client_now now)
        (\<lambda>iteration. bind (client_ping c exchange (of_nat iteration) timeout) (\<lambda>_. ok ()))
        [0..<count] []) from_samples)"

section \<open>Facts about the byte form\<close>

lemma length_encode_message [simp]: "length (encode_message m) = 8"
  by (simp add: encode_message_def Let_def)

lemma to_le_8: "to_le 8 (w :: u64) = [ucast w, ucast (drop_bit 8 w), ucast (drop_bit 16 w),
    ucast (drop_bit 24 w), ucast (drop_bit 32 w), ucast (drop_bit 40 w), ucast (drop_bit 48 w),
    ucast (drop_bit 56 w)]"
  by (simp add: to_le_def upt_rec)

lemma encode_message_word: "encode_message m = to_le 8 (encode m)"
proof -
  have s: "(ucast (encode m) :: u8) = service m"
    "(ucast (drop_bit 8 (encode m)) :: u8) = opcode m"
    by (rule bit_eqI; auto simp: encode_def bit_simps dest: bit_imp_le_length)+
  have q: "(ucast (drop_bit 16 (encode m)) :: u8) = ucast (sequence m)"
    "(ucast (drop_bit 24 (encode m)) :: u8) = ucast (drop_bit 8 (sequence m))"
    by (rule bit_eqI; auto simp: encode_def bit_simps dest: bit_imp_le_length)+
  have v: "(ucast (drop_bit 32 (encode m)) :: u8) = ucast (msg_value m)"
    "(ucast (drop_bit 40 (encode m)) :: u8) = ucast (drop_bit 8 (msg_value m))"
    "(ucast (drop_bit 48 (encode m)) :: u8) = ucast (drop_bit 16 (msg_value m))"
    "(ucast (drop_bit 56 (encode m)) :: u8) = ucast (drop_bit 24 (msg_value m))"
    by (rule bit_eqI; auto simp: encode_def bit_simps dest: bit_imp_le_length)+
  show ?thesis
    by (simp add: encode_message_def Let_def nth_to_le to_le_8 s q v)
qed

lemma encode_decode_message: "length bytes = 8 \<Longrightarrow> encode_message (decode_message bytes) = bytes"
proof -
  assume "length bytes = 8"
  then obtain a b c d e f g h where b: "bytes = [a, b, c, d, e, f, g, h]"
    by (auto simp: length_Suc_conv numeral_eq_Suc)
  have "to_le 2 (from_le [c, d] :: u16) = [c, d]" by (rule to_from_le) simp_all
  moreover have "to_le 4 (from_le [e, f, g, h] :: u32) = [e, f, g, h]" by (rule to_from_le) simp_all
  ultimately show ?thesis by (simp only: b encode_message_def decode_message_def Let_def) simp
qed

lemma decode_message_word: "length bytes = 8 \<Longrightarrow> decode_message bytes = decode (from_le bytes)"
proof -
  assume l: "length bytes = 8"
  have "from_le (to_le 8 (encode (decode_message bytes))) = encode (decode_message bytes)"
    by (rule from_to_le) simp
  then have "from_le bytes = encode (decode_message bytes)"
    using encode_decode_message [OF l] by (simp add: encode_message_word)
  then show ?thesis by (simp add: decode_encode)
qed

lemma decode_encode_message: "decode_message (encode_message m) = m"
proof -
  have "from_le (to_le 8 (encode m)) = encode m" by (rule from_to_le) simp
  then show ?thesis by (simp add: decode_message_word) (simp add: encode_message_word decode_encode)
qed

interpretation message_bytes: codec encode_message decode_message "\<lambda>_. True" "\<lambda>bs. length bs = 8"
  by unfold_locales (simp_all add: encode_decode_message decode_encode_message)

section \<open>Facts about the client\<close>

text \<open>The request that the client sends, and the one response to it with a given value.\<close>

definition control_request :: "contract \<Rightarrow> u8 \<Rightarrow> u16 \<Rightarrow> u32 \<Rightarrow> message" where
  "control_request c code seq v =
     \<lparr>service = SERVICE_CONTROL c, opcode = code, sequence = seq, msg_value = v\<rparr>"

definition control_response :: "contract \<Rightarrow> u8 \<Rightarrow> u16 \<Rightarrow> u32 \<Rightarrow> message" where
  "control_response c code seq v =
     \<lparr>service = SERVICE_CONTROL c, opcode = code OR OP_RESPONSE c, sequence = seq, msg_value = v\<rparr>"

lemma encode_message_inject: "encode_message a = encode_message b \<longleftrightarrow> a = b"
  by (metis decode_encode_message)

lemma control_response_inject: "control_response c code seq v = control_response c code seq v' \<longleftrightarrow> v = v'"
  by (simp add: control_response_def)

lemma check_response_Inr:
  assumes "contract_ok c" "code \<in> set (opcodes c)"
  shows "check_response c seq code m = Inr m' \<longleftrightarrow> m' = m \<and> m = control_response c code seq (msg_value m)"
proof -
  have "code OR OP_RESPONSE c \<noteq> OP_ERROR c"
    using assms(2) contract_ok_opcodes [OF assms(1)] by (auto simp: opcodes_def)
  then show ?thesis by (cases m) (auto simp: check_response_def control_response_def)
qed

text \<open>The interface of a transport: an exchange answers eight bytes with eight bytes.\<close>

locale message_transport =
  fixes exchange :: "'t message_exchange"
  assumes reply_length:
    "length rq = 8 \<Longrightarrow> exchange rq timeout t = Some (Inr rs, t') \<Longrightarrow> length rs = 8"
begin

lemma request_runs:
  assumes "request c exchange code val timeout cl = Some (r, cl')"
  shows "next_sequence cl' = next_sequence cl + 1 \<and>
    (\<exists>q. exchange (encode_message \<lparr>service = SERVICE_CONTROL c, opcode = code,
        sequence = next_sequence cl, msg_value = val\<rparr>) timeout (transport cl) =
        Some (q, transport cl') \<and>
      r = (case q of Inl x \<Rightarrow> Inl x
        | Inr bytes \<Rightarrow> check_response c (next_sequence cl) code (decode_message bytes)))"
  using assms
  by (auto simp: request_def take_sequence_def on_transport_def bind_def give_def
      split: option.splits sum.splits prod.splits)

lemma request_wire:
  assumes "request c exchange code val timeout cl = Some (Inr m, cl')"
  shows "exchange (encode_message \<lparr>service = SERVICE_CONTROL c, opcode = code,
        sequence = next_sequence cl, msg_value = val\<rparr>) timeout (transport cl) =
      Some (Inr (encode_message m), transport cl') \<and> service m = SERVICE_CONTROL c \<and>
    sequence m = next_sequence cl \<and> opcode m = code OR OP_RESPONSE c \<and> opcode m \<noteq> OP_ERROR c"
proof -
  from request_runs [OF assms] obtain q where
    q: "exchange (encode_message \<lparr>service = SERVICE_CONTROL c, opcode = code,
        sequence = next_sequence cl, msg_value = val\<rparr>) timeout (transport cl) =
        Some (q, transport cl')"
      "Inr m = (case q of Inl x \<Rightarrow> Inl x
        | Inr bytes \<Rightarrow> check_response c (next_sequence cl) code (decode_message bytes))" by blast
  then obtain bytes where
    b: "exchange (encode_message \<lparr>service = SERVICE_CONTROL c, opcode = code,
        sequence = next_sequence cl, msg_value = val\<rparr>) timeout (transport cl) =
        Some (Inr bytes, transport cl')"
      "check_response c (next_sequence cl) code (decode_message bytes) = Inr m"
    by (cases q) auto
  have "length bytes = 8" using reply_length [OF _ b(1)] by simp
  with b show ?thesis
    by (auto simp: check_response_def encode_decode_message split: if_splits)
qed

text \<open>A request is one exchange, and succeeds exactly when the bytes of a proper response come back.\<close>

lemma request_exact:
  assumes "contract_ok c" "code \<in> set (opcodes c)"
    "exchange (encode_message (control_request c code (next_sequence cl) val)) timeout (transport cl) =
      Some (q, t)"
  shows "\<exists>r. request c exchange code val timeout cl =
      Some (r, \<lparr>transport = t, next_sequence = next_sequence cl + 1\<rparr>) \<and>
    ((\<exists>v. q = Inr (encode_message (control_response c code (next_sequence cl) v)) \<and>
       r = Inr (control_response c code (next_sequence cl) v)) \<or>
     (\<forall>v. q \<noteq> Inr (encode_message (control_response c code (next_sequence cl) v))) \<and> (\<exists>x. r = Inl x))"
proof -
  let ?seq = "next_sequence cl"
  define r where "r = (case q of Inl x \<Rightarrow> Inl x
    | Inr bytes \<Rightarrow> check_response c ?seq code (decode_message bytes))"
  have run: "request c exchange code val timeout cl = Some (r, \<lparr>transport = t, next_sequence = ?seq + 1\<rparr>)"
    using assms(3) by (cases q) (simp_all add: r_def request_def take_sequence_def on_transport_def
        bind_def give_def control_request_def)
  have "(\<exists>v. q = Inr (encode_message (control_response c code ?seq v)) \<and> r = Inr (control_response c code ?seq v)) \<or>
     (\<forall>v. q \<noteq> Inr (encode_message (control_response c code ?seq v))) \<and> (\<exists>x. r = Inl x)"
  proof (cases r)
    case (Inl x)
    have "q \<noteq> Inr (encode_message (control_response c code ?seq v))" for v
    proof
      assume "q = Inr (encode_message (control_response c code ?seq v))"
      then have "check_response c ?seq code (control_response c code ?seq v) = Inl x"
        using Inl by (simp add: r_def decode_encode_message)
      moreover have "check_response c ?seq code (control_response c code ?seq v) = Inr (control_response c code ?seq v)"
        by (simp add: check_response_Inr [OF assms(1,2)]) (simp add: control_response_def)
      ultimately show False by simp
    qed
    then show ?thesis using Inl by blast
  next
    case (Inr m)
    then obtain bytes where b: "q = Inr bytes" "check_response c ?seq code (decode_message bytes) = Inr m"
      by (cases q) (auto simp: r_def)
    have "length bytes = 8" using reply_length [OF _ assms(3) [unfolded b(1)]] by simp
    then have e: "encode_message (decode_message bytes) = bytes" by (rule encode_decode_message)
    from b(2) have m: "m = decode_message bytes"
      "decode_message bytes = control_response c code ?seq (msg_value (decode_message bytes))"
      unfolding check_response_Inr [OF assms(1,2)] by blast+
    have "bytes = encode_message (control_response c code ?seq (msg_value (decode_message bytes)))"
      using e m(2) by simp
    moreover have "m = control_response c code ?seq (msg_value (decode_message bytes))"
      using m by simp
    ultimately show ?thesis using b(1) Inr by blast
  qed
  with run show ?thesis by blast
qed

lemma request_hangs:
  "exchange (encode_message (control_request c code (next_sequence cl) val)) timeout (transport cl) = None \<Longrightarrow>
   request c exchange code val timeout cl = None"
  by (simp add: request_def take_sequence_def on_transport_def bind_def control_request_def)

end

lemma device_reply_length:
  assumes "length rq = 8" "device_exchange rx rq timeout m = Some (Inr rs, m')"
  shows "length rs = 8"
  using transact_log [OF assms(2) [unfolded device_exchange_transact [OF assms(1)]]] assms(1)
  by auto

interpretation device: message_transport "device_exchange rx" for rx
  by unfold_locales (rule device_reply_length)

section \<open>Facts about percentiles\<close>

text \<open>The nearest-rank percentile: the least sample that at least \<open>p\<close> percent do not exceed.\<close>

definition is_percentile :: "nat list \<Rightarrow> nat \<Rightarrow> nat \<Rightarrow> bool" where
  "is_percentile xs p v \<longleftrightarrow> v \<in> set xs \<and>
     p * length xs \<le> 100 * length (filter (\<lambda>x. x \<le> v) xs) \<and>
     list_all (\<lambda>w. w < v \<longrightarrow> 100 * length (filter (\<lambda>x. x \<le> w) xs) < p * length xs) xs"

lemma is_percentile_sort: "is_percentile (sort xs) p v \<longleftrightarrow> is_percentile xs p v"
  by (simp add: is_percentile_def list_all_iff filter_sort)

lemma sorted_count_le:
  assumes "sorted s" "i < length s"
  shows "Suc i \<le> length (filter (\<lambda>x. x \<le> s ! i) s)"
proof -
  have "filter (\<lambda>x. x \<le> s ! i) (take (Suc i) s) = take (Suc i) s"
    using assms by (auto simp: filter_id_conv in_set_conv_nth sorted_nth_mono)
  then have "length (take (Suc i) s) \<le> length (filter (\<lambda>x. x \<le> s ! i) (take (Suc i) s @ drop (Suc i) s))"
    by (simp only: filter_append length_append)
  then show ?thesis using assms(2) by (simp only: append_take_drop_id) simp
qed

lemma sorted_count_less:
  assumes "sorted s" "i < length s" "w < s ! i"
  shows "length (filter (\<lambda>x. x \<le> w) s) \<le> i"
proof -
  have "filter (\<lambda>x. x \<le> w) (drop i s) = []"
  proof -
    have "\<not> x \<le> w" if x: "x \<in> set (drop i s)" for x
    proof -
      obtain j where "j < length (drop i s)" "x = drop i s ! j" using x by (auto simp: in_set_conv_nth)
      then have "s ! i \<le> x" using assms(1,2) by (simp add: sorted_nth_mono)
      then show ?thesis using assms(3) by simp
    qed
    then show ?thesis by (simp add: filter_empty_conv)
  qed
  then have "filter (\<lambda>x. x \<le> w) s = filter (\<lambda>x. x \<le> w) (take i s)"
    using filter_append [of "\<lambda>x. x \<le> w" "take i s" "drop i s"] by simp
  then show ?thesis using length_filter_le [of "\<lambda>x. x \<le> w" "take i s"] by simp
qed

lemma ceil_100: "0 < (n::nat) \<Longrightarrow>
    0 < (n + 99) div 100 \<and> n \<le> 100 * ((n + 99) div 100) \<and> 100 * ((n + 99) div 100 - 1) < n"
proof -
  assume "0 < n"
  moreover define q r where "q = (n + 99) div 100" and "r = (n + 99) mod 100"
  have "n + 99 = 100 * q + r" "r < 100" by (simp_all add: q_def r_def)
  ultimately have "0 < q \<and> n \<le> 100 * q \<and> 100 * (q - 1) < n" by linarith
  then show ?thesis by (simp only: q_def)
qed

lemma nearest_rank_percentile:
  assumes "sorted s" "s \<noteq> []" "0 < p" "p \<le> 100" "length s * p < 2 ^ 64"
  shows "\<exists>v. nearest_rank s p e = Some (Inr v, e) \<and> is_percentile s p v"
proof -
  define rank where "rank = (length s * p + 99) div 100"
  have "0 < length s * p" using assms(2,3) by simp
  then have r: "0 < rank" "length s * p \<le> 100 * rank" "100 * (rank - 1) < length s * p"
    unfolding rank_def using ceil_100 by blast+
  have "length s * p \<le> 100 * length s" using assms(4) by simp
  then have i: "rank - 1 < length s" using r(3) by linarith
  have "is_percentile s p (s ! (rank - 1))"
    using sorted_count_le [OF assms(1) i] sorted_count_less [OF assms(1) i] r i
    by (fastforce simp: is_percentile_def list_all_iff mult.commute)
  moreover have "nearest_rank s p e = Some (Inr (s ! (rank - 1)), e)"
    using i assms(5)
    by (simp add: nearest_rank_def Let_def usize_saturating_mul_def rank_def index_or_panic_def ok_def)
  ultimately show ?thesis by blast
qed

lemma from_samples_stats:
  assumes "xs \<noteq> []" "length xs * 99 < 2 ^ 64"
  shows "\<exists>st. from_samples xs e = Some (Inr st, e) \<and> ls_count st = length xs \<and>
    is_percentile xs 50 (ls_p50 st) \<and> is_percentile xs 99 (ls_p99 st) \<and> ls_max st = Max (set xs)"
proof -
  have s: "sorted (sort xs)" "sort xs \<noteq> []"
    using assms(1) by (simp, metis set_empty set_sort)
  have "length (sort xs) * 50 < 2 ^ 64" "length (sort xs) * 99 < 2 ^ 64" using assms(2) by simp_all
  from nearest_rank_percentile [OF s _ _ this(1), of e] nearest_rank_percentile [OF s _ _ this(2), of e]
  obtain a b where "nearest_rank (sort xs) 50 e = Some (Inr a :: ctl_error + nat, e)" "is_percentile xs 50 a"
    "nearest_rank (sort xs) 99 e = Some (Inr b :: ctl_error + nat, e)" "is_percentile xs 99 b"
    by (auto simp: is_percentile_sort)
  moreover have "last (sort xs) = Max (set xs)"
  proof (rule Max_eqI [symmetric])
    fix y assume "y \<in> set xs"
    then obtain i where "i < length (sort xs)" "y = sort xs ! i"
      by (metis in_set_conv_nth set_sort)
    then show "y \<le> last (sort xs)"
      using s by (simp add: last_conv_nth sorted_nth_mono)
  qed (use s(2) last_in_set [of "sort xs"] in simp_all)
  ultimately show ?thesis using assms(1) by (simp add: from_samples_def bind_def ok_def)
qed

lemma measure_each_count:
  "measure_each now body is samples e = Some (Inr xs, e') \<Longrightarrow> length xs = length samples + length is"
proof (induction "is" arbitrary: samples e)
  case (Cons i "is")
  then show ?case by (auto simp: bind_Inr_iff)
qed (simp add: ok_def)

text \<open>A concrete device that answers a request with its response form.\<close>

definition responder :: "(nat \<times> u8 list) rustix" where
  "responder = mirror\<lparr>rx_write := (\<lambda>b h. (Inr (length b), (fst h, b[1 := b ! 1 OR 0x80])))\<rparr>"

lemma responder_wait:
  "t < d \<Longrightarrow> \<not> terminal [w] \<Longrightarrow> wait_for pre responder w d ph \<lparr>m_hw = (t, b), m_log = l\<rparr> =
    Some (Inr (), \<lparr>m_hw = (Suc t, b), m_log = l @ [Polled w (d - t) (Inr (1, [w]))]\<rparr>)"
  by (subst wait_for.simps) (simp add: responder_def mirror_def)

lemma responder_fields: "rx_now responder h = (fst h, h)"
  "rx_write responder b h = (Inr (length b), (fst h, b[1 := b ! 1 OR 0x80]))"
  "rx_read responder n h = (Inr (take n (snd h)), h)"
  by (simp_all add: responder_def mirror_def)

lemma responder_exchange:
  "length rq = 8 \<Longrightarrow> device_exchange responder rq 10 idle_mirror =
    Some (Inr (rq[1 := rq ! 1 OR 0x80]), \<lparr>m_hw = (2, rq[1 := rq ! 1 OR 0x80]), m_log =
      [Polled POLL_OUT 10 (Inr (1, [POLL_OUT])), Wrote rq (Inr 8),
       Polled POLL_IN 9 (Inr (1, [POLL_IN])), Received 8 (Inr (rq[1 := rq ! 1 OR 0x80]))]\<rparr>)"
  by (simp add: device_exchange_def start_deadline_def checked_instant_def bind_def idle_mirror_def
      send_exactly.simps receive_exactly.simps responder_wait terminal_def responder_fields)

lemma responder_ping:
  "request timer_contract (device_exchange responder) 1 5 10 (client_new idle_mirror) =
    Some (Inr \<lparr>service = 1, opcode = 0x81, sequence = 1, msg_value = 5\<rparr>,
      \<lparr>transport = \<lparr>m_hw = (2, [1, 0x81, 1, 0, 5, 0, 0, 0]), m_log =
        [Polled POLL_OUT 10 (Inr (1, [POLL_OUT])), Wrote [1, 1, 1, 0, 5, 0, 0, 0] (Inr 8),
         Polled POLL_IN 9 (Inr (1, [POLL_IN])), Received 8 (Inr [1, 0x81, 1, 0, 5, 0, 0, 0])]\<rparr>,
       next_sequence = 2\<rparr>)"
proof -
  have e: "encode_message \<lparr>service = 1, opcode = 1, sequence = 1, msg_value = 5\<rparr> = [1, 1, 1, 0, 5, 0, 0, 0]"
    by (simp add: encode_message_def Let_def to_le_def upt_rec)
  have "decode_message [1, 0x81, 1, 0, 5, 0, 0, 0] =
      \<lparr>service = 1, opcode = 0x81, sequence = 1, msg_value = 5\<rparr>"
    by (simp add: decode_message_def)
  then show ?thesis
    using responder_exchange [of "[1, 1, 1, 0, 5, 0, 0, 0]"]
    by (simp add: request_def take_sequence_def on_transport_def bind_def give_def client_new_def
        with_sequence_def check_response_def timer_contract_def e)
qed

section \<open>Properties\<close>

text \<open>The byte form of a message in the control tool is the little-endian form of the 64-bit
  mailbox word of the firmware, in both directions, so the two sides read the same message.\<close>

theorem message_bytes_agree:
  "encode_message m = to_le 8 (encode m) \<and> decode_message (encode_message m) = m \<and>
   (length bytes = 8 \<longrightarrow> decode_message bytes = decode (from_le bytes) \<and>
     encode_message (decode_message bytes) = bytes)"
  using encode_message_word decode_encode_message decode_message_word encode_decode_message
  by blast

theorem message_bytes_agree_witness:
  "decode_message [1, 0x81, 7, 0, 0xef, 0xbe, 0xed, 0xfe] =
    decode (from_le [1, 0x81, 7, 0, 0xef, 0xbe, 0xed, 0xfe])"
  using message_bytes_agree [of undefined "[1, 0x81, 7, 0, 0xef, 0xbe, 0xed, 0xfe]"] by simp

text \<open>C35: a request over the control device uses the next sequence number and advances it, hands
  its bytes to the device at most once, and is answered \<open>Ok\<close> only by the eight bytes read
  after it that decode to a control response with that sequence number and the response form
  of the requested opcode.\<close>

theorem client_request_on_device:
  fixes cl :: "'h io client"
  defines "rq \<equiv> \<lambda>c code val. encode_message \<lparr>service = SERVICE_CONTROL c, opcode = code,
    sequence = next_sequence cl, msg_value = val\<rparr>"
  assumes "request c (device_exchange rx) code val timeout cl = Some (r, cl')"
  shows "next_sequence cl' = next_sequence cl + 1 \<and>
    (\<exists>ask answer. m_log (transport cl') = m_log (transport cl) @ ask @ answer \<and>
      round_trip (rq c code val) 8 ask answer \<and>
      (\<forall>m. r = Inr m \<longrightarrow> service m = SERVICE_CONTROL c \<and> sequence m = next_sequence cl \<and>
        opcode m = code OR OP_RESPONSE c \<and> opcode m \<noteq> OP_ERROR c \<and>
        last ask = Wrote (rq c code val) (Inr 8) \<and> answer \<noteq> [] \<and>
        last answer = Received 8 (Inr (encode_message m))))"
proof -
  from device.request_runs [OF assms(2)] obtain q where
    n: "next_sequence cl' = next_sequence cl + 1" and
    x: "device_exchange rx (rq c code val) timeout (transport cl) = Some (q, transport cl')"
    unfolding rq_def by blast
  have l: "length (rq c code val) = 8" by (simp add: rq_def)
  obtain ask answer where log: "m_log (transport cl') = m_log (transport cl) @ ask @ answer"
    "round_trip (rq c code val) 8 ask answer"
    "\<forall>reply. q = Inr reply \<longrightarrow> length reply = 8 \<and> last ask = Wrote (rq c code val) (Inr 8) \<and>
      answer \<noteq> [] \<and> last answer = Received 8 (Inr reply)"
    using transact_log [OF x [unfolded device_exchange_transact [OF l]]] l by auto
  have ok: "service m = SERVICE_CONTROL c \<and> sequence m = next_sequence cl \<and>
      opcode m = code OR OP_RESPONSE c \<and> opcode m \<noteq> OP_ERROR c \<and> q = Inr (encode_message m)"
    if "r = Inr m" for m
    using device.request_wire [of c rx code val timeout cl m cl'] assms(2) that x
    by (auto simp: rq_def)
  show ?thesis using n log ok by (intro conjI exI [of _ ask] exI [of _ answer]) auto
qed

theorem client_request_on_device_witness:
  "\<exists>cl' ask answer. request timer_contract (device_exchange responder) 1 5 10 (client_new idle_mirror) =
      Some (Inr \<lparr>service = 1, opcode = 0x81, sequence = 1, msg_value = 5\<rparr>, cl') \<and>
    m_log (transport cl') = ask @ answer \<and>
    last answer = Received 8 (Inr [1, 0x81, 1, 0, 5, 0, 0, 0])"
  using client_request_on_device [OF responder_ping] responder_ping
  by (auto simp: encode_message_def Let_def to_le_def upt_rec client_new_def with_sequence_def
      idle_mirror_def)

text \<open>The latency statistics never panic, keep the number of samples, and report the
  nearest-rank 50th and 99th percentiles and the maximum of the samples.\<close>

theorem latency_stats_exact:
  assumes "xs \<noteq> []" "length xs * 99 < 2 ^ 64"
  shows "\<exists>st. from_samples xs e = Some (Inr st, e) \<and> ls_count st = length xs \<and>
    is_percentile xs 50 (ls_p50 st) \<and> is_percentile xs 99 (ls_p99 st) \<and> ls_max st = Max (set xs)"
  using assms by (rule from_samples_stats)

theorem latency_stats_exact_witness:
  "\<exists>st. from_samples [40, 10, 30, 20] () = Some (Inr st, ()) \<and> is_percentile [40, 10, 30, 20] 99 (ls_p99 st)"
  using latency_stats_exact [of "[40, 10, 30, 20]" "()"] by auto

end
