(* ===== verification/Ctl_Main.thy ===== *)
theory Ctl_Main
  imports Ctl_Client
begin

text \<open>
  The command line of the control tool, \<open>tools/sg2002-c906l-ctl/src/main.rs\<close>: integer and
  argument parsing, the capability names, and \<open>run\<close> with everything it reads, sends and
  prints.

  The world of \<open>run\<close> has the sysfs files, the state of the two devices and the standard
  output. Opening a device is a parameter, like the \<open>rustix\<close> calls on it. The output is
  the list of the printed lines; a latency report keeps its statistics instead of the text of
  its floating-point microseconds. The tool runs on a 64-bit host, so every \<open>u64\<close> fits
  \<open>usize\<close>.
\<close>

section \<open>Arguments\<close>

definition DEFAULT_TIMEOUT_MS :: u64 where "DEFAULT_TIMEOUT_MS = 1000"
definition MAX_TIMEOUT_MS :: u64 where "MAX_TIMEOUT_MS = 60000"
definition DEFAULT_BENCHMARK_COUNT :: u64 where "DEFAULT_BENCHMARK_COUNT = 1000"
definition MAX_BENCHMARK_COUNT :: nat where "MAX_BENCHMARK_COUNT = 1000000"
definition DEFAULT_RPMSG_PAYLOAD_SIZE :: u64 where "DEFAULT_RPMSG_PAYLOAD_SIZE = 496"
definition MAX_RPMSG_PAYLOAD_SIZE :: nat where "MAX_RPMSG_PAYLOAD_SIZE = 496"
definition CHECK_PING_VALUE :: u32 where "CHECK_PING_VALUE = 0x4d564b4e"

lemmas ctl_limits = DEFAULT_TIMEOUT_MS_def MAX_TIMEOUT_MS_def DEFAULT_BENCHMARK_COUNT_def
  MAX_BENCHMARK_COUNT_def DEFAULT_RPMSG_PAYLOAD_SIZE_def MAX_RPMSG_PAYLOAD_SIZE_def
  CHECK_PING_VALUE_def

datatype command =
    Check
  | Contract_Cmd
  | Activation_Cmd
  | Abi
  | Capabilities
  | Ping u32
  | Benchmark nat
  | RpmsgCheck nat
  | RpmsgBenchmark nat nat
  | RpmsgStress nat

record config =
  cfg_device :: string
  cfg_rpmsg_device :: string
  cfg_sysfs :: string
  cfg_timeout :: nat
  cfg_command :: command

text \<open>The variables of the argument loop.\<close>

record options =
  opt_device :: string
  opt_rpmsg_device :: string
  opt_sysfs :: string
  opt_timeout_ms :: u64
  opt_positional :: "string list"

definition default_options :: options where
  "default_options =
    \<lparr>opt_device = ''/dev/sg2002-c906l-control'', opt_rpmsg_device = ''/dev/rpmsg0'',
     opt_sysfs = ''/sys/class/misc/sg2002-c906l-control/device'',
     opt_timeout_ms = DEFAULT_TIMEOUT_MS, opt_positional = []\<rparr>"

definition parse_integer :: "string \<Rightarrow> detail + u64" where
  "parse_integer t =
     (let parsed = (case strip_prefix ''0x'' t of
          Some hex \<Rightarrow> from_str_radix 16 hex
        | None \<Rightarrow> (case strip_prefix ''0X'' t of
            Some hex \<Rightarrow> from_str_radix 16 hex
          | None \<Rightarrow> from_str_radix 10 t))
      in case parsed of None \<Rightarrow> Inl [Text ''invalid integer: '', Text t] | Some v \<Rightarrow> Inr v)"

text \<open>
  The loop over the arguments; the list is what is left from \<open>index\<close> on, and
  \<open>take_value\<close> is the match on its second element. \<open>Inr None\<close> asks for the help text.
\<close>

definition needs_value :: "string \<Rightarrow> detail" where
  "needs_value option_name = [Text option_name, Text '' requires a value'']"

fun scan_arguments :: "string list \<Rightarrow> options \<Rightarrow> detail + options option" where
  "scan_arguments [] opts = Inr (Some opts)"
| "scan_arguments (a # rest) opts =
     (if a = ''-h'' \<or> a = ''--help'' then Inr None
      else if a = ''--device'' then
        (case rest of [] \<Rightarrow> Inl (needs_value ''--device'')
         | v # rest' \<Rightarrow> scan_arguments rest' (opts\<lparr>opt_device := v\<rparr>))
      else if a = ''--rpmsg-device'' then
        (case rest of [] \<Rightarrow> Inl (needs_value ''--rpmsg-device'')
         | v # rest' \<Rightarrow> scan_arguments rest' (opts\<lparr>opt_rpmsg_device := v\<rparr>))
      else if a = ''--sysfs'' then
        (case rest of [] \<Rightarrow> Inl (needs_value ''--sysfs'')
         | v # rest' \<Rightarrow> scan_arguments rest' (opts\<lparr>opt_sysfs := v\<rparr>))
      else if a = ''--timeout-ms'' then
        (case rest of [] \<Rightarrow> Inl (needs_value ''--timeout-ms'')
         | v # rest' \<Rightarrow> (case parse_integer v of Inl x \<Rightarrow> Inl x
             | Inr ms \<Rightarrow> scan_arguments rest' (opts\<lparr>opt_timeout_ms := ms\<rparr>)))
      else if a = ''--'' then Inr (Some (opts\<lparr>opt_positional := opt_positional opts @ rest\<rparr>))
      else if a \<noteq> [] \<and> hd a = CHR ''-'' then Inl [Text ''unknown option: '', Text a]
      else scan_arguments rest (opts\<lparr>opt_positional := opt_positional opts @ [a]\<rparr>))"

definition get_arg :: "string list \<Rightarrow> nat \<Rightarrow> string option" where
  "get_arg xs i = (if i < length xs then Some (xs ! i) else None)"

text \<open>\<open>argument.map(parse_integer).transpose()?.unwrap_or(default)\<close>\<close>

definition integer_or :: "u64 \<Rightarrow> string option \<Rightarrow> detail + u64" where
  "integer_or fallback argument = (case argument of None \<Rightarrow> Inr fallback | Some t \<Rightarrow> parse_integer t)"

definition parse_benchmark_count :: "string option \<Rightarrow> detail + nat" where
  "parse_benchmark_count argument =
     (case integer_or DEFAULT_BENCHMARK_COUNT argument of Inl x \<Rightarrow> Inl x
      | Inr count \<Rightarrow>
          if \<not> (1 \<le> unat count \<and> unat count \<le> MAX_BENCHMARK_COUNT)
          then Inl [Text ''benchmark count must be in 1..='', Text (show_usize MAX_BENCHMARK_COUNT)]
          else Inr (unat count))"

definition parse_payload_size :: "string option \<Rightarrow> detail + nat" where
  "parse_payload_size argument =
     (case integer_or DEFAULT_RPMSG_PAYLOAD_SIZE argument of Inl x \<Rightarrow> Inl x
      | Inr payload_size \<Rightarrow>
          if \<not> (1 \<le> unat payload_size \<and> unat payload_size \<le> MAX_RPMSG_PAYLOAD_SIZE)
          then Inl [Text ''RPMsg payload size must be in 1..='', Text (show_usize MAX_RPMSG_PAYLOAD_SIZE)]
          else Inr (unat payload_size))"

definition parse_ping :: "string option \<Rightarrow> detail + command" where
  "parse_ping argument =
     (case integer_or (ucast CHECK_PING_VALUE) argument of Inl x \<Rightarrow> Inl x
      | Inr v \<Rightarrow> if unat v < 2 ^ 32 then Inr (Ping (ucast v))
          else Inl [Text ''ping value exceeds u32''])"

definition unexpected :: "string list \<Rightarrow> nat \<Rightarrow> detail" where
  "unexpected positional i = [Text ''unexpected argument: '', Text (positional ! i)]"

text \<open>The match on the command name, in the order of its arms.\<close>

definition parse_command :: "string list \<Rightarrow> detail + command" where
  "parse_command positional =
     (let name = (case positional of [] \<Rightarrow> ''check'' | n # _ \<Rightarrow> n);
          first = get_arg positional 1;
          second = get_arg positional 2
      in if length positional > 3 then Inl (unexpected positional 3)
      else if name = ''check'' \<and> first = None then Inr Check
      else if name = ''contract'' \<and> first = None then Inr Contract_Cmd
      else if name = ''activation'' \<and> first = None then Inr Activation_Cmd
      else if name = ''abi'' \<and> first = None then Inr Abi
      else if (name = ''capabilities'' \<or> name = ''caps'') \<and> first = None then Inr Capabilities
      else if name = ''ping'' \<and> second = None then parse_ping first
      else if (name = ''bench'' \<or> name = ''stress'') \<and> second = None then
        (case parse_benchmark_count first of Inl x \<Rightarrow> Inl x | Inr n \<Rightarrow> Inr (Benchmark n))
      else if name = ''rpmsg-check'' \<and> second = None then
        (case parse_payload_size first of Inl x \<Rightarrow> Inl x | Inr n \<Rightarrow> Inr (RpmsgCheck n))
      else if name = ''rpmsg-bench'' then
        (case parse_benchmark_count first of Inl x \<Rightarrow> Inl x
         | Inr count \<Rightarrow> (case parse_payload_size second of Inl x \<Rightarrow> Inl x
             | Inr payload_size \<Rightarrow> Inr (RpmsgBenchmark count payload_size)))
      else if name = ''rpmsg-stress'' \<and> second = None then
        (case parse_benchmark_count first of Inl x \<Rightarrow> Inl x | Inr n \<Rightarrow> Inr (RpmsgStress n))
      else if name \<in> {''check'', ''contract'', ''activation'', ''abi'', ''capabilities'', ''caps''}
      then Inl (unexpected positional 1)
      else if name \<in> {''ping'', ''bench'', ''stress'', ''rpmsg-check'', ''rpmsg-stress''}
      then Inl (unexpected positional 2)
      else Inl [Text ''unknown command: '', Text name])"

definition parse_arguments :: "string list \<Rightarrow> detail + config option" where
  "parse_arguments arguments =
     (case scan_arguments arguments default_options of
        Inl x \<Rightarrow> Inl x
      | Inr None \<Rightarrow> Inr None
      | Inr (Some opts) \<Rightarrow>
          if \<not> (1 \<le> opt_timeout_ms opts \<and> opt_timeout_ms opts \<le> MAX_TIMEOUT_MS)
          then Inl [Text ''--timeout-ms must be in 1..='', Text (to_string MAX_TIMEOUT_MS)]
          else (case parse_command (opt_positional opts) of
             Inl x \<Rightarrow> Inl x
           | Inr cmd \<Rightarrow> Inr (Some \<lparr>cfg_device = opt_device opts,
               cfg_rpmsg_device = opt_rpmsg_device opts, cfg_sysfs = opt_sysfs opts,
               cfg_timeout = unat (opt_timeout_ms opts) * 1000000, cfg_command = cmd\<rparr>)))"

section \<open>Output\<close>

definition capability_table :: "contract \<Rightarrow> (u32 \<times> string) list" where
  "capability_table c =
    [(ucast (CAP_MAILBOX c), ''mailbox''), (ucast (CAP_SHMEM_HEARTBEAT c), ''shmem-heartbeat''),
     (ucast (CAP_TIMER4_SELF_TEST c), ''timer4-self-test''), (ucast (CAP_RPMSG c), ''rpmsg''),
     (ucast (CAP_TIMER5_SELF_TEST c), ''timer5-self-test''),
     (ucast (CAP_TIMER6_SELF_TEST c), ''timer6-self-test''),
     (ucast (CAP_TIMER7_SELF_TEST c), ''timer7-self-test''),
     (ucast (CAP_PICOCLAW_LCD c), ''picoclaw-lcd'')]"

fun name_capabilities :: "(u32 \<times> string) list \<Rightarrow> u32 \<Rightarrow> string list \<Rightarrow> u32 \<Rightarrow> string list \<times> u32" where
  "name_capabilities [] bits names known = (names, known)"
| "name_capabilities ((m, name) # rest) bits names known =
     name_capabilities rest bits (if bits AND m \<noteq> 0 then names @ [name] else names) (known OR m)"

definition capability_names :: "contract \<Rightarrow> u32 \<Rightarrow> string" where
  "capability_names c bits =
     (case name_capabilities (capability_table c) bits [] 0 of (names, known) \<Rightarrow>
      join '','' (if bits AND NOT known \<noteq> 0 then names @ [''unknown''] else names))"

datatype printed = Line string | Latency string latency_stats

section \<open>Running a command\<close>

record ('file, 'f, 'd) platform =
  pf_fs :: "('file, 'f) file_system"
  pf_rx :: "'d rustix"
  pf_open :: "string \<Rightarrow> 'd \<Rightarrow> (errno + unit) \<times> 'd"

text \<open>\<open>w_client\<close> holds the control device, before it is opened as well.\<close>

record ('f, 'd) world =
  w_files :: "('f, fs_event) machine"
  w_client :: "'d io client"
  w_rpmsg :: "'d io"
  w_out :: "printed list"

type_synonym ('f, 'd, 'a) ctl_run = "(('f, 'd) world, detail, 'a) prog"

definition on_files :: "(('f, fs_event) machine, ctl_error, 'a) prog \<Rightarrow> ('f, 'd, 'a) ctl_run" where
  "on_files p = (\<lambda>w. case p (w_files w) of None \<Rightarrow> None
     | Some (Inl x, m) \<Rightarrow> Some (Inl (show_error x), w\<lparr>w_files := m\<rparr>)
     | Some (Inr a, m) \<Rightarrow> Some (Inr a, w\<lparr>w_files := m\<rparr>))"

definition on_client :: "('d io client, ctl_error, 'a) prog \<Rightarrow> ('f, 'd, 'a) ctl_run" where
  "on_client p = (\<lambda>w. case p (w_client w) of None \<Rightarrow> None
     | Some (Inl x, m) \<Rightarrow> Some (Inl (show_error x), w\<lparr>w_client := m\<rparr>)
     | Some (Inr a, m) \<Rightarrow> Some (Inr a, w\<lparr>w_client := m\<rparr>))"

definition on_rpmsg :: "('d io, ctl_error, 'a) prog \<Rightarrow> ('f, 'd, 'a) ctl_run" where
  "on_rpmsg p = (\<lambda>w. case p (w_rpmsg w) of None \<Rightarrow> None
     | Some (Inl x, m) \<Rightarrow> Some (Inl (show_error x), w\<lparr>w_rpmsg := m\<rparr>)
     | Some (Inr a, m) \<Rightarrow> Some (Inr a, w\<lparr>w_rpmsg := m\<rparr>))"

definition println :: "printed \<Rightarrow> ('f, 'd, unit) ctl_run" where
  "println x = (\<lambda>w. Some (Inr (), w\<lparr>w_out := w_out w @ [x]\<rparr>))"

definition device_open :: "('file, 'f, 'd) platform \<Rightarrow> string \<Rightarrow> ('d io, ctl_error, unit) prog" where
  "device_open pf path = (\<lambda>m. case pf_open pf path (m_hw m) of
      (Inl e, h) \<Rightarrow> Some (Inl (Transport [Text ''open '', Text path, Text '': '', Errno_text e]), m\<lparr>m_hw := h\<rparr>)
    | (Inr u, h) \<Rightarrow> Some (Inr (), m\<lparr>m_hw := h\<rparr>))"

definition open_client :: "('file, 'f, 'd) platform \<Rightarrow> string \<Rightarrow> ('d io client, ctl_error, unit) prog" where
  "open_client pf path =
     bind (on_transport (device_open pf path)) (\<lambda>_.
     (\<lambda>cl. Some (Inr (), client_new (transport cl))))"

definition rpmsg_pattern :: "nat \<Rightarrow> u8 list" where
  "rpmsg_pattern payload_size = map (\<lambda>offset. of_nat offset * 0x5b + 0xa7) [0..<payload_size]"

definition hex_line :: "string \<Rightarrow> u32 \<Rightarrow> string" where
  "hex_line name v = name @ ''=0x'' @ hex_padded 8 v"

definition abi_line :: "abi_version \<Rightarrow> printed" where
  "abi_line v = Line (''abi='' @ to_string (av_major v) @ ''.'' @ to_string (av_minor v))"

definition capabilities_line :: "contract \<Rightarrow> u32 \<Rightarrow> printed" where
  "capabilities_line c v = Line (hex_line ''capabilities'' v @ '' ['' @ capability_names c v @ '']'')"

definition EXPECTED_CAPABILITIES_U32 :: "contract \<Rightarrow> u32" where
  "EXPECTED_CAPABILITIES_U32 c = ucast (EXPECTED_CAPABILITIES c)"

definition check_state :: "contract \<Rightarrow> ('file, 'f, 'd) platform \<Rightarrow> string \<Rightarrow> ('f, 'd, unit) ctl_run" where
  "check_state c pf sysfs =
     bind (on_files (read_control_state (pf_fs pf) sysfs)) (\<lambda>s.
     bind (on_files (give (validate_control_state c s))) (\<lambda>_.
     bind (println (Line (''contract='' @ show_contract (cs_contract s)))) (\<lambda>_.
     println (Line (''activation='' @ show_activation (cs_activation s))))))"

definition check_firmware :: "contract \<Rightarrow> 'd rustix \<Rightarrow> nat \<Rightarrow> ('f, 'd, unit) ctl_run" where
  "check_firmware c rx timeout =
     bind (on_client (client_abi c (device_exchange rx) timeout)) (\<lambda>abi.
     if av_major abi \<noteq> ABI_MAJOR c \<or> av_minor abi \<noteq> ABI_MINOR c
     then fail [Text ''firmware ABI '', Text (to_string (av_major abi)), Text ''.'',
       Text (to_string (av_minor abi)), Text '' does not exactly match compiled ABI '',
       Text (to_string (ABI_MAJOR c)), Text ''.'', Text (to_string (ABI_MINOR c))]
     else
     bind (println (abi_line abi)) (\<lambda>_.
     bind (on_client (client_capabilities c (device_exchange rx) timeout)) (\<lambda>capabilities.
     if capabilities \<noteq> EXPECTED_CAPABILITIES_U32 c
     then fail [Text ''firmware capabilities 0x'', Text (hex_padded 8 capabilities),
       Text '' do not exactly match compiled capabilities 0x'',
       Text (hex_padded 8 (EXPECTED_CAPABILITIES_U32 c))]
     else
     bind (println (capabilities_line c capabilities)) (\<lambda>_.
     bind (on_client (client_ping c (device_exchange rx) CHECK_PING_VALUE timeout)) (\<lambda>reply.
     bind (println (Line (hex_line ''ping'' reply))) (\<lambda>_.
     println (Line ''result=ok'')))))))"

definition run_rpmsg :: "('file, 'f, 'd) platform \<Rightarrow> config \<Rightarrow> ('d io, ctl_error, 'a) prog \<Rightarrow> ('f, 'd, 'a) ctl_run" where
  "run_rpmsg pf cfg p = bind (on_rpmsg (device_open pf (cfg_rpmsg_device cfg))) (\<lambda>_. on_rpmsg p)"

definition run :: "contract \<Rightarrow> ('file, 'f, 'd) platform \<Rightarrow> config \<Rightarrow> ('f, 'd, unit) ctl_run" where
  "run c pf cfg =
     (case cfg_command cfg of
        Contract_Cmd \<Rightarrow>
          bind (on_files (read_contract (pf_fs pf) (cfg_sysfs cfg))) (\<lambda>x.
          println (Line (show_contract x)))
      | Activation_Cmd \<Rightarrow>
          bind (on_files (read_activation (pf_fs pf) (cfg_sysfs cfg))) (\<lambda>x.
          println (Line (show_activation x)))
      | RpmsgCheck payload_size \<Rightarrow>
          bind (run_rpmsg pf cfg (echo (pf_rx pf) (rpmsg_pattern payload_size) (cfg_timeout cfg))) (\<lambda>_.
          bind (println (Line (''rpmsg_echo_bytes='' @ show_usize payload_size))) (\<lambda>_.
          println (Line ''result=ok'')))
      | RpmsgBenchmark count payload_size \<Rightarrow>
          bind (run_rpmsg pf cfg (rpmsg_benchmark (pf_rx pf) count payload_size (cfg_timeout cfg))) (\<lambda>stats.
          println (Latency (''payload_bytes='' @ show_usize payload_size @ '' '') stats))
      | RpmsgStress count \<Rightarrow>
          bind (run_rpmsg pf cfg (rpmsg_stress (pf_rx pf) count (cfg_timeout cfg))) (\<lambda>stats.
          println (Latency ''payload_bytes=1..496 '' stats))
      | Check \<Rightarrow>
          bind (check_state c pf (cfg_sysfs cfg)) (\<lambda>_.
          bind (on_client (open_client pf (cfg_device cfg))) (\<lambda>_.
          check_firmware c (pf_rx pf) (cfg_timeout cfg)))
      | Abi \<Rightarrow>
          bind (on_client (open_client pf (cfg_device cfg))) (\<lambda>_.
          bind (on_client (client_abi c (device_exchange (pf_rx pf)) (cfg_timeout cfg))) (\<lambda>abi.
          println (abi_line abi)))
      | Capabilities \<Rightarrow>
          bind (on_client (open_client pf (cfg_device cfg))) (\<lambda>_.
          bind (on_client (client_capabilities c (device_exchange (pf_rx pf)) (cfg_timeout cfg))) (\<lambda>v.
          println (capabilities_line c v)))
      | Ping val \<Rightarrow>
          bind (on_client (open_client pf (cfg_device cfg))) (\<lambda>_.
          bind (on_client (client_ping c (device_exchange (pf_rx pf)) val (cfg_timeout cfg))) (\<lambda>reply.
          println (Line (hex_line ''ping'' reply))))
      | Benchmark count \<Rightarrow>
          bind (on_client (open_client pf (cfg_device cfg))) (\<lambda>_.
          bind (on_client (client_benchmark c (device_exchange (pf_rx pf)) (io_now (pf_rx pf)) count
            (cfg_timeout cfg))) (\<lambda>stats.
          println (Latency '''' stats))))"

text \<open>\<open>main\<close>: the exit code and, for a failure, the message on standard error.\<close>

datatype exit_report = Help | Success | Failure detail | Usage_error detail

fun exit_code :: "exit_report \<Rightarrow> u8" where
  "exit_code Help = 0"
| "exit_code Success = 0"
| "exit_code (Failure d) = 1"
| "exit_code (Usage_error d) = 2"

definition ctl_main :: "contract \<Rightarrow> ('file, 'f, 'd) platform \<Rightarrow> string list \<Rightarrow> ('f, 'd) world
    \<Rightarrow> (exit_report \<times> ('f, 'd) world) option" where
  "ctl_main c pf arguments w =
     (case parse_arguments arguments of
        Inr None \<Rightarrow> Some (Help, w)
      | Inr (Some cfg) \<Rightarrow> (case run c pf cfg w of
           None \<Rightarrow> None
         | Some (Inr u, w') \<Rightarrow> Some (Success, w')
         | Some (Inl x, w') \<Rightarrow> Some (Failure x, w'))
      | Inl x \<Rightarrow> Some (Usage_error x, w))"

section \<open>Facts about the arguments\<close>

text \<open>The ranges that the rest of the program relies on.\<close>

fun command_ok :: "command \<Rightarrow> bool" where
  "command_ok (Benchmark n) \<longleftrightarrow> 1 \<le> n \<and> n \<le> 1000000"
| "command_ok (RpmsgCheck n) \<longleftrightarrow> 1 \<le> n \<and> n \<le> 496"
| "command_ok (RpmsgBenchmark n k) \<longleftrightarrow> 1 \<le> n \<and> n \<le> 1000000 \<and> 1 \<le> k \<and> k \<le> 496"
| "command_ok (RpmsgStress n) \<longleftrightarrow> 1 \<le> n \<and> n \<le> 1000000"
| "command_ok _ \<longleftrightarrow> True"

lemma benchmark_count_range: "parse_benchmark_count a = Inr n \<Longrightarrow> 1 \<le> n \<and> n \<le> 1000000"
  by (auto simp: parse_benchmark_count_def ctl_limits split: sum.splits if_splits)

lemma payload_size_range: "parse_payload_size a = Inr n \<Longrightarrow> 1 \<le> n \<and> n \<le> 496"
  by (auto simp: parse_payload_size_def ctl_limits split: sum.splits if_splits)

lemma parse_ping_ok: "parse_ping a = Inr cmd \<Longrightarrow> command_ok cmd"
  by (auto simp: parse_ping_def split: sum.splits if_splits)

text \<open>The arms of the match, one by one.\<close>

lemma if_Inr_ok: "(if b then x else y) = Inr cmd \<Longrightarrow> (x = Inr cmd \<Longrightarrow> P) \<Longrightarrow> (y = Inr cmd \<Longrightarrow> P) \<Longrightarrow> P"
  by (cases b) simp_all

lemma parse_command_ok: "parse_command positional = Inr cmd \<Longrightarrow> command_ok cmd"
  unfolding parse_command_def Let_def
  by (elim if_Inr_ok)
    (auto simp: parse_ping_ok split: sum.splits dest!: benchmark_count_range payload_size_range)

section \<open>Facts about running\<close>

lemma println_run: "println x w = Some (Inr (), w\<lparr>w_out := w_out w @ [x]\<rparr>)"
  by (simp add: println_def)

lemma bind_println: "bind (println x) f w = f () (w\<lparr>w_out := w_out w @ [x]\<rparr>)"
  by (simp add: bind_def println_def)

text \<open>The lines of a complete check.\<close>

definition state_lines :: "control_state \<Rightarrow> printed list" where
  "state_lines s = [Line (''contract='' @ show_contract (cs_contract s)),
     Line (''activation='' @ show_activation (cs_activation s))]"

definition firmware_lines :: "contract \<Rightarrow> printed list list" where
  "firmware_lines c =
    [[abi_line \<lparr>av_major = ABI_MAJOR c, av_minor = ABI_MINOR c\<rparr>],
     [capabilities_line c (EXPECTED_CAPABILITIES_U32 c)],
     [Line (hex_line ''ping'' CHECK_PING_VALUE), Line ''result=ok'']]"

text \<open>
  What the check is meant to be: a conversation of three requests and the bytes that have to come
  back, numbered from 1, ended by the first exchange that does not bring them; a line of the report
  for each expected reply.
\<close>

fun conversation :: "'t message_exchange \<Rightarrow> nat \<Rightarrow> (u8 list \<times> u8 list) list \<Rightarrow> 't \<Rightarrow> (nat \<times> 't) option" where
  "conversation ex timeout [] t = Some (0, t)"
| "conversation ex timeout ((rq, rs) # script) t =
     (case ex rq timeout t of
        None \<Rightarrow> None
      | Some (q, t') \<Rightarrow>
          if q = Inr rs then map_option (apfst Suc) (conversation ex timeout script t') else Some (0, t'))"

definition check_script :: "contract \<Rightarrow> (u8 list \<times> u8 list) list" where
  "check_script c =
    [(encode_message (control_request c (OP_GET_ABI c) 1 0),
      encode_message (control_response c (OP_GET_ABI c) 1 (ABI_VERSION c))),
     (encode_message (control_request c (OP_GET_CAPABILITIES c) 2 0),
      encode_message (control_response c (OP_GET_CAPABILITIES c) 2 (EXPECTED_CAPABILITIES_U32 c))),
     (encode_message (control_request c (OP_PING c) 3 CHECK_PING_VALUE),
      encode_message (control_response c (OP_PING c) 3 CHECK_PING_VALUE))]"

text \<open>The result of a check: whether it succeeds, what it prints, and the device afterwards.\<close>

definition check_outcome :: "contract \<Rightarrow> ('file, 'f, 'd) platform \<Rightarrow> config \<Rightarrow> ('f, 'd) world
    \<Rightarrow> (bool \<times> printed list \<times> 'd io) option" where
  "check_outcome c pf cfg w =
     (let t = transport (w_client w) in
      case read_control_state (pf_fs pf) (cfg_sysfs cfg) (w_files w) of
        None \<Rightarrow> None
      | Some (Inl x, m) \<Rightarrow> Some (False, [], t)
      | Some (Inr s, m) \<Rightarrow>
          if cs_contract s \<noteq> compiled c \<or> \<not> activation_valid c (cs_activation s)
          then Some (False, [], t)
          else (case pf_open pf (cfg_device cfg) (m_hw t) of
             (Inl e, h) \<Rightarrow> Some (False, state_lines s, t\<lparr>m_hw := h\<rparr>)
           | (Inr u, h) \<Rightarrow>
               (case conversation (device_exchange (pf_rx pf)) (cfg_timeout cfg) (check_script c)
                   (t\<lparr>m_hw := h\<rparr>) of
                  None \<Rightarrow> None
                | Some (n, t') \<Rightarrow>
                    Some (n = 3, state_lines s @ concat (take n (firmware_lines c)), t'))))"

definition observed :: "('f, 'd) world \<Rightarrow> (detail + unit) \<times> ('f, 'd) world \<Rightarrow> bool \<times> printed list \<times> 'd io" where
  "observed w y = (fst y = Inr (), drop (length (w_out w)) (w_out (snd y)), transport (w_client (snd y)))"

lemma check_state_run:
  "check_state c pf sysfs w =
     (case read_control_state (pf_fs pf) sysfs (w_files w) of
        None \<Rightarrow> None
      | Some (Inl x, m) \<Rightarrow> Some (Inl (show_error x), w\<lparr>w_files := m\<rparr>)
      | Some (Inr s, m) \<Rightarrow> (case validate_control_state c s of
           Inl x \<Rightarrow> Some (Inl (show_error x), w\<lparr>w_files := m\<rparr>)
         | Inr _ \<Rightarrow> Some (Inr (), w\<lparr>w_files := m, w_out := w_out w @ state_lines s\<rparr>)))"
  by (auto simp: check_state_def on_files_def bind_def give_def println_def state_lines_def
      split: option.split sum.split)

lemma ABI_VERSION_parts:
  "ucast (drop_bit 16 (ABI_VERSION c)) = ABI_MAJOR c" "ucast (ABI_VERSION c) = ABI_MINOR c"
  by (rule bit_eqI; auto simp: ABI_VERSION_def bit_simps dest: bit_imp_le_length)+

lemma ABI_VERSION_split:
  "ucast (drop_bit 16 v) = ABI_MAJOR c \<Longrightarrow> ucast v = ABI_MINOR c \<Longrightarrow> v = ABI_VERSION c"
proof (rule bit_eqI, goal_cases)
  case (1 n)
  show ?case
  proof (cases "n < 16")
    case True
    have "bit (ucast v :: u16) n = bit (ABI_MINOR c) n" using 1(2) by simp
    then show ?thesis using True by (simp add: ABI_VERSION_def bit_simps)
  next
    case False
    have "bit (ucast (drop_bit 16 v) :: u16) (n - 16) = bit (ABI_MAJOR c) (n - 16)" using 1(1) by simp
    then show ?thesis using False 1(3) by (auto simp: ABI_VERSION_def bit_simps dest: bit_imp_le_length)
  qed
qed

text \<open>\<open>follows\<close>: a command that holds the given conversation and prints a group of lines for each
  expected reply.\<close>

definition follows :: "'d rustix \<Rightarrow> nat \<Rightarrow> (u8 list \<times> u8 list) list \<Rightarrow> printed list list
    \<Rightarrow> ('f, 'd, unit) ctl_run \<Rightarrow> ('f, 'd) world \<Rightarrow> bool" where
  "follows rx timeout script lines p w \<longleftrightarrow>
     (case conversation (device_exchange rx) timeout script (transport (w_client w)) of
        None \<Rightarrow> p w = None
      | Some (n, t) \<Rightarrow> \<exists>r w'. p w = Some (r, w') \<and> transport (w_client w') = t \<and>
          w_out w' = w_out w @ concat (take n lines) \<and> (r = Inr () \<longleftrightarrow> n = length script))"

lemma follows_done: "p w = Some (Inr (), w) \<Longrightarrow> follows rx timeout [] [] p w"
  by (simp add: follows_def)

lemma follows_step:
  assumes "device_exchange rx rq timeout (transport (w_client w)) = None \<Longrightarrow> p w = None"
    and "\<And>t. device_exchange rx rq timeout (transport (w_client w)) = Some (Inr rs, t) \<Longrightarrow>
      \<exists>w1. p w = k w1 \<and> transport (w_client w1) = t \<and> w_out w1 = w_out w @ out \<and>
        follows rx timeout script lines k w1"
    and "\<And>q t. device_exchange rx rq timeout (transport (w_client w)) = Some (q, t) \<Longrightarrow> q \<noteq> Inr rs \<Longrightarrow>
      \<exists>x w1. p w = Some (Inl x, w1) \<and> transport (w_client w1) = t \<and> w_out w1 = w_out w"
  shows "follows rx timeout ((rq, rs) # script) (out # lines) p w"
proof (cases "device_exchange rx rq timeout (transport (w_client w))")
  case None
  then show ?thesis using assms(1) by (simp add: follows_def)
next
  case (Some y)
  obtain q t where y: "y = (q, t)" by (cases y)
  show ?thesis
  proof (cases "q = Inr rs")
    case True
    with Some y obtain w1 where "p w = k w1" "transport (w_client w1) = t" "w_out w1 = w_out w @ out"
      "follows rx timeout script lines k w1" using assms(2) by blast
    then show ?thesis using Some y True
      by (auto simp: follows_def apfst_def split: option.splits)
  next
    case False
    then show ?thesis using assms(3) [OF Some [unfolded y] False] Some y
      by (auto simp: follows_def)
  qed
qed

text \<open>One stage of the check: a request of which only the value \<open>v0\<close> lets the command go on.\<close>

lemma client_stage:
  fixes h :: "u32 \<Rightarrow> ctl_error + 'a"
  assumes c: "contract_ok c" "code \<in> set (opcodes c)" and s: "next_sequence (w_client w) = s"
    and op: "op = bind (request c (device_exchange rx) code val timeout) (\<lambda>m cl. Some (h (msg_value m), cl))"
    and good: "h v0 = Inr a"
      "\<And>w1. next_sequence (w_client w1) = s + 1 \<Longrightarrow> \<exists>w2. f a w1 = k w2 \<and> w_client w2 = w_client w1 \<and>
        w_out w2 = w_out w1 @ out \<and> follows rx timeout script lines k w2"
    and bad: "\<And>v b w1. v \<noteq> v0 \<Longrightarrow> h v = Inr b \<Longrightarrow> \<exists>x. f b w1 = Some (Inl x, w1)"
  shows "follows rx timeout ((encode_message (control_request c code s val),
      encode_message (control_response c code s v0)) # script) (out # lines) (bind (on_client op) f) w"
proof (rule follows_step [where k = k], goal_cases)
  case 1
  then show ?case
    using device.request_hangs [of rx c code "w_client w" val timeout] s
    by (simp add: bind_def on_client_def op)
next
  case (2 t)
  let ?cl = "\<lparr>transport = t, next_sequence = s + 1\<rparr>"
  have "request c (device_exchange rx) code val timeout (w_client w) = Some (Inr (control_response c code s v0), ?cl)"
    using device.request_exact [OF c, of rx "w_client w"] 2 s
    by (fastforce simp: encode_message_inject control_response_inject)
  then have "bind (on_client op) f w = f a (w\<lparr>w_client := ?cl\<rparr>)"
    using good(1) by (simp add: bind_def on_client_def op) (simp add: control_response_def)
  then show ?case using good(2) [of "w\<lparr>w_client := ?cl\<rparr>"] by auto
next
  case (3 q t)
  let ?cl = "\<lparr>transport = t, next_sequence = s + 1\<rparr>"
  obtain r where r: "request c (device_exchange rx) code val timeout (w_client w) = Some (r, ?cl)"
    "(\<exists>v. q = Inr (encode_message (control_response c code s v)) \<and> r = Inr (control_response c code s v)) \<or>
     (\<exists>x. r = Inl x)"
    using device.request_exact [OF c, of rx "w_client w"] 3(1) s by blast
  have "(\<exists>x. r = Inl x) \<or> (\<exists>v. v \<noteq> v0 \<and> r = Inr (control_response c code s v))"
    using r(2) 3(2) by metis
  then consider x where "r = Inl x" | v where "v \<noteq> v0" "r = Inr (control_response c code s v)" by blast
  then show ?case
  proof cases
    case 1
    then show ?thesis using r(1) by (simp add: bind_def on_client_def op)
  next
    case (2 v)
    then have op_v: "op (w_client w) = Some (h v, ?cl)"
      using r(1) by (simp add: bind_def op) (simp add: control_response_def)
    show ?thesis
    proof (cases "h v")
      case (Inl x)
      then show ?thesis using op_v by (simp add: bind_def on_client_def)
    next
      case (Inr b)
      then show ?thesis using op_v bad [OF 2(1) Inr, of "w\<lparr>w_client := ?cl\<rparr>"]
        by (auto simp: bind_def on_client_def)
    qed
  qed
qed

lemma client_calls:
  "client_abi c ex timeout = bind (request c ex (OP_GET_ABI c) 0 timeout)
     (\<lambda>m cl. Some (Inr \<lparr>av_major = ucast (drop_bit 16 (msg_value m)), av_minor = ucast (msg_value m)\<rparr>, cl))"
  "client_capabilities c ex timeout = bind (request c ex (OP_GET_CAPABILITIES c) 0 timeout)
     (\<lambda>m cl. Some (Inr (msg_value m), cl))"
  "client_ping c ex val timeout = bind (request c ex (OP_PING c) val timeout)
     (\<lambda>m cl. Some (if msg_value m \<noteq> val then Inl (UnexpectedValue val (msg_value m)) else Inr (msg_value m), cl))"
  unfolding client_abi_def client_capabilities_def client_ping_def
  by (rule arg_cong [where f = "bind _"]; auto simp: fun_eq_iff fail_def ok_def)+

lemma check_firmware_follows:
  fixes w :: "('f, 'd) world"
  assumes c: "contract_ok c" and s: "next_sequence (w_client w) = 1"
  shows "follows rx timeout (check_script c) (firmware_lines c) (check_firmware c rx timeout) w"
proof -
  have codes: "OP_GET_ABI c \<in> set (opcodes c)" "OP_GET_CAPABILITIES c \<in> set (opcodes c)"
    "OP_PING c \<in> set (opcodes c)" by (simp_all add: opcodes_def)
  define ping :: "('f, 'd, unit) ctl_run" where "ping = bind (on_client (client_ping c (device_exchange rx) CHECK_PING_VALUE timeout))
    (\<lambda>reply. bind (println (Line (hex_line ''ping'' reply))) (\<lambda>_. println (Line ''result=ok'')))"
  define caps :: "('f, 'd, unit) ctl_run" where "caps = bind (on_client (client_capabilities c (device_exchange rx) timeout))
    (\<lambda>capabilities. if capabilities \<noteq> EXPECTED_CAPABILITIES_U32 c
     then fail [Text ''firmware capabilities 0x'', Text (hex_padded 8 capabilities),
       Text '' do not exactly match compiled capabilities 0x'',
       Text (hex_padded 8 (EXPECTED_CAPABILITIES_U32 c))]
     else bind (println (capabilities_line c capabilities)) (\<lambda>_. ping))"
  have 3: "follows rx timeout (drop 2 (check_script c)) (drop 2 (firmware_lines c)) ping w"
    if "next_sequence (w_client w) = 3" for w :: "('f, 'd) world"
    unfolding ping_def check_script_def firmware_lines_def
    using c codes(3) that
    by (simp, intro client_stage [where a = CHECK_PING_VALUE and k = "\<lambda>w. Some (Inr (), w)"
          and h = "\<lambda>v. if v \<noteq> CHECK_PING_VALUE then Inl (UnexpectedValue CHECK_PING_VALUE v) else Inr v"])
      (auto simp: client_calls bind_println println_run intro!: follows_done split: if_splits)
  have 2: "follows rx timeout (drop 1 (check_script c)) (drop 1 (firmware_lines c)) caps w"
    if "next_sequence (w_client w) = 2" for w :: "('f, 'd) world"
  proof -
    have "follows rx timeout (drop 2 (check_script c)) (drop 2 (firmware_lines c)) ping w1"
      if "next_sequence (w_client w1) = 2 + 1" for w1 :: "('f, 'd) world" using 3 that by simp
    then show ?thesis
      unfolding caps_def check_script_def firmware_lines_def
      using c codes(2) that
      by (simp, intro client_stage [where a = "EXPECTED_CAPABILITIES_U32 c" and k = ping and h = Inr])
        (auto simp: client_calls fail_def bind_println)
  qed
  have "follows rx timeout (drop 1 (check_script c)) (drop 1 (firmware_lines c)) caps w1"
    if "next_sequence (w_client w1) = 1 + 1" for w1 :: "('f, 'd) world" using 2 that by simp
  then show ?thesis
    unfolding check_firmware_def caps_def [symmetric] ping_def [symmetric] check_script_def firmware_lines_def
    using c codes(1) s
    by (simp, intro client_stage [where a = "\<lparr>av_major = ABI_MAJOR c, av_minor = ABI_MINOR c\<rparr>"
        and k = caps and h = "\<lambda>v. Inr \<lparr>av_major = ucast (drop_bit 16 v), av_minor = ucast v\<rparr>"])
      (auto simp: client_calls fail_def bind_println ABI_VERSION_parts dest: ABI_VERSION_split)
qed

text \<open>
  A concrete device for the checks: it answers each written message the way the firmware answers
  an ordinary request, always in time.
\<close>

definition firmware_device :: "contract \<Rightarrow> u64 \<Rightarrow> (nat \<times> u8 list) rustix" where
  "firmware_device c caps = mirror\<lparr>rx_write := (\<lambda>b h.
     (Inr (length b), (fst h, encode_message (ordinary_response c (decode_message b) caps))))\<rparr>"

lemma firmware_device_fields: "rx_now (firmware_device c caps) h = (fst h, h)"
  "rx_write (firmware_device c caps) b h =
     (Inr (length b), (fst h, encode_message (ordinary_response c (decode_message b) caps)))"
  "rx_read (firmware_device c caps) n h = (Inr (take n (snd h)), h)"
  by (simp_all add: firmware_device_def mirror_def)

lemma firmware_device_wait:
  "t < d \<Longrightarrow> \<not> terminal [w] \<Longrightarrow> wait_for pre (firmware_device c caps) w d ph \<lparr>m_hw = (t, b), m_log = l\<rparr> =
    Some (Inr (), \<lparr>m_hw = (Suc t, b), m_log = l @ [Polled w (d - t) (Inr (1, [w]))]\<rparr>)"
  by (subst wait_for.simps) (simp add: firmware_device_def mirror_def)

lemma firmware_device_exchange:
  assumes "t < 1000"
  shows "\<exists>b' l'. device_exchange (firmware_device c caps) (encode_message m) 5000000 \<lparr>m_hw = (t, b), m_log = l\<rparr> =
    Some (Inr (encode_message (ordinary_response c m caps)), \<lparr>m_hw = (t + 2, b'), m_log = l'\<rparr>)"
  using assms
  by (simp add: device_exchange_def start_deadline_def checked_instant_def bind_def
      send_exactly.simps receive_exactly.simps firmware_device_wait terminal_def firmware_device_fields
      decode_encode_message)

lemma firmware_device_request:
  assumes "contract_ok c" "code \<in> {OP_PING c, OP_GET_ABI c, OP_GET_CAPABILITIES c}" "t < 1000"
  shows "\<exists>b' l'. request c (device_exchange (firmware_device c caps)) code v 5000000
      \<lparr>transport = \<lparr>m_hw = (t, b), m_log = l\<rparr>, next_sequence = n\<rparr> =
    Some (Inr (ordinary_response c \<lparr>service = SERVICE_CONTROL c, opcode = code, sequence = n, msg_value = v\<rparr> caps),
      \<lparr>transport = \<lparr>m_hw = (t + 2, b'), m_log = l'\<rparr>, next_sequence = n + 1\<rparr>)"
proof -
  let ?m = "\<lparr>service = SERVICE_CONTROL c, opcode = code, sequence = n, msg_value = v\<rparr>"
  obtain b' l' where x: "device_exchange (firmware_device c caps) (encode_message ?m) 5000000
      \<lparr>m_hw = (t, b), m_log = l\<rparr> =
    Some (Inr (encode_message (ordinary_response c ?m caps)), \<lparr>m_hw = (t + 2, b'), m_log = l'\<rparr>)"
    using firmware_device_exchange [OF assms(3), of c caps ?m b l] by blast
  have "check_response c n code (ordinary_response c ?m caps) = Inr (ordinary_response c ?m caps)"
    using assms(2) contract_ok_opcodes [OF assms(1)]
    by (auto simp: check_response_def ordinary_response_def opcodes_def)
  then show ?thesis
    using x by (simp add: request_def take_sequence_def on_transport_def bind_def give_def
        decode_encode_message)
qed

lemma firmware_device_check:
  assumes "contract_ok c" "ucast caps = EXPECTED_CAPABILITIES_U32 c"
    "w_client w = \<lparr>transport = \<lparr>m_hw = (0, b), m_log = l\<rparr>, next_sequence = n\<rparr>"
  shows "\<exists>w'. check_firmware c (firmware_device c caps) 5000000 w = Some (Inr (), w')"
proof -
  let ?m = "\<lambda>code n v. \<lparr>service = SERVICE_CONTROL c, opcode = code, sequence = n, msg_value = v\<rparr>"
  note rq = firmware_device_request [OF assms(1), where caps = caps]
  obtain b1 l1 where 1: "request c (device_exchange (firmware_device c caps)) (OP_GET_ABI c) 0 5000000
      \<lparr>transport = \<lparr>m_hw = (0, b), m_log = l\<rparr>, next_sequence = n\<rparr> =
    Some (Inr (ordinary_response c (?m (OP_GET_ABI c) n 0) caps),
      \<lparr>transport = \<lparr>m_hw = (2, b1), m_log = l1\<rparr>, next_sequence = n + 1\<rparr>)"
    using rq [of "OP_GET_ABI c" 0 0 b l n] by auto
  obtain b2 l2 where 2: "request c (device_exchange (firmware_device c caps)) (OP_GET_CAPABILITIES c) 0 5000000
      \<lparr>transport = \<lparr>m_hw = (2, b1), m_log = l1\<rparr>, next_sequence = n + 1\<rparr> =
    Some (Inr (ordinary_response c (?m (OP_GET_CAPABILITIES c) (n + 1) 0) caps),
      \<lparr>transport = \<lparr>m_hw = (4, b2), m_log = l2\<rparr>, next_sequence = n + 1 + 1\<rparr>)"
    using rq [of "OP_GET_CAPABILITIES c" 2 0 b1 l1 "n + 1"] by auto
  obtain b3 l3 where 3: "request c (device_exchange (firmware_device c caps)) (OP_PING c) CHECK_PING_VALUE 5000000
      \<lparr>transport = \<lparr>m_hw = (4, b2), m_log = l2\<rparr>, next_sequence = n + 1 + 1\<rparr> =
    Some (Inr (ordinary_response c (?m (OP_PING c) (n + 1 + 1) CHECK_PING_VALUE) caps),
      \<lparr>transport = \<lparr>m_hw = (6, b3), m_log = l3\<rparr>, next_sequence = n + 1 + 1 + 1\<rparr>)"
    using rq [of "OP_PING c" 4 CHECK_PING_VALUE b2 l2 "n + 1 + 1"] by auto
  have o: "msg_value (ordinary_response c (?m (OP_GET_ABI c) k 0) caps) = ABI_VERSION c"
    "msg_value (ordinary_response c (?m (OP_GET_CAPABILITIES c) k 0) caps) = EXPECTED_CAPABILITIES_U32 c"
    "msg_value (ordinary_response c (?m (OP_PING c) k v) caps) = v" for k v
    using contract_ok_opcodes [OF assms(1)] assms(2)
    by (auto simp: ordinary_response_def opcodes_def)
  show ?thesis
    using 1 2 3 o assms(3)
    by (simp add: check_firmware_def client_abi_def client_capabilities_def client_ping_def
        on_client_def bind_def ok_def println_def ABI_VERSION_parts)
qed

definition check_platform :: "(string, unit, nat \<times> u8 list) platform" where
  "check_platform =
    \<lparr>pf_fs = static_files (show_contract (compiled timer_contract) @ ''\<newline>'')
       (show_activation timer_activation @ ''\<newline>''),
     pf_rx = firmware_device timer_contract 0x0f, pf_open = (\<lambda>path h. (Inr (), h))\<rparr>"

definition check_config :: config where
  "check_config = \<lparr>cfg_device = ''/d'', cfg_rpmsg_device = ''/r'', cfg_sysfs = ''/s'',
     cfg_timeout = 5000000, cfg_command = Check\<rparr>"

definition check_world :: "(unit, nat \<times> u8 list) world" where
  "check_world = \<lparr>w_files = \<lparr>m_hw = (), m_log = []\<rparr>,
     w_client = \<lparr>transport = idle_mirror, next_sequence = 9\<rparr>, w_rpmsg = idle_mirror, w_out = []\<rparr>"

lemma timer_check_runs: "\<exists>w'. run timer_contract check_platform check_config check_world = Some (Inr (), w')"
proof -
  have v: "validate_control_state timer_contract
      \<lparr>cs_contract = compiled timer_contract, cs_activation = timer_activation\<rparr> = Inr ()"
    by (simp add: validate_control_state_iff activation_valid_def timer_activation_def timer_contract_def)
  obtain w1 where w1: "check_state timer_contract check_platform ''/s'' check_world = Some (Inr (), w1)"
    "w_client w1 = \<lparr>transport = idle_mirror, next_sequence = 9\<rparr>"
    using timer_files_read v
    by (auto simp: check_state_def check_platform_def check_world_def on_files_def bind_def give_def
        println_def)
  have "\<exists>w'. check_firmware timer_contract (firmware_device timer_contract 0x0f) 5000000
      (w1\<lparr>w_client := client_new idle_mirror\<rparr>) = Some (Inr (), w')"
    by (rule firmware_device_check [OF timer_contract_ok])
      (simp_all add: EXPECTED_CAPABILITIES_U32_def timer_contract_def client_new_def
        with_sequence_def idle_mirror_def)
  then show ?thesis
    using w1
    by (simp add: run_def check_config_def bind_def [of "check_state _ _ _"])
      (simp add: bind_def on_client_def open_client_def on_transport_def device_open_def
        check_platform_def idle_mirror_def)
qed

section \<open>Properties\<close>

text \<open>C40: every configuration that the argument parser accepts is in range: a timeout of 1 ms to
  60 s, 1 to 1000000 repetitions and payloads of 1 to 496 bytes.\<close>

theorem arguments_in_range:
  assumes "parse_arguments arguments = Inr (Some cfg)"
  shows "1000000 \<le> cfg_timeout cfg \<and> cfg_timeout cfg \<le> 60000000000 \<and> command_ok (cfg_command cfg)"
proof -
  obtain opts where sc: "scan_arguments arguments default_options = Inr (Some opts)"
    using assms by (auto simp: parse_arguments_def split: sum.splits option.splits)
  with assms obtain cmd where
    o: "1 \<le> opt_timeout_ms opts" "opt_timeout_ms opts \<le> MAX_TIMEOUT_MS"
      "parse_command (opt_positional opts) = Inr cmd"
      "cfg_timeout cfg = unat (opt_timeout_ms opts) * 1000000" "cfg_command cfg = cmd"
    by (auto simp: parse_arguments_def split: sum.splits if_splits)
  from o(1,2) have "1 \<le> unat (opt_timeout_ms opts)" "unat (opt_timeout_ms opts) \<le> 60000"
    by (simp_all add: word_le_nat_alt MAX_TIMEOUT_MS_def)
  with o parse_command_ok show ?thesis by auto
qed

theorem arguments_in_range_witness:
  "\<exists>cfg. parse_arguments [''--timeout-ms'', ''250'', ''rpmsg-bench'', ''5'', ''0x10''] = Inr (Some cfg) \<and>
    cfg_timeout cfg = 250000000 \<and> cfg_command cfg = RpmsgBenchmark 5 16 \<and> command_ok (cfg_command cfg)"
proof -
  have "parse_arguments [''--timeout-ms'', ''250'', ''rpmsg-bench'', ''5'', ''0x10''] =
    Inr (Some \<lparr>cfg_device = ''/dev/sg2002-c906l-control'', cfg_rpmsg_device = ''/dev/rpmsg0'',
      cfg_sysfs = ''/sys/class/misc/sg2002-c906l-control/device'',
      cfg_timeout = 250000000, cfg_command = RpmsgBenchmark 5 16\<rparr>)"
    by (simp add: parse_arguments_def default_options_def parse_integer_def strip_prefix_def
        from_str_radix_def to_digit_def byte_classes byte_def parse_command_def get_arg_def
        parse_benchmark_count_def parse_payload_size_def integer_or_def ctl_limits)
  then show ?thesis
    using arguments_in_range [of "[''--timeout-ms'', ''250'', ''rpmsg-bench'', ''5'', ''0x10'']"] by auto
qed

text \<open>C34: the check command is exactly the conversation of its specification. It succeeds and
  prints \<open>result=ok\<close> when, and only when, the two attributes hold the compiled contract and a
  valid activation, the device opens, and its three exchanges, numbered from 1, bring back byte
  for byte the compiled ABI, the compiled capabilities and the ping value; the first exchange
  that brings anything else ends it with a failure, after the lines of the replies so far, and
  nothing more is sent; and it returns whenever the exchanges it makes return.\<close>

theorem check_reports_exactly:
  assumes "contract_ok c" "cfg_command cfg = Check"
  shows "map_option (observed w) (run c pf cfg w) = check_outcome c pf cfg w \<and>
    (\<forall>r w'. run c pf cfg w = Some (r, w') \<longrightarrow> (\<exists>new. w_out w' = w_out w @ new))"
proof -
  let ?t = "transport (w_client w)"
  have run: "run c pf cfg w = bind (check_state c pf (cfg_sysfs cfg)) (\<lambda>_.
      bind (on_client (open_client pf (cfg_device cfg))) (\<lambda>_.
      check_firmware c (pf_rx pf) (cfg_timeout cfg))) w"
    using assms(2) by (simp add: run_def)
  show ?thesis
  proof (cases "\<exists>s m. read_control_state (pf_fs pf) (cfg_sysfs cfg) (w_files w) = Some (Inr s, m) \<and>
      validate_control_state c s = Inr ()")
    case False
    then show ?thesis unfolding run
      by (auto simp: bind_def check_state_run check_outcome_def Let_def observed_def
          validate_control_state_iff split: option.split sum.split)
  next
    case True
    then obtain s m where s: "read_control_state (pf_fs pf) (cfg_sysfs cfg) (w_files w) = Some (Inr s, m)"
      "validate_control_state c s = Inr ()" by blast
    let ?w1 = "w\<lparr>w_files := m, w_out := w_out w @ state_lines s\<rparr>"
    have run1: "run c pf cfg w = bind (on_client (open_client pf (cfg_device cfg))) (\<lambda>_.
      check_firmware c (pf_rx pf) (cfg_timeout cfg)) ?w1"
      unfolding run using s by (simp add: bind_def [of "check_state _ _ _"] check_state_run)
    have valid: "cs_contract s = compiled c" "activation_valid c (cs_activation s)"
      using s(2) by (simp_all add: validate_control_state_iff)
    obtain u h where o: "pf_open pf (cfg_device cfg) (m_hw ?t) = (u, h)"
      by (cases "pf_open pf (cfg_device cfg) (m_hw ?t)")
    show ?thesis
    proof (cases u)
      case (Inl e)
      then show ?thesis using s(1) valid o unfolding run1
        by (simp add: bind_def on_client_def open_client_def on_transport_def device_open_def
            check_outcome_def observed_def)
    next
      case (Inr v)
      let ?w2 = "?w1\<lparr>w_client := client_new (?t\<lparr>m_hw := h\<rparr>)\<rparr>"
      have run2: "run c pf cfg w = check_firmware c (pf_rx pf) (cfg_timeout cfg) ?w2"
        unfolding run1 using o Inr
        by (simp add: bind_def on_client_def open_client_def on_transport_def device_open_def)
      have "follows (pf_rx pf) (cfg_timeout cfg) (check_script c) (firmware_lines c)
          (check_firmware c (pf_rx pf) (cfg_timeout cfg)) ?w2"
        by (rule check_firmware_follows [OF assms(1)]) (simp add: client_new_def with_sequence_def)
      moreover have "transport (w_client ?w2) = ?t\<lparr>m_hw := h\<rparr>" "length (check_script c) = 3"
        by (simp_all add: client_new_def with_sequence_def check_script_def)
      ultimately show ?thesis using s(1) valid o Inr unfolding run2 follows_def
        by (auto simp: check_outcome_def observed_def split: option.splits)
    qed
  qed
qed

theorem check_reports_exactly_witness:
  "\<exists>w'. run timer_contract check_platform check_config check_world = Some (Inr (), w') \<and>
    last (w_out w') = Line ''result=ok'' \<and>
    (\<exists>t. conversation (device_exchange (firmware_device timer_contract 0x0f)) 5000000
      (check_script timer_contract) idle_mirror = Some (3, t))"
proof -
  obtain w' where w': "run timer_contract check_platform check_config check_world = Some (Inr (), w')"
    using timer_check_runs by blast
  have "check_outcome timer_contract check_platform check_config check_world = Some (observed check_world (Inr (), w'))"
    using check_reports_exactly [OF timer_contract_ok, of check_config check_world check_platform] w'
    by (simp add: check_config_def)
  then have "w_out w' = state_lines \<lparr>cs_contract = compiled timer_contract, cs_activation = timer_activation\<rparr> @
      concat (firmware_lines timer_contract) \<and>
    conversation (device_exchange (firmware_device timer_contract 0x0f)) 5000000
      (check_script timer_contract) idle_mirror = Some (3, transport (w_client w'))"
    using timer_files_read
    by (auto simp: check_outcome_def observed_def Let_def check_world_def check_platform_def
        check_config_def firmware_lines_def idle_mirror_def numeral_3_eq_3
        split: option.splits sum.splits if_splits)
  then show ?thesis using w' by (simp add: firmware_lines_def)
qed

end
