(* ===== verification/Spec2Isabelle.thy ===== *)
theory Spec2Isabelle
  imports Timer Rpmsg Shim_Lock Shim_Control Uart I2c Lcd_Service Ctl_Main
begin

text \<open>
  This development verifies the Rust code of the repository: the firmware of the small C906L core
  of the SG2002 (\<open>firmware/sg2002-c906l\<close>, with its peripheral crate \<open>pac\<close>) and the
  Linux control tool (\<open>tools/sg2002-c906l-ctl\<close>), and the C shim under the firmware
  (\<open>pkgs/sg2002/c906l-firmware/rtos-shim.c\<close>).

  \<^bold>\<open>The program.\<close> Linux starts the C906L and shares memory with it. The firmware publishes a
  manifest and a status record, answers eight-byte control messages on a mailbox, and activates
  its peripheral leases (timers, the PicoClaw LCD) only when Linux acknowledges the exact contract
  it was built with. Below it a C shim shares the mailbox registers with Linux under a hardware
  spinlock: an interrupt handler moves requests and virtqueue kicks into FreeRTOS queues, and a
  sender posts responses and notifications. A second task serves RPMsg over two virtio rings, with an echo endpoint and
  the LCD status endpoint. The LCD task takes frames from shared request records, drives the
  ST7789 panel over SPI and GPIO, answers each frame, and switches Wi-Fi power. The control tool
  reads the contract and the activation result from sysfs, talks to the control task through the
  kernel driver and to the echo endpoint through \<open>rpmsg_char\<close>, and checks that everything
  agrees with the contract compiled into it.

  \<^bold>\<open>Parameters.\<close> The module generated from the contract is the record \<open>contract\<close>; the
  hypotheses \<open>contract_ok\<close> and \<open>lcd_contract_ok\<close> state what the contract compiler checks, and
  hold for the shipped contracts defined beside them. Hardware registers, FreeRTOS,
  Linux's writes to shared memory, the file system, \<open>rustix\<close> and the clock are arbitrary
  functions on an arbitrary state. The Rust theories take the functions of the C shim as such
  parameters too; \<open>Shim_Control\<close> puts the modelled shim in their place. Every interaction is logged, so the properties speak about
  the order of what the code did. A Rust panic or a loop that never ends is \<open>None\<close>; \<open>Err\<close> is
  \<open>Inl\<close>. Machine integers are words of their width.

  \<^bold>\<open>Theories.\<close> In the order in which they build on each other:
  \<^item> \<open>Prelude\<close>: word operations of the Rust core library, little-endian bytes, programs with
    their weakest preconditions, logged machines, the interface \<open>codec\<close>.
  \<^item> \<open>Contract\<close>: the generated records and constants. \<open>Message\<close>: mailbox words, ordinary
    responses, tick arithmetic (\<open>lib.rs\<close>); interpretation \<open>message_word\<close> of \<open>codec\<close>.
  \<^item> \<open>Activation\<close> (\<open>activation.rs\<close>): validation, double read, rejection and lease activation.
    The lemmas show that it fails closed, that leases come up at most once, that the settled
    states are final and that error codes arrive unchanged.
  \<^item> \<open>Manifest\<close> (\<open>activation.rs\<close>, \<open>lib.rs\<close>): the publication protocol on a non-coherent
    memory; whatever the cache evicts, Linux sees no half-written committed manifest.
  \<^item> \<open>Control\<close> (\<open>lib.rs\<close>): boot, panic handler, the control task and its reachable states.
  \<^item> \<open>Timer\<close> (\<open>dw_apb_timer.rs\<close>, \<open>pac/timer.rs\<close>): the timer self-test as a fixed course of
    register accesses confined to its channel, the interrupt handler, and the leases on them.
  \<^item> \<open>Rpmsg\<close> (\<open>rpmsg.rs\<close>): rings, descriptors, notifications and dispatch against an
    arbitrary Linux side: confined writes, exact echoes, no lost wake-up.
  \<^item> \<open>Shim\<close> (\<open>rtos-shim.c\<close>): the spinlock, the mailbox interrupt, the sender, the timer glue and the
    platform start over arbitrary registers and an arbitrary FreeRTOS; what the interrupt accounts
    for and what the sender posts. \<open>Shim_Lock\<close>: the locking discipline and the exclusion of Linux.
    \<open>Shim_Control\<close>: the interface \<open>control_port\<close> of the control task, its interpretation
    \<open>shim_port\<close> on the shim, and the one-to-one correspondence of requests and responses.
  \<^item> \<open>Pac\<close>, \<open>Gpio\<close>, \<open>Uart\<close>, \<open>I2c\<close>, \<open>Spi\<close> (\<open>pac/src\<close>): register access and the four
    drivers, with exact transfers, bounded polling, clean-up on every path, and the refinement of
    an output group by independent lines.
  \<^item> \<open>Lcd_Engine\<close> and \<open>Lcd_Panel\<close> (\<open>lcd.rs\<close>): the display engine over the interface
    \<open>lcd_bus\<close>, what it transmits, that every job ends, and the refinement of the bus by the SPI
    and GPIO drivers. \<open>Wifi_Power\<close> (\<open>wifi_power.rs\<close>): the power command.
    \<open>Lcd_Service\<close> (\<open>lcd_service.rs\<close>): the frame hand-over, its monitor and its answers.
  \<^item> \<open>Std_Text\<close>: numbers, splitting and UTF-8 of the standard library. \<open>Ctl_Sysfs\<close>,
    \<open>Ctl_Device\<close>, \<open>Ctl_Client\<close> (\<open>ctl/src/lib.rs\<close>): the strict attribute parsers and their
    printers, stable reads and validation; the deadline loops of the device exchange and of the
    echo; the byte codec (a second interpretation of \<open>codec\<close>), percentiles and the client over
    the interface \<open>message_transport\<close>, which the control device interprets.
    \<open>Ctl_Main\<close> (\<open>ctl/src/main.rs\<close>): the command line and \<open>run\<close>.
  \<^item> This theory: the client of the tool on a link to the control task of the firmware, a second
    interpretation of \<open>message_transport\<close>.

  \<^bold>\<open>Bounds.\<close> The polling loops of the drivers recurse on the poll budgets of the source; the
  lock attempts and the send rounds of the shim recurse on the limits of the contract and of the
  callers. The engine's loop is bounded by the 32 operations of the code; \<open>lcd_job_completes\<close> shows that 451
  task steps are enough for any job. Task loops are folds over the turns they make or reachability relations, so a
  statement about any number of turns covers the infinite loop. The tool's wait loops have no bound in the
  source and are partial functions; \<open>exchange_returns\<close> shows that they return on a kernel whose
  polls take time and whose clock, however coarse, follows that time as far as the deadline.

  \<^bold>\<open>Not modelled.\<close> The static library wrapper (seven lines that re-export the crate), the contract
  compiler (Python and Nix; its output is a parameter), the Linux drivers, FreeRTOS and the vendor's
  interrupt controller (they are the arbitrary environment; the queues are not assumed to be fair or
  first in, first out), the text of \<open>Debug\<close> and errno formatting and of floating-point
  microseconds, and the usage text. The fences of the timer driver and the \<open>debug_assert\<close>s on the
  alignment of ring accesses, which the release profile compiles out, are not events of the model;
  the volatile write of the manifest body is one store, made while its commit word is 0. The tool
  runs on a 64-bit host, so the conversions of a count and of a payload size to \<open>usize\<close> cannot
  fail. The behaviour of the hardware spinlock (\<open>semaphore\<close>) is an assumption, taken from the comment
  in the shim. The link used in this theory is the successful hand-over
  of one message; the kernel driver between the tool and the mailbox is C code outside the
  implementation.
\<close>

section \<open>The control tool meets the firmware\<close>

text \<open>
  The client of the control tool on a link that hands its eight bytes to the firmware's
  \<open>answer\<close> (the body of the control task between receiving a mailbox word and sending the
  response) and brings the response word back, both little-endian.
\<close>

definition firmware_link :: "contract \<Rightarrow> 'h task_env \<Rightarrow> 'h control message_exchange" where
  "firmware_link c env rq timeout = (\<lambda>s. case answer c env (from_le rq) s of None \<Rightarrow> None
     | Some (word, s') \<Rightarrow> Some (Inr (to_le 8 word), s'))"

interpretation link: message_transport "firmware_link c env" for c env
  by unfold_locales (auto simp: firmware_link_def split: option.splits)

lemma link_ordinary:
  assumes "service m = SERVICE_CONTROL c" "opcode m \<noteq> OP_ACTIVATE_LEASES c"
  shows "firmware_link c env (encode_message m) timeout s =
    Some (Inr (encode_message (ordinary_response c m (st_capabilities (ctl_status s)))),
      upd_status (\<lambda>st. st\<lparr>st_last_request := encode m\<rparr>) s)"
proof -
  have "from_le (encode_message m) = encode m"
    unfolding encode_message_word by (rule from_to_le) simp
  then show ?thesis
    using assms by (simp add: firmware_link_def answer_def Let_def decode_encode encode_message_word
        upd_status_def)
qed

lemma link_request:
  assumes "code \<noteq> OP_ACTIVATE_LEASES c"
  shows "\<exists>s'. Ctl_Client.request c (firmware_link c env) code v timeout cl =
      Some (check_response c (next_sequence cl) code (ordinary_response c
        \<lparr>service = SERVICE_CONTROL c, opcode = code, sequence = next_sequence cl, msg_value = v\<rparr>
        (st_capabilities (ctl_status (transport cl)))),
       \<lparr>transport = s', next_sequence = next_sequence cl + 1\<rparr>) \<and>
    st_capabilities (ctl_status s') = st_capabilities (ctl_status (transport cl))"
  using assms
  by (cases cl) (simp add: Ctl_Client.request_def take_sequence_def on_transport_def bind_def give_def link_ordinary
      decode_encode_message upd_status_def)

section \<open>Properties\<close>

text \<open>C33: on a link to the firmware the client and the firmware understand each other: a ping
  returns its value, the ABI query returns the compiled ABI version, the capability query
  returns the low half of the capabilities in the firmware's status, each with one new sequence
  number, and a request that the firmware does not know is reported as refused.\<close>

theorem client_meets_firmware:
  fixes cl :: "'h control client"
  assumes "contract_ok c"
  shows "(\<exists>cl'. client_ping c (firmware_link c env) v timeout cl = Some (Inr v, cl') \<and>
      next_sequence cl' = next_sequence cl + 1) \<and>
    (\<exists>cl'. client_abi c (firmware_link c env) timeout cl =
        Some (Inr \<lparr>av_major = ABI_MAJOR c, av_minor = ABI_MINOR c\<rparr>, cl') \<and>
      next_sequence cl' = next_sequence cl + 1) \<and>
    (\<exists>cl'. client_capabilities c (firmware_link c env) timeout cl =
        Some (Inr (ucast (st_capabilities (ctl_status (transport cl)))), cl') \<and>
      next_sequence cl' = next_sequence cl + 1) \<and>
    (code \<notin> set (opcodes c) \<longrightarrow>
      (\<exists>cl'. Ctl_Client.request c (firmware_link c env) code v timeout cl =
        Some (Inl (RemoteError (next_sequence cl) 0), cl')))"
proof -
  note o = contract_ok_opcodes [OF assms]
  have p: "OP_PING c \<noteq> OP_ACTIVATE_LEASES c" and a: "OP_GET_ABI c \<noteq> OP_ACTIVATE_LEASES c"
    and k: "OP_GET_CAPABILITIES c \<noteq> OP_ACTIVATE_LEASES c"
    using o by (auto simp: opcodes_def)
  have 1: "\<exists>cl'. client_ping c (firmware_link c env) v timeout cl = Some (Inr v, cl') \<and>
      next_sequence cl' = next_sequence cl + 1"
    using link_request [OF p, of env v timeout cl] o
    by (auto simp: client_ping_def bind_def ok_def check_response_def ordinary_response_def opcodes_def)
  have 2: "\<exists>cl'. client_abi c (firmware_link c env) timeout cl =
        Some (Inr \<lparr>av_major = ABI_MAJOR c, av_minor = ABI_MINOR c\<rparr>, cl') \<and>
      next_sequence cl' = next_sequence cl + 1"
    using link_request [OF a, of env 0 timeout cl] o
    by (auto simp: client_abi_def bind_def ok_def check_response_def ordinary_response_def opcodes_def
        ABI_VERSION_parts)
  have 3: "\<exists>cl'. client_capabilities c (firmware_link c env) timeout cl =
        Some (Inr (ucast (st_capabilities (ctl_status (transport cl)))), cl') \<and>
      next_sequence cl' = next_sequence cl + 1"
    using link_request [OF k, of env 0 timeout cl] o
    by (auto simp: client_capabilities_def bind_def ok_def check_response_def ordinary_response_def
        opcodes_def)
  have 4: "\<exists>cl'. Ctl_Client.request c (firmware_link c env) code v timeout cl =
        Some (Inl (RemoteError (next_sequence cl) 0), cl')" if "code \<notin> set (opcodes c)"
    using link_request [of code c env v timeout cl] that
    by (auto simp: check_response_def ordinary_response_def error_response_def opcodes_def)
  from 1 2 3 4 show ?thesis by blast
qed

theorem client_meets_firmware_witness:
  "\<exists>cl'. client_ping timer_contract (firmware_link timer_contract (echo_env True 0)) 5 9
    (client_new \<lparr>ctl_status = start_status timer_contract (zero_status timer_contract),
      ctl_accepted = None, ctl_hw = 0, ctl_log = []\<rparr>) = Some (Inr 5, cl') \<and> next_sequence cl' = 2"
proof -
  let ?cl = "client_new \<lparr>ctl_status = start_status timer_contract (zero_status timer_contract),
      ctl_accepted = None, ctl_hw = 0, ctl_log = []\<rparr> :: nat control client"
  have "\<exists>cl'. client_ping timer_contract (firmware_link timer_contract (echo_env True 0)) 5 9 ?cl =
      Some (Inr 5, cl') \<and> next_sequence cl' = next_sequence ?cl + 1"
    using client_meets_firmware [OF timer_contract_ok, where cl = ?cl] by blast
  then show ?thesis by (simp add: client_new_def with_sequence_def)
qed

end
